(* ===== verification/Prelude.thy ===== *)
theory Prelude
  imports Main "HOL-Library.AList" "HOL-Library.Word" "HOL-Library.Sublist"
begin

text \<open>
  The shared vocabulary of the development: identifiers of \<^verbatim>\<open>src/domains/ids/Ids.h\<close>, the
  list model of \<^verbatim>\<open>std::unordered_map\<close> and \<^verbatim>\<open>std::unordered_set\<close>, and the generic lemmas on them that
  the component theories use.

  An \<^verbatim>\<open>unordered_map\<close> is an association list with distinct keys: \<^const>\<open>map_of\<close> is \<^verbatim>\<open>find\<close>,
  \<^const>\<open>AList.update\<close> is \<^verbatim>\<open>insert_or_assign\<close> (and \<^verbatim>\<open>m[k] = v\<close>), \<^const>\<open>AList.delete\<close> is \<^verbatim>\<open>erase(key)\<close>.
  The list order stands for the (unspecified) iteration order of the container; statements that
  depend on an iteration speak of sets or multisets of its result, or hold for every order.
\<close>

section \<open>Collections of the development\<close>

named_theorems umap_simps \<open>rewrite rules of the container operations\<close>
named_theorems inv_intros \<open>preservation of component invariants\<close>

section \<open>Identifiers\<close>

type_synonym HubId = string
type_synonym ChannelId = string
type_synonym UserId = string
type_synonym MessageId = string
type_synonym ConnId = string
type_synonym NetStackId = string
type_synonym SessionId = "64 word"

text \<open>A connection is named by its network stack and the identifier the stack gave it.\<close>

datatype GlobalConnId = GlobalConnId (netstack_id: NetStackId) (conn_id: ConnId)

text \<open>Clock readings; the unit is stated where a component compares them with a duration.\<close>

type_synonym time = int

section \<open>Associative containers\<close>

type_synonym ('k, 'v) umap = "('k \<times> 'v) list"

definition umap_ok :: "('k, 'v) umap \<Rightarrow> bool" where
  "umap_ok m = distinct (map fst m)"

text \<open>\<^verbatim>\<open>emplace\<close> / \<^verbatim>\<open>insert\<close>: keeps the entry that is there.\<close>

definition emplace :: "'k \<Rightarrow> 'v \<Rightarrow> ('k, 'v) umap \<Rightarrow> ('k, 'v) umap" where
  "emplace k v m = (case map_of m k of None \<Rightarrow> AList.update k v m | Some _ \<Rightarrow> m)"

text \<open>The value \<^verbatim>\<open>m[k]\<close> reads when an absent key is default-constructed.\<close>

definition lookup_or :: "'v \<Rightarrow> 'k \<Rightarrow> ('k, 'v) umap \<Rightarrow> 'v" where
  "lookup_or d k m = (case map_of m k of Some v \<Rightarrow> v | None \<Rightarrow> d)"

text \<open>\<^verbatim>\<open>unordered_set::insert\<close> and \<^verbatim>\<open>erase\<close> on a list without repetitions.\<close>

definition set_insert :: "'a \<Rightarrow> 'a list \<Rightarrow> 'a list" where
  "set_insert x xs = (if x \<in> set xs then xs else xs @ [x])"

lemma umap_ok_Nil [simp, inv_intros]: "umap_ok []"
  by (simp add: umap_ok_def)

lemma umap_ok_update [simp, inv_intros]: "umap_ok m \<Longrightarrow> umap_ok (AList.update k v m)"
  by (simp add: umap_ok_def distinct_update)

lemma umap_ok_delete [simp, inv_intros]: "umap_ok m \<Longrightarrow> umap_ok (AList.delete k m)"
  by (simp add: umap_ok_def distinct_delete)

lemma umap_ok_emplace [simp, inv_intros]: "umap_ok m \<Longrightarrow> umap_ok (emplace k v m)"
  by (simp add: emplace_def split: option.split)

lemma map_of_update [simp, umap_simps]: "map_of (AList.update k v m) = (map_of m)(k \<mapsto> v)"
  by (rule update_conv')

lemma map_of_delete [simp, umap_simps]: "map_of (AList.delete k m) = (map_of m)(k := None)"
  by (rule delete_conv')

lemma delete_absent: "map_of m k = None \<Longrightarrow> AList.delete k m = m"
  by (induction m) (auto split: if_split_asm)

lemma update_present: "map_of m k = Some v \<Longrightarrow> AList.update k v m = m"
  by (induction m) (auto split: if_split_asm)

lemma map_of_emplace [umap_simps]:
  "map_of (emplace k v m) = (if map_of m k = None then (map_of m)(k \<mapsto> v) else map_of m)"
  by (auto simp: emplace_def split: option.split)

lemma umap_mem: "umap_ok m \<Longrightarrow> (k, v) \<in> set m \<longleftrightarrow> map_of m k = Some v"
  by (simp add: umap_ok_def)

lemma lookup_or_Some [simp]: "map_of m k = Some v \<Longrightarrow> lookup_or d k m = v"
  by (simp add: lookup_or_def)

lemma lookup_or_None [simp]: "map_of m k = None \<Longrightarrow> lookup_or d k m = d"
  by (simp add: lookup_or_def)

lemma set_set_insert [simp, umap_simps]: "set (set_insert x xs) = insert x (set xs)"
  by (auto simp: set_insert_def)

lemma distinct_set_insert [simp, inv_intros]: "distinct xs \<Longrightarrow> distinct (set_insert x xs)"
  by (auto simp: set_insert_def)

lemma set_insert_not_Nil [simp]: "set_insert x xs \<noteq> []"
  by (auto simp: set_insert_def)

section \<open>Numerals\<close>

text \<open>\<^verbatim>\<open>std::to_string\<close> of an unsigned integer.\<close>

fun to_string :: "nat \<Rightarrow> string" where
  "to_string n = (if n < 10 then [char_of (48 + n)]
                  else to_string (n div 10) @ [char_of (48 + n mod 10)])"

declare to_string.simps [simp del]

lemma to_string_not_Nil [simp]: "to_string n \<noteq> []" "[] \<noteq> to_string n"
  by (subst to_string.simps, simp)+

lemma to_string_inj: "to_string a = to_string b \<Longrightarrow> a = b"
proof (induction a arbitrary: b rule: to_string.induct)
  case (1 a)
  have dig: "x = y" if "char_of (48 + x) = (char_of (48 + y) :: char)" "x < 10" "y < 10" for x y :: nat
  proof -
    have "of_char (char_of (48 + x) :: char) = (of_char (char_of (48 + y) :: char) :: nat)"
      using that(1) by simp
    then show ?thesis using that(2,3) by (simp add: of_char_of)
  qed
  show ?case
  proof (cases "a < 10")
    case True
    then have sa: "to_string a = [char_of (48 + a)]" by (simp add: to_string.simps)
    then have "b < 10" using 1(2) to_string.simps[of b] by (auto split: if_split_asm)
    then show ?thesis using 1(2) sa True dig[of a b] by (simp add: to_string.simps[of b])
  next
    case False
    then have sa: "to_string a = to_string (a div 10) @ [char_of (48 + a mod 10)]"
      by (simp add: to_string.simps)
    then have nb: "\<not> b < 10"
      using 1(2) to_string.simps[of b] by (auto split: if_split_asm)
    then have "to_string (a div 10) = to_string (b div 10)"
      and d: "char_of (48 + a mod 10) = (char_of (48 + b mod 10) :: char)"
      using 1(2) sa to_string.simps[of b] by auto
    with 1(1)[OF False] dig[OF d] have "a div 10 = b div 10" "a mod 10 = b mod 10" by auto
    then show ?thesis by (metis div_mult_mod_eq)
  qed
qed

section \<open>Counting entries\<close>

text \<open>The number of entries of a container whose value satisfies a predicate, and how the
  container operations change it.\<close>

definition count_vals :: "('v \<Rightarrow> bool) \<Rightarrow> ('k, 'v) umap \<Rightarrow> nat" where
  "count_vals P m = length (filter (P \<circ> snd) m)"

lemma count_vals_Nil [simp]: "count_vals P [] = 0"
  by (simp add: count_vals_def)

lemma count_vals_Cons [simp]:
  "count_vals P ((k, v) # m) = (if P v then 1 else 0) + count_vals P m"
  by (simp add: count_vals_def)

lemma count_vals_update_None:
  "map_of m k = None \<Longrightarrow> count_vals P (AList.update k v m) = count_vals P m + (if P v then 1 else 0)"
  by (induction m) (auto split: if_splits)

lemma count_vals_update_Some:
  "map_of m k = Some w \<Longrightarrow>
   count_vals P (AList.update k v m) + (if P w then 1 else 0) = count_vals P m + (if P v then 1 else 0)"
  by (induction m) (auto split: if_splits)

lemma count_vals_delete_None: "map_of m k = None \<Longrightarrow> count_vals P (AList.delete k m) = count_vals P m"
  by (induction m) (auto split: if_splits)

lemma count_vals_delete_Some:
  "\<lbrakk> umap_ok m; map_of m k = Some w \<rbrakk> \<Longrightarrow>
   count_vals P (AList.delete k m) + (if P w then 1 else 0) = count_vals P m"
proof (induction m)
  case (Cons e m)
  obtain a b where e: "e = (a, b)" by force
  show ?case
  proof (cases "a = k")
    case True
    then have "map_of m k = None"
      using Cons.prems e by (auto simp: umap_ok_def map_of_eq_None_iff)
    with True Cons.prems e show ?thesis by (simp add: count_vals_delete_None)
  next
    case False
    with Cons e show ?thesis by (auto simp: umap_ok_def)
  qed
qed simp

lemma count_vals_pos: "map_of m k = Some v \<Longrightarrow> P v \<Longrightarrow> 0 < count_vals P m"
  by (induction m) (auto split: if_splits)

end
