(* ===== verification/Strings.thy ===== *)
theory Strings
  imports Prelude
begin

text \<open>
  The C and C++ library functions on strings that the sources use: the character classes of the C locale,
  \<^verbatim>\<open>std::string::find\<close>, and the conversions \<^verbatim>\<open>std::stoi\<close>, \<^verbatim>\<open>std::stoll\<close> and \<^verbatim>\<open>std::stoull\<close>, whose
  exceptions are \<^const>\<open>None\<close>. The conversions are inverse to \<^const>\<open>to_string\<close>, which the stores that keep
  numbers as text rely on.
\<close>

section \<open>Characters\<close>

definition is_space :: "char \<Rightarrow> bool" where
  "is_space c = (let n = of_char c :: nat in n = 32 \<or> (9 \<le> n \<and> n \<le> 13))"

definition is_digit :: "char \<Rightarrow> bool" where
  "is_digit c = (let n = of_char c :: nat in 48 \<le> n \<and> n \<le> 57)"

definition to_lower :: "char \<Rightarrow> char" where
  "to_lower c = (let n = of_char c :: nat in if 65 \<le> n \<and> n \<le> 90 then char_of (n + 32) else c)"

section \<open>Search\<close>

text \<open>\<^verbatim>\<open>std::string::find\<close> for a character and for a substring, and \<^verbatim>\<open>rfind\<close>.\<close>

fun find_char :: "char \<Rightarrow> string \<Rightarrow> nat option" where
  "find_char c [] = None"
| "find_char c (x # xs) = (if x = c then Some 0 else map_option Suc (find_char c xs))"

definition rfind_char :: "char \<Rightarrow> string \<Rightarrow> nat option" where
  "rfind_char c s = map_option (\<lambda>i. length s - 1 - i) (find_char c (rev s))"

fun find_sub :: "string \<Rightarrow> string \<Rightarrow> nat option" where
  "find_sub p [] = (if p = [] then Some 0 else None)"
| "find_sub p (x # xs) = (if prefix p (x # xs) then Some 0 else map_option Suc (find_sub p xs))"

section \<open>Numbers\<close>

definition digits_value :: "string \<Rightarrow> nat" where
  "digits_value s = foldl (\<lambda>n c. 10 * n + (of_char c - 48)) 0 s"

text \<open>\<^verbatim>\<open>strtoll\<close> and its relatives skip white space, read an optional sign and the longest run of digits,
  and ignore what follows; without a digit the conversion throws.\<close>

definition scan_sign :: "string \<Rightarrow> bool \<times> string" where
  "scan_sign s = (case s of c # r \<Rightarrow> if c = CHR ''-'' then (True, r) else if c = CHR ''+'' then (False, r) else (False, s)
                          | [] \<Rightarrow> (False, s))"

definition scan_number :: "string \<Rightarrow> (bool \<times> nat) option" where
  "scan_number s =
     (case scan_sign (dropWhile is_space s) of
        (neg, r) \<Rightarrow> (let ds = takeWhile is_digit r in if ds = [] then None else Some (neg, digits_value ds)))"

definition signed_value :: "bool \<times> nat \<Rightarrow> int" where
  "signed_value p = (if fst p then - int (snd p) else int (snd p))"

definition stoi :: "string \<Rightarrow> int option" where
  "stoi s = (case scan_number s of None \<Rightarrow> None
     | Some p \<Rightarrow> if - (2 ^ 31) \<le> signed_value p \<and> signed_value p < 2 ^ 31 then Some (signed_value p) else None)"

definition stoll :: "string \<Rightarrow> int option" where
  "stoll s = (case scan_number s of None \<Rightarrow> None
     | Some p \<Rightarrow> if - (2 ^ 63) \<le> signed_value p \<and> signed_value p < 2 ^ 63 then Some (signed_value p) else None)"

text \<open>The unsigned conversions negate modulo \<open>2^64\<close> after a minus sign.\<close>

definition stoull :: "string \<Rightarrow> 64 word option" where
  "stoull s = (case scan_number s of None \<Rightarrow> None
     | Some (neg, n) \<Rightarrow> if n < 2 ^ 64 then Some (if neg then - of_nat n else of_nat n) else None)"

lemma is_digit_char_of: "d < 10 \<Longrightarrow> is_digit (char_of (48 + d :: nat))"
  by (simp add: is_digit_def of_char_of Let_def)

lemma digits_value_snoc: "digits_value (s @ [c]) = 10 * digits_value s + (of_char c - 48)"
  by (simp add: digits_value_def)

lemma to_string_digits: "list_all is_digit (to_string n)"
proof (induction n rule: to_string.induct)
  case (1 n)
  show ?case
  proof (cases "n < 10")
    case True
    then show ?thesis using is_digit_char_of[of n] by (simp add: to_string.simps[of n])
  next
    case False
    then show ?thesis using 1 is_digit_char_of[of "n mod 10"] by (simp add: to_string.simps[of n])
  qed
qed

lemma digits_value_to_string [simp]: "digits_value (to_string n) = n"
proof (induction n rule: to_string.induct)
  case (1 n)
  have c: "of_char (char_of (48 + d :: nat) :: char) = 48 + d" if "d < 10" for d :: nat
    using that by (simp add: of_char_of)
  show ?case
  proof (cases "n < 10")
    case True
    then show ?thesis using c[of n] by (simp add: to_string.simps[of n] digits_value_def)
  next
    case False
    then show ?thesis using 1 c[of "n mod 10"]
      by (simp add: to_string.simps[of n] digits_value_snoc)
  qed
qed

lemma is_digit_not_space: "is_digit c \<Longrightarrow> \<not> is_space c \<and> c \<noteq> CHR ''-'' \<and> c \<noteq> CHR ''+''"
  by (auto simp: is_digit_def is_space_def Let_def)

lemma scan_number_digits:
  assumes "list_all is_digit s" "s \<noteq> []"
  shows "scan_number s = Some (False, digits_value s)"
proof -
  obtain c r where s: "s = c # r" using assms(2) by (cases s) auto
  then have d: "is_digit c" using assms(1) by simp
  have "dropWhile is_space s = s" using is_digit_not_space[OF d] s by simp
  moreover have "scan_sign s = (False, s)" using is_digit_not_space[OF d] s by (simp add: scan_sign_def)
  moreover have "takeWhile is_digit s = s" using assms(1) by (simp add: takeWhile_eq_all_conv list_all_iff)
  ultimately show ?thesis using assms(2) unfolding scan_number_def by (simp only: prod.case Let_def if_False)
qed

lemma scan_number_to_string [simp]: "scan_number (to_string n) = Some (False, n)"
  using scan_number_digits[OF to_string_digits, of n] by simp

lemma stoull_to_string: "stoull (to_string (unat w)) = Some w"
proof -
  have "unat w < 2 ^ 64" using unsigned_less[of w] by simp
  then show ?thesis by (simp add: stoull_def)
qed

section \<open>Durations from the environment\<close>

text \<open>\<^verbatim>\<open>parse_positive_seconds\<close> of the voice services: a positive number of seconds, or the fallback.\<close>

definition parse_positive_seconds :: "string \<Rightarrow> int \<Rightarrow> int" where
  "parse_positive_seconds raw fallback =
     (if raw = [] then fallback
      else case stoll raw of
             None \<Rightarrow> fallback
           | Some parsed \<Rightarrow> if parsed \<le> 0 then fallback else parsed)"

lemma parse_positive_seconds_pos: "fallback > 0 \<Longrightarrow> parse_positive_seconds raw fallback > 0"
  by (simp add: parse_positive_seconds_def split: option.split)

end
