(* ===== verification/Queues.thy ===== *)
theory Queues
  imports Prelude
begin

text \<open>
  The two bounded queues between the network and the application: \<^verbatim>\<open>EventQueue\<close>
  (\<^verbatim>\<open>src/app/queue/EventQueue.h\<close>, inbound events) and \<^verbatim>\<open>OutgoingQueue\<close>
  (\<^verbatim>\<open>src/net/outbound/OutgoingQueue.h\<close>, outbound messages), with the data they carry. Each method runs
  under the queue's mutex, so a run of the system is a sequence of whole method calls.

  Both queues keep the contract of the locale \<^verbatim>\<open>two_level_queue\<close>: high-priority entries come
  out first and in order, and are never given up once accepted. The locale's lemmas on runs are proved
  once and interpreted for the two models.
\<close>

section \<open>Envelopes\<close>

text \<open>\<^verbatim>\<open>Envelope.Type\<close>; proto3 enumerations are open, so an unlisted wire value is kept.\<close>

datatype EnvelopeType =
    UNKNOWN | CommandError | PING | PONG | ACK
  | AUTH | AUTH_OK | REQUEST_STATE_SYNC | STATE_SYNC | STATE_DELTA | RT_SIGNAL
  | TYPING | ACTIVE_CHANNEL | VOICE_JOIN | VOICE_KICK_PARTICIPANT | VOICE_ACTIVITY
  | VOICE_TOKEN_ISSUED | VOICE_SELF_STATUS | VOICE_SELF_REVOKED | VOICE_KEY_UPDATE
  | MESSAGE_SEND | MESSAGE_FETCH_BEFORE
  | HUB_CREATE | HUB_JOIN | HUB_CREATE_JOIN_CODE | HUB_LEAVE | HUB_REMOVE | HUB_MEMBER_KICK
  | HUB_UPDATE | HUB_MEMBER_ROLE_UPDATE | HUB_INVITE_VALIDATE
  | USER_UPDATE | CHANNEL_CREATE | CHANNEL_UPDATE | CHANNEL_REMOVE
  | UNLISTED int

record Envelope =
  env_version :: "32 word"
  env_type :: EnvelopeType
  env_seq :: "64 word"
  env_payload :: string

section \<open>Inbound events\<close>

datatype EventPriority = PrioHigh | PrioLow

datatype PushResult = PushOk | DroppedLow | DroppedHigh

datatype Event =
    ConnectionEvent GlobalConnId UserId
  | DisconnectionEvent GlobalConnId int string
  | MessageEvent GlobalConnId Envelope

fun classify_event :: "Event \<Rightarrow> EventPriority" where
  "classify_event (MessageEvent c env) =
     (case env_type env of
        TYPING \<Rightarrow> PrioLow
      | VOICE_ACTIVITY \<Rightarrow> PrioLow
      | VOICE_JOIN \<Rightarrow> PrioHigh
      | _ \<Rightarrow> PrioHigh)"
| "classify_event (ConnectionEvent c u) = PrioHigh"
| "classify_event (DisconnectionEvent c code reason) = PrioHigh"

section \<open>\<^verbatim>\<open>EventQueue\<close>\<close>

text \<open>The deques, the cached size and the stop flag, with the process-wide drop counters the queue
  bumps.\<close>

record event_queue =
  eq_high :: "Event list"
  eq_low :: "Event list"
  eq_capacity :: nat
  eq_size :: nat
  eq_stopped :: bool
  dropped_inbound_total :: nat
  dropped_inbound_low_overflow :: nat
  dropped_inbound_high_overflow :: nat
  evicted_inbound_low_for_high :: nat
  event_queue_highwater :: nat

definition eq_new :: "nat \<Rightarrow> event_queue" where
  "eq_new capacity = \<lparr> eq_high = [], eq_low = [], eq_capacity = capacity, eq_size = 0,
     eq_stopped = False, dropped_inbound_total = 0, dropped_inbound_low_overflow = 0,
     dropped_inbound_high_overflow = 0, evicted_inbound_low_for_high = 0,
     event_queue_highwater = 0 \<rparr>"

definition record_drop_low_overflow :: "event_queue \<Rightarrow> event_queue" where
  "record_drop_low_overflow q = q\<lparr> dropped_inbound_total := dropped_inbound_total q + 1,
     dropped_inbound_low_overflow := dropped_inbound_low_overflow q + 1 \<rparr>"

definition record_drop_high_overflow :: "event_queue \<Rightarrow> event_queue" where
  "record_drop_high_overflow q = q\<lparr> dropped_inbound_total := dropped_inbound_total q + 1,
     dropped_inbound_high_overflow := dropped_inbound_high_overflow q + 1 \<rparr>"

definition record_evict_low_for_high :: "event_queue \<Rightarrow> event_queue" where
  "record_evict_low_for_high q = q\<lparr> dropped_inbound_total := dropped_inbound_total q + 1,
     evicted_inbound_low_for_high := evicted_inbound_low_for_high q + 1 \<rparr>"

text \<open>The tail of \<^verbatim>\<open>push_impl\<close>, reached when the event is accepted.\<close>

definition eq_append :: "Event \<Rightarrow> event_queue \<Rightarrow> event_queue" where
  "eq_append event q =
     (let q = (if classify_event event = PrioLow then q\<lparr> eq_low := eq_low q @ [event] \<rparr>
               else q\<lparr> eq_high := eq_high q @ [event] \<rparr>);
          q = q\<lparr> eq_size := eq_size q + 1 \<rparr>
      in q\<lparr> event_queue_highwater := max (event_queue_highwater q) (eq_size q) \<rparr>)"

definition eq_push :: "Event \<Rightarrow> event_queue \<Rightarrow> event_queue \<times> PushResult" where
  "eq_push event q =
     (if eq_capacity q > 0 \<and> eq_size q \<ge> eq_capacity q then
        if classify_event event = PrioLow then (record_drop_low_overflow q, DroppedLow)
        else if eq_low q \<noteq> [] then
          (eq_append event (record_evict_low_for_high
             (q\<lparr> eq_low := butlast (eq_low q), eq_size := eq_size q - 1 \<rparr>)), PushOk)
        else (record_drop_high_overflow q, DroppedHigh)
      else (eq_append event q, PushOk))"

text \<open>\<^verbatim>\<open>pop_front_locked\<close>; the caller ensures \<^verbatim>\<open>size_ > 0\<close>.\<close>

definition pop_front_locked :: "event_queue \<Rightarrow> Event \<times> event_queue" where
  "pop_front_locked q =
     (if eq_high q \<noteq> [] then
        (hd (eq_high q), q\<lparr> eq_high := tl (eq_high q), eq_size := eq_size q - 1 \<rparr>)
      else (hd (eq_low q), q\<lparr> eq_low := tl (eq_low q), eq_size := eq_size q - 1 \<rparr>))"

definition eq_try_pop :: "event_queue \<Rightarrow> (Event \<times> event_queue) option" where
  "eq_try_pop q = (if eq_size q = 0 then None else Some (pop_front_locked q))"

text \<open>\<^verbatim>\<open>wait_pop\<close> parks on the condition variable while there is nothing to do; \<^verbatim>\<open>Parked\<close> is
  that outcome of one evaluation of the wait predicate.\<close>

datatype wait_result = Parked | Drained | Popped Event event_queue

definition eq_wait_pop :: "event_queue \<Rightarrow> wait_result" where
  "eq_wait_pop q =
     (if \<not> (eq_size q > 0 \<or> eq_stopped q) then Parked
      else if eq_size q = 0 then Drained
      else (case pop_front_locked q of (e, q') \<Rightarrow> Popped e q'))"

definition eq_stop :: "event_queue \<Rightarrow> event_queue" where
  "eq_stop q = q\<lparr> eq_stopped := True \<rparr>"

definition eq_wf :: "event_queue \<Rightarrow> bool" where
  "eq_wf q \<longleftrightarrow> eq_size q = length (eq_high q) + length (eq_low q)
     \<and> (\<forall>e\<in>set (eq_high q). classify_event e = PrioHigh)
     \<and> (\<forall>e\<in>set (eq_low q). classify_event e = PrioLow)
     \<and> (eq_capacity q > 0 \<longrightarrow> eq_size q \<le> eq_capacity q)
     \<and> eq_size q \<le> event_queue_highwater q
     \<and> dropped_inbound_total q = dropped_inbound_low_overflow q + dropped_inbound_high_overflow q
         + evicted_inbound_low_for_high q"

section \<open>Outbound messages\<close>

datatype OutboundPriority = OutHigh | OutLow

datatype AuthState = AUTH_PENDING | AUTHENTICATED | AUTH_FAILED

text \<open>Serialized bytes are shared and may be absent (a null pointer).\<close>

record Payload =
  payload_data :: "string option"
  is_binary :: bool

datatype Action =
    SendPayload (send_payload_of: Payload) (send_reliable: bool)
  | UpdateAuthState AuthState time "UserId option"
  | DropConnection int string

record OutgoingMessage =
  msg_priority :: OutboundPriority
  msg_target :: "GlobalConnId list"
  msg_action :: Action

section \<open>\<^verbatim>\<open>OutgoingQueue\<close>\<close>

datatype OutPushResult = OutOk | DroppedLowPriority | DroppedHighPriority

record outgoing_queue =
  oq_high :: "OutgoingMessage list"
  oq_low :: "OutgoingMessage list"
  oq_capacity :: nat
  oq_size :: nat
  dropped_outbound_total :: nat
  dropped_outbound_overflow_low_pri :: nat
  dropped_outbound_overflow_high_pri :: nat
  outbound_queue_highwater :: nat

definition oq_new :: "nat \<Rightarrow> outgoing_queue" where
  "oq_new capacity = \<lparr> oq_high = [], oq_low = [], oq_capacity = capacity, oq_size = 0,
     dropped_outbound_total = 0, dropped_outbound_overflow_low_pri = 0,
     dropped_outbound_overflow_high_pri = 0, outbound_queue_highwater = 0 \<rparr>"

definition record_drop_low :: "outgoing_queue \<Rightarrow> outgoing_queue" where
  "record_drop_low q = q\<lparr> dropped_outbound_total := dropped_outbound_total q + 1,
     dropped_outbound_overflow_low_pri := dropped_outbound_overflow_low_pri q + 1 \<rparr>"

definition record_drop_high :: "outgoing_queue \<Rightarrow> outgoing_queue" where
  "record_drop_high q = q\<lparr> dropped_outbound_total := dropped_outbound_total q + 1,
     dropped_outbound_overflow_high_pri := dropped_outbound_overflow_high_pri q + 1 \<rparr>"

definition oq_append :: "OutgoingMessage \<Rightarrow> outgoing_queue \<Rightarrow> outgoing_queue" where
  "oq_append msg q =
     (let q = (if msg_priority msg = OutLow then q\<lparr> oq_low := oq_low q @ [msg] \<rparr>
               else q\<lparr> oq_high := oq_high q @ [msg] \<rparr>);
          q = q\<lparr> oq_size := oq_size q + 1 \<rparr>
      in q\<lparr> outbound_queue_highwater := max (outbound_queue_highwater q) (oq_size q) \<rparr>)"

definition oq_push :: "OutgoingMessage \<Rightarrow> outgoing_queue \<Rightarrow> outgoing_queue \<times> OutPushResult" where
  "oq_push msg q =
     (if oq_capacity q > 0 \<and> oq_size q \<ge> oq_capacity q then
        if msg_priority msg = OutLow then (record_drop_low q, DroppedLowPriority)
        else if oq_low q \<noteq> [] then
          (oq_append msg (record_drop_low
             (q\<lparr> oq_low := butlast (oq_low q), oq_size := oq_size q - 1 \<rparr>)), OutOk)
        else (record_drop_high q, DroppedHighPriority)
      else (oq_append msg q, OutOk))"

definition oq_try_pop :: "outgoing_queue \<Rightarrow> (OutgoingMessage \<times> outgoing_queue) option" where
  "oq_try_pop q =
     (if oq_size q = 0 then None
      else if oq_high q = [] then
        Some (hd (oq_low q), q\<lparr> oq_low := tl (oq_low q), oq_size := oq_size q - 1 \<rparr>)
      else Some (hd (oq_high q), q\<lparr> oq_high := tl (oq_high q), oq_size := oq_size q - 1 \<rparr>))"

definition oq_wf :: "outgoing_queue \<Rightarrow> bool" where
  "oq_wf q \<longleftrightarrow> oq_size q = length (oq_high q) + length (oq_low q)
     \<and> (\<forall>m\<in>set (oq_high q). msg_priority m = OutHigh)
     \<and> (\<forall>m\<in>set (oq_low q). msg_priority m = OutLow)
     \<and> (oq_capacity q > 0 \<longrightarrow> oq_size q \<le> oq_capacity q)
     \<and> oq_size q \<le> outbound_queue_highwater q
     \<and> dropped_outbound_total q \<ge>
         dropped_outbound_overflow_low_pri q + dropped_outbound_overflow_high_pri q"

section \<open>The contract of a bounded two-level queue\<close>

text \<open>The abstract queue: two sequences and a bound (0 means unbounded).\<close>

record 'a tlq =
  tq_cap :: nat
  tq_high :: "'a list"
  tq_low :: "'a list"

definition tlq_full :: "'a tlq \<Rightarrow> bool" where
  "tlq_full s \<longleftrightarrow> tq_cap s > 0 \<and> length (tq_high s) + length (tq_low s) \<ge> tq_cap s"

definition tlq_push :: "('a \<Rightarrow> bool) \<Rightarrow> 'a \<Rightarrow> 'a tlq \<Rightarrow> 'a tlq \<times> bool" where
  "tlq_push lo x s =
     (if lo x then (if tlq_full s then (s, False) else (s\<lparr> tq_low := tq_low s @ [x] \<rparr>, True))
      else if tlq_full s \<and> tq_low s = [] then (s, False)
      else (s\<lparr> tq_high := tq_high s @ [x],
              tq_low := (if tlq_full s then butlast (tq_low s) else tq_low s) \<rparr>, True))"

definition tlq_pop :: "'a tlq \<Rightarrow> ('a \<times> 'a tlq) option" where
  "tlq_pop s = (case tq_high s of
       x # hs \<Rightarrow> Some (x, s\<lparr> tq_high := hs \<rparr>)
     | [] \<Rightarrow> (case tq_low s of x # ls \<Rightarrow> Some (x, s\<lparr> tq_low := ls \<rparr>) | [] \<Rightarrow> None))"

text \<open>A run of a queue: the final state, the entries accepted and the entries handed out, both
  in order.\<close>

datatype 'a qop = Push 'a | Pop

fun qstep :: "('a \<Rightarrow> 'q \<Rightarrow> 'q \<times> bool) \<Rightarrow> ('q \<Rightarrow> ('a \<times> 'q) option) \<Rightarrow> 'a qop \<Rightarrow> 'q
    \<Rightarrow> 'q \<times> 'a list \<times> 'a list" where
  "qstep push pop (Push x) q = (case push x q of (q', ok) \<Rightarrow> (q', (if ok then [x] else []), []))"
| "qstep push pop Pop q = (case pop q of None \<Rightarrow> (q, [], []) | Some (x, q') \<Rightarrow> (q', [], [x]))"

fun qrun :: "('a \<Rightarrow> 'q \<Rightarrow> 'q \<times> bool) \<Rightarrow> ('q \<Rightarrow> ('a \<times> 'q) option) \<Rightarrow> 'a qop list \<Rightarrow> 'q
    \<Rightarrow> 'q \<times> 'a list \<times> 'a list" where
  "qrun push pop [] q = (q, [], [])"
| "qrun push pop (op # ops) q =
     (case qstep push pop op q of (q1, acc1, out1) \<Rightarrow>
      (case qrun push pop ops q1 of (q2, acc2, out2) \<Rightarrow> (q2, acc1 @ acc2, out1 @ out2)))"

subsection \<open>Runs of the abstract queue\<close>

definition tlq_ok :: "('a \<Rightarrow> bool) \<Rightarrow> 'a tlq \<Rightarrow> bool" where
  "tlq_ok lo s \<longleftrightarrow> (\<forall>x\<in>set (tq_high s). \<not> lo x) \<and> (\<forall>x\<in>set (tq_low s). lo x)
     \<and> (tq_cap s > 0 \<longrightarrow> length (tq_high s) + length (tq_low s) \<le> tq_cap s)"

lemma tlq_push_ok:
  assumes "tlq_ok lo s" "tlq_push lo x s = (s', b)"
  shows "tlq_ok lo s'"
proof (cases "tq_low s" rule: rev_cases)
  case Nil
  with assms show ?thesis
    by (auto simp: tlq_ok_def tlq_push_def tlq_full_def split: if_split_asm)
next
  case (snoc ls l)
  with assms show ?thesis
    by (auto simp: tlq_ok_def tlq_push_def tlq_full_def split: if_split_asm)
qed

lemma tlq_pop_ok:
  assumes "tlq_ok lo s" "tlq_pop s = Some (x, s')"
  shows "tlq_ok lo s'"
  using assms by (auto simp: tlq_ok_def tlq_pop_def split: list.splits)

lemma tlq_push_high:
  assumes "tlq_push lo x s = (s', b)"
  shows "tq_high s' = tq_high s @ filter (\<lambda>y. \<not> lo y) (if b then [x] else [])"
  using assms by (cases "lo x"; cases "tlq_full s"; cases "tq_low s = []") (auto simp: tlq_push_def)

lemma tlq_push_low:
  assumes "tlq_push lo x s = (s', b)"
  shows "subseq (tq_low s') (tq_low s @ filter lo (if b then [x] else []))"
proof (cases "tq_low s" rule: rev_cases)
  case Nil
  with assms show ?thesis by (cases "lo x"; cases "tlq_full s") (auto simp: tlq_push_def)
next
  case (snoc ls l)
  with assms show ?thesis by (cases "lo x"; cases "tlq_full s") (auto simp: tlq_push_def)
qed

lemma tlq_pop_seqs:
  assumes "tlq_ok lo s" "tlq_pop s = Some (x, s')"
  shows "tq_high s = filter (\<lambda>y. \<not> lo y) [x] @ tq_high s'"
    and "tq_low s = filter lo [x] @ tq_low s'"
  using assms by (auto simp: tlq_ok_def tlq_pop_def split: list.splits)

lemma tlq_step_ok:
  assumes "tlq_ok lo s" "qstep (tlq_push lo) tlq_pop op s = (s', acc, out)"
  shows "tlq_ok lo s'"
  using assms
  by (cases op) (auto split: option.splits prod.splits
      dest: tlq_push_ok tlq_pop_ok)

text \<open>One step moves high entries from the accepted ones to the delivered ones, and can only lose low
  ones.\<close>

lemma tlq_step_high:
  assumes "tlq_ok lo s" "qstep (tlq_push lo) tlq_pop op s = (s', acc, out)"
  shows "tq_high s @ filter (\<lambda>y. \<not> lo y) acc = filter (\<lambda>y. \<not> lo y) out @ tq_high s'"
  using assms
  by (cases op) (auto split: option.splits prod.splits
      dest: tlq_push_high tlq_pop_seqs)

lemma tlq_step_low:
  assumes "tlq_ok lo s" "qstep (tlq_push lo) tlq_pop op s = (s', acc, out)"
  shows "subseq (filter lo out @ tq_low s') (tq_low s @ filter lo acc)"
  using assms
  by (cases op) (auto split: option.splits prod.splits
      dest: tlq_push_low tlq_pop_seqs)

lemma tlq_run_ok:
  assumes "tlq_ok lo s" "qrun (tlq_push lo) tlq_pop ops s = (s', acc, out)"
  shows "tlq_ok lo s'"
  using assms
proof (induction ops arbitrary: s acc out)
  case (Cons op ops)
  then show ?case by (auto split: prod.splits dest: tlq_step_ok)
qed simp

lemma tlq_run_high:
  assumes "tlq_ok lo s" "qrun (tlq_push lo) tlq_pop ops s = (s', acc, out)"
  shows "tq_high s @ filter (\<lambda>y. \<not> lo y) acc = filter (\<lambda>y. \<not> lo y) out @ tq_high s'"
  using assms
proof (induction ops arbitrary: s acc out)
  case (Cons op ops)
  obtain s1 a1 o1 where 1: "qstep (tlq_push lo) tlq_pop op s = (s1, a1, o1)"
    by (metis prod_cases3)
  obtain a2 o2 where 2: "qrun (tlq_push lo) tlq_pop ops s1 = (s', a2, o2)"
    and ao: "acc = a1 @ a2" "out = o1 @ o2"
    using Cons.prems(2) 1 by (auto split: prod.splits)
  have "tq_high s1 @ filter (\<lambda>y. \<not> lo y) a2 = filter (\<lambda>y. \<not> lo y) o2 @ tq_high s'"
    using Cons.IH[OF tlq_step_ok[OF Cons.prems(1) 1] 2] .
  with tlq_step_high[OF Cons.prems(1) 1] show ?case
    by (simp add: ao) (metis append_assoc)
qed simp

lemma tlq_run_low:
  assumes "tlq_ok lo s" "qrun (tlq_push lo) tlq_pop ops s = (s', acc, out)"
  shows "subseq (filter lo out @ tq_low s') (tq_low s @ filter lo acc)"
  using assms
proof (induction ops arbitrary: s acc out)
  case (Cons op ops)
  obtain s1 a1 o1 where 1: "qstep (tlq_push lo) tlq_pop op s = (s1, a1, o1)"
    by (metis prod_cases3)
  obtain a2 o2 where 2: "qrun (tlq_push lo) tlq_pop ops s1 = (s', a2, o2)"
    and ao: "acc = a1 @ a2" "out = o1 @ o2"
    using Cons.prems(2) 1 by (auto split: prod.splits)
  have "subseq (filter lo o1 @ (filter lo o2 @ tq_low s')) (filter lo o1 @ (tq_low s1 @ filter lo a2))"
    using Cons.IH[OF tlq_step_ok[OF Cons.prems(1) 1] 2] by (simp only: subseq_append')
  also have "subseq \<dots> ((tq_low s @ filter lo a1) @ filter lo a2)"
    using subseq_append_iff tlq_step_low[OF Cons.prems(1) 1]
    by (metis append_assoc list_emb_append_mono subseq_order.refl)
  finally show ?case by (simp add: ao)
qed simp

subsection \<open>Implementations\<close>

text \<open>An implementation keeps a representation invariant and simulates the abstract queue. Its runs
  then have the properties of the abstract runs.\<close>

locale two_level_queue =
  fixes lo :: "'a \<Rightarrow> bool"
    and abs :: "'q \<Rightarrow> 'a tlq"
    and wf :: "'q \<Rightarrow> bool"
    and push :: "'a \<Rightarrow> 'q \<Rightarrow> 'q \<times> bool"
    and pop :: "'q \<Rightarrow> ('a \<times> 'q) option"
  assumes wf_ok: "wf q \<Longrightarrow> tlq_ok lo (abs q)"
    and push_wf: "wf q \<Longrightarrow> wf (fst (push x q))"
    and push_sim: "wf q \<Longrightarrow> map_prod abs id (push x q) = tlq_push lo x (abs q)"
    and pop_wf: "wf q \<Longrightarrow> pop q = Some (x, q') \<Longrightarrow> wf q'"
    and pop_sim: "wf q \<Longrightarrow> map_option (map_prod id abs) (pop q) = tlq_pop (abs q)"
begin

lemma step_sim:
  assumes "wf q" "qstep push pop op q = (q', acc, out)"
  shows "wf q' \<and> qstep (tlq_push lo) tlq_pop op (abs q) = (abs q', acc, out)"
proof (cases op)
  case (Push x)
  then show ?thesis
    using assms push_wf[OF assms(1), of x] push_sim[OF assms(1), of x]
    by (auto simp: split: prod.splits)
next
  case Pop
  then show ?thesis
    using assms pop_wf[OF assms(1)] pop_sim[OF assms(1)]
    by (auto split: option.splits)
qed

lemma run_sim:
  assumes "wf q" "qrun push pop ops q = (q', acc, out)"
  shows "wf q' \<and> qrun (tlq_push lo) tlq_pop ops (abs q) = (abs q', acc, out)"
  using assms
proof (induction ops arbitrary: q acc out)
  case (Cons op ops)
  obtain q1 a1 o1 where 1: "qstep push pop op q = (q1, a1, o1)" by (metis prod_cases3)
  obtain a2 o2 where 2: "qrun push pop ops q1 = (q', a2, o2)"
    and ao: "acc = a1 @ a2" "out = o1 @ o2"
    using Cons.prems(2) 1 by (auto split: prod.splits)
  have s: "wf q1" "qstep (tlq_push lo) tlq_pop op (abs q) = (abs q1, a1, o1)"
    using step_sim[OF Cons.prems(1) 1] by simp_all
  show ?case using Cons.IH[OF s(1) 2] s(2) by (simp add: ao)
qed simp

lemma run_wf: "wf q \<Longrightarrow> qrun push pop ops q = (q', acc, out) \<Longrightarrow> wf q'"
  using run_sim by blast

lemma run_bound:
  assumes "wf q" "qrun push pop ops q = (q', acc, out)" "tq_cap (abs q') > 0"
  shows "length (tq_high (abs q')) + length (tq_low (abs q')) \<le> tq_cap (abs q')"
  using wf_ok[OF run_wf[OF assms(1,2)]] assms(3) by (simp add: tlq_ok_def)

lemma run_high_fifo:
  assumes "wf q" "qrun push pop ops q = (q', acc, out)"
  shows "tq_high (abs q) @ filter (\<lambda>x. \<not> lo x) acc = filter (\<lambda>x. \<not> lo x) out @ tq_high (abs q')"
  using tlq_run_high[OF wf_ok[OF assms(1)]] run_sim[OF assms] by blast

lemma run_low_order:
  assumes "wf q" "qrun push pop ops q = (q', acc, out)"
  shows "subseq (filter lo out @ tq_low (abs q')) (tq_low (abs q) @ filter lo acc)"
  using tlq_run_low[OF wf_ok[OF assms(1)]] run_sim[OF assms] by blast

lemma pop_low_only_if_no_high:
  assumes "wf q" "pop q = Some (x, q')" "lo x"
  shows "tq_high (abs q) = []"
  using assms pop_sim[OF assms(1)] wf_ok[OF assms(1)]
  by (auto simp: tlq_pop_def tlq_ok_def split: list.splits)

lemma high_refused_iff:
  assumes "wf q" "\<not> lo x"
  shows "\<not> snd (push x q) \<longleftrightarrow> tq_cap (abs q) > 0 \<and> length (tq_high (abs q)) = tq_cap (abs q)"
proof -
  have "snd (push x q) = snd (tlq_push lo x (abs q))"
    using push_sim[OF assms(1), of x] by (metis id_apply snd_map_prod)
  then show ?thesis
    using assms(2) wf_ok[OF assms(1)]
    by (auto simp: tlq_push_def tlq_full_def tlq_ok_def split: if_split_asm)
qed

end

section \<open>The two queues keep the contract\<close>

definition eq_abs :: "event_queue \<Rightarrow> Event tlq" where
  "eq_abs q = \<lparr> tq_cap = eq_capacity q, tq_high = eq_high q, tq_low = eq_low q \<rparr>"

definition eq_push_ok :: "Event \<Rightarrow> event_queue \<Rightarrow> event_queue \<times> bool" where
  "eq_push_ok e q = map_prod id (\<lambda>r. r = PushOk) (eq_push e q)"

definition oq_abs :: "outgoing_queue \<Rightarrow> OutgoingMessage tlq" where
  "oq_abs q = \<lparr> tq_cap = oq_capacity q, tq_high = oq_high q, tq_low = oq_low q \<rparr>"

definition oq_push_ok :: "OutgoingMessage \<Rightarrow> outgoing_queue \<Rightarrow> outgoing_queue \<times> bool" where
  "oq_push_ok m q = map_prod id (\<lambda>r. r = OutOk) (oq_push m q)"

abbreviation event_low :: "Event \<Rightarrow> bool" where
  "event_low e \<equiv> classify_event e = PrioLow"

abbreviation msg_low :: "OutgoingMessage \<Rightarrow> bool" where
  "msg_low m \<equiv> msg_priority m = OutLow"

lemmas eq_push_defs = eq_push_def eq_append_def record_drop_low_overflow_def
  record_drop_high_overflow_def record_evict_low_for_high_def

lemmas oq_push_defs = oq_push_def oq_append_def record_drop_low_def record_drop_high_def

lemma EventPriority_cases: "(p \<noteq> PrioLow) = (p = PrioHigh)"
  by (cases p) auto

lemma OutboundPriority_cases: "(p \<noteq> OutLow) = (p = OutHigh)"
  by (cases p) auto

lemma eq_push_wf: "eq_wf q \<Longrightarrow> eq_wf (fst (eq_push e q))"
  by (auto simp: eq_wf_def eq_push_defs Let_def EventPriority_cases dest: in_set_butlastD)

lemma eq_push_sim: "eq_wf q \<Longrightarrow> map_prod eq_abs id (eq_push_ok e q) = tlq_push event_low e (eq_abs q)"
  by (auto simp: eq_wf_def eq_push_ok_def eq_abs_def tlq_push_def tlq_full_def eq_push_defs Let_def)

lemma oq_push_wf: "oq_wf q \<Longrightarrow> oq_wf (fst (oq_push m q))"
  by (auto simp: oq_wf_def oq_push_defs Let_def OutboundPriority_cases dest: in_set_butlastD)

lemma oq_push_sim: "oq_wf q \<Longrightarrow> map_prod oq_abs id (oq_push_ok m q) = tlq_push msg_low m (oq_abs q)"
  by (auto simp: oq_wf_def oq_push_ok_def oq_abs_def tlq_push_def tlq_full_def oq_push_defs Let_def)

lemma eq_new_wf [simp]: "eq_wf (eq_new n)"
  by (simp add: eq_wf_def eq_new_def)

lemma oq_new_wf [simp]: "oq_wf (oq_new n)"
  by (simp add: oq_wf_def oq_new_def)

lemma eq_try_pop_wf: "eq_wf q \<Longrightarrow> eq_try_pop q = Some (e, q') \<Longrightarrow> eq_wf q'"
  by (cases "eq_high q"; cases "eq_low q")
     (auto simp: eq_wf_def eq_try_pop_def pop_front_locked_def)

lemma eq_try_pop_sim: "eq_wf q \<Longrightarrow> map_option (map_prod id eq_abs) (eq_try_pop q) = tlq_pop (eq_abs q)"
  by (cases "eq_high q"; cases "eq_low q")
     (auto simp: eq_wf_def eq_try_pop_def pop_front_locked_def tlq_pop_def eq_abs_def)

lemma oq_try_pop_wf: "oq_wf q \<Longrightarrow> oq_try_pop q = Some (m, q') \<Longrightarrow> oq_wf q'"
  by (cases "oq_high q"; cases "oq_low q") (auto simp: oq_wf_def oq_try_pop_def)

lemma oq_try_pop_sim: "oq_wf q \<Longrightarrow> map_option (map_prod id oq_abs) (oq_try_pop q) = tlq_pop (oq_abs q)"
  by (cases "oq_high q"; cases "oq_low q")
     (auto simp: oq_wf_def oq_try_pop_def tlq_pop_def oq_abs_def)

interpretation evq: two_level_queue event_low eq_abs eq_wf eq_push_ok eq_try_pop
proof unfold_locales
  show "tlq_ok event_low (eq_abs q)" if "eq_wf q" for q
    using that by (auto simp: eq_wf_def tlq_ok_def eq_abs_def)
  show "eq_wf (fst (eq_push_ok x q))" if "eq_wf q" for q x
    using eq_push_wf[OF that] by (simp add: eq_push_ok_def)
qed (auto intro: eq_push_sim eq_try_pop_wf eq_try_pop_sim)

interpretation outq: two_level_queue msg_low oq_abs oq_wf oq_push_ok oq_try_pop
proof unfold_locales
  show "tlq_ok msg_low (oq_abs q)" if "oq_wf q" for q
    using that by (auto simp: oq_wf_def tlq_ok_def oq_abs_def)
  show "oq_wf (fst (oq_push_ok x q))" if "oq_wf q" for q x
    using oq_push_wf[OF that] by (simp add: oq_push_ok_def)
qed (auto intro: oq_push_sim oq_try_pop_wf oq_try_pop_sim)

text \<open>The bound is a constant of the queue.\<close>

lemma eq_step_capacity: "qstep eq_push_ok eq_try_pop op q = (q', acc, out) \<Longrightarrow> eq_capacity q' = eq_capacity q"
  by (cases op) (auto simp: eq_push_ok_def eq_push_defs eq_try_pop_def pop_front_locked_def Let_def
      split: if_split_asm)

lemma eq_run_capacity: "qrun eq_push_ok eq_try_pop ops q = (q', acc, out) \<Longrightarrow> eq_capacity q' = eq_capacity q"
  by (induction ops arbitrary: q acc out) (auto split: prod.splits dest: eq_step_capacity)

lemma oq_step_capacity: "qstep oq_push_ok oq_try_pop op q = (q', acc, out) \<Longrightarrow> oq_capacity q' = oq_capacity q"
  by (cases op) (auto simp: oq_push_ok_def oq_push_defs oq_try_pop_def Let_def split: if_split_asm)

lemma oq_run_capacity: "qrun oq_push_ok oq_try_pop ops q = (q', acc, out) \<Longrightarrow> oq_capacity q' = oq_capacity q"
  by (induction ops arbitrary: q acc out) (auto split: prod.splits dest: oq_step_capacity)

text \<open>Every pushed event is accounted for by the drop counters.\<close>

fun n_push :: "'a qop list \<Rightarrow> nat" where
  "n_push [] = 0"
| "n_push (Push x # ops) = Suc (n_push ops)"
| "n_push (Pop # ops) = n_push ops"

lemma eq_step_account:
  assumes "eq_wf q" "qstep eq_push_ok eq_try_pop op q = (q', acc, out)"
  shows "eq_size q + dropped_inbound_total q + n_push [op]
           = length out + eq_size q' + dropped_inbound_total q'"
  using assms
  by (cases op) (auto simp: eq_push_ok_def eq_push_defs eq_try_pop_def pop_front_locked_def Let_def
      eq_wf_def split: if_split_asm)

lemma eq_run_account:
  assumes "eq_wf q" "qrun eq_push_ok eq_try_pop ops q = (q', acc, out)"
  shows "eq_size q + dropped_inbound_total q + n_push ops
           = length out + eq_size q' + dropped_inbound_total q'"
  using assms
proof (induction ops arbitrary: q acc out)
  case (Cons op ops)
  obtain q1 a1 o1 where 1: "qstep eq_push_ok eq_try_pop op q = (q1, a1, o1)" by (metis prod_cases3)
  obtain a2 o2 where 2: "qrun eq_push_ok eq_try_pop ops q1 = (q', a2, o2)" and ao: "out = o1 @ o2"
    using Cons.prems(2) 1 by (auto split: prod.splits)
  have "eq_wf q1" using evq.step_sim[OF Cons.prems(1) 1] by simp
  from Cons.IH[OF this 2] eq_step_account[OF Cons.prems(1) 1] show ?case
    by (cases op) (simp_all add: ao)
qed simp

section \<open>Properties\<close>

text \<open>C18: over any sequence of pushes and pops on a fresh event queue, the High events handed out
  followed by the High events still queued are exactly the accepted High events, in the order they were
  accepted: an accepted High event is never evicted, duplicated or overtaken by another. Low events keep
  their order and may be missing, and the queue never exceeds its capacity.\<close>

theorem event_queue_high_fifo:
  assumes "0 < n" "qrun eq_push_ok eq_try_pop ops (eq_new n) = (q', acc, out)"
  shows "filter (Not \<circ> event_low) acc = filter (Not \<circ> event_low) out @ eq_high q'
    \<and> subseq (filter event_low out @ eq_low q') (filter event_low acc)
    \<and> eq_size q' \<le> n"
proof -
  have w: "eq_wf q'" using evq.run_wf[OF eq_new_wf assms(2)] .
  have c: "eq_capacity q' = n" using eq_run_capacity[OF assms(2)] by (simp add: eq_new_def)
  show ?thesis
    using evq.run_high_fifo[OF eq_new_wf assms(2)] evq.run_low_order[OF eq_new_wf assms(2)] w c assms(1)
    by (simp add: eq_abs_def eq_new_def eq_wf_def comp_def)
qed

theorem event_queue_high_fifo_witness:
  "let typing = MessageEvent (GlobalConnId ''n'' ''1'')
                  \<lparr> env_version = 1, env_type = TYPING, env_seq = 0, env_payload = [] \<rparr>;
       close = DisconnectionEvent (GlobalConnId ''n'' ''1'') 1000 ''bye'';
       (q', acc, out) = qrun eq_push_ok eq_try_pop [Push typing, Push close, Pop] (eq_new 1)
   in acc = [typing, close] \<and> out = [close] \<and> eq_low q' = []
      \<and> filter (Not \<circ> event_low) acc = filter (Not \<circ> event_low) out @ eq_high q'"
  using event_queue_high_fifo[of 1 "[Push (MessageEvent (GlobalConnId ''n'' ''1'')
       \<lparr> env_version = 1, env_type = TYPING, env_seq = 0, env_payload = [] \<rparr>),
       Push (DisconnectionEvent (GlobalConnId ''n'' ''1'') 1000 ''bye''), Pop]"]
  by (auto simp: eq_push_ok_def eq_push_defs eq_new_def eq_try_pop_def pop_front_locked_def Let_def)

text \<open>The outbound queue keeps the same contract: over any sequence of pushes and pops on a fresh
  queue the High messages handed out and still queued are exactly the accepted ones in order, Low
  messages keep their order, and the capacity bound holds.\<close>

theorem outgoing_queue_high_fifo:
  assumes "0 < n" "qrun oq_push_ok oq_try_pop ops (oq_new n) = (q', acc, out)"
  shows "filter (Not \<circ> msg_low) acc = filter (Not \<circ> msg_low) out @ oq_high q'
    \<and> subseq (filter msg_low out @ oq_low q') (filter msg_low acc)
    \<and> oq_size q' \<le> n"
proof -
  have w: "oq_wf q'" using outq.run_wf[OF oq_new_wf assms(2)] .
  have c: "oq_capacity q' = n" using oq_run_capacity[OF assms(2)] by (simp add: oq_new_def)
  show ?thesis
    using outq.run_high_fifo[OF oq_new_wf assms(2)] outq.run_low_order[OF oq_new_wf assms(2)] w c assms(1)
    by (simp add: oq_abs_def oq_new_def oq_wf_def comp_def)
qed

theorem outgoing_queue_high_fifo_witness:
  "let m = \<lambda>p c. \<lparr> msg_priority = p, msg_target = [GlobalConnId ''n'' c],
                    msg_action = DropConnection 4401 ''auth'' \<rparr>;
       (q', acc, out) = qrun oq_push_ok oq_try_pop
          [Push (m OutLow ''1''), Push (m OutHigh ''2''), Push (m OutLow ''3''), Pop] (oq_new 1)
   in acc = [m OutLow ''1'', m OutHigh ''2''] \<and> out = [m OutHigh ''2''] \<and> oq_size q' \<le> 1"
  using outgoing_queue_high_fifo[of 1 "[Push \<lparr> msg_priority = OutLow,
       msg_target = [GlobalConnId ''n'' ''1''], msg_action = DropConnection 4401 ''auth'' \<rparr>,
     Push \<lparr> msg_priority = OutHigh, msg_target = [GlobalConnId ''n'' ''2''],
       msg_action = DropConnection 4401 ''auth'' \<rparr>,
     Push \<lparr> msg_priority = OutLow, msg_target = [GlobalConnId ''n'' ''3''],
       msg_action = DropConnection 4401 ''auth'' \<rparr>, Pop]"]
  by (auto simp: oq_push_ok_def oq_push_defs oq_new_def oq_try_pop_def Let_def)

text \<open>No event disappears uncounted: after any run on a fresh queue, the number of pushes is the
  number of events handed out, plus those still queued, plus the drop counter, and the drop counter is
  the sum of its three causes.\<close>

theorem event_queue_accounting:
  assumes "qrun eq_push_ok eq_try_pop ops (eq_new n) = (q', acc, out)"
  shows "n_push ops = length out + eq_size q' + dropped_inbound_total q'
    \<and> dropped_inbound_total q' = dropped_inbound_low_overflow q' + dropped_inbound_high_overflow q'
         + evicted_inbound_low_for_high q'"
  using eq_run_account[OF eq_new_wf assms] evq.run_wf[OF eq_new_wf assms]
  by (simp add: eq_new_def eq_wf_def)

theorem event_queue_accounting_witness:
  "let close = DisconnectionEvent (GlobalConnId ''n'' ''1'') 1000 ''bye'';
       (q', acc, out) = qrun eq_push_ok eq_try_pop [Push close, Push close, Pop] (eq_new 1)
   in length out = 1 \<and> dropped_inbound_total q' = 1 \<and> n_push [Push close, Push close, Pop] = 2
      \<and> 2 = length out + eq_size q' + dropped_inbound_total q'"
  using event_queue_accounting[of "[Push (DisconnectionEvent (GlobalConnId ''n'' ''1'') 1000 ''bye''),
       Push (DisconnectionEvent (GlobalConnId ''n'' ''1'') 1000 ''bye''), Pop]" 1]
  by (auto simp: eq_push_ok_def eq_push_defs eq_new_def eq_try_pop_def pop_front_locked_def Let_def)

text \<open>A High event is refused exactly when the queue is bounded and already holds capacity many
  High events, and the refusal is reported to the producer as \<^verbatim>\<open>DroppedHigh\<close>; the class comment's
  claim that High events are never dropped does not hold at that bound.\<close>

theorem event_queue_high_refused_iff:
  assumes "eq_wf q" "classify_event e = PrioHigh"
  shows "snd (eq_push e q) = DroppedHigh
    \<longleftrightarrow> eq_capacity q > 0 \<and> length (eq_high q) = eq_capacity q"
proof -
  have "snd (eq_push e q) = DroppedHigh \<longleftrightarrow> \<not> snd (eq_push_ok e q)"
    using assms(2) by (simp add: eq_push_ok_def eq_push_def)
  then show ?thesis
    using evq.high_refused_iff[OF assms(1), of e] assms(2) by (simp add: eq_abs_def)
qed

theorem event_queue_high_refused_iff_witness:
  "let close = DisconnectionEvent (GlobalConnId ''n'' ''1'') 1000 ''bye''
   in snd (eq_push close (fst (eq_push close (eq_new 1)))) = DroppedHigh"
  using event_queue_high_refused_iff[of "fst (eq_push (DisconnectionEvent (GlobalConnId ''n'' ''1'') 1000 ''bye'') (eq_new 1))"
      "DisconnectionEvent (GlobalConnId ''n'' ''1'') 1000 ''bye''"]
  by (simp add: eq_push_wf) (simp add: eq_push_defs eq_new_def Let_def)

end
