(* ===== verification/Connections.thy ===== *)
theory Connections
  imports Queues
begin

text \<open>
  The connections of one network stack: \<^verbatim>\<open>ConnectionContext\<close> and \<^verbatim>\<open>ConnectionRegistery\<close>
  (\<^verbatim>\<open>src/net/connection\<close>), the state a stack's event loop owns, the transport's \<^verbatim>\<open>.close\<close> handler, and
  \<^verbatim>\<open>HeartbeatService\<close> (\<^verbatim>\<open>src/net/runtime\<close>).

  Everything here runs on the stack's single loop thread, so a handler is a function on the state.
  The sockets (uWebSockets), the clocks and protobuf are not part of the repository: they are the
  operations of a \<^verbatim>\<open>wsapi\<close> argument over a socket state of arbitrary type, threaded through each call.
\<close>

section \<open>Connection contexts\<close>

text \<open>\<^verbatim>\<open>WsHandle\<close>: a null pointer, or the socket whose per-socket data holds a connection id.\<close>

type_synonym WsHandle = "ConnId option"

definition handle_valid :: "WsHandle \<Rightarrow> bool" where
  "handle_valid h \<longleftrightarrow> h \<noteq> None"

record OutboundItem =
  item_priority :: OutboundPriority
  item_action :: Action

record PerConnectionOutbox =
  ob_q :: "OutboundItem list"
  ob_capacity :: nat
  slow_hits :: "32 word"
  drop_pending :: bool

record PendingFrame =
  p_seq :: "64 word"
  p_bytes :: string
  last_sent_at :: time
  attempts :: "16 word"

record ReliableOutbound =
  next_seq :: "64 word"
  acked_seq :: "64 word"
  rel_buffer :: "PendingFrame list"
  rel_capacity :: nat

record ConnectionContext =
  ctx_conn_id :: ConnId
  ctx_handle :: WsHandle
  port_index :: nat
  connected_at :: time
  last_seen_at :: time
  auth_state :: AuthState
  auth_expires_at :: time
  ctx_user_id :: "UserId option"
  ctx_pending :: "(string \<times> bool) list"
  outbox :: PerConnectionOutbox
  reliable :: ReliableOutbound

definition new_outbox :: PerConnectionOutbox where
  "new_outbox = \<lparr> ob_q = [], ob_capacity = 128, slow_hits = 0, drop_pending = False \<rparr>"

definition new_reliable :: ReliableOutbound where
  "new_reliable = \<lparr> next_seq = 0, acked_seq = 0, rel_buffer = [], rel_capacity = 256 \<rparr>"

text \<open>The constructor; the heartbeat fields are initialised with the construction time.\<close>

definition new_context :: "ConnId \<Rightarrow> WsHandle \<Rightarrow> nat \<Rightarrow> time \<Rightarrow> ConnectionContext" where
  "new_context cid h port now = \<lparr> ctx_conn_id = cid, ctx_handle = h, port_index = port,
     connected_at = now, last_seen_at = now, auth_state = AUTH_PENDING, auth_expires_at = 0,
     ctx_user_id = None, ctx_pending = [], outbox = new_outbox, reliable = new_reliable \<rparr>"

section \<open>\<^verbatim>\<open>ConnectionRegistery\<close>\<close>

record registry =
  connections :: "(ConnId, ConnectionContext) umap"
  connections_by_port :: "nat \<Rightarrow> nat"

datatype ConnectionError = ConnectionNotFound

text \<open>\<^verbatim>\<open>utils::metrics::inc_port_connections\<close> and \<^verbatim>\<open>dec_port_connections\<close>: ports past the array are not
  counted, and the counter stops at zero.\<close>

definition kMaxPorts :: nat where
  "kMaxPorts = 16"

definition inc_port_connections :: "nat \<Rightarrow> (nat \<Rightarrow> nat) \<Rightarrow> (nat \<Rightarrow> nat)" where
  "inc_port_connections port m = (if port < kMaxPorts then m(port := m port + 1) else m)"

definition dec_port_connections :: "nat \<Rightarrow> (nat \<Rightarrow> nat) \<Rightarrow> (nat \<Rightarrow> nat)" where
  "dec_port_connections port m = (if port < kMaxPorts then m(port := m port - 1) else m)"

definition attach :: "ConnId \<Rightarrow> ConnectionContext \<Rightarrow> registry \<Rightarrow> registry" where
  "attach cid ctx r =
     r\<lparr> connections_by_port := inc_port_connections (port_index ctx) (connections_by_port r),
        connections := emplace cid ctx (connections r) \<rparr>"

definition detach :: "ConnId \<Rightarrow> registry \<Rightarrow> registry" where
  "detach cid r =
     (case map_of (connections r) cid of
        Some ctx \<Rightarrow>
          r\<lparr> connections_by_port := dec_port_connections (port_index ctx) (connections_by_port r),
             connections := AList.delete cid (connections r) \<rparr>
      | None \<Rightarrow> r)"

definition get :: "ConnId \<Rightarrow> registry \<Rightarrow> ConnectionError + ConnectionContext" where
  "get cid r = (case map_of (connections r) cid of Some ctx \<Rightarrow> Inr ctx | None \<Rightarrow> Inl ConnectionNotFound)"

definition get_many :: "GlobalConnId list \<Rightarrow> registry \<Rightarrow> (ConnectionError + ConnectionContext) list" where
  "get_many ids r = map (\<lambda>g. get (conn_id g) r) ids"

definition get_all :: "registry \<Rightarrow> (ConnectionError + ConnectionContext) list" where
  "get_all r = map (\<lambda>(cid, ctx). Inr ctx) (connections r)"

record ConnectionView =
  view_conn_id :: ConnId
  view_handle :: WsHandle
  view_auth_state :: AuthState
  view_auth_expires_at :: time
  view_connected_at :: time
  view_last_seen_at :: time
  view_user_id :: "UserId option"

definition get_view :: "ConnId \<Rightarrow> registry \<Rightarrow> ConnectionView option" where
  "get_view cid r = map_option (\<lambda>ctx. \<lparr> view_conn_id = ctx_conn_id ctx, view_handle = ctx_handle ctx,
       view_auth_state = auth_state ctx, view_auth_expires_at = auth_expires_at ctx,
       view_connected_at = connected_at ctx, view_last_seen_at = last_seen_at ctx,
       view_user_id = ctx_user_id ctx \<rparr>) (map_of (connections r) cid)"

definition get_ids :: "registry \<Rightarrow> ConnId list" where
  "get_ids r = map fst (connections r)"

text \<open>\<^verbatim>\<open>mutate\<close>: the mutator runs on the stored context; the flag is false for an unknown connection.\<close>

definition mutate :: "ConnId \<Rightarrow> (ConnectionContext \<Rightarrow> ConnectionContext) \<Rightarrow> registry \<Rightarrow> registry \<times> bool" where
  "mutate cid f r =
     (case map_of (connections r) cid of
        Some ctx \<Rightarrow> (r\<lparr> connections := AList.update cid (f ctx) (connections r) \<rparr>, True)
      | None \<Rightarrow> (r, False))"

definition registry_size :: "registry \<Rightarrow> nat" where
  "registry_size r = length (connections r)"

section \<open>The state of a network stack\<close>

datatype SendStatus = BACKPRESSURE | SUCCESS | DROPPED

text \<open>What the stack calls outside the repository: \<^verbatim>\<open>WebSocket::getBufferedAmount\<close>, \<^verbatim>\<open>send\<close> and
  \<^verbatim>\<open>end\<close>, the steady and system clocks, and the protobuf codecs.\<close>

record 's wsapi =
  buffered_amount :: "ConnId \<Rightarrow> 's \<Rightarrow> nat"
  sock_send :: "ConnId \<Rightarrow> string \<Rightarrow> bool \<Rightarrow> 's \<Rightarrow> SendStatus \<times> 's"
  sock_end :: "ConnId \<Rightarrow> int \<Rightarrow> string \<Rightarrow> 's \<Rightarrow> 's"
  steady_now :: "'s \<Rightarrow> time \<times> 's"
  system_now :: "'s \<Rightarrow> time \<times> 's"
  parse_envelope :: "string \<Rightarrow> Envelope option"
  serialize_envelope :: "Envelope \<Rightarrow> string"
  parse_ping :: "string \<Rightarrow> (64 word) option"
  parse_ack :: "string \<Rightarrow> (64 word) option"
  serialize_pong :: string

record 's net =
  net_id :: NetStackId
  reg :: registry
  out_q :: outgoing_queue
  pending_unacked :: "ConnId list"
  event_sink :: event_queue
  active_connections :: "64 word"
  conn_id_next :: "64 word"
  sock :: 's

abbreviation ctx_of :: "'s net \<Rightarrow> ConnId \<rightharpoonup> ConnectionContext" where
  "ctx_of st \<equiv> map_of (connections (reg st))"

definition upd_ctx :: "ConnId \<Rightarrow> (ConnectionContext \<Rightarrow> ConnectionContext) \<Rightarrow> 's net \<Rightarrow> 's net" where
  "upd_ctx cid f st = st\<lparr> reg := fst (mutate cid f (reg st)) \<rparr>"

text \<open>The transport's \<^verbatim>\<open>.close\<close> handler, with the stack's \<^verbatim>\<open>on_close\<close> hook that pushes a
  \<^verbatim>\<open>DisconnectionEvent\<close> into the application's event queue.\<close>

definition on_close :: "ConnId \<Rightarrow> int \<Rightarrow> string \<Rightarrow> 's net \<Rightarrow> 's net" where
  "on_close cid code reason st =
     st\<lparr> reg := detach cid (reg st),
         event_sink := fst (eq_push (DisconnectionEvent (GlobalConnId (net_id st) cid) code reason) (event_sink st)),
         active_connections := active_connections st - 1 \<rparr>"

text \<open>\<^verbatim>\<open>WsHandle::end\<close>: a null handle does nothing; otherwise the socket is ended, and uWebSockets
  runs the \<^verbatim>\<open>.close\<close> handler from within \<^verbatim>\<open>end\<close> (the reason the callers defer it until the registry
  lock is released).\<close>

definition handle_end :: "'s wsapi \<Rightarrow> WsHandle \<Rightarrow> int \<Rightarrow> string \<Rightarrow> 's net \<Rightarrow> 's net" where
  "handle_end api h code reason st =
     (case h of
        None \<Rightarrow> st
      | Some c \<Rightarrow> on_close c code reason (st\<lparr> sock := sock_end api c code reason (sock st) \<rparr>))"

section \<open>\<^verbatim>\<open>HeartbeatService\<close>\<close>

text \<open>Durations in the clock's unit.\<close>

record HeartbeatConfig =
  hb_timeout :: time
  auth_pending_timeout :: time
  close_code :: int
  close_reason :: string

definition hb_on_open :: "'s wsapi \<Rightarrow> ConnId \<Rightarrow> 's net \<Rightarrow> 's net" where
  "hb_on_open api cid st =
     (case system_now api (sock st) of (now, s) \<Rightarrow>
        upd_ctx cid (\<lambda>c. c\<lparr> connected_at := now, last_seen_at := now \<rparr>) (st\<lparr> sock := s \<rparr>))"

definition note_seen :: "'s wsapi \<Rightarrow> ConnId \<Rightarrow> 's net \<Rightarrow> 's net" where
  "note_seen api cid st =
     (case system_now api (sock st) of (now, s) \<Rightarrow>
        upd_ctx cid (\<lambda>c. c\<lparr> last_seen_at := now \<rparr>) (st\<lparr> sock := s \<rparr>))"

text \<open>The body of the sweep's loop for one connection.\<close>

definition hb_check :: "'s wsapi \<Rightarrow> HeartbeatConfig \<Rightarrow> time \<Rightarrow> ConnId \<Rightarrow> 's net \<Rightarrow> 's net" where
  "hb_check api cfg now cid st =
     (case get_view cid (reg st) of
        None \<Rightarrow> st
      | Some v \<Rightarrow>
          if \<not> handle_valid (view_handle v) then st
          else if view_auth_state v = AUTH_FAILED then
            handle_end api (view_handle v) 4401 ''auth_failed'' st
          else if view_auth_state v = AUTH_PENDING then
            (if now - view_connected_at v \<ge> auth_pending_timeout cfg then
               handle_end api (view_handle v) 4403 ''auth_timeout''
                 (upd_ctx cid (\<lambda>c. c\<lparr> auth_state := AUTH_FAILED \<rparr>) st)
             else st)
          else if view_auth_state v = AUTHENTICATED \<and> now \<ge> view_auth_expires_at v then
            handle_end api (view_handle v) 4402 ''auth_token_expired''
              (upd_ctx cid (\<lambda>c. c\<lparr> auth_state := AUTH_FAILED \<rparr>) st)
          else if now - view_last_seen_at v > hb_timeout cfg then
            handle_end api (view_handle v) (close_code cfg) (close_reason cfg) st
          else st)"

definition hb_tick :: "'s wsapi \<Rightarrow> HeartbeatConfig \<Rightarrow> 's net \<Rightarrow> 's net" where
  "hb_tick api cfg st =
     (case system_now api (sock st) of (now, s) \<Rightarrow>
        fold (hb_check api cfg now) (get_ids (reg st)) (st\<lparr> sock := s \<rparr>))"

section \<open>The registry's interface\<close>

text \<open>What the loop's services rely on: \<^verbatim>\<open>mutate\<close> changes one connection by the mutator,
  \<^verbatim>\<open>attach\<close> keeps an entry that is there, \<^verbatim>\<open>detach\<close> removes one.\<close>

locale conn_store =
  fixes find :: "'r \<Rightarrow> 'k \<rightharpoonup> 'c"
    and add :: "'k \<Rightarrow> 'c \<Rightarrow> 'r \<Rightarrow> 'r"
    and remove :: "'k \<Rightarrow> 'r \<Rightarrow> 'r"
    and modify :: "'k \<Rightarrow> ('c \<Rightarrow> 'c) \<Rightarrow> 'r \<Rightarrow> 'r"
  assumes find_add: "find (add k c r) = (if find r k = None then (find r)(k \<mapsto> c) else find r)"
    and find_remove: "find (remove k r) = (find r)(k := None)"
    and find_modify: "find (modify k f r) = (find r)(k := map_option f (find r k))"
begin

definition all_conns :: "('k \<Rightarrow> 'c \<Rightarrow> bool) \<Rightarrow> 'r \<Rightarrow> bool" where
  "all_conns P r \<longleftrightarrow> (\<forall>k c. find r k = Some c \<longrightarrow> P k c)"

lemma all_conns_add: "all_conns P r \<Longrightarrow> P k c \<Longrightarrow> all_conns P (add k c r)"
  by (auto simp: all_conns_def find_add)

lemma all_conns_remove: "all_conns P r \<Longrightarrow> all_conns P (remove k r)"
  by (auto simp: all_conns_def find_remove)

lemma all_conns_modify:
  assumes "all_conns P r" "\<And>c. find r k = Some c \<Longrightarrow> P k c \<Longrightarrow> P k (f c)"
  shows "all_conns P (modify k f r)"
  using assms by (auto simp: all_conns_def find_modify)

text \<open>The connections after an operation were there before it, and relate to what they were.\<close>

definition descends :: "('c \<Rightarrow> 'c \<Rightarrow> bool) \<Rightarrow> 'r \<Rightarrow> 'r \<Rightarrow> bool" where
  "descends R r r' \<longleftrightarrow> (\<forall>k c'. find r' k = Some c' \<longrightarrow> (\<exists>c. find r k = Some c \<and> R c c'))"

lemma descends_refl: "(\<And>c. R c c) \<Longrightarrow> descends R r r"
  by (simp add: descends_def)

lemma descends_trans:
  assumes "descends R r1 r2" "descends R r2 r3" "\<And>a b c. R a b \<Longrightarrow> R b c \<Longrightarrow> R a c"
  shows "descends R r1 r3"
  using assms unfolding descends_def by blast

lemma descends_modify:
  assumes "\<And>c. R c c" "\<And>c. find r k = Some c \<Longrightarrow> R c (f c)"
  shows "descends R r (modify k f r)"
  using assms by (auto simp: descends_def find_modify)

lemma descends_remove: "(\<And>c. R c c) \<Longrightarrow> descends R r (remove k r)"
  by (auto simp: descends_def find_remove)

lemma dom_modify: "dom (find (modify k f r)) = dom (find r)"
  by (auto simp: find_modify dom_def)

end

lemma mutate_find: "map_of (connections (fst (mutate k f r))) =
    (map_of (connections r))(k := map_option f (map_of (connections r) k))"
  by (auto simp: mutate_def split: option.split)

lemma detach_find: "map_of (connections (detach k r)) = (map_of (connections r))(k := None)"
  by (auto simp: detach_def split: option.split)

interpretation cr: conn_store "\<lambda>r. map_of (connections r)" attach detach "\<lambda>k f r. fst (mutate k f r)"
  by unfold_locales (simp_all add: attach_def map_of_emplace mutate_find detach_find)

lemma ctx_of_upd [simp]: "ctx_of (upd_ctx k f st) = (ctx_of st)(k := map_option f (ctx_of st k))"
  by (simp add: upd_ctx_def mutate_find)

lemma upd_ctx_sel [simp]:
  "net_id (upd_ctx k f st) = net_id st" "out_q (upd_ctx k f st) = out_q st"
  "pending_unacked (upd_ctx k f st) = pending_unacked st" "event_sink (upd_ctx k f st) = event_sink st"
  "active_connections (upd_ctx k f st) = active_connections st"
  "conn_id_next (upd_ctx k f st) = conn_id_next st" "sock (upd_ctx k f st) = sock st"
  by (simp_all add: upd_ctx_def)

lemma ctx_of_close [simp]: "ctx_of (on_close c code reason st) = (ctx_of st)(c := None)"
  by (simp add: on_close_def detach_find)

lemma ctx_of_end: "ctx_of (handle_end api h code reason st) =
    (case h of None \<Rightarrow> ctx_of st | Some c \<Rightarrow> (ctx_of st)(c := None))"
  by (simp add: handle_end_def split: option.split)

section \<open>A concrete environment\<close>

text \<open>Sockets that take every frame and log it, at a fixed clock; examples run on it.\<close>

definition logging_api :: "time \<Rightarrow> (ConnId \<times> string) list wsapi" where
  "logging_api now = \<lparr> buffered_amount = (\<lambda>c s. 0), sock_send = (\<lambda>c b bin s. (SUCCESS, s @ [(c, b)])),
     sock_end = (\<lambda>c code reason s. s), steady_now = (\<lambda>s. (now, s)), system_now = (\<lambda>s. (now, s)),
     parse_envelope = (\<lambda>b. Some \<lparr> env_version = 1, env_type = VOICE_JOIN, env_seq = 0, env_payload = b \<rparr>),
     serialize_envelope = env_payload, parse_ping = (\<lambda>b. None), parse_ack = (\<lambda>b. None),
     serialize_pong = [] \<rparr>"

definition fresh_net :: "NetStackId \<Rightarrow> 's \<Rightarrow> 's net" where
  "fresh_net n s = \<lparr> net_id = n, reg = \<lparr> connections = [], connections_by_port = (\<lambda>_. 0) \<rparr>,
     out_q = oq_new 50000, pending_unacked = [], event_sink = eq_new 30000,
     active_connections = 0, conn_id_next = 1, sock = s \<rparr>"

definition default_hb :: HeartbeatConfig where
  "default_hb = \<lparr> hb_timeout = 75, auth_pending_timeout = 5, close_code = 4000,
     close_reason = ''client_heartbeat_timeout'' \<rparr>"

definition two_pending :: "(ConnId \<times> string) list net" where
  "two_pending = (fresh_net ''n'' [])\<lparr> reg :=
     attach ''2'' (new_context ''2'' (Some ''2'') 0 98)
       (attach ''1'' (new_context ''1'' (Some ''1'') 0 90) (reg (fresh_net ''n'' ()))) \<rparr>"

lemma two_pending_sel [simp]:
  "connections (reg two_pending) = [(''1'', new_context ''1'' (Some ''1'') 0 90), (''2'', new_context ''2'' (Some ''2'') 0 98)]"
  "event_sink two_pending = eq_new 30000" "net_id two_pending = ''n''" "sock two_pending = []"
  by (simp_all add: two_pending_def fresh_net_def attach_def emplace_def)

section \<open>The heartbeat sweep\<close>

text \<open>Every stored context belongs to the socket of its key; this is how the transport's \<^verbatim>\<open>.open\<close>
  handler attaches them.\<close>

definition reg_ok :: "registry \<Rightarrow> bool" where
  "reg_ok r \<longleftrightarrow> umap_ok (connections r) \<and>
     (\<forall>c ctx. map_of (connections r) c = Some ctx \<longrightarrow> ctx_handle ctx = Some c \<and> ctx_conn_id ctx = c)"

text \<open>What the sweep's rules say of one connection: the close it deserves, if any.\<close>

definition hb_verdict :: "HeartbeatConfig \<Rightarrow> time \<Rightarrow> ConnectionContext \<Rightarrow> (int \<times> string) option" where
  "hb_verdict cfg now ctx =
     (case auth_state ctx of
        AUTH_FAILED \<Rightarrow> Some (4401, ''auth_failed'')
      | AUTH_PENDING \<Rightarrow> if connected_at ctx + auth_pending_timeout cfg \<le> now
                        then Some (4403, ''auth_timeout'') else None
      | AUTHENTICATED \<Rightarrow> if auth_expires_at ctx \<le> now then Some (4402, ''auth_token_expired'')
                         else if last_seen_at ctx + hb_timeout cfg < now
                         then Some (close_code cfg, close_reason cfg) else None)"

definition close_events :: "NetStackId \<Rightarrow> HeartbeatConfig \<Rightarrow> time \<Rightarrow> (ConnId \<times> ConnectionContext) list \<Rightarrow> Event list" where
  "close_events n cfg now cs = concat (map (\<lambda>(c, ctx). case hb_verdict cfg now ctx of
       Some (code, reason) \<Rightarrow> [DisconnectionEvent (GlobalConnId n c) code reason] | None \<Rightarrow> []) cs)"

abbreviation push_all :: "Event list \<Rightarrow> event_queue \<Rightarrow> event_queue" where
  "push_all es q \<equiv> fold (\<lambda>e q. fst (eq_push e q)) es q"

lemma reg_ok_handle: "reg_ok r \<Longrightarrow> map_of (connections r) c = Some ctx \<Longrightarrow> ctx_handle ctx = Some c"
  by (simp add: reg_ok_def)

lemma reg_ok_mutate [inv_intros]:
  assumes "reg_ok r" "\<And>c. ctx_handle (f c) = ctx_handle c" "\<And>c. ctx_conn_id (f c) = ctx_conn_id c"
  shows "reg_ok (fst (mutate k f r))"
  using assms by (auto simp: reg_ok_def mutate_find mutate_def split: option.splits if_split_asm)

lemma reg_ok_detach [inv_intros]: "reg_ok r \<Longrightarrow> reg_ok (detach k r)"
  by (auto simp: reg_ok_def detach_def split: option.splits if_split_asm)

lemma reg_ok_attach [inv_intros]:
  assumes "reg_ok r" "ctx_handle ctx = Some k" "ctx_conn_id ctx = k"
  shows "reg_ok (attach k ctx r)"
  using assms by (auto simp: reg_ok_def attach_def map_of_emplace split: if_split_asm)

lemma hb_check_None: "ctx_of st c = None \<Longrightarrow> hb_check api cfg now c st = st"
  by (simp add: hb_check_def get_view_def)

lemma hb_check_Some:
  assumes "ctx_of st c = Some ctx" "ctx_handle ctx = Some c"
  shows "ctx_of (hb_check api cfg now c st) =
           (if hb_verdict cfg now ctx = None then ctx_of st else (ctx_of st)(c := None))"
    and "event_sink (hb_check api cfg now c st) =
           push_all (close_events (net_id st) cfg now [(c, ctx)]) (event_sink st)"
  using assms
  by (auto simp: hb_check_def get_view_def hb_verdict_def handle_valid_def handle_end_def close_events_def
      on_close_def detach_find upd_ctx_def mutate_find algebra_simps split: AuthState.splits)

lemma hb_check_net_id [simp]: "net_id (hb_check api cfg now c st) = net_id st"
  by (simp add: hb_check_def handle_end_def on_close_def split: option.split)

lemma hb_fold:
  assumes "distinct (map fst cs)"
    and "\<And>c ctx. (c, ctx) \<in> set cs \<Longrightarrow> ctx_of st c = Some ctx \<and> ctx_handle ctx = Some c"
  shows "ctx_of (fold (hb_check api cfg now) (map fst cs) st) =
           (\<lambda>k. case map_of cs k of None \<Rightarrow> ctx_of st k
              | Some ctx \<Rightarrow> if hb_verdict cfg now ctx = None then Some ctx else None)
       \<and> event_sink (fold (hb_check api cfg now) (map fst cs) st) =
           push_all (close_events (net_id st) cfg now cs) (event_sink st)"
  using assms
proof (induction cs arbitrary: st)
  case Nil
  then show ?case by (simp add: close_events_def)
next
  case (Cons e cs)
  obtain c ctx where e: "e = (c, ctx)" by force
  have c: "ctx_of st c = Some ctx" "ctx_handle ctx = Some c" using Cons.prems(2) e by auto
  note step = hb_check_Some[OF c, of api cfg now]
  let ?st = "hb_check api cfg now c st"
  have notin: "map_of cs c = None" using Cons.prems(1) e by (simp add: map_of_eq_None_iff image_iff)
  have "ctx_of ?st c' = Some ctx' \<and> ctx_handle ctx' = Some c'" if "(c', ctx') \<in> set cs" for c' ctx'
  proof -
    have "c' \<noteq> c" using that Cons.prems(1) e by force
    then show ?thesis using Cons.prems(2)[of c' ctx'] that step(1) by simp
  qed
  from Cons.IH[OF _ this] Cons.prems(1) e
  have IH: "ctx_of (fold (hb_check api cfg now) (map fst cs) ?st) =
           (\<lambda>k. case map_of cs k of None \<Rightarrow> ctx_of ?st k
              | Some ctx \<Rightarrow> if hb_verdict cfg now ctx = None then Some ctx else None)"
    "event_sink (fold (hb_check api cfg now) (map fst cs) ?st) =
           push_all (close_events (net_id st) cfg now cs) (event_sink ?st)"
    by auto
  have ev: "close_events (net_id st) cfg now (e # cs) =
      close_events (net_id st) cfg now [(c, ctx)] @ close_events (net_id st) cfg now cs"
    by (simp add: close_events_def e)
  show ?case
    using IH step c notin
    by (auto simp: e ev[unfolded e] fun_eq_iff split: option.split)
qed

section \<open>Properties\<close>

text \<open>C29: one heartbeat sweep closes exactly the connections its rules name -- failed authentication
  (4401), authentication not completed in time (4403), token expired (4402), no application ping within
  the timeout (configured code) -- each with the code of the first rule that applies, reports each close
  to the application once, and leaves every other connection as it is.\<close>

theorem heartbeat_sweep_exact:
  assumes "reg_ok (reg st)" "system_now api (sock st) = (now, s)"
  shows "ctx_of (hb_tick api cfg st) =
           (\<lambda>c. case ctx_of st c of None \<Rightarrow> None
              | Some ctx \<Rightarrow> if hb_verdict cfg now ctx = None then Some ctx else None)
       \<and> event_sink (hb_tick api cfg st) =
           push_all (close_events (net_id st) cfg now (connections (reg st))) (event_sink st)"
proof -
  have d: "distinct (map fst (connections (reg st)))" using assms(1) by (simp add: reg_ok_def umap_ok_def)
  have "ctx_of (st\<lparr> sock := s \<rparr>) c = Some ctx \<and> ctx_handle ctx = Some c"
    if "(c, ctx) \<in> set (connections (reg st))" for c ctx
    using that assms(1) d by (simp add: reg_ok_def)
  from hb_fold[OF d this, of api cfg now] show ?thesis
    using assms(2) by (auto simp: hb_tick_def get_ids_def fun_eq_iff split: option.splits)
qed

theorem heartbeat_sweep_exact_witness:
  "ctx_of (hb_tick (logging_api 100) default_hb two_pending) ''1'' = None
   \<and> ctx_of (hb_tick (logging_api 100) default_hb two_pending) ''2'' = ctx_of two_pending ''2''
   \<and> ctx_of two_pending ''2'' \<noteq> None
   \<and> eq_high (event_sink (hb_tick (logging_api 100) default_hb two_pending)) =
       [DisconnectionEvent (GlobalConnId ''n'' ''1'') 4403 ''auth_timeout'']"
proof -
  have "reg_ok (reg two_pending)" "system_now (logging_api 100) (sock two_pending) = (100, [])"
    by (simp_all add: reg_ok_def new_context_def logging_api_def umap_ok_def)
  from heartbeat_sweep_exact[OF this, of default_hb] show ?thesis
    by (simp add: new_context_def hb_verdict_def default_hb_def close_events_def eq_push_defs eq_new_def Let_def)
qed

end
