(* ===== verification/Outbound.thy ===== *)
theory Outbound
  imports Connections
begin

text \<open>
  \<^verbatim>\<open>OutgoingWorker\<close> (\<^verbatim>\<open>src/net/outbound/OutgoingWorker.cpp\<close>): draining the stack's outbound queue into the
  per-connection outboxes, flushing them to the sockets, and the at-least-once delivery of reliable
  frames (sequence stamping, cumulative acknowledgement, retransmission).

  The lemmas show that the retransmit buffer of a connection always holds a contiguous block of sequence
  numbers ending at the last one assigned, that no connection with unacknowledged frames escapes the
  retransmit sweep, that an outbox never exceeds its capacity, and that a failed authentication is final.
\<close>

section \<open>Configuration\<close>

record OutgoingWorkerConfig =
  time_budget :: time
  max_per_tick :: nat
  retransmit_timeout :: time
  max_retransmits :: "16 word"

definition default_worker :: OutgoingWorkerConfig where
  "default_worker = \<lparr> time_budget = 1000, max_per_tick = 256, retransmit_timeout = 500000,
     max_retransmits = 8 \<rparr>"

section \<open>The transport calls\<close>

definition transport_send :: "'s wsapi \<Rightarrow> WsHandle \<Rightarrow> string \<Rightarrow> bool \<Rightarrow> 's \<Rightarrow> bool \<times> 's" where
  "transport_send api h data binary s =
     (case h of None \<Rightarrow> (False, s)
      | Some c \<Rightarrow> (case sock_send api c data binary s of (status, s') \<Rightarrow> (status = SUCCESS, s')))"

definition is_backpressured :: "'s wsapi \<Rightarrow> WsHandle \<Rightarrow> 's \<Rightarrow> bool" where
  "is_backpressured api h s =
     (case h of None \<Rightarrow> False | Some c \<Rightarrow> buffered_amount api c s \<ge> 512 * 1024)"

text \<open>\<^verbatim>\<open>stamp_envelope_seq\<close>: an envelope that does not parse is replaced by the default one.\<close>

definition default_envelope :: Envelope where
  "default_envelope = \<lparr> env_version = 0, env_type = UNKNOWN, env_seq = 0, env_payload = [] \<rparr>"

definition stamp_envelope_seq :: "'s wsapi \<Rightarrow> string \<Rightarrow> 64 word \<Rightarrow> string" where
  "stamp_envelope_seq api base seq =
     serialize_envelope api
       ((case parse_envelope api base of Some e \<Rightarrow> e | None \<Rightarrow> default_envelope)\<lparr> env_seq := seq \<rparr>)"

section \<open>Filling the outboxes\<close>

text \<open>\<^verbatim>\<open>q.erase(std::next(rit).base())\<close> for the last element that satisfies the predicate.\<close>

fun remove_last :: "('a \<Rightarrow> bool) \<Rightarrow> 'a list \<Rightarrow> 'a list" where
  "remove_last P [] = []"
| "remove_last P (x # xs) = (if P x \<and> \<not> (\<exists>y\<in>set xs. P y) then xs else x # remove_last P xs)"

definition slow_drop_item :: OutboundItem where
  "slow_drop_item = \<lparr> item_priority = OutHigh, item_action = DropConnection 4409 ''slow_outbox_overflow'' \<rparr>"

text \<open>The mutator of \<^verbatim>\<open>enqueue_to_outbox\<close>.\<close>

definition outbox_push :: "OutboundItem \<Rightarrow> PerConnectionOutbox \<Rightarrow> PerConnectionOutbox" where
  "outbox_push item ob =
     (if length (ob_q ob) < ob_capacity ob then ob\<lparr> ob_q := ob_q ob @ [item] \<rparr>
      else if item_priority item = OutLow then ob
      else if \<exists>m\<in>set (ob_q ob). item_priority m = OutLow then
        ob\<lparr> ob_q := remove_last (\<lambda>m. item_priority m = OutLow) (ob_q ob) @ [item] \<rparr>
      else
        (let ob = ob\<lparr> slow_hits := slow_hits ob + 1 \<rparr>
         in if slow_hits ob \<ge> 4 then
              ob\<lparr> ob_q := [slow_drop_item], slow_hits := 0, drop_pending := True \<rparr>
            else ob))"

definition enqueue_to_outbox ::
    "OutgoingMessage \<Rightarrow> GlobalConnId \<Rightarrow> 's net \<times> ConnId list \<Rightarrow> 's net \<times> ConnId list" where
  "enqueue_to_outbox msg g w =
     (case w of (st, touched) \<Rightarrow>
        let item = \<lparr> item_priority = msg_priority msg, item_action = msg_action msg \<rparr>;
            (r, found) = mutate (conn_id g) (\<lambda>ctx. ctx\<lparr> outbox := outbox_push item (outbox ctx) \<rparr>) (reg st)
        in if found then (st\<lparr> reg := r \<rparr>, set_insert (conn_id g) touched)
           else (st\<lparr> out_q := (out_q st)\<lparr> dropped_outbound_total := dropped_outbound_total (out_q st) + 1 \<rparr> \<rparr>, touched))"

definition distribute :: "OutgoingMessage \<Rightarrow> 's net \<times> ConnId list \<Rightarrow> 's net \<times> ConnId list" where
  "distribute msg w = fold (enqueue_to_outbox msg) (msg_target msg) w"

text \<open>\<^verbatim>\<open>tick_deadline_enabled_ && steady_clock::now() >= tick_deadline_\<close>; the clock is read only
  when a deadline is set.\<close>

definition deadline_passed :: "'s wsapi \<Rightarrow> time option \<Rightarrow> 's net \<Rightarrow> bool \<times> 's net" where
  "deadline_passed api deadline st =
     (case deadline of None \<Rightarrow> (False, st)
      | Some t \<Rightarrow> (case steady_now api (sock st) of (now, s) \<Rightarrow> (now \<ge> t, st\<lparr> sock := s \<rparr>)))"

text \<open>\<^verbatim>\<open>drain_queue\<close>: the first argument counts the messages that may still be processed this tick.\<close>

fun drain_queue :: "'s wsapi \<Rightarrow> time option \<Rightarrow> nat \<Rightarrow> 's net \<times> ConnId list \<Rightarrow> 's net \<times> ConnId list" where
  "drain_queue api deadline 0 w = w"
| "drain_queue api deadline (Suc n) (st, touched) =
     (case deadline_passed api deadline st of (passed, st) \<Rightarrow>
        if passed then (st, touched)
        else (case oq_try_pop (out_q st) of
                None \<Rightarrow> (st, touched)
              | Some (msg, q) \<Rightarrow> drain_queue api deadline n (distribute msg (st\<lparr> out_q := q \<rparr>, touched))))"

section \<open>Flushing an outbox\<close>

text \<open>\<^verbatim>\<open>send_payload\<close> on the context, the set of connections with unacknowledged frames and the
  sockets; the flag says whether the action was consumed.\<close>

type_synonym 's flush = "ConnectionContext \<times> ConnId list \<times> 's"

definition send_payload :: "'s wsapi \<Rightarrow> ConnId \<Rightarrow> Payload \<Rightarrow> bool \<Rightarrow> 's flush \<Rightarrow> bool \<times> 's flush" where
  "send_payload api cid payload rel w =
     (case w of (ctx, unacked, s) \<Rightarrow>
      case payload_data payload of
        None \<Rightarrow> (True, w)
      | Some data \<Rightarrow>
          if is_backpressured api (ctx_handle ctx) s then (False, w)
          else if \<not> handle_valid (ctx_handle ctx) then (True, w)
          else if rel then
            (let seq = next_seq (reliable ctx) + 1;
                 wire = stamp_envelope_seq api data seq;
                 (sent, s) = transport_send api (ctx_handle ctx) wire (is_binary payload) s
             in if \<not> sent then (False, (ctx, unacked, s))
                else
                  (let (now, s) = steady_now api s;
                       frame = \<lparr> p_seq = seq, p_bytes = wire, last_sent_at = now, attempts = 1 \<rparr>;
                       r = (reliable ctx)\<lparr> next_seq := seq, rel_buffer := rel_buffer (reliable ctx) @ [frame] \<rparr>
                   in (True, (ctx\<lparr> reliable := r \<rparr>, set_insert cid unacked, s))))
          else
            (let (sent, s) = transport_send api (ctx_handle ctx) data (is_binary payload) s
             in (sent, (ctx, unacked, s))))"

definition apply_auth_update :: "AuthState \<Rightarrow> time \<Rightarrow> UserId option \<Rightarrow> ConnectionContext \<Rightarrow> ConnectionContext" where
  "apply_auth_update next expires uid ctx =
     (if \<not> (auth_state ctx = AUTH_FAILED \<and> next \<noteq> AUTH_FAILED) then
        ctx\<lparr> auth_state := next, auth_expires_at := expires, ctx_user_id := uid \<rparr>
      else ctx)"

text \<open>The loop of \<^verbatim>\<open>flush_connection_outbox\<close>: what is left of the queue and the drop it found.\<close>

fun flush_queue :: "'s wsapi \<Rightarrow> ConnId \<Rightarrow> OutboundItem list \<Rightarrow> 's flush
    \<Rightarrow> OutboundItem list \<times> (int \<times> string) option \<times> 's flush" where
  "flush_queue api cid [] w = ([], None, w)"
| "flush_queue api cid (m # q) (ctx, unacked, s) =
     (case item_action m of
        SendPayload payload rel \<Rightarrow>
          (case send_payload api cid payload rel (ctx, unacked, s) of (processed, w') \<Rightarrow>
             if processed then flush_queue api cid q w' else (m # q, None, w'))
      | UpdateAuthState next expires uid \<Rightarrow>
          flush_queue api cid q (apply_auth_update next expires uid ctx, unacked, s)
      | DropConnection code reason \<Rightarrow> ([], Some (code, reason), (ctx, unacked, s)))"

definition flush_connection_outbox :: "'s wsapi \<Rightarrow> ConnId \<Rightarrow> 's net \<Rightarrow> 's net" where
  "flush_connection_outbox api cid st =
     (case ctx_of st cid of
        None \<Rightarrow> st
      | Some ctx \<Rightarrow>
          (case flush_queue api cid (ob_q (outbox ctx)) (ctx, pending_unacked st, sock st) of
             (q, dropc, (ctx', unacked, s)) \<Rightarrow>
               let st' = upd_ctx cid (\<lambda>_. ctx'\<lparr> outbox := (outbox ctx')\<lparr> ob_q := q \<rparr> \<rparr>)
                           (st\<lparr> pending_unacked := unacked, sock := s \<rparr>)
               in (case dropc of
                     Some (code, reason) \<Rightarrow> handle_end api (ctx_handle ctx') code reason st'
                   | None \<Rightarrow> st')))"

section \<open>Acknowledgements and retransmission\<close>

definition ack_reliable :: "64 word \<Rightarrow> ReliableOutbound \<Rightarrow> ReliableOutbound" where
  "ack_reliable ack r =
     r\<lparr> acked_seq := (if ack > acked_seq r then ack else acked_seq r),
        rel_buffer := dropWhile (\<lambda>p. p_seq p \<le> ack) (rel_buffer r) \<rparr>"

definition on_ack :: "ConnId \<Rightarrow> 64 word \<Rightarrow> 's net \<Rightarrow> 's net" where
  "on_ack cid ack st =
     (let st' = upd_ctx cid (\<lambda>ctx. ctx\<lparr> reliable := ack_reliable ack (reliable ctx) \<rparr>) st
      in case ctx_of st' cid of
           Some ctx \<Rightarrow> if rel_buffer (reliable ctx) = []
                       then st'\<lparr> pending_unacked := removeAll cid (pending_unacked st') \<rparr> else st'
         | None \<Rightarrow> st'\<lparr> pending_unacked := removeAll cid (pending_unacked st') \<rparr>)"

text \<open>The resend loop over one connection's buffer.\<close>

fun sweep_frames :: "'s wsapi \<Rightarrow> OutgoingWorkerConfig \<Rightarrow> time \<Rightarrow> WsHandle \<Rightarrow> PendingFrame list \<Rightarrow> 's
    \<Rightarrow> PendingFrame list \<times> (int \<times> string) option \<times> 's" where
  "sweep_frames api cfg now h [] s = ([], None, s)"
| "sweep_frames api cfg now h (p # ps) s =
     (if now - last_sent_at p < retransmit_timeout cfg then
        (case sweep_frames api cfg now h ps s of (ps', dropc, s') \<Rightarrow> (p # ps', dropc, s'))
      else if attempts p \<ge> max_retransmits cfg then (p # ps, Some (4409, ''reliable_ack_timeout''), s)
      else if is_backpressured api h s then (p # ps, None, s)
      else (case transport_send api h (p_bytes p) True s of (sent, s1) \<Rightarrow>
             let p' = (if sent then p\<lparr> last_sent_at := now, attempts := attempts p + 1 \<rparr> else p)
             in case sweep_frames api cfg now h ps s1 of (ps', dropc, s') \<Rightarrow> (p' # ps', dropc, s')))"

text \<open>One iteration of the sweep: the state, the connections to forget, the closes to make.\<close>

type_synonym 's sweep = "'s net \<times> ConnId list \<times> (WsHandle \<times> int \<times> string) list"

definition sweep_conn :: "'s wsapi \<Rightarrow> OutgoingWorkerConfig \<Rightarrow> time \<Rightarrow> ConnId \<Rightarrow> 's sweep \<Rightarrow> 's sweep" where
  "sweep_conn api cfg now cid w =
     (case w of (st, to_erase, drops) \<Rightarrow>
      case ctx_of st cid of
        None \<Rightarrow> (st, to_erase @ [cid], drops)
      | Some ctx \<Rightarrow>
          (let buf = rel_buffer (reliable ctx); h = ctx_handle ctx in
           if buf = [] then (st, to_erase @ [cid], drops)
           else if length buf > rel_capacity (reliable ctx) then
             (st, to_erase @ [cid], drops @ [(h, 4409, ''reliable_buffer_overflow'')])
           else if \<not> handle_valid h then w
           else (case sweep_frames api cfg now h buf (sock st) of (buf', dropc, s) \<Rightarrow>
                  let st' = upd_ctx cid (\<lambda>c. c\<lparr> reliable := (reliable c)\<lparr> rel_buffer := buf' \<rparr> \<rparr>) (st\<lparr> sock := s \<rparr>)
                  in case dropc of
                       Some (code, reason) \<Rightarrow> (st', to_erase @ [cid], drops @ [(h, code, reason)])
                     | None \<Rightarrow> (st', to_erase, drops))))"

definition retransmit_sweep :: "'s wsapi \<Rightarrow> OutgoingWorkerConfig \<Rightarrow> 's net \<Rightarrow> 's net" where
  "retransmit_sweep api cfg st =
     (if pending_unacked st = [] then st
      else (case steady_now api (sock st) of (now, s) \<Rightarrow>
        case fold (sweep_conn api cfg now) (pending_unacked st) (st\<lparr> sock := s \<rparr>, [], []) of
          (st', to_erase, drops) \<Rightarrow>
            fold (\<lambda>(h, code, reason). handle_end api h code reason) drops
              (st'\<lparr> pending_unacked := filter (\<lambda>c. c \<notin> set to_erase) (pending_unacked st') \<rparr>)))"

section \<open>\<^verbatim>\<open>tick\<close>\<close>

fun flush_touched :: "'s wsapi \<Rightarrow> time option \<Rightarrow> ConnId list \<Rightarrow> 's net \<Rightarrow> 's net" where
  "flush_touched api deadline [] st = st"
| "flush_touched api deadline (c # cs) st =
     (case deadline_passed api deadline st of (passed, st) \<Rightarrow>
        if passed then st else flush_touched api deadline cs (flush_connection_outbox api c st))"

definition worker_tick :: "'s wsapi \<Rightarrow> OutgoingWorkerConfig \<Rightarrow> 's net \<Rightarrow> 's net" where
  "worker_tick api cfg st =
     (case steady_now api (sock st) of (start, s) \<Rightarrow>
        let deadline = (if time_budget cfg > 0 then Some (start + time_budget cfg) else None);
            (st1, touched) = drain_queue api deadline (max_per_tick cfg) (st\<lparr> sock := s \<rparr>, []);
            st2 = flush_touched api deadline touched st1
        in retransmit_sweep api cfg st2)"

section \<open>Invariants of one connection\<close>

text \<open>The retransmit buffer holds the last sequence numbers assigned, without a gap, in ascending
  order (counting modulo \<open>2^64\<close>).\<close>

definition rel_contig :: "ReliableOutbound \<Rightarrow> bool" where
  "rel_contig r \<longleftrightarrow>
     map p_seq (rel_buffer r) = map (\<lambda>i. next_seq r - of_nat i) (rev [0..<length (rel_buffer r)])"

definition outbox_ok :: "PerConnectionOutbox \<Rightarrow> bool" where
  "outbox_ok ob \<longleftrightarrow> 0 < ob_capacity ob \<and> length (ob_q ob) \<le> ob_capacity ob \<and> slow_hits ob < 4"

lemma rev_upt_Suc: "rev [0..<Suc n] = map Suc (rev [0..<n]) @ [0]"
  by (simp add: rev_map map_Suc_upt upt_conv_Cons del: upt_Suc flip: rev_map)

lemma rel_contig_new [simp]: "rel_contig new_reliable"
  by (simp add: rel_contig_def new_reliable_def)

lemma outbox_ok_new [simp]: "outbox_ok new_outbox"
  by (simp add: outbox_ok_def new_outbox_def)

lemma rel_contig_append:
  assumes "rel_contig r" "p_seq f = next_seq r + 1"
  shows "rel_contig (r\<lparr> next_seq := next_seq r + 1, rel_buffer := rel_buffer r @ [f] \<rparr>)"
  using assms by (simp add: rel_contig_def rev_upt_Suc comp_def del: upt_Suc)

lemma drop_rev_upt: "drop k (rev [0..<n]) = rev [0..<n - k]"
  by (simp add: drop_rev)

lemma rel_contig_ack:
  assumes "rel_contig r"
  shows "rel_contig (ack_reliable a r)"
proof -
  let ?b = "rel_buffer r"
  define k where "k = length (takeWhile (\<lambda>p. p_seq p \<le> a) ?b)"
  have d: "dropWhile (\<lambda>p. p_seq p \<le> a) ?b = drop k ?b" by (simp add: k_def dropWhile_eq_drop)
  have "map p_seq (drop k ?b) = drop k (map (\<lambda>i. next_seq r - of_nat i) (rev [0..<length ?b]))"
    using assms unfolding rel_contig_def by (metis drop_map)
  then show ?thesis by (simp add: rel_contig_def ack_reliable_def d drop_map drop_rev_upt)
qed

lemma sweep_frames_seqs:
  "sweep_frames api cfg now h ps s = (ps', dc, s') \<Longrightarrow> map p_seq ps' = map p_seq ps \<and> map p_bytes ps' = map p_bytes ps"
  by (induction ps arbitrary: s ps' s') (auto split: if_split_asm prod.splits simp: Let_def)

lemma rel_contig_seqs:
  assumes "rel_contig r" "map p_seq ps = map p_seq (rel_buffer r)"
  shows "rel_contig (r\<lparr> rel_buffer := ps \<rparr>)"
  using assms by (simp add: rel_contig_def) (metis length_map)

lemma length_remove_last: "\<exists>x\<in>set xs. P x \<Longrightarrow> Suc (length (remove_last P xs)) = length xs"
  by (induction xs) auto

lemma slow_hits_step: "(h::32 word) < 4 \<Longrightarrow> \<not> 4 \<le> h + 1 \<Longrightarrow> h + 1 < 4"
  by simp

lemma outbox_push_ok [inv_intros]: "outbox_ok ob \<Longrightarrow> outbox_ok (outbox_push item ob)"
  using length_remove_last[of "ob_q ob" "\<lambda>m. item_priority m = OutLow"]
  by (auto simp: outbox_ok_def outbox_push_def Let_def not_le)

section \<open>Flushing in order\<close>

text \<open>The payloads of the reliable sends of a queue, and the frames they become after a sequence
  number.\<close>

fun reliable_data :: "OutboundItem list \<Rightarrow> string list" where
  "reliable_data [] = []"
| "reliable_data (m # q) = (case item_action m of
      SendPayload p True \<Rightarrow> (case payload_data p of Some d \<Rightarrow> d # reliable_data q | None \<Rightarrow> reliable_data q)
    | _ \<Rightarrow> reliable_data q)"

fun stamped :: "'s wsapi \<Rightarrow> 64 word \<Rightarrow> string list \<Rightarrow> (64 word \<times> string) list" where
  "stamped api n [] = []"
| "stamped api n (d # ds) = (n + 1, stamp_envelope_seq api d (n + 1)) # stamped api (n + 1) ds"

definition frames :: "ReliableOutbound \<Rightarrow> (64 word \<times> string) list" where
  "frames r = map (\<lambda>p. (p_seq p, p_bytes p)) (rel_buffer r)"

lemma length_stamped [simp]: "length (stamped api n ds) = length ds"
  by (induction ds arbitrary: n) auto

text \<open>What one send does to the reliable state.\<close>

lemma send_payload_frame:
  assumes "send_payload api cid p rel (ctx, u, s) = (ok, ctx', u', s')" "ctx_handle ctx = Some h"
  defines "ds \<equiv> (if ok \<and> rel then (case payload_data p of Some d \<Rightarrow> [d] | None \<Rightarrow> []) else [])"
  shows "ctx' = ctx\<lparr> reliable := reliable ctx' \<rparr>"
    and "frames (reliable ctx') = frames (reliable ctx) @ stamped api (next_seq (reliable ctx)) ds"
    and "next_seq (reliable ctx') = next_seq (reliable ctx) + of_nat (length ds)"
    and "rel_contig (reliable ctx) \<Longrightarrow> rel_contig (reliable ctx')"
    and "rel_buffer (reliable ctx') \<noteq> rel_buffer (reliable ctx) \<Longrightarrow> cid \<in> set u'"
    and "set u \<subseteq> set u'" "set u' \<subseteq> insert cid (set u)"
  using assms(1,2) unfolding ds_def
  by (auto simp: send_payload_def Let_def frames_def handle_valid_def rel_contig_append
      split: option.splits if_split_asm prod.splits)

lemma send_payload_handle:
  "send_payload api cid p rel (ctx, u, s) = (ok, ctx', u', s') \<Longrightarrow> ctx_handle ctx' = ctx_handle ctx"
  by (auto simp: send_payload_def Let_def split: option.splits if_split_asm prod.splits)

lemma stamped_append:
  "stamped api n (as @ bs) = stamped api n as @ stamped api (n + of_nat (length as)) bs"
  by (induction as arbitrary: n) (simp_all add: add.assoc)

text \<open>A flush consumes a prefix of the queue; the reliable sends in it become frames with
  consecutive numbers.\<close>

definition flushed :: "'s wsapi \<Rightarrow> OutboundItem list \<Rightarrow> OutboundItem list \<Rightarrow> (int \<times> string) option
    \<Rightarrow> ReliableOutbound \<Rightarrow> ReliableOutbound \<Rightarrow> OutboundItem list \<Rightarrow> bool" where
  "flushed api q rest dc r r' taken \<longleftrightarrow>
     (if dc = None then q = taken @ rest else rest = [] \<and> strict_prefix taken q)
     \<and> frames r' = frames r @ stamped api (next_seq r) (reliable_data taken)
     \<and> next_seq r' = next_seq r + of_nat (length (reliable_data taken))"

lemma flushed_Cons:
  assumes "flushed api q rest dc r1 r' taken"
    and "frames r1 = frames r @ stamped api (next_seq r) (reliable_data [m])"
    and "next_seq r1 = next_seq r + of_nat (length (reliable_data [m]))"
  shows "flushed api (m # q) rest dc r r' (m # taken)"
proof -
  have "reliable_data (m # taken) = reliable_data [m] @ reliable_data taken"
    by (simp split: Action.split option.split bool.split)
  with assms show ?thesis
    by (auto simp: flushed_def stamped_append add.assoc simp del: reliable_data.simps split: if_split_asm)
qed

lemma flush_queue_spec:
  assumes "flush_queue api cid q (ctx, u, s) = (rest, dc, ctx', u', s')" "ctx_handle ctx = Some h"
  shows "\<exists>taken. flushed api q rest dc (reliable ctx) (reliable ctx') taken"
  using assms
proof (induction q arbitrary: ctx u s)
  case Nil
  then show ?case by (auto simp: flushed_def)
next
  case (Cons m q)
  show ?case
  proof (cases "item_action m")
    case (SendPayload p rel)
    obtain ok ctx1 u1 s1 where sp: "send_payload api cid p rel (ctx, u, s) = (ok, ctx1, u1, s1)"
      by (metis prod_cases4)
    note f = send_payload_frame[OF sp Cons.prems(2)]
    show ?thesis
    proof (cases ok)
      case True
      with Cons.prems SendPayload sp have
        "flush_queue api cid q (ctx1, u1, s1) = (rest, dc, ctx', u', s')" by simp
      moreover have "ctx_handle ctx1 = Some h" using send_payload_handle[OF sp] Cons.prems(2) by simp
      ultimately obtain taken where t: "flushed api q rest dc (reliable ctx1) (reliable ctx') taken"
        using Cons.IH by blast
      have rd: "reliable_data [m] =
          (if ok \<and> rel then (case payload_data p of Some d \<Rightarrow> [d] | None \<Rightarrow> []) else [])"
        using True SendPayload by (cases rel) (simp_all split: option.split)
      show ?thesis using flushed_Cons[OF t f(2,3)[folded rd]] by blast
    next
      case False
      with Cons.prems SendPayload sp have "rest = m # q" "dc = None" "ctx' = ctx1" by auto
      then show ?thesis using f(2,3) False by (auto simp: flushed_def intro!: exI[of _ "[]"])
    qed
  next
    case (UpdateAuthState nx ex us)
    with Cons.prems have fq: "flush_queue api cid q (apply_auth_update nx ex us ctx, u, s) = (rest, dc, ctx', u', s')"
      by simp
    have "ctx_handle (apply_auth_update nx ex us ctx) = Some h"
      "reliable (apply_auth_update nx ex us ctx) = reliable ctx"
      using Cons.prems(2) by (simp_all add: apply_auth_update_def)
    with Cons.IH[OF fq] obtain taken where "flushed api q rest dc (reliable ctx) (reliable ctx') taken"
      by auto
    from flushed_Cons[OF this, where r = "reliable ctx" and m = m] UpdateAuthState show ?thesis by auto
  next
    case (DropConnection code reason)
    with Cons.prems show ?thesis
      by (auto simp: flushed_def intro!: exI[of _ "[]"])
  qed
qed

section \<open>Invariants of the stack\<close>

text \<open>Contexts are well formed, and every connection that holds unacknowledged frames is in the
  index the retransmit sweep visits.\<close>

definition net_inv :: "'s net \<Rightarrow> bool" where
  "net_inv st \<longleftrightarrow> reg_ok (reg st) \<and> oq_wf (out_q st) \<and> eq_wf (event_sink st)
     \<and> (\<forall>c ctx. ctx_of st c = Some ctx \<longrightarrow> rel_contig (reliable ctx) \<and> outbox_ok (outbox ctx)
          \<and> (rel_buffer (reliable ctx) \<noteq> [] \<longrightarrow> c \<in> set (pending_unacked st)))"

text \<open>What no handler of the loop undoes: a failed authentication, and which socket a context has.\<close>

definition auth_keep :: "ConnectionContext \<Rightarrow> ConnectionContext \<Rightarrow> bool" where
  "auth_keep c c' \<longleftrightarrow> (auth_state c = AUTH_FAILED \<longrightarrow> auth_state c' = AUTH_FAILED)
     \<and> ctx_handle c' = ctx_handle c \<and> ctx_conn_id c' = ctx_conn_id c"

abbreviation net_keeps :: "'s net \<Rightarrow> 's net \<Rightarrow> bool" where
  "net_keeps st st' \<equiv> cr.descends auth_keep (reg st) (reg st')"

lemma auth_keep_refl [simp]: "auth_keep c c"
  by (simp add: auth_keep_def)

lemma auth_keep_trans: "auth_keep a b \<Longrightarrow> auth_keep b c \<Longrightarrow> auth_keep a c"
  by (simp add: auth_keep_def)

lemma net_keeps_refl [simp]: "net_keeps st st"
  by (rule cr.descends_refl) simp

lemma net_keeps_trans: "net_keeps a b \<Longrightarrow> net_keeps b c \<Longrightarrow> net_keeps a c"
  using cr.descends_trans auth_keep_trans by blast

lemma net_invD:
  assumes "net_inv st" "ctx_of st c = Some ctx"
  shows "rel_contig (reliable ctx)" "outbox_ok (outbox ctx)" "ctx_handle ctx = Some c" "ctx_conn_id ctx = c"
    "rel_buffer (reliable ctx) \<noteq> [] \<Longrightarrow> c \<in> set (pending_unacked st)"
  using assms by (auto simp: net_inv_def reg_ok_def)

lemma net_inv_sock [simp]: "net_inv (st\<lparr> sock := s \<rparr>) = net_inv st"
  by (simp add: net_inv_def)

text \<open>The two ways a handler changes the state: a connection is updated, or it is closed.\<close>

lemma net_inv_upd:
  assumes "net_inv st" "ctx_of st c = Some ctx"
    and "ctx_handle (f ctx) = ctx_handle ctx" "ctx_conn_id (f ctx) = ctx_conn_id ctx"
    and "rel_contig (reliable (f ctx))" "outbox_ok (outbox (f ctx))"
    and "rel_buffer (reliable (f ctx)) \<noteq> [] \<Longrightarrow> c \<in> set u"
    and "set (pending_unacked st) \<subseteq> insert c (set u)"
  shows "net_inv (upd_ctx c f (st\<lparr> pending_unacked := u, sock := s \<rparr>))"
proof -
  let ?st = "upd_ctx c f (st\<lparr> pending_unacked := u, sock := s \<rparr>)"
  have *: "ctx_handle ctx' = Some k \<and> ctx_conn_id ctx' = k \<and> rel_contig (reliable ctx') \<and> outbox_ok (outbox ctx')
      \<and> (rel_buffer (reliable ctx') \<noteq> [] \<longrightarrow> k \<in> set u)"
    if "ctx_of ?st k = Some ctx'" for k ctx'
  proof (cases "k = c")
    case True
    then have "ctx' = f ctx" using that assms(2) by simp
    then show ?thesis using True assms(3-7) net_invD(3,4)[OF assms(1,2)] by simp
  next
    case False
    then have "ctx_of st k = Some ctx'" using that by simp
    from net_invD[OF assms(1) this] show ?thesis using False assms(8) by auto
  qed
  have "umap_ok (connections (reg ?st))"
    using assms(1) by (auto simp: net_inv_def reg_ok_def upd_ctx_def mutate_def split: option.split)
  then have "reg_ok (reg ?st)" unfolding reg_ok_def using * by blast
  moreover have "oq_wf (out_q ?st)" "eq_wf (event_sink ?st)" "pending_unacked ?st = u"
    using assms(1) by (simp_all add: net_inv_def)
  ultimately show ?thesis unfolding net_inv_def using * by metis
qed

lemma net_inv_close [inv_intros]: "net_inv st \<Longrightarrow> net_inv (on_close c code reason st)"
  by (auto simp: net_inv_def on_close_def reg_ok_detach detach_find eq_push_wf split: if_split_asm)

lemma net_inv_end [inv_intros]: "net_inv st \<Longrightarrow> net_inv (handle_end api h code reason st)"
  by (simp add: handle_end_def net_inv_close split: option.split)

lemma net_keeps_upd:
  assumes "\<And>ctx. ctx_of st c = Some ctx \<Longrightarrow> auth_keep ctx (f ctx)"
  shows "net_keeps st (upd_ctx c f (st\<lparr> pending_unacked := u, sock := s \<rparr>))"
  unfolding upd_ctx_def using assms by (simp add: cr.descends_modify)

lemma net_keeps_close: "net_keeps st (on_close c code reason st)"
  by (simp add: on_close_def cr.descends_remove)

lemma net_keeps_end: "net_keeps st (handle_end api h code reason st)"
  by (simp add: handle_end_def on_close_def cr.descends_remove split: option.split)

section \<open>Each operation of the worker keeps them\<close>

definition good :: "'s net \<Rightarrow> 's net \<Rightarrow> bool" where
  "good st st' \<longleftrightarrow> (net_inv st \<longrightarrow> net_inv st' \<and> net_keeps st st')"

lemma good_refl [simp]: "good st st"
  by (simp add: good_def)

lemma good_trans: "good a b \<Longrightarrow> good b c \<Longrightarrow> good a c"
  unfolding good_def using net_keeps_trans by blast

lemma good_sock [simp]: "good st (st\<lparr> sock := s \<rparr>)"
  using net_keeps_refl[of st] by (simp add: good_def)

lemma good_end: "good st (handle_end api h code reason st)"
  unfolding good_def using net_inv_end net_keeps_end by blast

lemma good_fold: "(\<And>x w. good (g w) (g (f x w))) \<Longrightarrow> good (g w) (g (fold f xs w))"
  by (induction xs arbitrary: w) (auto intro: good_trans)

lemma oq_wf_bump: "oq_wf q \<Longrightarrow> oq_wf (q\<lparr> dropped_outbound_total := Suc (dropped_outbound_total q) \<rparr>)"
  by (auto simp: oq_wf_def)

lemma good_enqueue: "good (fst w) (fst (enqueue_to_outbox msg gc w))"
proof (cases w)
  case (Pair st touched)
  let ?it = "\<lparr> item_priority = msg_priority msg, item_action = msg_action msg \<rparr>"
  let ?f = "\<lambda>ctx. ctx\<lparr> outbox := outbox_push ?it (outbox ctx) \<rparr>"
  show ?thesis
  proof (cases "ctx_of st (conn_id gc)")
    case None
    then have "fst (enqueue_to_outbox msg gc w) = st\<lparr> out_q := (out_q st)\<lparr> dropped_outbound_total := dropped_outbound_total (out_q st) + 1 \<rparr> \<rparr>"
      by (simp add: enqueue_to_outbox_def Pair mutate_def Let_def)
    then show ?thesis using net_keeps_refl[of st] oq_wf_bump[of "out_q st"]
      by (simp add: good_def net_inv_def Pair)
  next
    case (Some ctx)
    then have e: "fst (enqueue_to_outbox msg gc w) =
        upd_ctx (conn_id gc) ?f (st\<lparr> pending_unacked := pending_unacked st, sock := sock st \<rparr>)"
      by (simp add: enqueue_to_outbox_def Pair mutate_def upd_ctx_def Let_def)
    have "net_inv (fst (enqueue_to_outbox msg gc w))" if inv: "net_inv st"
      unfolding e by (rule net_inv_upd[OF inv Some]) (auto simp: net_invD[OF inv Some] outbox_push_ok)
    moreover have "net_keeps st (fst (enqueue_to_outbox msg gc w))"
      unfolding e by (rule net_keeps_upd) (simp add: auth_keep_def)
    ultimately show ?thesis by (simp add: good_def Pair)
  qed
qed

lemma good_distribute: "good (fst w) (fst (distribute msg w))"
  unfolding distribute_def by (rule good_fold) (rule good_enqueue)

lemma good_deadline: "deadline_passed api d st = (b, st') \<Longrightarrow> good st st'"
  by (auto simp: deadline_passed_def split: option.splits prod.splits)

lemma good_pop: "oq_try_pop (out_q st) = Some (m, q) \<Longrightarrow> good st (st\<lparr> out_q := q \<rparr>)"
  using net_keeps_refl[of st] oq_try_pop_wf by (simp add: good_def net_inv_def) blast

lemma good_drain: "good (fst w) (fst (drain_queue api d n w))"
proof (induction n arbitrary: w)
  case (Suc n)
  obtain st touched where w: "w = (st, touched)" by force
  obtain b st1 where d: "deadline_passed api d st = (b, st1)" by force
  show ?case
  proof (cases "b \<or> oq_try_pop (out_q st1) = None")
    case True
    then show ?thesis using good_deadline[OF d] by (auto simp: w d)
  next
    case False
    then obtain m q where p: "oq_try_pop (out_q st1) = Some (m, q)" by auto
    let ?w = "distribute m (st1\<lparr> out_q := q \<rparr>, touched)"
    have "good st (fst ?w)"
      using good_trans[OF good_deadline[OF d] good_trans[OF good_pop[OF p]]]
        good_distribute[of "(st1\<lparr> out_q := q \<rparr>, touched)" m] by simp
    then show ?thesis using good_trans[OF _ Suc.IH[of ?w]] False p by (simp add: w d)
  qed
qed simp

text \<open>The flush loop changes only the reliable state and the authentication fields of the context.\<close>

lemma send_payload_keep:
  assumes "send_payload api cid p rel (ctx, u, s) = (ok, ctx', u', s')"
  shows "auth_keep ctx ctx'" "outbox ctx' = outbox ctx"
  using assms by (auto simp: send_payload_def Let_def auth_keep_def split: option.splits if_split_asm prod.splits)

lemma flush_queue_keep:
  assumes "flush_queue api cid q (ctx, u, s) = (rest, dc, ctx', u', s')" "ctx_handle ctx = Some h"
    and "rel_contig (reliable ctx)" "rel_buffer (reliable ctx) \<noteq> [] \<Longrightarrow> cid \<in> set u"
  shows "auth_keep ctx ctx' \<and> outbox ctx' = outbox ctx \<and> rel_contig (reliable ctx')
    \<and> (rel_buffer (reliable ctx') \<noteq> [] \<longrightarrow> cid \<in> set u') \<and> set u \<subseteq> set u' \<and> length rest \<le> length q"
  using assms
proof (induction q arbitrary: ctx u s)
  case (Cons m q)
  show ?case
  proof (cases "item_action m")
    case (SendPayload p rel)
    obtain ok ctx1 u1 s1 where sp: "send_payload api cid p rel (ctx, u, s) = (ok, ctx1, u1, s1)"
      by (metis prod_cases4)
    note f = send_payload_frame[OF sp Cons.prems(2)] and k = send_payload_keep[OF sp]
    have 1: "ctx_handle ctx1 = Some h" using k(1) Cons.prems(2) by (simp add: auth_keep_def)
    have 2: "rel_buffer (reliable ctx1) \<noteq> [] \<Longrightarrow> cid \<in> set u1"
      using f(5,6) Cons.prems(4) by (cases "rel_buffer (reliable ctx1) = rel_buffer (reliable ctx)") auto
    show ?thesis
    proof (cases ok)
      case True
      then have "flush_queue api cid q (ctx1, u1, s1) = (rest, dc, ctx', u', s')"
        using Cons.prems(1) SendPayload sp by simp
      from Cons.IH[OF this 1 f(4)[OF Cons.prems(3)] 2] show ?thesis
        using k f(6) auth_keep_trans[of ctx ctx1 ctx'] by auto
    next
      case False
      then show ?thesis using Cons.prems SendPayload sp k f(4,6) 2 by auto
    qed
  next
    case (UpdateAuthState nx ex us)
    let ?c = "apply_auth_update nx ex us ctx"
    have 1: "auth_keep ctx ?c" "reliable ?c = reliable ctx" "outbox ?c = outbox ctx"
      by (auto simp: apply_auth_update_def auth_keep_def)
    have "flush_queue api cid q (?c, u, s) = (rest, dc, ctx', u', s')" using Cons.prems UpdateAuthState by simp
    from Cons.IH[OF this] show ?thesis
      using Cons.prems(2-4) 1 auth_keep_trans[of ctx ?c ctx'] by (auto simp: auth_keep_def)
  next
    case (DropConnection code reason)
    then show ?thesis using Cons.prems by auto
  qed
qed auto

lemma good_flush: "good st (flush_connection_outbox api cid st)"
proof (cases "ctx_of st cid")
  case None
  then show ?thesis by (simp add: flush_connection_outbox_def)
next
  case (Some ctx)
  obtain rest dc ctx' u' s' where fq:
    "flush_queue api cid (ob_q (outbox ctx)) (ctx, pending_unacked st, sock st) = (rest, dc, ctx', u', s')"
    by (metis prod_cases5)
  let ?f = "\<lambda>_. ctx'\<lparr> outbox := (outbox ctx')\<lparr> ob_q := rest \<rparr> \<rparr>"
  let ?st = "upd_ctx cid ?f (st\<lparr> pending_unacked := u', sock := s' \<rparr>)"
  have "good st ?st"
    unfolding good_def
  proof
    assume inv: "net_inv st"
    note k = flush_queue_keep[OF fq net_invD(3)[OF inv Some] net_invD(1)[OF inv Some] net_invD(5)[OF inv Some]]
    have "net_inv ?st"
      using k net_invD(2)[OF inv Some]
      by (intro net_inv_upd[OF inv Some]) (auto simp: auth_keep_def outbox_ok_def)
    moreover have "net_keeps st ?st"
      using k Some by (intro net_keeps_upd) (auto simp: auth_keep_def)
    ultimately show "net_inv ?st \<and> net_keeps st ?st" ..
  qed
  moreover have "flush_connection_outbox api cid st =
      (case dc of Some (code, reason) \<Rightarrow> handle_end api (ctx_handle ctx') code reason ?st | None \<Rightarrow> ?st)"
    by (simp add: flush_connection_outbox_def Some fq Let_def)
  ultimately show ?thesis
    by (auto split: option.split intro: good_trans[OF _ good_end])
qed

lemma good_ack: "good st (on_ack cid ack st)"
proof (cases "ctx_of st cid")
  case None
  have "upd_ctx cid f st = st" for f using None by (simp add: upd_ctx_def mutate_def)
  then have e: "on_ack cid ack st = st\<lparr> pending_unacked := removeAll cid (pending_unacked st) \<rparr>"
    using None by (simp add: on_ack_def Let_def)
  have "net_inv st \<Longrightarrow> net_inv (on_ack cid ack st)"
    using None unfolding e net_inv_def by (metis (no_types, lifting) Diff_iff net.select_convs net.surjective
        net.update_convs(4) option.distinct(1) set_removeAll singletonD)
  then show ?thesis unfolding good_def e using net_keeps_refl[of st] by simp
next
  case (Some ctx)
  let ?f = "\<lambda>c. c\<lparr> reliable := ack_reliable ack (reliable c) \<rparr>"
  let ?u = "if rel_buffer (ack_reliable ack (reliable ctx)) = [] then removeAll cid (pending_unacked st) else pending_unacked st"
  have e: "on_ack cid ack st = upd_ctx cid ?f (st\<lparr> pending_unacked := ?u, sock := sock st \<rparr>)"
    using Some by (simp add: on_ack_def Let_def upd_ctx_def mutate_find)
  have b: "rel_buffer (ack_reliable ack r) \<noteq> [] \<Longrightarrow> rel_buffer r \<noteq> []" for r
    by (auto simp: ack_reliable_def)
  show ?thesis
    unfolding good_def e
  proof
    assume inv: "net_inv st"
    have "net_inv (upd_ctx cid ?f (st\<lparr> pending_unacked := ?u, sock := sock st \<rparr>))"
      using net_invD[OF inv Some] b
      by (intro net_inv_upd[OF inv Some]) (auto simp: rel_contig_ack)
    moreover have "net_keeps st (upd_ctx cid ?f (st\<lparr> pending_unacked := ?u, sock := sock st \<rparr>))"
      by (rule net_keeps_upd) (simp add: auth_keep_def)
    ultimately show "net_inv (upd_ctx cid ?f (st\<lparr> pending_unacked := ?u, sock := sock st \<rparr>))
      \<and> net_keeps st (upd_ctx cid ?f (st\<lparr> pending_unacked := ?u, sock := sock st \<rparr>))" ..
  qed
qed

text \<open>The sweep: a connection it forgets has nothing left to resend, or is closed at the end.\<close>

definition sweep_inv :: "'s sweep \<Rightarrow> bool" where
  "sweep_inv w \<longleftrightarrow> (case w of (st, to_erase, drops) \<Rightarrow>
     \<forall>c\<in>set to_erase. \<forall>ctx. ctx_of st c = Some ctx \<longrightarrow>
       rel_buffer (reliable ctx) = [] \<or> (\<exists>code reason. (Some c, code, reason) \<in> set drops))"

lemma sweep_conn_good: "good (fst w) (fst (sweep_conn api cfg now cid w))"
proof (cases w)
  case (fields st te dr)
  show ?thesis
  proof (cases "fst (sweep_conn api cfg now cid w) = st")
    case True
    then show ?thesis by (simp add: fields)
  next
    case False
    then obtain ctx where Some: "ctx_of st cid = Some ctx"
      by (cases "ctx_of st cid") (auto simp: sweep_conn_def fields)
    obtain buf' dc s where sf:
      "sweep_frames api cfg now (ctx_handle ctx) (rel_buffer (reliable ctx)) (sock st) = (buf', dc, s)"
      by (metis prod_cases3)
    let ?f = "\<lambda>c. c\<lparr> reliable := (reliable c)\<lparr> rel_buffer := buf' \<rparr> \<rparr>"
    have e: "fst (sweep_conn api cfg now cid w) =
        upd_ctx cid ?f (st\<lparr> pending_unacked := pending_unacked st, sock := s \<rparr>)"
      using False by (auto simp: sweep_conn_def fields Some sf Let_def split: option.splits if_split_asm)
    have l: "map p_seq buf' = map p_seq (rel_buffer (reliable ctx))" using sweep_frames_seqs[OF sf] by simp
    then have n: "buf' \<noteq> [] \<Longrightarrow> rel_buffer (reliable ctx) \<noteq> []" by auto
    have "net_inv (fst (sweep_conn api cfg now cid w))" if inv: "net_inv st"
      unfolding e using net_invD[OF inv Some] n
      by (intro net_inv_upd[OF inv Some]) (auto simp: rel_contig_seqs[OF _ l])
    moreover have "net_keeps st (fst (sweep_conn api cfg now cid w))"
      unfolding e by (rule net_keeps_upd) (simp add: auth_keep_def)
    ultimately show ?thesis by (simp add: good_def fields)
  qed
qed

lemma sweep_conn_inv:
  assumes "net_inv (fst w)" "sweep_inv w"
  shows "sweep_inv (sweep_conn api cfg now cid w)"
proof (cases w)
  case (fields st te dr)
  show ?thesis
  proof (cases "ctx_of st cid")
    case None
    then show ?thesis using assms(2) by (auto simp: sweep_inv_def sweep_conn_def fields)
  next
    case (Some ctx)
    have h: "ctx_handle ctx = Some cid" using assms(1) Some by (simp add: fields net_invD(3))
    obtain buf' dc s where sf:
      "sweep_frames api cfg now (ctx_handle ctx) (rel_buffer (reliable ctx)) (sock st) = (buf', dc, s)"
      by (metis prod_cases3)
    have "buf' = [] \<longleftrightarrow> rel_buffer (reliable ctx) = []"
      using sweep_frames_seqs[OF sf] by (metis map_is_Nil_conv)
    then show ?thesis
      using assms(2) h Some sf
      by (auto simp: sweep_inv_def sweep_conn_def fields Let_def handle_valid_def split: option.splits)
  qed
qed

lemma sweep_fold:
  assumes "net_inv (fst w)" "sweep_inv w"
  shows "net_inv (fst (fold (sweep_conn api cfg now) cs w)) \<and> sweep_inv (fold (sweep_conn api cfg now) cs w)"
  using assms
proof (induction cs arbitrary: w)
  case (Cons c cs)
  have "net_inv (fst (sweep_conn api cfg now c w))"
    using sweep_conn_good[of w api cfg now c] Cons.prems(1) by (simp add: good_def)
  then show ?case using Cons.IH sweep_conn_inv[OF Cons.prems] by simp
qed simp

definition end_all :: "'s wsapi \<Rightarrow> (WsHandle \<times> int \<times> string) list \<Rightarrow> 's net \<Rightarrow> 's net" where
  "end_all api dr st = fold (\<lambda>(h, code, reason). handle_end api h code reason) dr st"

lemma end_all_ctx: "ctx_of (end_all api dr st) k =
    (if \<exists>code reason. (Some k, code, reason) \<in> set dr then None else ctx_of st k)"
  unfolding end_all_def
proof (induction dr arbitrary: st)
  case (Cons d dr)
  then show ?case by (cases d) (auto simp: ctx_of_end split: option.splits)
qed simp

lemma end_all_pending [simp]: "pending_unacked (end_all api dr st) = pending_unacked st"
  unfolding end_all_def
  by (induction dr arbitrary: st) (auto simp: handle_end_def on_close_def split: option.split)

lemma end_all_wf: "eq_wf (event_sink st) \<Longrightarrow> eq_wf (event_sink (end_all api dr st))"
  "out_q (end_all api dr st) = out_q st"
  unfolding end_all_def
  by (induction dr arbitrary: st) (auto simp: handle_end_def on_close_def eq_push_wf split: option.split)

lemma reg_ok_end: "reg_ok (reg st) \<Longrightarrow> reg_ok (reg (handle_end api h code reason st))"
  by (simp add: handle_end_def on_close_def reg_ok_detach split: option.split)

lemma reg_ok_end_all: "reg_ok (reg st) \<Longrightarrow> reg_ok (reg (end_all api dr st))"
  unfolding end_all_def by (induction dr arbitrary: st) (auto simp: reg_ok_end)

lemma keeps_end_all: "net_keeps st (end_all api dr st)"
  unfolding end_all_def
  by (induction dr arbitrary: st) (auto intro: net_keeps_trans[OF net_keeps_end])

lemma good_sweep: "good st (retransmit_sweep api cfg st)"
proof (cases "pending_unacked st = []")
  case True
  then show ?thesis by (simp add: retransmit_sweep_def)
next
  case False
  obtain now s where t: "steady_now api (sock st) = (now, s)" by force
  define w where "w = (st\<lparr> sock := s \<rparr>, [] :: ConnId list, [] :: (WsHandle \<times> int \<times> string) list)"
  obtain st' te dr where fo: "fold (sweep_conn api cfg now) (pending_unacked st) w = (st', te, dr)"
    by (metis prod_cases3)
  let ?st = "st'\<lparr> pending_unacked := filter (\<lambda>c. c \<notin> set te) (pending_unacked st') \<rparr>"
  have e: "retransmit_sweep api cfg st = end_all api dr ?st"
    using False by (simp add: retransmit_sweep_def t fo[unfolded w_def] end_all_def)
  have k: "net_keeps st st'" if "net_inv st"
  proof -
    have "good (fst w) (fst (fold (sweep_conn api cfg now) (pending_unacked st) w))"
      by (rule good_fold[where g = fst]) (rule sweep_conn_good)
    then have "good (st\<lparr> sock := s \<rparr>) st'" using fo by (simp add: w_def)
    from good_trans[OF good_sock this] show ?thesis using that by (simp add: good_def)
  qed
  show ?thesis
    unfolding good_def
  proof
    assume inv: "net_inv st"
    then have i: "net_inv st'" "sweep_inv (st', te, dr)"
      using sweep_fold[of w api cfg now "pending_unacked st"] fo by (auto simp: sweep_inv_def w_def)
    have c: "rel_contig (reliable ctx) \<and> outbox_ok (outbox ctx)
        \<and> (rel_buffer (reliable ctx) \<noteq> [] \<longrightarrow> c \<in> set (pending_unacked ?st))"
      if "ctx_of (end_all api dr ?st) c = Some ctx" for c ctx
    proof -
      have "ctx_of st' c = Some ctx" "\<nexists>code reason. (Some c, code, reason) \<in> set dr"
        using that by (auto simp: end_all_ctx split: if_split_asm)
      moreover from this have "rel_buffer (reliable ctx) \<noteq> [] \<Longrightarrow> c \<notin> set te"
        using i(2) unfolding sweep_inv_def by blast
      ultimately show ?thesis using net_invD(1,2,5)[OF i(1), of c ctx] by simp
    qed
    have "reg_ok (reg (end_all api dr ?st))" "oq_wf (out_q (end_all api dr ?st))"
      "eq_wf (event_sink (end_all api dr ?st))"
      using i(1) by (simp_all add: net_inv_def reg_ok_end_all end_all_wf)
    then have "net_inv (end_all api dr ?st)"
      unfolding net_inv_def end_all_pending using c by blast
    moreover have "net_keeps st (end_all api dr ?st)"
      using net_keeps_trans[OF k[OF inv]] keeps_end_all[of ?st api dr] by simp
    ultimately show "net_inv (retransmit_sweep api cfg st) \<and> net_keeps st (retransmit_sweep api cfg st)"
      by (simp add: e)
  qed
qed

lemma good_flush_touched: "good st (flush_touched api d cs st)"
proof (induction cs arbitrary: st)
  case (Cons c cs)
  obtain b st1 where d: "deadline_passed api d st = (b, st1)" by force
  show ?case
    using good_deadline[OF d] good_trans[OF good_trans[OF good_deadline[OF d] good_flush] Cons.IH]
    by (simp add: d)
qed simp

lemma good_tick: "good st (worker_tick api cfg st)"
proof -
  obtain start s where t: "steady_now api (sock st) = (start, s)" by force
  let ?d = "if time_budget cfg > 0 then Some (start + time_budget cfg) else None"
  obtain st1 touched where w: "drain_queue api ?d (max_per_tick cfg) (st\<lparr> sock := s \<rparr>, []) = (st1, touched)"
    by force
  have "good (st\<lparr> sock := s \<rparr>) st1"
    using good_drain[of "(st\<lparr> sock := s \<rparr>, [])" api ?d "max_per_tick cfg"] unfolding w by simp
  from good_trans[OF good_trans[OF good_trans[OF good_sock this] good_flush_touched] good_sweep] show ?thesis
    unfolding worker_tick_def t by (simp add: Let_def w[simplified])
qed

section \<open>Acknowledgement is exact\<close>

lemma dropWhile_sorted:
  "sorted (map f xs) \<Longrightarrow> dropWhile (\<lambda>x. f x \<le> a) xs = filter (\<lambda>x. a < f x) xs"
proof (induction xs)
  case (Cons x xs)
  show ?case
  proof (cases "f x \<le> a")
    case True
    with Cons show ?thesis by auto
  next
    case False
    then have "\<forall>y\<in>set (x # xs). a < f y" using Cons.prems by fastforce
    with False show ?thesis by (simp add: filter_id_conv)
  qed
qed simp

lemma unat_minus_of_nat:
  fixes n :: "64 word"
  assumes "k \<le> unat n"
  shows "unat (n - of_nat k) = unat n - k"
proof -
  have "k < 2 ^ 64" using assms unsigned_less[of n, where 'a = nat] by simp
  then have k: "unat (of_nat k :: 64 word) = k" by (simp add: unat_of_nat take_bit_nat_eq_self)
  then have "(of_nat k :: 64 word) \<le> n" using assms by (simp add: word_le_nat_alt)
  then show ?thesis using k by (simp add: unat_sub)
qed

lemma sorted_down:
  assumes "\<And>i j. j \<le> i \<Longrightarrow> i < l \<Longrightarrow> f i \<le> (f j :: 'a :: linorder)"
  shows "sorted (map f (rev [0..<l]))"
  using assms by (induction l) (auto simp: sorted_append)

lemma rel_contig_sorted:
  assumes "rel_contig r" "length (rel_buffer r) \<le> unat (next_seq r)"
  shows "sorted (map p_seq (rel_buffer r))"
proof -
  have "sorted (map (\<lambda>i. next_seq r - of_nat i) (rev [0..<length (rel_buffer r)]))"
    by (rule sorted_down) (use assms(2) in \<open>simp add: word_le_nat_alt unat_minus_of_nat\<close>)
  then show ?thesis using assms(1) by (simp add: rel_contig_def)
qed

section \<open>A stalled connection is dropped\<close>

definition stuck :: "OutgoingWorkerConfig \<Rightarrow> time \<Rightarrow> PendingFrame \<Rightarrow> bool" where
  "stuck cfg now p \<longleftrightarrow> now - last_sent_at p \<ge> retransmit_timeout cfg \<and> attempts p \<ge> max_retransmits cfg"

lemma sweep_frames_stuck:
  assumes "\<exists>p\<in>set ps. stuck cfg now p" "\<And>c s. buffered_amount api c s < 512 * 1024"
  shows "fst (snd (sweep_frames api cfg now h ps s)) = Some (4409, ''reliable_ack_timeout'')"
  using assms(1)
proof (induction ps arbitrary: s)
  case (Cons p ps)
  have nb: "\<not> is_backpressured api h s" for s
    using assms(2) by (auto simp: is_backpressured_def not_le split: option.split)
  show ?case
  proof (cases "stuck cfg now p")
    case True
    then show ?thesis by (simp add: stuck_def)
  next
    case False
    then have "\<exists>p\<in>set ps. stuck cfg now p" using Cons.prems by auto
    with Cons.IH False nb show ?thesis
      by (auto simp: stuck_def Let_def split: prod.split) (metis fst_conv snd_conv)+
  qed
qed simp

abbreviation dropped :: "ConnId \<Rightarrow> 's sweep \<Rightarrow> bool" where
  "dropped cid w \<equiv> Some cid \<in> fst ` set (snd (snd w))"

definition stalled :: "OutgoingWorkerConfig \<Rightarrow> time \<Rightarrow> ConnId \<Rightarrow> 's net \<Rightarrow> bool" where
  "stalled cfg now cid st \<longleftrightarrow> (\<exists>ctx. ctx_of st cid = Some ctx \<and> ctx_handle ctx = Some cid
     \<and> (\<exists>p\<in>set (rel_buffer (reliable ctx)). stuck cfg now p))"

lemma sweep_conn_dropped_mono: "dropped cid w \<Longrightarrow> dropped cid (sweep_conn api cfg now c w)"
  by (cases w) (fastforce simp: sweep_conn_def Let_def split: option.splits prod.splits)

lemma sweep_conn_other: "c \<noteq> cid \<Longrightarrow> ctx_of (fst (sweep_conn api cfg now c w)) cid = ctx_of (fst w) cid"
  by (cases w) (auto simp: sweep_conn_def Let_def split: option.splits prod.splits)

lemma sweep_conn_stalled:
  assumes "\<And>c s. buffered_amount api c s < 512 * 1024" "stalled cfg now cid (fst w)"
  shows "dropped cid (sweep_conn api cfg now cid w)"
proof (cases w)
  case (fields st te dr)
  obtain ctx where c: "ctx_of st cid = Some ctx" "ctx_handle ctx = Some cid"
    "\<exists>p\<in>set (rel_buffer (reliable ctx)). stuck cfg now p"
    using assms(2) by (auto simp: stalled_def fields)
  have sf: "fst (snd (sweep_frames api cfg now (Some cid) (rel_buffer (reliable ctx)) (sock st)))
      = Some (4409, ''reliable_ack_timeout'')"
    by (rule sweep_frames_stuck[OF c(3) assms(1)])
  have ne: "rel_buffer (reliable ctx) \<noteq> []" using c(3) by auto
  show ?thesis
  proof (cases "length (rel_buffer (reliable ctx)) > rel_capacity (reliable ctx)")
    case True
    then show ?thesis using c ne by (auto simp: sweep_conn_def fields Let_def)
  next
    case False
    then show ?thesis
      using c ne sf by (auto simp: sweep_conn_def fields Let_def handle_valid_def split: prod.splits)
  qed
qed

lemma sweep_fold_stalled:
  assumes nb: "\<And>c s. buffered_amount api c s < 512 * 1024"
  shows "dropped cid w \<or> (stalled cfg now cid (fst w) \<and> cid \<in> set cs) \<Longrightarrow>
    dropped cid (fold (sweep_conn api cfg now) cs w)"
proof (induction cs arbitrary: w)
  case (Cons c cs)
  have "dropped cid (sweep_conn api cfg now c w)
      \<or> (stalled cfg now cid (fst (sweep_conn api cfg now c w)) \<and> cid \<in> set cs)"
  proof (cases "c = cid")
    case True
    then show ?thesis using Cons.prems sweep_conn_stalled[OF nb] sweep_conn_dropped_mono by metis
  next
    case False
    have "stalled cfg now cid (fst w) \<Longrightarrow> stalled cfg now cid (fst (sweep_conn api cfg now c w))"
      unfolding stalled_def by (simp only: sweep_conn_other[OF False])
    then show ?thesis using Cons.prems False sweep_conn_dropped_mono[of cid w api cfg now c] by auto
  qed
  from Cons.IH[OF this] show ?case by simp
qed auto

section \<open>Example states\<close>

definition rel_item :: "string \<Rightarrow> OutboundItem" where
  "rel_item d = \<lparr> item_priority = OutHigh, item_action = SendPayload \<lparr> payload_data = Some d, is_binary = True \<rparr> True \<rparr>"

definition one_conn :: "ConnectionContext \<Rightarrow> ConnId list \<Rightarrow> (ConnId \<times> string) list net" where
  "one_conn ctx u = (fresh_net ''n'' [])\<lparr> reg := \<lparr> connections = [(''1'', ctx)], connections_by_port = (\<lambda>_. 0) \<rparr>,
     pending_unacked := u \<rparr>"

text \<open>Two reliable payloads waiting in the outbox; two frames waiting for an acknowledgement.\<close>

definition ctx_two_queued :: ConnectionContext where
  "ctx_two_queued = (new_context ''1'' (Some ''1'') 0 0)\<lparr> outbox := new_outbox\<lparr> ob_q := [rel_item ''a'', rel_item ''b''] \<rparr> \<rparr>"

definition ctx_two_unacked :: ConnectionContext where
  "ctx_two_unacked = (new_context ''1'' (Some ''1'') 0 0)\<lparr> reliable := new_reliable\<lparr> next_seq := 2, rel_buffer :=
     [\<lparr> p_seq = 1, p_bytes = ''a'', last_sent_at = 0, attempts = 8 \<rparr>,
      \<lparr> p_seq = 2, p_bytes = ''b'', last_sent_at = 0, attempts = 1 \<rparr>] \<rparr> \<rparr>"

lemmas example_defs = one_conn_def fresh_net_def new_context_def new_outbox_def new_reliable_def
  ctx_two_queued_def ctx_two_unacked_def rel_item_def

lemma one_conn_sel [simp]:
  "ctx_of (one_conn ctx u) = [''1'' \<mapsto> ctx]" "pending_unacked (one_conn ctx u) = u" "sock (one_conn ctx u) = []"
  by (auto simp: one_conn_def fresh_net_def)

lemma net_inv_one_conn:
  assumes "ctx_handle ctx = Some ''1''" "ctx_conn_id ctx = ''1''" "rel_contig (reliable ctx)"
    "outbox_ok (outbox ctx)" "rel_buffer (reliable ctx) \<noteq> [] \<longrightarrow> ''1'' \<in> set u"
  shows "net_inv (one_conn ctx u)"
  using assms by (simp add: net_inv_def reg_ok_def umap_ok_def one_conn_def fresh_net_def)

lemma net_inv_queued: "net_inv (one_conn ctx_two_queued [])"
  by (rule net_inv_one_conn) (simp_all add: example_defs rel_contig_def outbox_ok_def)

lemma net_inv_unacked: "net_inv (one_conn ctx_two_unacked [''1''])"
  by (rule net_inv_one_conn) (simp_all add: example_defs rel_contig_def outbox_ok_def)

section \<open>Properties\<close>



text \<open>C1: a cumulative acknowledgement removes exactly the frames up to the acknowledged number from
  the retransmit buffer, keeps the rest in order, and leaves the connection in the retransmit index
  exactly when frames remain (as long as fewer than \<open>2^64\<close> frames were numbered).\<close>

theorem ack_removes_exactly_acked:
  assumes "net_inv st" "ctx_of st cid = Some ctx"
    and "length (rel_buffer (reliable ctx)) \<le> unat (next_seq (reliable ctx))"
  shows "\<exists>ctx'. ctx_of (on_ack cid a st) cid = Some ctx'
    \<and> rel_buffer (reliable ctx') = filter (\<lambda>p. a < p_seq p) (rel_buffer (reliable ctx))
    \<and> acked_seq (reliable ctx') = max a (acked_seq (reliable ctx))
    \<and> next_seq (reliable ctx') = next_seq (reliable ctx)
    \<and> (cid \<in> set (pending_unacked (on_ack cid a st)) \<longleftrightarrow> rel_buffer (reliable ctx') \<noteq> [])"
proof -
  have b: "rel_buffer (ack_reliable a (reliable ctx)) = filter (\<lambda>p. a < p_seq p) (rel_buffer (reliable ctx))"
    using dropWhile_sorted[OF rel_contig_sorted[OF net_invD(1)[OF assms(1,2)] assms(3)], of a]
    by (simp add: ack_reliable_def)
  have "ctx_of (on_ack cid a st) cid = Some (ctx\<lparr> reliable := ack_reliable a (reliable ctx) \<rparr>)"
    using assms(2) by (simp add: on_ack_def Let_def)
  moreover have "cid \<in> set (pending_unacked (on_ack cid a st)) \<longleftrightarrow> rel_buffer (ack_reliable a (reliable ctx)) \<noteq> []"
    using assms(2) net_invD(5)[OF assms(1,2)]
    by (cases "rel_buffer (reliable ctx) = []") (auto simp: on_ack_def Let_def ack_reliable_def)
  moreover have "acked_seq (ack_reliable a (reliable ctx)) = max a (acked_seq (reliable ctx))"
    "next_seq (ack_reliable a (reliable ctx)) = next_seq (reliable ctx)"
    by (auto simp: ack_reliable_def max_def)
  ultimately show ?thesis using b by auto
qed

theorem ack_removes_exactly_acked_witness:
  "\<exists>ctx'. ctx_of (on_ack ''1'' 1 (one_conn ctx_two_unacked [''1''])) ''1'' = Some ctx'
     \<and> map p_seq (rel_buffer (reliable ctx')) = [2]"
proof -
  have r: "reliable ctx_two_unacked = new_reliable\<lparr> next_seq := 2, rel_buffer :=
     [\<lparr> p_seq = 1, p_bytes = ''a'', last_sent_at = 0, attempts = 8 \<rparr>,
      \<lparr> p_seq = 2, p_bytes = ''b'', last_sent_at = 0, attempts = 1 \<rparr>] \<rparr>"
    by (simp add: ctx_two_unacked_def)
  from ack_removes_exactly_acked[OF net_inv_unacked, of "''1''" ctx_two_unacked 1] show ?thesis
    by (auto simp: r)
qed

text \<open>C31: a reliable frame that stays unacknowledged for the retransmit timeout after its last
  permitted attempt makes the next sweep close the connection, so the client reconnects and resyncs
  (with sockets below the backpressure mark, which makes the sweep skip resending).\<close>

theorem sweep_closes_stalled_connection:
  assumes "net_inv st" "cid \<in> set (pending_unacked st)" "ctx_of st cid = Some ctx"
    and "steady_now api (sock st) = (now, s)"
    and "p \<in> set (rel_buffer (reliable ctx))" "stuck cfg now p"
    and "\<forall>c s. buffered_amount api c s < 512 * 1024"
  shows "ctx_of (retransmit_sweep api cfg st) cid = None"
proof -
  obtain st' te dr where w: "fold (sweep_conn api cfg now) (pending_unacked st) (st\<lparr> sock := s \<rparr>, [], []) = (st', te, dr)"
    by (metis prod_cases3)
  have "stalled cfg now cid (st\<lparr> sock := s \<rparr>)"
    using assms(3,5,6) net_invD(3)[OF assms(1,3)] by (auto simp: stalled_def)
  then have "dropped cid (st', te, dr)"
    using sweep_fold_stalled[of api cid "(st\<lparr> sock := s \<rparr>, [], [])" cfg now "pending_unacked st"] assms(2,7) w
    by auto
  moreover have "pending_unacked st \<noteq> []" using assms(2) by auto
  then have "retransmit_sweep api cfg st =
      end_all api dr (st'\<lparr> pending_unacked := filter (\<lambda>c. c \<notin> set te) (pending_unacked st') \<rparr>)"
    by (simp add: retransmit_sweep_def assms(4) w end_all_def)
  ultimately show ?thesis by (auto simp: end_all_ctx)
qed

theorem sweep_closes_stalled_connection_witness:
  "ctx_of (retransmit_sweep (logging_api 500000) default_worker (one_conn ctx_two_unacked [''1''])) ''1'' = None"
  by (rule sweep_closes_stalled_connection[OF net_inv_unacked, where ctx = ctx_two_unacked and now = 500000
        and s = "[]" and p = "\<lparr> p_seq = 1, p_bytes = ''a'', last_sent_at = 0, attempts = 8 \<rparr>"])
     (simp_all add: logging_api_def ctx_two_unacked_def stuck_def default_worker_def)

text \<open>When a connection's outbox is full of High items and fewer than three overflows were
  counted, one more High item -- a reliable payload included -- is discarded: the queue is unchanged and no
  close is scheduled. Only the fourth overflow replaces the backlog by a close. So reliable sends can be lost
  without a reconnect, which the comments on \<^verbatim>\<open>SendPayload\<close> and on the overflow policy rule out.\<close>

theorem outbox_overflow_discards_high:
  assumes "length (ob_q ob) = ob_capacity ob" "\<forall>m\<in>set (ob_q ob). item_priority m = OutHigh"
    and "item_priority item = OutHigh" "slow_hits ob < 4"
  shows "if slow_hits ob < 3 then ob_q (outbox_push item ob) = ob_q ob \<and> slow_hits (outbox_push item ob) = slow_hits ob + 1
         else ob_q (outbox_push item ob) = [slow_drop_item] \<and> drop_pending (outbox_push item ob)"
proof -
  have "\<not> (\<exists>m\<in>set (ob_q ob). item_priority m = OutLow)" using assms(2) by auto
  moreover have "slow_hits ob + 1 \<ge> 4 \<longleftrightarrow> \<not> slow_hits ob < 3"
  proof -
    have "unat (slow_hits ob + 1) = unat (slow_hits ob) + 1"
      using assms(4) by (metis add.commute add.right_neutral max_word_wrap unatSuc Suc_eq_plus1 word_order.extremum not_le not_less_iff_gr_or_eq)
    then show ?thesis by (simp add: word_le_nat_alt word_less_nat_alt not_less)
  qed
  ultimately show ?thesis using assms(1,3) by (simp add: outbox_push_def Let_def)
qed

theorem outbox_overflow_discards_high_witness:
  "let ob = \<lparr> ob_q = [rel_item ''a''], ob_capacity = 1, slow_hits = 0, drop_pending = False \<rparr>
   in ob_q (outbox_push (rel_item ''b'') ob) = [rel_item ''a'']"
  using outbox_overflow_discards_high[of "\<lparr> ob_q = [rel_item ''a''], ob_capacity = 1, slow_hits = 0, drop_pending = False \<rparr>"
      "rel_item ''b''"]
  by (simp add: rel_item_def)

end
