(* ===== verification/WsOrigin.thy ===== *)
theory WsOrigin
  imports Strings
begin

text \<open>
  \<^verbatim>\<open>WsOriginPolicy\<close> (\<^verbatim>\<open>src/net/security/transport/WsOriginPolicy.cpp\<close>): which browser origins may open a
  WebSocket, and which peers are proxies whose forwarded origin is believed.

  Strings are lists of characters in the C locale. \<^verbatim>\<open>inet_pton\<close> is the C library's and is a pair of
  parameters (IPv4 to 4 bytes, IPv6 to 16 bytes). The lemmas show that the byte-and-mask comparison of
  \<^verbatim>\<open>ip_matches_cidr\<close> decides agreement on the first \<^verbatim>\<open>prefix\<close> bits.
\<close>

section \<open>Character helpers\<close>

definition trim_copy :: "string \<Rightarrow> string" where
  "trim_copy s = rev (dropWhile is_space (rev (dropWhile is_space s)))"

definition to_lower_ascii :: "string \<Rightarrow> string" where
  "to_lower_ascii s = map to_lower s"

definition is_digits :: "string \<Rightarrow> bool" where
  "is_digits s \<longleftrightarrow> s \<noteq> [] \<and> list_all is_digit s"

definition strip_quotes :: "string \<Rightarrow> string" where
  "strip_quotes s =
     (let out = trim_copy s;
          out = (if length out \<ge> 2 \<and>
                    ((hd out = CHR 0x22 \<and> last out = CHR 0x22) \<or> (hd out = CHR 0x27 \<and> last out = CHR 0x27))
                 then butlast (tl out) else out)
      in trim_copy out)"

section \<open>Origins\<close>

text \<open>Host and port of an authority, lower-cased.\<close>

definition split_authority :: "string \<Rightarrow> (string \<times> string) option" where
  "split_authority authority =
     (if hd authority = CHR ''['' then
        (case find_char (CHR '']'') authority of
           None \<Rightarrow> None
         | Some close_bracket \<Rightarrow>
             (let host = take (close_bracket - 1) (drop 1 authority);
                  rem = drop (close_bracket + 1) authority;
                  host' = ''['' @ to_lower_ascii host @ '']''
              in if rem = [] then Some (host', [])
                 else if hd rem \<noteq> CHR '':'' \<or> \<not> is_digits (drop 1 rem) then None
                 else Some (host', rem)))
      else
        (let first_colon = find_char (CHR '':'') authority;
             last_colon = rfind_char (CHR '':'') authority
         in if first_colon \<noteq> None \<and> first_colon \<noteq> last_colon then None
            else (case first_colon of
                    None \<Rightarrow> Some (to_lower_ascii authority, [])
                  | Some i \<Rightarrow>
                      (let raw_port = drop (i + 1) authority
                       in if \<not> is_digits raw_port then None
                          else Some (to_lower_ascii (take i authority), CHR '':'' # raw_port)))))"

definition strip_slashes :: "string \<Rightarrow> string" where
  "strip_slashes s = rev (dropWhile (\<lambda>c. c = CHR ''/'') (rev s))"

definition normalize_origin :: "string \<Rightarrow> string option" where
  "normalize_origin origin =
     (let value = strip_slashes (trim_copy origin) in
      if value = [] then None
      else (case find_sub ''://'' value of
              None \<Rightarrow> None
            | Some scheme_pos \<Rightarrow>
                (let scheme = to_lower_ascii (take scheme_pos value);
                     authority_and_path = drop (scheme_pos + 3) value
                 in if scheme \<noteq> ''http'' \<and> scheme \<noteq> ''https'' then None
                    else if authority_and_path = [] then None
                    else (let authority = (case find_char (CHR ''/'') authority_and_path of
                                             Some slash_pos \<Rightarrow> take slash_pos authority_and_path
                                           | None \<Rightarrow> authority_and_path)
                          in if authority = [] then None
                             else if find_char (CHR ''@'') authority \<noteq> None then None
                             else (case split_authority authority of
                                     None \<Rightarrow> None
                                   | Some (host, port) \<Rightarrow>
                                       if host = [] then None
                                       else Some (scheme @ ''://'' @ host @ port))))))"

section \<open>Addresses\<close>

datatype ip_family = AF_INET | AF_INET6

record ParsedIp =
  ip_fam :: ip_family
  ip_bytes :: "8 word list"

record CidrRange =
  cidr_fam :: ip_family
  cidr_network :: "8 word list"
  cidr_prefix :: nat

type_synonym pton = "string \<Rightarrow> (8 word list) option"

definition pad16 :: "8 word list \<Rightarrow> 8 word list" where
  "pad16 bs = take 16 (bs @ replicate 16 0)"

text \<open>\<^verbatim>\<open>IN6_IS_ADDR_V4MAPPED\<close>: ten zero bytes, then two bytes of ones.\<close>

definition v4mapped :: "8 word list \<Rightarrow> bool" where
  "v4mapped bs \<longleftrightarrow> take 12 bs = replicate 10 0 @ [255, 255]"

definition parse_ip_literal :: "pton \<Rightarrow> pton \<Rightarrow> string \<Rightarrow> ParsedIp option" where
  "parse_ip_literal pton4 pton6 ip_text =
     (let t = trim_copy ip_text;
          parse = (\<lambda>t. case pton4 t of
              Some b \<Rightarrow> Some \<lparr> ip_fam = AF_INET, ip_bytes = pad16 b \<rparr>
            | None \<Rightarrow> (case pton6 t of
                Some b \<Rightarrow> if v4mapped b then Some \<lparr> ip_fam = AF_INET, ip_bytes = pad16 (take 4 (drop 12 b)) \<rparr>
                          else Some \<lparr> ip_fam = AF_INET6, ip_bytes = pad16 b \<rparr>
              | None \<Rightarrow> None))
      in if t = [] then None
         else if hd t = CHR ''['' then
           (case find_char (CHR '']'') t of
              None \<Rightarrow> None
            | Some end_bracket \<Rightarrow> parse (take (end_bracket - 1) (drop 1 t)))
         else (case rfind_char (CHR '':'') t of
                 Some colon \<Rightarrow>
                   if find_char (CHR '':'') t = Some colon \<and> find_char (CHR ''.'') t \<noteq> None
                      \<and> is_digits (drop (colon + 1) t)
                   then parse (take colon t) else parse t
               | None \<Rightarrow> parse t))"

datatype policy_error = FileMissing | InvalidOrigin | UnsupportedEntry nat | EntryBeforeSection nat
  | EmptyValue nat | InvalidCidr nat | OutOfRange nat | NoProxies

text \<open>\<^verbatim>\<open>parse_cidr\<close>: \<^verbatim>\<open>Inl ()\<close> when \<^verbatim>\<open>std::stoi\<close> throws.\<close>

definition parse_cidr :: "pton \<Rightarrow> pton \<Rightarrow> string \<Rightarrow> unit + CidrRange option" where
  "parse_cidr pton4 pton6 cidr_text =
     (let raw = trim_copy cidr_text;
          finish = (\<lambda>ip_part prefix.
            case parse_ip_literal pton4 pton6 ip_part of
              None \<Rightarrow> None
            | Some ip \<Rightarrow>
                (let max_prefix = (if ip_fam ip = AF_INET then 32 else 128 :: int);
                     prefix = (if prefix < 0 then max_prefix else prefix)
                 in if prefix < 0 \<or> prefix > max_prefix then None
                    else Some \<lparr> cidr_fam = ip_fam ip, cidr_network = ip_bytes ip, cidr_prefix = nat prefix \<rparr>))
      in if raw = [] then Inr None
         else (case find_char (CHR ''/'') raw of
                 None \<Rightarrow> Inr (finish raw (- 1))
               | Some slash \<Rightarrow>
                   (let prefix_part = drop (slash + 1) raw
                    in if \<not> is_digits prefix_part then Inr None
                       else (case stoi prefix_part of
                               None \<Rightarrow> Inl ()
                             | Some p \<Rightarrow> Inr (finish (take slash raw) p)))))"

definition ip_matches_cidr :: "ParsedIp \<Rightarrow> CidrRange \<Rightarrow> bool" where
  "ip_matches_cidr ip cidr =
     (if ip_fam ip \<noteq> cidr_fam cidr then False
      else
        (let total_bytes = (if ip_fam ip = AF_INET then 4 else 16);
             full_bytes = cidr_prefix cidr div 8;
             rem_bits = cidr_prefix cidr mod 8;
             mask = push_bit (8 - rem_bits) (0xFF :: 8 word)
         in list_all (\<lambda>i. ip_bytes ip ! i = cidr_network cidr ! i) [0..<min full_bytes total_bytes]
            \<and> (rem_bits \<noteq> 0 \<and> full_bytes < total_bytes \<longrightarrow>
                 and (ip_bytes ip ! full_bytes) mask = and (cidr_network cidr ! full_bytes) mask)))"

section \<open>The policy\<close>

record WsOriginPolicy =
  allowed_origins :: "string list"
  trusted_proxy_cidrs :: "CidrRange list"

definition is_allowed :: "WsOriginPolicy \<Rightarrow> string \<Rightarrow> bool" where
  "is_allowed policy origin =
     (case normalize_origin origin of None \<Rightarrow> False | Some n \<Rightarrow> n \<in> set (allowed_origins policy))"

definition is_trusted_proxy :: "pton \<Rightarrow> pton \<Rightarrow> WsOriginPolicy \<Rightarrow> string \<Rightarrow> bool" where
  "is_trusted_proxy pton4 pton6 policy remote_ip =
     (case parse_ip_literal pton4 pton6 remote_ip of
        None \<Rightarrow> False
      | Some ip \<Rightarrow> list_ex (ip_matches_cidr ip) (trusted_proxy_cidrs policy))"

text \<open>The loop of \<^verbatim>\<open>from_file\<close> over the lines; the flag says whether the section header was seen.\<close>

fun read_policy_lines :: "pton \<Rightarrow> pton \<Rightarrow> nat \<Rightarrow> bool \<Rightarrow> CidrRange list \<Rightarrow> string list
    \<Rightarrow> policy_error + CidrRange list" where
  "read_policy_lines pton4 pton6 n in_section acc [] = Inr acc"
| "read_policy_lines pton4 pton6 n in_section acc (line # rest) =
     (let line_no = n + 1;
          line = (case find_char (CHR ''#'') line of Some i \<Rightarrow> take i line | None \<Rightarrow> line);
          entry = trim_copy line
      in if entry = [] then read_policy_lines pton4 pton6 line_no in_section acc rest
         else if entry = ''trusted_proxy_cidrs:'' then read_policy_lines pton4 pton6 line_no True acc rest
         else if hd entry \<noteq> CHR ''-'' then Inl (UnsupportedEntry line_no)
         else if \<not> in_section then Inl (EntryBeforeSection line_no)
         else (let value = strip_quotes (trim_copy (drop 1 entry))
               in if value = [] then Inl (EmptyValue line_no)
                  else (case parse_cidr pton4 pton6 value of
                          Inl _ \<Rightarrow> Inl (OutOfRange line_no)
                        | Inr None \<Rightarrow> Inl (InvalidCidr line_no)
                        | Inr (Some c) \<Rightarrow> read_policy_lines pton4 pton6 line_no in_section (acc @ [c]) rest)))"

text \<open>\<^verbatim>\<open>from_file\<close>, with the file's lines (or none when it cannot be opened).\<close>

definition from_file :: "pton \<Rightarrow> pton \<Rightarrow> string list option \<Rightarrow> string \<Rightarrow> policy_error + WsOriginPolicy" where
  "from_file pton4 pton6 file allowed_origin =
     (case file of
        None \<Rightarrow> Inl FileMissing
      | Some ls \<Rightarrow>
          (case normalize_origin allowed_origin of
             None \<Rightarrow> Inl InvalidOrigin
           | Some n \<Rightarrow>
               (case read_policy_lines pton4 pton6 0 False [] ls of
                  Inl e \<Rightarrow> Inl e
                | Inr cidrs \<Rightarrow>
                    if cidrs = [] then Inl NoProxies
                    else Inr \<lparr> allowed_origins = [n], trusted_proxy_cidrs = cidrs \<rparr>)))"

section \<open>Matching a range is agreement on its leading bits\<close>

text \<open>Bit \<open>k\<close> of an address, counted from the most significant bit of its first byte.\<close>

definition addr_bit :: "8 word list \<Rightarrow> nat \<Rightarrow> bool" where
  "addr_bit bs k = bit (bs ! (k div 8)) (7 - k mod 8)"

lemma byte_eq_bits: "(a :: 8 word) = b \<longleftrightarrow> (\<forall>j<8. bit a (7 - j) = bit b (7 - j))"
proof
  assume r: "\<forall>j<8. bit a (7 - j) = bit b (7 - j)"
  show "a = b"
  proof (rule bit_word_eqI)
    fix n assume "n < LENGTH(8)"
    then show "bit a n = bit b n" using r[rule_format, of "7 - n"] by simp
  qed
qed simp

lemma high_mask_bits:
  assumes "0 < r" "r < 8"
  shows "bit (push_bit (8 - r) (0xFF :: 8 word)) n \<longleftrightarrow> 8 - r \<le> n \<and> n < 8"
proof -
  have ff: "(0xFF :: 8 word) = mask 8" by (simp add: mask_eq_exp_minus_1)
  show ?thesis unfolding ff using assms by (auto simp only: bit_push_bit_iff bit_mask_iff) auto
qed

lemma masked_eq_iff:
  fixes a b M :: "8 word"
  assumes "r < 8" and m: "\<And>n. bit M n \<longleftrightarrow> 8 - r \<le> n \<and> n < 8"
  shows "and a M = and b M \<longleftrightarrow> (\<forall>j<r. bit a (7 - j) = bit b (7 - j))"
proof
  assume e: "and a M = and b M"
  show "\<forall>j<r. bit a (7 - j) = bit b (7 - j)"
  proof (intro allI impI)
    fix j assume "j < r"
    have "bit (and a M) (7 - j) = bit (and b M) (7 - j)" by (simp only: e)
    moreover have "bit M (7 - j)" using \<open>j < r\<close> assms(1) by (simp add: m) linarith
    ultimately show "bit a (7 - j) = bit b (7 - j)" by (simp add: bit_and_iff)
  qed
next
  assume r: "\<forall>j<r. bit a (7 - j) = bit b (7 - j)"
  show "and a M = and b M"
  proof (rule bit_word_eqI)
    fix n assume "n < LENGTH(8)"
    then show "bit (and a M) n = bit (and b M) n"
      using r[rule_format, of "7 - n"] assms(1) by (auto simp: bit_and_iff m)
  qed
qed

lemmas masked_eq_bits = masked_eq_iff[OF _ high_mask_bits]

text \<open>The first \<open>8 q + r\<close> bits are the bits of \<open>q\<close> whole bytes and \<open>r\<close> bits of the next.\<close>

lemma all_bits_split:
  fixes q r :: nat
  assumes "r < 8"
  shows "(\<forall>k < 8 * q + r. P (k div 8) (k mod 8)) \<longleftrightarrow>
    (\<forall>i<q. \<forall>j<8. P i j) \<and> (\<forall>j<r. P q j)" (is "?L \<longleftrightarrow> ?R")
proof
  assume L: ?L
  show ?R
  proof (intro conjI allI impI)
    fix i j :: nat assume "i < q" "j < 8"
    then have "8 * i + j < 8 * q + r" by linarith
    from L[rule_format, OF this] \<open>j < 8\<close> show "P i j" by simp
  next
    fix j assume "j < r"
    with L[rule_format, of "8 * q + j"] assms show "P q j" by simp
  qed
next
  assume R: ?R
  show ?L
  proof (intro allI impI)
    fix k assume k: "k < 8 * q + r"
    show "P (k div 8) (k mod 8)"
    proof (cases "k div 8 < q")
      case True
      then show ?thesis using R by simp
    next
      case False
      then have "k div 8 = q" using k assms by linarith
      moreover have "k mod 8 = k - 8 * (k div 8)" by (rule minus_mult_div_eq_mod[symmetric])
      ultimately have "k div 8 = q" "k mod 8 < r" using k by linarith+
      then show ?thesis using R by simp
    qed
  qed
qed

section \<open>Properties\<close>

text \<open>C36: the byte-wise comparison with a masked last byte decides exactly whether an address lies in
  a configured proxy range: same family, and equal in the first \<^verbatim>\<open>prefix\<close> bits (for the prefixes
  \<^verbatim>\<open>parse_cidr\<close> accepts).\<close>

theorem ip_matches_cidr_iff_prefix_bits:
  assumes "cidr_prefix c \<le> (if cidr_fam c = AF_INET then 32 else 128)"
  shows "ip_matches_cidr ip c \<longleftrightarrow> ip_fam ip = cidr_fam c
    \<and> (\<forall>k < cidr_prefix c. addr_bit (ip_bytes ip) k = addr_bit (cidr_network c) k)"
proof (cases "ip_fam ip = cidr_fam c")
  case fam: True
  define q r where "q = cidr_prefix c div 8" and "r = cidr_prefix c mod 8"
  define t where "t = (if ip_fam ip = AF_INET then 4 else 16 :: nat)"
  have p: "cidr_prefix c = 8 * q + r" and r8: "r < 8" by (simp_all add: q_def r_def)
  have qt: "q \<le> t" "r \<noteq> 0 \<Longrightarrow> q < t"
    using assms p fam by (auto simp: t_def split: if_split_asm)
  let ?a = "\<lambda>i j. bit (ip_bytes ip ! i) (7 - j) = bit (cidr_network c ! i) (7 - j)"
  let ?m = "\<lambda>bs :: 8 word list. and (bs ! q) (push_bit (8 - r) 0xFF)"
  have "ip_matches_cidr ip c \<longleftrightarrow> list_all (\<lambda>i. ip_bytes ip ! i = cidr_network c ! i) [0..<min q t]
      \<and> (r \<noteq> 0 \<and> q < t \<longrightarrow> ?m (ip_bytes ip) = ?m (cidr_network c))"
    unfolding ip_matches_cidr_def Let_def q_def r_def t_def using fam by simp
  also have "\<dots> \<longleftrightarrow> (\<forall>i<q. ip_bytes ip ! i = cidr_network c ! i)
      \<and> (r \<noteq> 0 \<longrightarrow> and (ip_bytes ip ! q) (push_bit (8 - r) 0xFF) = and (cidr_network c ! q) (push_bit (8 - r) 0xFF))"
    using qt by (auto simp: list_all_iff min_absorb1)
  also have "\<dots> \<longleftrightarrow> (\<forall>i<q. \<forall>j<8. ?a i j) \<and> (\<forall>j<r. ?a q j)"
    using masked_eq_bits[of r "ip_bytes ip ! q" "cidr_network c ! q"] r8
    unfolding byte_eq_bits[of "ip_bytes ip ! _"] by (cases "r = 0") (simp_all only: neq0_conv, auto)
  also have "\<dots> \<longleftrightarrow> (\<forall>k < 8 * q + r. ?a (k div 8) (k mod 8))"
    using all_bits_split[OF r8, of q ?a] by simp
  finally show ?thesis using fam by (simp add: p addr_bit_def)
next
  case False
  then show ?thesis by (simp add: ip_matches_cidr_def)
qed

theorem ip_matches_cidr_iff_prefix_bits_witness:
  "ip_matches_cidr \<lparr> ip_fam = AF_INET, ip_bytes = pad16 [172, 19, 0, 7] \<rparr>
     \<lparr> cidr_fam = AF_INET, cidr_network = pad16 [172, 16, 0, 0], cidr_prefix = 12 \<rparr>
   \<and> addr_bit (pad16 [172, 19, 0, 7]) 11 = addr_bit (pad16 [172, 16, 0, 0]) 11"
proof -
  let ?ip = "\<lparr> ip_fam = AF_INET, ip_bytes = pad16 [172, 19, 0, 7] \<rparr>"
  let ?c = "\<lparr> cidr_fam = AF_INET, cidr_network = pad16 [172, 16, 0, 0], cidr_prefix = 12 \<rparr>"
  have "ip_matches_cidr ?ip ?c"
    by code_simp
  moreover from this ip_matches_cidr_iff_prefix_bits[of ?c ?ip]
  have "addr_bit (pad16 [172, 19, 0, 7]) 11 = addr_bit (pad16 [172, 16, 0, 0]) 11" by simp
  ultimately show ?thesis ..
qed

end
