(* ===== verification/Transport.thy ===== *)
theory Transport
  imports Outbound WsOrigin
begin

text \<open>
  The WebSocket transport of a stack (\<^verbatim>\<open>TextWSServer::wire\<close>, \<^verbatim>\<open>src/net/transport/websocket\<close>): the upgrade
  decision, the \<^verbatim>\<open>open\<close>, \<^verbatim>\<open>message\<close>, \<^verbatim>\<open>drain\<close> and \<^verbatim>\<open>close\<close> handlers, and the stack as a transition
  system whose steps are those handlers, the heartbeat sweep, the outgoing worker's tick, the application's
  use of the two queues, and changes of the sockets.

  The lemmas lift the worker's invariants to every reachable state of a stack, show that a failed
  authentication is final, and that only authenticated connections reach the application.
\<close>

section \<open>Upgrade\<close>

record WsLimits =
  max_message_bytes :: nat
  max_connections :: "64 word"

datatype upgrade_result = Forbidden | MaxConnectionsReached | Upgraded ConnId

definition effective_origin :: "pton \<Rightarrow> pton \<Rightarrow> WsOriginPolicy \<Rightarrow> string \<Rightarrow> string \<Rightarrow> string \<Rightarrow> string" where
  "effective_origin pton4 pton6 policy origin_hdr forwarded_origin remote_ip =
     (if is_trusted_proxy pton4 pton6 policy remote_ip \<and> forwarded_origin \<noteq> []
      then forwarded_origin else origin_hdr)"

definition ws_upgrade :: "pton \<Rightarrow> pton \<Rightarrow> WsOriginPolicy \<Rightarrow> WsLimits \<Rightarrow> string \<Rightarrow> string \<Rightarrow> string
    \<Rightarrow> 's net \<Rightarrow> upgrade_result \<times> 's net" where
  "ws_upgrade pton4 pton6 policy limits origin_hdr forwarded_origin remote_ip st =
     (let origin = effective_origin pton4 pton6 policy origin_hdr forwarded_origin remote_ip
      in if origin = [] then (Forbidden, st)
         else if \<not> is_allowed policy origin then (Forbidden, st)
         else if active_connections st \<ge> max_connections limits then (MaxConnectionsReached, st)
         else (Upgraded (to_string (unat (conn_id_next st))),
               st\<lparr> conn_id_next := conn_id_next st + 1, active_connections := active_connections st + 1 \<rparr>))"

section \<open>Socket handlers\<close>

text \<open>\<^verbatim>\<open>.open\<close>: the context is built (its heartbeat fields from the clock), attached, and its
  heartbeat started.\<close>

definition ws_open :: "'s wsapi \<Rightarrow> nat \<Rightarrow> ConnId \<Rightarrow> 's net \<Rightarrow> 's net" where
  "ws_open api port cid st =
     (case system_now api (sock st) of (now, s) \<Rightarrow>
        hb_on_open api cid
          (st\<lparr> sock := s, reg := attach cid ((new_context cid (Some cid) port now)\<lparr> auth_state := AUTH_PENDING \<rparr>) (reg st) \<rparr>))"

definition app_pong_response_bytes :: "'s wsapi \<Rightarrow> string" where
  "app_pong_response_bytes api =
     serialize_envelope api (default_envelope\<lparr> env_version := 1, env_type := PONG, env_payload := serialize_pong api \<rparr>)"

text \<open>The \<^verbatim>\<open>on_message\<close> hook: the envelope becomes an event for the application.\<close>

definition hook_on_message :: "ConnId \<Rightarrow> Envelope \<Rightarrow> 's net \<Rightarrow> 's net" where
  "hook_on_message cid env st =
     st\<lparr> event_sink := fst (eq_push (MessageEvent (GlobalConnId (net_id st) cid) env) (event_sink st)) \<rparr>"

text \<open>The dispatch of an envelope from a connection that passed the authentication gate.\<close>

definition ws_dispatch :: "'s wsapi \<Rightarrow> ConnId \<Rightarrow> Envelope \<Rightarrow> 's net \<Rightarrow> 's net" where
  "ws_dispatch api cid env st =
     (if env_type env = PING then
        (let st = note_seen api cid st;
             st = (case parse_ping api (env_payload env) of
                     Some last_recv_seq \<Rightarrow> if last_recv_seq > 0 then on_ack cid last_recv_seq st else st
                   | None \<Rightarrow> st)
         in st\<lparr> sock := snd (sock_send api cid (app_pong_response_bytes api) True (sock st)) \<rparr>)
      else if env_type env = ACK then
        (case parse_ack api (env_payload env) of Some ack_seq \<Rightarrow> on_ack cid ack_seq st | None \<Rightarrow> st)
      else hook_on_message cid env st)"

definition ws_message :: "'s wsapi \<Rightarrow> WsLimits \<Rightarrow> ConnId \<Rightarrow> bool \<Rightarrow> string \<Rightarrow> 's net \<Rightarrow> 's net" where
  "ws_message api limits cid binary data st =
     (if \<not> binary then st
      else if length data > max_message_bytes limits then handle_end api (Some cid) 1009 ''Message too big'' st
      else (case parse_envelope api data of
              None \<Rightarrow> handle_end api (Some cid) 1002 ''Invalid envelope'' st
            | Some env \<Rightarrow>
                if env_version env \<noteq> 1 then handle_end api (Some cid) 1002 ''Protocol version mismatch'' st
                else (case get_view cid (reg st) of
                        None \<Rightarrow> handle_end api (Some cid) 4401 ''connection_not_found'' st
                      | Some v \<Rightarrow>
                          if view_auth_state v = AUTH_FAILED then handle_end api (Some cid) 4401 ''auth_failed'' st
                          else if view_auth_state v \<noteq> AUTHENTICATED \<and> env_type env \<noteq> AUTH then st
                          else ws_dispatch api cid env st)))"

text \<open>\<^verbatim>\<open>.drain\<close>: the handler works on the copy of the context that \<^verbatim>\<open>get\<close> returned, so only the
  sockets change.\<close>

fun drain_pending :: "'s wsapi \<Rightarrow> ConnId \<Rightarrow> (string \<times> bool) list \<Rightarrow> 's \<Rightarrow> 's" where
  "drain_pending api cid [] s = s"
| "drain_pending api cid ((data, binary) # q) s =
     (case sock_send api cid data binary s of (status, s') \<Rightarrow>
        if status \<noteq> SUCCESS then s' else drain_pending api cid q s')"

definition ws_drain :: "'s wsapi \<Rightarrow> ConnId \<Rightarrow> 's net \<Rightarrow> 's net" where
  "ws_drain api cid st =
     (case get cid (reg st) of
        Inl _ \<Rightarrow> st
      | Inr ctx \<Rightarrow> st\<lparr> sock := drain_pending api cid (ctx_pending ctx) (sock st) \<rparr>)"

section \<open>The stack as a transition system\<close>

text \<open>The steps of one stack. \<^verbatim>\<open>peer_close\<close> is the socket closing by itself; \<^verbatim>\<open>app_push\<close> and
  \<^verbatim>\<open>app_pop\<close> are the application threads on the two queues; \<^verbatim>\<open>sockets\<close> is any change outside the program.\<close>

inductive net_step :: "'s wsapi \<Rightarrow> HeartbeatConfig \<Rightarrow> OutgoingWorkerConfig \<Rightarrow> WsLimits \<Rightarrow> 's net \<Rightarrow> 's net \<Rightarrow> bool"
  for api hb wk lim where
  upgrade: "ws_upgrade pton4 pton6 policy lim org fwd ip st = (res, st') \<Longrightarrow> net_step api hb wk lim st st'"
| opened: "net_step api hb wk lim st (ws_open api port cid st)"
| message: "net_step api hb wk lim st (ws_message api lim cid binary data st)"
| drained: "net_step api hb wk lim st (ws_drain api cid st)"
| peer_close: "net_step api hb wk lim st (on_close cid code reason st)"
| heartbeat: "net_step api hb wk lim st (hb_tick api hb st)"
| tick: "net_step api hb wk lim st (worker_tick api wk st)"
| app_push: "net_step api hb wk lim st (st\<lparr> out_q := fst (oq_push m (out_q st)) \<rparr>)"
| app_pop: "eq_try_pop (event_sink st) = Some (e, q) \<Longrightarrow> net_step api hb wk lim st (st\<lparr> event_sink := q \<rparr>)"
| sockets: "net_step api hb wk lim st (st\<lparr> sock := s \<rparr>)"

inductive net_reach :: "'s wsapi \<Rightarrow> HeartbeatConfig \<Rightarrow> OutgoingWorkerConfig \<Rightarrow> WsLimits \<Rightarrow> 's net \<Rightarrow> bool"
  for api hb wk lim where
  start: "net_reach api hb wk lim (fresh_net n s)"
| step: "\<lbrakk> net_reach api hb wk lim st; net_step api hb wk lim st st' \<rbrakk> \<Longrightarrow> net_reach api hb wk lim st'"

inductive_cases net_stepE: "net_step api hb wk lim st st'"

section \<open>Every handler keeps the invariant\<close>

lemma good_upd:
  assumes "\<And>c. auth_keep c (f c)" "\<And>c. reliable (f c) = reliable c" "\<And>c. outbox (f c) = outbox c"
  shows "good st (upd_ctx cid f st)"
proof (cases "ctx_of st cid")
  case None
  then show ?thesis by (simp add: upd_ctx_def mutate_def)
next
  case (Some ctx)
  have e: "upd_ctx cid f st = upd_ctx cid f (st\<lparr> pending_unacked := pending_unacked st, sock := sock st \<rparr>)" by simp
  have "net_inv (upd_ctx cid f st)" if inv: "net_inv st"
    unfolding e using net_invD[OF inv Some] assms
    by (intro net_inv_upd[OF inv Some]) (auto simp: auth_keep_def)
  moreover have "net_keeps st (upd_ctx cid f st)"
    unfolding e by (rule net_keeps_upd) (rule assms(1))
  ultimately show ?thesis by (simp add: good_def)
qed

lemma good_note_seen: "good st (note_seen api cid st)"
  unfolding note_seen_def
  by (cases "system_now api (sock st)") (auto intro!: good_trans[OF good_sock good_upd] simp: auth_keep_def)

lemma good_hb_on_open: "good st (hb_on_open api cid st)"
  unfolding hb_on_open_def
  by (cases "system_now api (sock st)") (auto intro!: good_trans[OF good_sock good_upd] simp: auth_keep_def)

lemma good_fail: "good st (upd_ctx cid (\<lambda>c. c\<lparr> auth_state := AUTH_FAILED \<rparr>) st)"
  by (rule good_upd) (auto simp: auth_keep_def)

lemma good_hb_check: "good st (hb_check api cfg now cid st)"
  by (auto simp: hb_check_def intro: good_end good_trans[OF good_fail good_end] split: option.split)

lemma good_hb_tick: "good st (hb_tick api cfg st)"
proof -
  obtain now s where t: "system_now api (sock st) = (now, s)" by force
  have "good (id (st\<lparr> sock := s \<rparr>)) (id (fold (hb_check api cfg now) (get_ids (reg st)) (st\<lparr> sock := s \<rparr>)))"
    by (rule good_fold[where g = id]) (simp add: good_hb_check)
  from good_trans[OF good_sock this[unfolded id_apply]] show ?thesis by (simp add: hb_tick_def t)
qed

lemma good_close: "good st (on_close cid code reason st)"
  unfolding good_def using net_inv_close net_keeps_close by blast

lemma good_sink: "eq_wf (event_sink st) \<longrightarrow> eq_wf q \<Longrightarrow> good st (st\<lparr> event_sink := q \<rparr>)"
  using net_keeps_refl[of st] by (simp add: good_def net_inv_def)

lemma good_dispatch: "good st (ws_dispatch api cid env st)"
proof (cases "env_type env = PING")
  case True
  let ?st1 = "note_seen api cid st"
  let ?st2 = "case parse_ping api (env_payload env) of
      Some n \<Rightarrow> if n > 0 then on_ack cid n ?st1 else ?st1 | None \<Rightarrow> ?st1"
  have "good ?st1 ?st2" by (auto intro: good_ack split: option.split)
  from good_trans[OF good_trans[OF good_note_seen this] good_sock] True show ?thesis
    by (simp add: ws_dispatch_def Let_def)
next
  case False
  then show ?thesis
    by (auto simp: ws_dispatch_def hook_on_message_def eq_push_wf intro: good_ack good_sink split: option.split)
qed

lemma good_message: "good st (ws_message api lim cid binary data st)"
  by (auto simp: ws_message_def intro: good_end good_dispatch split: option.split)

lemma good_drain_handler: "good st (ws_drain api cid st)"
  by (auto simp: ws_drain_def split: sum.split)

lemma good_app_push: "good st (st\<lparr> out_q := fst (oq_push m (out_q st)) \<rparr>)"
  using net_keeps_refl[of st] by (simp add: good_def net_inv_def oq_push_wf)

lemma good_upgrade:
  "ws_upgrade pton4 pton6 policy lim org fwd ip st = (res, st') \<Longrightarrow> good st st'"
  using net_keeps_refl[of st]
  by (auto simp: ws_upgrade_def Let_def good_def net_inv_def split: if_split_asm)

text \<open>Opening a connection adds a context and keeps the others.\<close>

lemma net_inv_attach:
  assumes "net_inv st" "ctx_handle ctx = Some cid" "ctx_conn_id ctx = cid"
    "outbox ctx = new_outbox" "reliable ctx = new_reliable"
  shows "net_inv (st\<lparr> sock := s, reg := attach cid ctx (reg st) \<rparr>)"
proof -
  let ?st = "st\<lparr> sock := s, reg := attach cid ctx (reg st) \<rparr>"
  have "rel_contig (reliable ctx') \<and> outbox_ok (outbox ctx') \<and> (rel_buffer (reliable ctx') \<noteq> [] \<longrightarrow> c \<in> set (pending_unacked st))"
    if "ctx_of ?st c = Some ctx'" for c ctx'
  proof (cases "ctx_of st c = Some ctx'")
    case True
    from net_invD(1,2,5)[OF assms(1) this] show ?thesis by simp
  next
    case False
    then have "ctx' = ctx" using that by (auto simp: attach_def map_of_emplace split: if_split_asm)
    then show ?thesis using assms(4,5) by (simp add: new_reliable_def[THEN arg_cong[where f = rel_buffer], simplified])
  qed
  moreover have "reg_ok (reg ?st)" "oq_wf (out_q ?st)" "eq_wf (event_sink ?st)"
    using assms(1-3) by (simp_all add: net_inv_def reg_ok_attach)
  ultimately show ?thesis unfolding net_inv_def by simp
qed

lemma net_inv_open:
  assumes "net_inv st"
  shows "net_inv (ws_open api port cid st)"
proof -
  obtain now s where t: "system_now api (sock st) = (now, s)" by force
  let ?ctx = "(new_context cid (Some cid) port now)\<lparr> auth_state := AUTH_PENDING \<rparr>"
  have "net_inv (st\<lparr> sock := s, reg := attach cid ?ctx (reg st) \<rparr>)"
    by (rule net_inv_attach[OF assms]) (simp_all add: new_context_def)
  then show ?thesis using good_hb_on_open[of _ api cid] unfolding good_def by (simp add: ws_open_def t)
qed

definition auth_final :: "'s net \<Rightarrow> 's net \<Rightarrow> bool" where
  "auth_final st st' \<longleftrightarrow> (\<forall>c ctx. ctx_of st c = Some ctx \<longrightarrow> auth_state ctx = AUTH_FAILED \<longrightarrow>
     ctx_of st' c = None \<or> (\<exists>ctx'. ctx_of st' c = Some ctx' \<and> auth_state ctx' = AUTH_FAILED))"

lemma net_keeps_auth_final: "net_keeps st st' \<Longrightarrow> auth_final st st'"
  unfolding auth_final_def cr.descends_def auth_keep_def by (metis option.exhaust option.inject)

lemma open_auth_final: "auth_final st (ws_open api port cid st)"
  by (auto simp: auth_final_def ws_open_def hb_on_open_def attach_def map_of_emplace split: prod.split)

lemma net_step_inv:
  assumes "net_step api hb wk lim st st'" "net_inv st"
  shows "net_inv st' \<and> auth_final st st'"
proof -
  have g: "net_inv x \<and> auth_final st x" if "good st x" for x
    using that assms(2) net_keeps_auth_final by (auto simp: good_def)
  from assms(1) show ?thesis
  proof cases
    case opened
    then show ?thesis using net_inv_open[OF assms(2)] open_auth_final by blast
  next
    case (app_pop e q)
    then show ?thesis using g[OF good_sink] eq_try_pop_wf by blast
  next
    case (sockets s)
    then show ?thesis using g[OF good_sock] by blast
  qed (auto intro!: g good_upgrade good_message good_drain_handler good_close good_hb_tick good_tick good_app_push)
qed

lemma fresh_net_inv: "net_inv (fresh_net n s)"
  by (simp add: net_inv_def fresh_net_def reg_ok_def)

lemma reach_inv: "net_reach api hb wk lim st \<Longrightarrow> net_inv st"
  by (induction rule: net_reach.induct) (auto simp: fresh_net_inv dest: net_step_inv)

section \<open>Properties\<close>

text \<open>C28: in every reachable state of a network stack, each connection's retransmit buffer holds a
  gapless ascending block of sequence numbers that ends with the last one assigned, every connection with
  unacknowledged frames is in the index the retransmit sweep visits, no outbox exceeds its capacity, and
  both queues are well formed. The steps are all handlers of the stack, in any order and with any
  behaviour of the sockets.\<close>

theorem stack_reachable_invariant:
  assumes "net_reach api hb wk lim st" "ctx_of st c = Some ctx"
  shows "map p_seq (rel_buffer (reliable ctx)) =
           map (\<lambda>i. next_seq (reliable ctx) - of_nat i) (rev [0..<length (rel_buffer (reliable ctx))])
    \<and> (rel_buffer (reliable ctx) \<noteq> [] \<longrightarrow> c \<in> set (pending_unacked st))
    \<and> length (ob_q (outbox ctx)) \<le> ob_capacity (outbox ctx)
    \<and> oq_wf (out_q st) \<and> eq_wf (event_sink st)"
  using reach_inv[OF assms(1)] net_invD[OF reach_inv[OF assms(1)] assms(2)]
  by (simp add: rel_contig_def outbox_ok_def net_inv_def)

definition opened_net :: "(ConnId \<times> string) list net" where
  "opened_net = ws_open (logging_api 0) 0 ''1'' (fresh_net ''n'' [])"

lemma opened_net_reach: "net_reach (logging_api 0) hb wk lim opened_net"
  unfolding opened_net_def by (rule net_reach.step[OF net_reach.start net_step.opened])

lemma opened_net_ctx: "ctx_of opened_net = [''1'' \<mapsto> new_context ''1'' (Some ''1'') 0 0]"
  by (auto simp: opened_net_def ws_open_def hb_on_open_def logging_api_def attach_def emplace_def fresh_net_def new_context_def)

theorem stack_reachable_invariant_witness:
  "length (ob_q (outbox (new_context ''1'' (Some ''1'') 0 0))) \<le> 128 \<and> eq_wf (event_sink opened_net)"
  using stack_reachable_invariant[OF opened_net_reach, of "''1''" "new_context ''1'' (Some ''1'') 0 0"]
  by (simp add: opened_net_ctx new_context_def new_outbox_def)

text \<open>C2: a failed authentication is final: whatever a stack does next, a connection in
  \<^verbatim>\<open>AUTH_FAILED\<close> is still failed or gone, even if an update that would authenticate it was already queued.\<close>

theorem auth_failed_is_terminal:
  assumes "net_reach api hb wk lim st" "net_step api hb wk lim st st'"
    and "ctx_of st c = Some ctx" "auth_state ctx = AUTH_FAILED"
  shows "ctx_of st' c = None \<or> (\<exists>ctx'. ctx_of st' c = Some ctx' \<and> auth_state ctx' = AUTH_FAILED)"
  using net_step_inv[OF assms(2) reach_inv[OF assms(1)]] assms(3,4) by (auto simp: auth_final_def)

text \<open>A connection whose authentication failed, with a recovering update already queued.\<close>

definition one_per_tick :: OutgoingWorkerConfig where
  "one_per_tick = \<lparr> time_budget = 0, max_per_tick = 1, retransmit_timeout = 500000, max_retransmits = 8 \<rparr>"

definition auth_msg :: "AuthState \<Rightarrow> OutgoingMessage" where
  "auth_msg a = \<lparr> msg_priority = OutHigh, msg_target = [GlobalConnId ''n'' ''1''],
     msg_action = UpdateAuthState a 100 (Some ''u'') \<rparr>"

definition push_tick :: "OutgoingMessage \<Rightarrow> (ConnId \<times> string) list net \<Rightarrow> (ConnId \<times> string) list net" where
  "push_tick m st = worker_tick (logging_api 0) one_per_tick (st\<lparr> out_q := fst (oq_push m (out_q st)) \<rparr>)"

lemma push_tick_reach:
  assumes "net_reach (logging_api 0) hb one_per_tick lim st"
  shows "net_reach (logging_api 0) hb one_per_tick lim (push_tick m st)"
  unfolding push_tick_def
  by (rule net_reach.step[OF net_reach.step[OF assms net_step.app_push] net_step.tick])

lemmas run_defs = push_tick_def worker_tick_def one_per_tick_def opened_net_def ws_open_def hb_on_open_def
  fresh_net_def logging_api_def new_context_def new_outbox_def auth_msg_def oq_push_defs oq_new_def oq_try_pop_def
  deadline_passed_def distribute_def enqueue_to_outbox_def outbox_push_def mutate_def upd_ctx_def attach_def
  emplace_def flush_connection_outbox_def apply_auth_update_def retransmit_sweep_def set_insert_def Let_def

lemma failed_ctx: "\<exists>ctx. ctx_of (push_tick (auth_msg AUTH_FAILED) opened_net) ''1'' = Some ctx \<and> auth_state ctx = AUTH_FAILED"
  by (simp add: run_defs)

theorem auth_failed_is_terminal_witness:
  "let st = push_tick (auth_msg AUTH_FAILED) opened_net;
       st1 = st\<lparr> out_q := fst (oq_push (auth_msg AUTHENTICATED) (out_q st)) \<rparr>;
       st2 = worker_tick (logging_api 0) one_per_tick st1
   in ctx_of st2 ''1'' = None \<or> (\<exists>ctx'. ctx_of st2 ''1'' = Some ctx' \<and> auth_state ctx' = AUTH_FAILED)"
proof -
  let ?lim = "\<lparr> max_message_bytes = 100, max_connections = 10 \<rparr>"
  obtain ctx where c: "ctx_of (push_tick (auth_msg AUTH_FAILED) opened_net) ''1'' = Some ctx" "auth_state ctx = AUTH_FAILED"
    using failed_ctx by blast
  have r: "net_reach (logging_api 0) default_hb one_per_tick ?lim (push_tick (auth_msg AUTH_FAILED) opened_net)"
    by (rule push_tick_reach[OF opened_net_reach])
  show ?thesis
    unfolding Let_def
    by (rule auth_failed_is_terminal[OF net_reach.step[OF r net_step.app_push] net_step.tick, of _ _ ctx])
       (use c in simp_all)
qed

section \<open>What reaches the application\<close>

lemma sink_on_ack [simp]: "event_sink (on_ack cid a st) = event_sink st"
  by (simp add: on_ack_def Let_def split: option.split)

lemma sink_note_seen [simp]: "event_sink (note_seen api cid st) = event_sink st"
  by (simp add: note_seen_def split: prod.split)

lemma sink_dispatch:
  "event_sink (ws_dispatch api cid env st) = event_sink st \<or>
   event_sink (ws_dispatch api cid env st) =
     fst (eq_push (MessageEvent (GlobalConnId (net_id st) cid) env) (event_sink st))"
  by (auto simp: ws_dispatch_def hook_on_message_def Let_def split: option.split)

lemma end_sink:
  "event_sink (handle_end api (Some cid) code reason st) =
     fst (eq_push (DisconnectionEvent (GlobalConnId (net_id st) cid) code reason) (event_sink st))
   \<and> ctx_of (handle_end api (Some cid) code reason st) cid = None"
  by (simp add: handle_end_def on_close_def detach_find)

text \<open>C20: a frame from a socket puts at most one event into the application's queue: either none, or
  the disconnection of that socket, or the parsed envelope -- and the envelope only when it has protocol
  version 1 and its connection is authenticated, or is pending and the envelope is the authentication
  request. Nothing a connection sends before it authenticates reaches a command handler except AUTH.\<close>

theorem only_authenticated_reach_application:
  "event_sink (ws_message api lim cid binary data st) = event_sink st
   \<or> (\<exists>code reason. event_sink (ws_message api lim cid binary data st) =
        fst (eq_push (DisconnectionEvent (GlobalConnId (net_id st) cid) code reason) (event_sink st))
        \<and> ctx_of (ws_message api lim cid binary data st) cid = None)
   \<or> (\<exists>env ctx. parse_envelope api data = Some env \<and> env_version env = 1 \<and> ctx_of st cid = Some ctx
        \<and> (auth_state ctx = AUTHENTICATED \<or> auth_state ctx = AUTH_PENDING \<and> env_type env = AUTH)
        \<and> event_sink (ws_message api lim cid binary data st) =
            fst (eq_push (MessageEvent (GlobalConnId (net_id st) cid) env) (event_sink st)))"
proof (cases "\<exists>code reason. ws_message api lim cid binary data st = handle_end api (Some cid) code reason st")
  case True
  then show ?thesis using end_sink by metis
next
  case ne: False
  show ?thesis
  proof (cases "ws_message api lim cid binary data st = st")
    case True
    then show ?thesis by simp
  next
    case False
    from ne False obtain env v where e: "parse_envelope api data = Some env" "env_version env = 1"
      "get_view cid (reg st) = Some v" "view_auth_state v \<noteq> AUTH_FAILED"
      "view_auth_state v = AUTHENTICATED \<or> env_type env = AUTH"
      "ws_message api lim cid binary data st = ws_dispatch api cid env st"
      by (auto simp: ws_message_def split: if_split_asm option.splits)
    then obtain ctx where c: "ctx_of st cid = Some ctx" "view_auth_state v = auth_state ctx"
      by (auto simp: get_view_def)
    have "auth_state ctx = AUTHENTICATED \<or> auth_state ctx = AUTH_PENDING \<and> env_type env = AUTH"
      using e(4,5) c(2) by (cases "auth_state ctx") auto
    then show ?thesis using sink_dispatch[of api cid env st] e c(1) by auto
  qed
qed

text \<open>C33: the forwarded-origin header of a peer that is not a configured proxy has no influence on the
  upgrade: the outcome is the same whatever the header says, and the upgrade succeeds only if the request's
  own origin is allowed and the connection limit is not reached.\<close>

theorem untrusted_forwarded_origin_ignored:
  assumes "\<not> is_trusted_proxy pton4 pton6 policy ip"
  shows "ws_upgrade pton4 pton6 policy lim org fwd ip st = ws_upgrade pton4 pton6 policy lim org fwd' ip st
    \<and> (fst (ws_upgrade pton4 pton6 policy lim org fwd ip st) \<in> range Upgraded \<longrightarrow>
         is_allowed policy org \<and> active_connections st < max_connections lim)"
  using assms by (auto simp: ws_upgrade_def effective_origin_def Let_def not_le)

theorem untrusted_forwarded_origin_ignored_witness:
  "let policy = \<lparr> allowed_origins = [''https://a.io''], trusted_proxy_cidrs = [] \<rparr>;
       lim = \<lparr> max_message_bytes = 100, max_connections = 10 \<rparr>;
       up = (\<lambda>fwd. ws_upgrade (\<lambda>_. None) (\<lambda>_. None) policy lim ''https://evil.io'' fwd ''10.0.0.1'' (fresh_net ''n'' ()))
   in up ''https://a.io'' = up [] \<and> fst (up []) = Forbidden"
proof -
  let ?p = "\<lparr> allowed_origins = [''https://a.io''], trusted_proxy_cidrs = [] \<rparr>"
  have t: "\<not> is_trusted_proxy (\<lambda>_. None) (\<lambda>_. None) ?p ''10.0.0.1''"
    by (simp add: is_trusted_proxy_def split: option.split)
  have "fst (ws_upgrade (\<lambda>_. None) (\<lambda>_. None) ?p \<lparr> max_message_bytes = 100, max_connections = 10 \<rparr>
      ''https://evil.io'' [] ''10.0.0.1'' (fresh_net ''n'' ())) = Forbidden"
  proof -
    have "\<not> is_allowed ?p ''https://evil.io''" by code_simp
    then show ?thesis by (simp add: ws_upgrade_def effective_origin_def)
  qed
  with untrusted_forwarded_origin_ignored[OF t] show ?thesis unfolding Let_def by blast
qed

section \<open>An idle tick flushes nothing\<close>

abbreviation same_outbox :: "ConnectionContext \<Rightarrow> ConnectionContext \<Rightarrow> bool" where
  "same_outbox c c' \<equiv> outbox c' = outbox c"

lemma outbox_sweep_conn: "cr.descends same_outbox (reg (fst w)) (reg (fst (sweep_conn api cfg now cid w)))"
proof (cases w)
  case (fields st te dr)
  show ?thesis
    by (auto simp: fields sweep_conn_def Let_def cr.descends_refl upd_ctx_def cr.descends_modify
        split: option.split prod.split)
qed

lemma outbox_sweep_fold:
  "cr.descends same_outbox (reg (fst w)) (reg (fst (fold (sweep_conn api cfg now) cs w)))"
proof (induction cs arbitrary: w)
  case (Cons c cs)
  show ?case
    using cr.descends_trans[OF outbox_sweep_conn[of w api cfg now c] Cons.IH[of "sweep_conn api cfg now c w"]]
    by simp
qed (simp add: cr.descends_refl)

lemma outbox_end_all: "cr.descends same_outbox (reg st) (reg (end_all api dr st))"
  by (auto simp: cr.descends_def end_all_ctx split: if_split_asm)

lemma outbox_sweep: "cr.descends same_outbox (reg st) (reg (retransmit_sweep api cfg st))"
proof (cases "pending_unacked st = []")
  case True
  then show ?thesis by (simp add: retransmit_sweep_def cr.descends_refl)
next
  case False
  obtain now s where t: "steady_now api (sock st) = (now, s)" by force
  obtain st' te dr where w: "fold (sweep_conn api cfg now) (pending_unacked st) (st\<lparr> sock := s \<rparr>, [], []) = (st', te, dr)"
    by (metis prod_cases3)
  let ?st = "st'\<lparr> pending_unacked := filter (\<lambda>c. c \<notin> set te) (pending_unacked st') \<rparr>"
  have 1: "cr.descends same_outbox (reg st) (reg ?st)"
    using outbox_sweep_fold[of "(st\<lparr> sock := s \<rparr>, [], [])" api cfg now "pending_unacked st"] by (simp add: w)
  have "retransmit_sweep api cfg st = end_all api dr ?st"
    using False by (simp add: retransmit_sweep_def t w end_all_def)
  then show ?thesis using cr.descends_trans[OF 1 outbox_end_all] by simp
qed

lemma drain_empty:
  assumes "oq_size (out_q st) = 0" "drain_queue api d n (st, []) = (st', touched)"
  shows "touched = [] \<and> reg st' = reg st"
  using assms
  by (cases n) (auto simp: oq_try_pop_def deadline_passed_def split: prod.splits option.splits if_split_asm)

text \<open>A tick that finds the shared queue empty sends nothing from any outbox: every connection it
  leaves open has exactly the outbox it had. An item that was kept back because its socket was
  backpressured is therefore not retried on the next tick, as \<^verbatim>\<open>send_payload\<close> says, but only when another
  message for the same connection arrives; the \<^verbatim>\<open>drain\<close> handler does not flush it either.\<close>

theorem idle_tick_leaves_outboxes:
  assumes "oq_size (out_q st) = 0" "ctx_of (worker_tick api cfg st) c = Some ctx'"
  shows "\<exists>ctx. ctx_of st c = Some ctx \<and> ob_q (outbox ctx') = ob_q (outbox ctx)"
proof -
  obtain start s where t: "steady_now api (sock st) = (start, s)" by force
  let ?d = "if time_budget cfg > 0 then Some (start + time_budget cfg) else None"
  obtain st1 touched where w: "drain_queue api ?d (max_per_tick cfg) (st\<lparr> sock := s \<rparr>, []) = (st1, touched)"
    by force
  from drain_empty[OF _ w] assms(1) have "touched = []" "reg st1 = reg st" by simp_all
  then have "worker_tick api cfg st = retransmit_sweep api cfg st1" "reg st1 = reg st"
    using w by (simp_all add: worker_tick_def t Let_def)
  with outbox_sweep[of st1 api cfg] assms(2) show ?thesis unfolding cr.descends_def by metis
qed

theorem idle_tick_leaves_outboxes_witness:
  "\<exists>ctx'. ctx_of (worker_tick (logging_api 0) one_per_tick (one_conn ctx_two_queued [])) ''1'' = Some ctx'
     \<and> ob_q (outbox ctx') = [rel_item ''a'', rel_item ''b'']"
proof -
  have s: "oq_size (out_q (one_conn ctx_two_queued [])) = 0"
    by (simp add: one_conn_def fresh_net_def oq_new_def)
  obtain ctx' where c: "ctx_of (worker_tick (logging_api 0) one_per_tick (one_conn ctx_two_queued [])) ''1'' = Some ctx'"
    by (simp add: worker_tick_def one_per_tick_def logging_api_def Let_def oq_try_pop_def deadline_passed_def s
        retransmit_sweep_def)
  from idle_tick_leaves_outboxes[OF s c] c show ?thesis by (simp add: ctx_two_queued_def)
qed

end
