(* ===== verification/Sessions.thy ===== *)
theory Sessions
  imports Prelude
begin

text \<open>
  \<^verbatim>\<open>SessionManager\<close> (\<^verbatim>\<open>src/app/managers/session\<close>): which user and which logical session a transport
  connection belongs to. Six containers index the same relation; the lemmas show that they agree in every
  state the operations can reach, that session ids are not reused, and that the limit of sessions per user
  holds.

  Each method holds the manager's lock, so an execution is a sequence of whole operations.
\<close>

section \<open>State\<close>

record SessionInfo =
  current_hub :: "HubId option"
  current_channel :: "ChannelId option"

record session_manager =
  max_sessions_per_user :: nat
  next_session_id :: SessionId
  sessions :: "(UserId, SessionInfo) umap"
  conn_to_session :: "(GlobalConnId, UserId) umap"
  conn_to_session_id :: "(GlobalConnId, SessionId) umap"
  session_id_to_user :: "(SessionId, UserId) umap"
  session_id_to_conns :: "(SessionId, GlobalConnId list) umap"
  user_to_session_ids :: "(UserId, SessionId list) umap"
  active_users :: int

datatype SessionError = SESSION_LIMIT_EXCEEDED | ConnectionNotKnown | SessionIdNotFound | SessionNotFound

definition sm_new :: "nat \<Rightarrow> session_manager" where
  "sm_new limit = \<lparr> max_sessions_per_user = limit, next_session_id = 0, sessions = [], conn_to_session = [],
     conn_to_session_id = [], session_id_to_user = [], session_id_to_conns = [], user_to_session_ids = [],
     active_users = 0 \<rparr>"

section \<open>Queries\<close>

definition userHasActiveSessions :: "UserId \<Rightarrow> session_manager \<Rightarrow> bool" where
  "userHasActiveSessions user s =
     (case map_of (user_to_session_ids s) user of Some ids \<Rightarrow> ids \<noteq> [] | None \<Rightarrow> False)"

definition collectUserConnections :: "UserId \<Rightarrow> session_manager \<Rightarrow> GlobalConnId list" where
  "collectUserConnections user s =
     (case map_of (user_to_session_ids s) user of
        None \<Rightarrow> []
      | Some ids \<Rightarrow> concat (map (\<lambda>sid. case map_of (session_id_to_conns s) sid of
                                         Some conns \<Rightarrow> conns | None \<Rightarrow> []) ids))"

definition hasSession :: "UserId \<Rightarrow> session_manager \<Rightarrow> bool" where
  "hasSession user s = userHasActiveSessions user s"

definition sessionOfConnection :: "GlobalConnId \<Rightarrow> session_manager \<Rightarrow> SessionError + UserId" where
  "sessionOfConnection conn s =
     (case map_of (conn_to_session s) conn of None \<Rightarrow> Inl ConnectionNotKnown | Some u \<Rightarrow> Inr u)"

definition sessionIdOfConnection :: "GlobalConnId \<Rightarrow> session_manager \<Rightarrow> SessionError + SessionId" where
  "sessionIdOfConnection conn s =
     (case map_of (conn_to_session_id s) conn of None \<Rightarrow> Inl SessionIdNotFound | Some sid \<Rightarrow> Inr sid)"

definition getSession :: "UserId \<Rightarrow> session_manager \<Rightarrow> SessionError + SessionInfo" where
  "getSession user s = (case map_of (sessions s) user of None \<Rightarrow> Inl SessionNotFound | Some i \<Rightarrow> Inr i)"

definition getSessionConnections :: "UserId \<Rightarrow> session_manager \<Rightarrow> GlobalConnId list" where
  "getSessionConnections user s = collectUserConnections user s"

definition getSessionIdConnections :: "SessionId \<Rightarrow> session_manager \<Rightarrow> GlobalConnId list" where
  "getSessionIdConnections sid s =
     (case map_of (session_id_to_conns s) sid of None \<Rightarrow> [] | Some conns \<Rightarrow> conns)"

definition getUserSessionIds :: "UserId \<Rightarrow> session_manager \<Rightarrow> SessionId list" where
  "getUserSessionIds user s =
     (case map_of (user_to_session_ids s) user of None \<Rightarrow> [] | Some ids \<Rightarrow> ids)"

definition sessionIdHasConnections :: "SessionId \<Rightarrow> session_manager \<Rightarrow> bool" where
  "sessionIdHasConnections sid s =
     (case map_of (session_id_to_conns s) sid of None \<Rightarrow> False | Some conns \<Rightarrow> conns \<noteq> [])"

definition activeUsers :: "session_manager \<Rightarrow> UserId list" where
  "activeUsers s = map fst (filter (\<lambda>(u, ids). ids \<noteq> []) (user_to_session_ids s))"

section \<open>Operations\<close>

definition attachConnection :: "GlobalConnId \<Rightarrow> UserId \<Rightarrow> session_manager
    \<Rightarrow> (SessionError + SessionId) \<times> session_manager" where
  "attachConnection conn user s =
     (case map_of (conn_to_session_id s) conn of
        Some sid \<Rightarrow> (Inr sid, s)
      | None \<Rightarrow>
          if max_sessions_per_user s > 0 \<and>
             (case map_of (user_to_session_ids s) user of
                Some ids \<Rightarrow> length ids \<ge> max_sessions_per_user s | None \<Rightarrow> False)
          then (Inl SESSION_LIMIT_EXCEEDED, s)
          else
            (let had_active_sessions = userHasActiveSessions user s;
                 sid = next_session_id s + 1
             in (Inr sid, s\<lparr>
                   sessions := emplace user \<lparr> current_hub = None, current_channel = None \<rparr> (sessions s),
                   active_users := (if \<not> had_active_sessions then active_users s + 1 else active_users s),
                   next_session_id := sid,
                   conn_to_session := AList.update conn user (conn_to_session s),
                   conn_to_session_id := AList.update conn sid (conn_to_session_id s),
                   session_id_to_user := AList.update sid user (session_id_to_user s),
                   session_id_to_conns :=
                     AList.update sid (set_insert conn (lookup_or [] sid (session_id_to_conns s))) (session_id_to_conns s),
                   user_to_session_ids :=
                     AList.update user (set_insert sid (lookup_or [] user (user_to_session_ids s))) (user_to_session_ids s) \<rparr>)))"

text \<open>The last part of \<^verbatim>\<open>removeConnection\<close>: the session has no connection left.\<close>

definition destroy_session :: "UserId \<Rightarrow> SessionId \<Rightarrow> session_manager \<Rightarrow> session_manager" where
  "destroy_session user sid s =
     (let s = s\<lparr> session_id_to_user := AList.delete sid (session_id_to_user s) \<rparr>;
          s = (case map_of (user_to_session_ids s) user of
                 None \<Rightarrow> s
               | Some ids \<Rightarrow>
                   (let ids' = removeAll sid ids
                    in s\<lparr> user_to_session_ids :=
                            (if ids' = [] then AList.delete user (user_to_session_ids s)
                             else AList.update user ids' (user_to_session_ids s)) \<rparr>))
      in if \<not> userHasActiveSessions user s
         then s\<lparr> sessions := AList.delete user (sessions s), active_users := active_users s - 1 \<rparr>
         else s)"

definition removeConnection :: "GlobalConnId \<Rightarrow> session_manager \<Rightarrow> session_manager" where
  "removeConnection conn s =
     (case map_of (conn_to_session s) conn of
        None \<Rightarrow> s\<lparr> conn_to_session_id := AList.delete conn (conn_to_session_id s) \<rparr>
      | Some user \<Rightarrow>
          (let s = s\<lparr> conn_to_session := AList.delete conn (conn_to_session s) \<rparr>
           in case map_of (conn_to_session_id s) conn of
                None \<Rightarrow> s
              | Some sid \<Rightarrow>
                  (let s = s\<lparr> conn_to_session_id := AList.delete conn (conn_to_session_id s) \<rparr>
                   in case map_of (session_id_to_conns s) sid of
                        None \<Rightarrow> destroy_session user sid s
                      | Some conns \<Rightarrow>
                          (let conns' = removeAll conn conns
                           in if conns' \<noteq> []
                              then s\<lparr> session_id_to_conns := AList.update sid conns' (session_id_to_conns s) \<rparr>
                              else destroy_session user sid
                                     (s\<lparr> session_id_to_conns := AList.delete sid (session_id_to_conns s) \<rparr>)))))"

definition joinTextChannel :: "UserId \<Rightarrow> HubId \<Rightarrow> ChannelId \<Rightarrow> session_manager \<Rightarrow> session_manager" where
  "joinTextChannel user hub channel s =
     (case map_of (sessions s) user of
        None \<Rightarrow> s
      | Some i \<Rightarrow> s\<lparr> sessions := AList.update user (i\<lparr> current_hub := Some hub, current_channel := Some channel \<rparr>) (sessions s) \<rparr>)"

definition leaveTextChannel :: "UserId \<Rightarrow> session_manager \<Rightarrow> session_manager" where
  "leaveTextChannel user s =
     (case map_of (sessions s) user of
        None \<Rightarrow> s
      | Some i \<Rightarrow> s\<lparr> sessions := AList.update user (i\<lparr> current_hub := None \<rparr>) (sessions s) \<rparr>)"

section \<open>One relation behind the indexes\<close>

text \<open>The abstract state: the user and the session of each connection. The containers are views
  of it.\<close>

definition sess_rel :: "session_manager \<Rightarrow> GlobalConnId \<rightharpoonup> UserId \<times> SessionId" where
  "sess_rel s c = (case map_of (conn_to_session s) c of None \<Rightarrow> None
     | Some u \<Rightarrow> map_option (\<lambda>sid. (u, sid)) (map_of (conn_to_session_id s) c))"

definition ids_of :: "(GlobalConnId \<rightharpoonup> UserId \<times> SessionId) \<Rightarrow> UserId \<Rightarrow> SessionId set" where
  "ids_of R u = {sid. \<exists>c. R c = Some (u, sid)}"

definition views :: "(GlobalConnId \<rightharpoonup> UserId \<times> SessionId) \<Rightarrow> session_manager \<Rightarrow> bool" where
  "views R s \<longleftrightarrow>
     (\<forall>c. map_of (conn_to_session s) c = map_option fst (R c)
        \<and> map_of (conn_to_session_id s) c = map_option snd (R c))
     \<and> (\<forall>sid u. map_of (session_id_to_user s) sid = Some u \<longleftrightarrow> (\<exists>c. R c = Some (u, sid)))
     \<and> (\<forall>sid cs. map_of (session_id_to_conns s) sid = Some cs \<longleftrightarrow> (\<exists>c u. cs = [c] \<and> R c = Some (u, sid)))
     \<and> (\<forall>u ids. map_of (user_to_session_ids s) u = Some ids \<longrightarrow>
          ids \<noteq> [] \<and> distinct ids \<and> set ids = ids_of R u
          \<and> (max_sessions_per_user s > 0 \<longrightarrow> length ids \<le> max_sessions_per_user s))
     \<and> (\<forall>u. map_of (user_to_session_ids s) u = None \<longrightarrow> ids_of R u = {})
     \<and> (\<forall>u. map_of (sessions s) u = None \<longleftrightarrow> map_of (user_to_session_ids s) u = None)"

definition rel_ok :: "(GlobalConnId \<rightharpoonup> UserId \<times> SessionId) \<Rightarrow> SessionId \<Rightarrow> bool" where
  "rel_ok R n \<longleftrightarrow> (\<forall>c u sid. R c = Some (u, sid) \<longrightarrow> sid \<le> n)
     \<and> (\<forall>c c' u u' sid. R c = Some (u, sid) \<longrightarrow> R c' = Some (u', sid) \<longrightarrow> c = c')"

definition sm_inv :: "session_manager \<Rightarrow> bool" where
  "sm_inv s \<longleftrightarrow> views (sess_rel s) s \<and> rel_ok (sess_rel s) (next_session_id s)
     \<and> umap_ok (user_to_session_ids s) \<and> active_users s = int (length (user_to_session_ids s))"

lemma viewsD:
  assumes "views R s"
  shows "map_of (conn_to_session s) c = map_option fst (R c)"
    "map_of (conn_to_session_id s) c = map_option snd (R c)"
    "map_of (session_id_to_user s) sid = Some u \<longleftrightarrow> (\<exists>c. R c = Some (u, sid))"
    "map_of (session_id_to_conns s) sid = Some cs \<longleftrightarrow> (\<exists>c u. cs = [c] \<and> R c = Some (u, sid))"
    "map_of (user_to_session_ids s) u = Some ids \<Longrightarrow> ids \<noteq> [] \<and> distinct ids \<and> set ids = ids_of R u
       \<and> (max_sessions_per_user s > 0 \<longrightarrow> length ids \<le> max_sessions_per_user s)"
    "map_of (user_to_session_ids s) u = None \<Longrightarrow> ids_of R u = {}"
    "map_of (sessions s) u = None \<longleftrightarrow> map_of (user_to_session_ids s) u = None"
  using assms by (simp_all add: views_def)

lemma views_rel: "views R s \<Longrightarrow> sess_rel s = R"
  by (rule ext) (auto simp: sess_rel_def viewsD(1,2) split: option.split)

lemma sm_invI:
  assumes "views R s" "rel_ok R (next_session_id s)" "umap_ok (user_to_session_ids s)"
    "active_users s = int (length (user_to_session_ids s))"
  shows "sm_inv s \<and> sess_rel s = R"
  using assms views_rel[OF assms(1)] by (simp add: sm_inv_def)

lemma sm_new_inv: "sm_inv (sm_new n)"
  by (simp add: sm_inv_def sm_new_def views_def rel_ok_def sess_rel_def ids_of_def)

lemma userHasActive_views: "views R s \<Longrightarrow> userHasActiveSessions u s \<longleftrightarrow> map_of (user_to_session_ids s) u \<noteq> None"
  by (auto simp: userHasActiveSessions_def split: option.split dest: viewsD(5))

lemma upd_Some_iff:
  "(R(c \<mapsto> p)) c' = Some q \<longleftrightarrow> (if c' = c then q = p else R c' = Some q)"
  "(R(c := None)) c' = Some q \<longleftrightarrow> c' \<noteq> c \<and> R c' = Some q"
  by auto

lemma ids_of_upd_new:
  assumes "R c = None"
  shows "ids_of (R(c \<mapsto> (u, sid))) v = (if v = u then insert sid (ids_of R u) else ids_of R v)"
proof -
  have "R c' = Some q \<Longrightarrow> c' \<noteq> c" for c' q using assms by auto
  then show ?thesis unfolding ids_of_def upd_Some_iff by (auto split: if_split_asm)
qed

lemma ids_of_upd_None:
  assumes "R c = Some (u, sid)" "\<And>c' u'. R c' = Some (u', sid) \<Longrightarrow> c' = c"
  shows "ids_of (R(c := None)) v = (if v = u then ids_of R u - {sid} else ids_of R v)"
proof -
  have *: "c' = c \<longleftrightarrow> s = sid \<and> v = u" if "R c' = Some (v, s)" for c' s
  proof
    assume "c' = c"
    with that assms(1) show "s = sid \<and> v = u" by simp
  next
    assume "s = sid \<and> v = u"
    with that show "c' = c" by (intro assms(2)[of c' v]) simp
  qed
  have "(\<exists>c'. c' \<noteq> c \<and> R c' = Some (v, s)) \<longleftrightarrow> (\<exists>c'. R c' = Some (v, s)) \<and> \<not> (s = sid \<and> v = u)" for s
    using * by metis
  then show ?thesis unfolding ids_of_def upd_Some_iff by auto
qed

lemma length_update_umap:
  "length (AList.update k v m) = (if map_of m k = None then Suc (length m) else length m)"
  by (induction m) (auto split: if_split_asm)

lemma length_delete_umap:
  assumes "umap_ok m" "map_of m k \<noteq> None"
  shows "Suc (length (AList.delete k m)) = length m"
proof -
  have "count_vals (\<lambda>_. True) n = length n" for n :: "('a, 'b) umap" by (simp add: count_vals_def comp_def)
  with count_vals_delete_Some[OF assms(1), of k _ "\<lambda>_. True"] assms(2) show ?thesis by auto
qed

section \<open>Operations on the relation\<close>

lemma ex_upd_new:
  assumes "R c = None"
  shows "(\<exists>c'. (R(c \<mapsto> (u, sid))) c' = Some (w, i)) \<longleftrightarrow> (i = sid \<and> w = u) \<or> (\<exists>c'. R c' = Some (w, i))"
proof -
  have "R c' = Some q \<Longrightarrow> c' \<noteq> c" for c' q using assms by auto
  then show ?thesis unfolding upd_Some_iff by (auto split: if_split_asm)
qed

lemma next_less: "n \<noteq> - 1 \<Longrightarrow> (n :: 64 word) < n + 1"
proof -
  assume "n \<noteq> - 1"
  then have "1 + n \<noteq> 0" by (metis add.commute add_eq_0_iff)
  from unatSuc[OF this] show ?thesis by (simp add: word_less_nat_alt add.commute)
qed

lemma set_insert_new: "x \<notin> set xs \<Longrightarrow> set_insert x xs = xs @ [x]"
  by (simp add: set_insert_def)

text \<open>A refused or repeated attach changes nothing; otherwise the relation gains one pair with an
  unused session id.\<close>

lemma attach_new:
  assumes inv: "sm_inv s" and n: "next_session_id s \<noteq> - 1"
    and c: "map_of (conn_to_session_id s) conn = None"
    and lim: "\<not> (max_sessions_per_user s > 0 \<and> (case map_of (user_to_session_ids s) user of
                Some ids \<Rightarrow> length ids \<ge> max_sessions_per_user s | None \<Rightarrow> False))"
    and at: "attachConnection conn user s = (res, s')"
  shows "sm_inv s' \<and> sess_rel s' = (sess_rel s)(conn \<mapsto> (user, next_session_id s + 1))
    \<and> res = Inr (next_session_id s + 1) \<and> next_session_id s' = next_session_id s + 1"
proof -
  define R where "R = sess_rel s"
  define sid where "sid = next_session_id s + 1"
  have v: "views R s" and ok: "rel_ok R (next_session_id s)" and u: "umap_ok (user_to_session_ids s)"
    and a: "active_users s = int (length (user_to_session_ids s))"
    using inv by (simp_all add: sm_inv_def R_def)
  have Rc: "R conn = None" using viewsD(2)[OF v, of conn] c by simp
  have fresh: "R c' = Some (u', i) \<Longrightarrow> i \<noteq> sid" for c' u' i
    using ok next_less[OF n] unfolding rel_ok_def sid_def by (metis leD)
  have no_sid: "map_of (session_id_to_conns s) sid = None" "map_of (session_id_to_user s) sid = None"
    using viewsD(3,4)[OF v] fresh by (metis option.exhaust)+
  let ?ids = "lookup_or [] user (user_to_session_ids s)"
  have ids: "sid \<notin> set ?ids" "distinct ?ids" "set ?ids = ids_of R user"
    "max_sessions_per_user s > 0 \<longrightarrow> length ?ids < max_sessions_per_user s"
    using viewsD(5)[OF v, of user] viewsD(6)[OF v, of user] lim fresh
    by (cases "map_of (user_to_session_ids s) user"; auto simp: ids_of_def)+
  have s': "res = Inr sid" "s' = s\<lparr>
      sessions := emplace user \<lparr> current_hub = None, current_channel = None \<rparr> (sessions s),
      active_users := (if \<not> userHasActiveSessions user s then active_users s + 1 else active_users s),
      next_session_id := sid,
      conn_to_session := AList.update conn user (conn_to_session s),
      conn_to_session_id := AList.update conn sid (conn_to_session_id s),
      session_id_to_user := AList.update sid user (session_id_to_user s),
      session_id_to_conns := AList.update sid [conn] (session_id_to_conns s),
      user_to_session_ids := AList.update user (?ids @ [sid]) (user_to_session_ids s) \<rparr>"
    using at c lim no_sid ids(1)
    by (auto simp: attachConnection_def Let_def sid_def set_insert_new simp flip: sid_def)
  have "views (R(conn \<mapsto> (user, sid))) s'"
    unfolding views_def
  proof (intro conjI allI impI)
    fix c show "map_of (conn_to_session s') c = map_option fst ((R(conn \<mapsto> (user, sid))) c)"
      using viewsD(1)[OF v] by (simp add: s')
    fix c show "map_of (conn_to_session_id s') c = map_option snd ((R(conn \<mapsto> (user, sid))) c)"
      using viewsD(2)[OF v] by (simp add: s')
  next
    fix i w show "map_of (session_id_to_user s') i = Some w \<longleftrightarrow> (\<exists>c. (R(conn \<mapsto> (user, sid))) c = Some (w, i))"
      unfolding ex_upd_new[of R, OF Rc] viewsD(3)[OF v, symmetric] using no_sid(2) by (auto simp: s')
  next
    fix i cs show "map_of (session_id_to_conns s') i = Some cs \<longleftrightarrow>
        (\<exists>c u. cs = [c] \<and> (R(conn \<mapsto> (user, sid))) c = Some (u, i))"
    proof (cases "i = sid")
      case True
      then have "(R(conn \<mapsto> (user, sid))) c = Some (w, i) \<longleftrightarrow> c = conn \<and> w = user" for c w
        using fresh[of c w i] unfolding upd_Some_iff by auto
      then show ?thesis using True by (auto simp: s')
    next
      case False
      then have "(R(conn \<mapsto> (user, sid))) c = Some (w, i) \<longleftrightarrow> R c = Some (w, i)" for c w
        using Rc unfolding upd_Some_iff by auto
      then show ?thesis using False viewsD(4)[OF v, of i cs] by (simp add: s')
    qed
  next
    fix w ids' assume m: "map_of (user_to_session_ids s') w = Some ids'"
    have p: "ids' \<noteq> [] \<and> distinct ids' \<and> set ids' = ids_of (R(conn \<mapsto> (user, sid))) w
        \<and> (max_sessions_per_user s > 0 \<longrightarrow> length ids' \<le> max_sessions_per_user s)"
    proof (cases "w = user")
      case True
      then have "ids' = ?ids @ [sid]" using m by (simp add: s')
      then show ?thesis using True ids by (simp add: ids_of_upd_new[of R, OF Rc] Suc_le_eq)
    next
      case False
      then have "map_of (user_to_session_ids s) w = Some ids'" using m by (simp add: s')
      from viewsD(5)[OF v this] False show ?thesis by (simp add: ids_of_upd_new[of R, OF Rc])
    qed
    then show "ids' \<noteq> []" "distinct ids'" "set ids' = ids_of (R(conn \<mapsto> (user, sid))) w" by simp_all
    have "max_sessions_per_user s' = max_sessions_per_user s" by (simp add: s')
    moreover assume "max_sessions_per_user s' > 0"
    ultimately show "length ids' \<le> max_sessions_per_user s'" using p by simp
  next
    fix w assume "map_of (user_to_session_ids s') w = None"
    then show "ids_of (R(conn \<mapsto> (user, sid))) w = {}"
      using viewsD(6)[OF v, of w] by (auto simp: s' ids_of_upd_new[of R, OF Rc] split: if_split_asm)
  next
    fix w show "map_of (sessions s') w = None \<longleftrightarrow> map_of (user_to_session_ids s') w = None"
      using viewsD(7)[OF v, of w] viewsD(7)[OF v, of user] by (auto simp: s' map_of_emplace)
  qed
  moreover have "rel_ok (R(conn \<mapsto> (user, sid))) (next_session_id s')"
    unfolding rel_ok_def
  proof (intro conjI allI impI)
    fix c w i assume r: "(R(conn \<mapsto> (user, sid))) c = Some (w, i)"
    have "R c = Some (w, i) \<Longrightarrow> i \<le> next_session_id s" using ok by (simp add: rel_ok_def)
    then show "i \<le> next_session_id s'"
      using r next_less[OF n] unfolding upd_Some_iff by (auto simp: s' sid_def split: if_split_asm)
  next
    fix c c' w w' i
    assume "(R(conn \<mapsto> (user, sid))) c = Some (w, i)" "(R(conn \<mapsto> (user, sid))) c' = Some (w', i)"
    then show "c = c'" using fresh ok unfolding upd_Some_iff rel_ok_def by (metis prod.inject)
  qed
  moreover have "umap_ok (user_to_session_ids s')" "active_users s' = int (length (user_to_session_ids s'))"
    using u a by (simp_all add: s' userHasActive_views[OF v] length_update_umap)
  ultimately show ?thesis using sm_invI[of "R(conn \<mapsto> (user, sid))" s'] s'
    by (simp add: R_def sid_def)
qed

lemma attach_inv:
  assumes "sm_inv s" "next_session_id s \<noteq> - 1" "attachConnection conn user s = (res, s')"
  shows "sm_inv s' \<and> unat (next_session_id s') \<le> Suc (unat (next_session_id s))
    \<and> max_sessions_per_user s' = max_sessions_per_user s"
proof (cases "s' = s")
  case True
  with assms(1) show ?thesis by simp
next
  case False
  have c: "map_of (conn_to_session_id s) conn = None"
    using assms(3) False by (auto simp: attachConnection_def split: option.splits)
  have l: "\<not> (max_sessions_per_user s > 0 \<and> (case map_of (user_to_session_ids s) user of
        Some ids \<Rightarrow> length ids \<ge> max_sessions_per_user s | None \<Rightarrow> False))"
    using assms(3) False c by (auto simp: attachConnection_def)
  have "1 + next_session_id s \<noteq> 0" using assms(2) by (metis add.commute add_eq_0_iff)
  from unatSuc[OF this] attach_new[OF assms(1,2) c l assms(3)] have
    "sm_inv s' \<and> unat (next_session_id s') = Suc (unat (next_session_id s))" by (simp add: add.commute)
  moreover have "max_sessions_per_user s' = max_sessions_per_user s"
    using assms(3) by (auto simp: attachConnection_def Let_def split: option.splits if_split_asm)
  ultimately show ?thesis by simp
qed

text \<open>Removing an unknown connection changes nothing that is observed; removing a known one takes
  its pair out of the relation, and its session with it.\<close>

lemma destroy_session_eq:
  assumes "views R s0" "user_to_session_ids s = user_to_session_ids s0" "R conn = Some (user, sid)"
  shows "\<exists>ids. map_of (user_to_session_ids s) user = Some ids \<and> sid \<in> set ids \<and>
    destroy_session user sid s =
     (if removeAll sid ids = []
      then s\<lparr> session_id_to_user := AList.delete sid (session_id_to_user s),
              user_to_session_ids := AList.delete user (user_to_session_ids s),
              sessions := AList.delete user (sessions s), active_users := active_users s - 1 \<rparr>
      else s\<lparr> session_id_to_user := AList.delete sid (session_id_to_user s),
              user_to_session_ids := AList.update user (removeAll sid ids) (user_to_session_ids s) \<rparr>)"
proof -
  have "sid \<in> ids_of R user" using assms(3) by (auto simp: ids_of_def)
  then obtain ids where ids: "map_of (user_to_session_ids s0) user = Some ids" "sid \<in> set ids"
    using viewsD(5,6)[OF assms(1), of user] by (cases "map_of (user_to_session_ids s0) user") auto
  then show ?thesis
    using assms(2) by (auto simp: destroy_session_def Let_def userHasActiveSessions_def)
qed

text \<open>The state after removing a known connection.\<close>

lemma remove_shape:
  assumes v: "views R s" and r: "R conn = Some (user, sid)"
  obtains ids where "map_of (user_to_session_ids s) user = Some ids" "sid \<in> set ids"
    "removeConnection conn s = (let s1 = s\<lparr> conn_to_session := AList.delete conn (conn_to_session s),
        conn_to_session_id := AList.delete conn (conn_to_session_id s),
        session_id_to_user := AList.delete sid (session_id_to_user s),
        session_id_to_conns := AList.delete sid (session_id_to_conns s) \<rparr>
      in if removeAll sid ids = []
         then s1\<lparr> user_to_session_ids := AList.delete user (user_to_session_ids s),
                  sessions := AList.delete user (sessions s), active_users := active_users s - 1 \<rparr>
         else s1\<lparr> user_to_session_ids := AList.update user (removeAll sid ids) (user_to_session_ids s) \<rparr>)"
proof -
  have m: "map_of (conn_to_session s) conn = Some user" "map_of (conn_to_session_id s) conn = Some sid"
    "map_of (session_id_to_conns s) sid = Some [conn]"
    using viewsD(1,2)[OF v, of conn] viewsD(4)[OF v, of sid "[conn]"] r by auto
  let ?s1 = "s\<lparr> conn_to_session := AList.delete conn (conn_to_session s),
      conn_to_session_id := AList.delete conn (conn_to_session_id s),
      session_id_to_conns := AList.delete sid (session_id_to_conns s) \<rparr>"
  have "removeConnection conn s = destroy_session user sid ?s1"
    using m by (simp add: removeConnection_def Let_def)
  with destroy_session_eq[OF v, of ?s1 conn user sid] r that show ?thesis by (auto simp: Let_def)
qed

lemma remove_views:
  assumes v: "views R s" and r: "R conn = Some (user, sid)"
    and uniq: "\<And>c' w. R c' = Some (w, sid) \<Longrightarrow> c' = conn"
  shows "views (R(conn := None)) (removeConnection conn s)"
proof -
  define s' where "s' = removeConnection conn s"
  obtain ids where ids: "map_of (user_to_session_ids s) user = Some ids"
    and e: "s' = (let s1 = s\<lparr> conn_to_session := AList.delete conn (conn_to_session s),
        conn_to_session_id := AList.delete conn (conn_to_session_id s),
        session_id_to_user := AList.delete sid (session_id_to_user s),
        session_id_to_conns := AList.delete sid (session_id_to_conns s) \<rparr>
      in if removeAll sid ids = []
         then s1\<lparr> user_to_session_ids := AList.delete user (user_to_session_ids s),
                  sessions := AList.delete user (sessions s), active_users := active_users s - 1 \<rparr>
         else s1\<lparr> user_to_session_ids := AList.update user (removeAll sid ids) (user_to_session_ids s) \<rparr>)"
    using remove_shape[OF v r] unfolding s'_def by blast
  have sel: "conn_to_session s' = AList.delete conn (conn_to_session s)"
    "conn_to_session_id s' = AList.delete conn (conn_to_session_id s)"
    "session_id_to_user s' = AList.delete sid (session_id_to_user s)"
    "session_id_to_conns s' = AList.delete sid (session_id_to_conns s)"
    "max_sessions_per_user s' = max_sessions_per_user s"
    by (simp_all add: e Let_def)
  have uids: "map_of (user_to_session_ids s') w = (if w \<noteq> user then map_of (user_to_session_ids s) w
      else if removeAll sid ids = [] then None else Some (removeAll sid ids))"
    and sess: "map_of (sessions s') w = (if w = user \<and> removeAll sid ids = [] then None else map_of (sessions s) w)" for w
    by (simp_all add: e Let_def)
  note iu = ids_of_upd_None[of R conn user sid, OF r uniq] and nd = viewsD(5)[OF v ids]
  have sub: "(R(conn := None)) c = Some (w, i) \<longleftrightarrow> i \<noteq> sid \<and> R c = Some (w, i)" for c w i
    unfolding upd_Some_iff using uniq r by (metis option.inject prod.inject)
  have views': "views (R(conn := None)) s'"
    unfolding views_def sub
  proof (intro conjI allI impI)
    fix c show "map_of (conn_to_session s') c = map_option fst ((R(conn := None)) c)"
      "map_of (conn_to_session_id s') c = map_option snd ((R(conn := None)) c)"
      using viewsD(1,2)[OF v, of c] by (simp_all add: sel)
  next
    fix i w show "map_of (session_id_to_user s') i = Some w \<longleftrightarrow> (\<exists>c. i \<noteq> sid \<and> R c = Some (w, i))"
      using viewsD(3)[OF v, of i w] by (simp add: sel)
  next
    fix i cs show "map_of (session_id_to_conns s') i = Some cs \<longleftrightarrow> (\<exists>c u. cs = [c] \<and> i \<noteq> sid \<and> R c = Some (u, i))"
      using viewsD(4)[OF v, of i cs] by (cases "i = sid") (simp_all add: sel)
  next
    fix w ids' assume m: "map_of (user_to_session_ids s') w = Some ids'"
    have "ids' \<noteq> [] \<and> distinct ids' \<and> set ids' = ids_of (R(conn := None)) w
        \<and> (max_sessions_per_user s > 0 \<longrightarrow> length ids' \<le> max_sessions_per_user s)"
    proof (cases "w = user")
      case True
      then have "ids' = removeAll sid ids" "ids' \<noteq> []" using m by (simp_all add: uids split: if_split_asm)
      then show ?thesis using True nd le_trans[OF length_removeAll_less_eq[of sid ids]]
        by (auto simp: iu distinct_removeAll)
    next
      case False
      then show ?thesis using m viewsD(5)[OF v, of w ids'] by (simp add: uids iu)
    qed
    then show "ids' \<noteq> []" "distinct ids'" "set ids' = ids_of (R(conn := None)) w"
      "max_sessions_per_user s' > 0 \<Longrightarrow> length ids' \<le> max_sessions_per_user s'" by (simp_all add: sel)
  next
    fix w assume m: "map_of (user_to_session_ids s') w = None"
    show "ids_of (R(conn := None)) w = {}"
    proof (cases "w = user")
      case True
      then have "removeAll sid ids = []" using m by (simp add: uids split: if_split_asm)
      then have "set ids - {sid} = {}" by (metis list.set(1) set_removeAll)
      then show ?thesis using True nd by (simp add: iu)
    next
      case False
      then show ?thesis using m viewsD(6)[OF v, of w] by (simp add: uids iu)
    qed
  next
    fix w show "map_of (sessions s') w = None \<longleftrightarrow> map_of (user_to_session_ids s') w = None"
      using viewsD(7)[OF v, of w] ids by (cases "w = user") (simp_all add: uids sess)
  qed
  then show ?thesis by (simp only: s'_def)
qed

lemma remove_known:
  assumes inv: "sm_inv s" and r: "sess_rel s conn = Some (user, sid)"
  shows "sm_inv (removeConnection conn s) \<and> sess_rel (removeConnection conn s) = (sess_rel s)(conn := None)
    \<and> next_session_id (removeConnection conn s) = next_session_id s
    \<and> max_sessions_per_user (removeConnection conn s) = max_sessions_per_user s"
proof -
  let ?R = "sess_rel s" and ?s = "removeConnection conn s"
  have v: "views ?R s" and ok: "rel_ok ?R (next_session_id s)" and u: "umap_ok (user_to_session_ids s)"
    and a: "active_users s = int (length (user_to_session_ids s))"
    using inv by (simp_all add: sm_inv_def)
  have uniq: "c' = conn" if "?R c' = Some (w, sid)" for c' w
    using ok that r unfolding rel_ok_def by blast
  have sel: "next_session_id ?s = next_session_id s" "max_sessions_per_user ?s = max_sessions_per_user s"
    "umap_ok (user_to_session_ids ?s)" "active_users ?s = int (length (user_to_session_ids ?s))"
    using u a length_delete_umap[OF u, of user]
    by (rule_tac remove_shape[OF v r]; simp add: Let_def length_update_umap)+
  have "rel_ok (?R(conn := None)) (next_session_id ?s)"
    using ok unfolding rel_ok_def upd_Some_iff sel by blast
  from sm_invI[OF remove_views[OF v r uniq] this sel(3,4)] sel(1,2) show ?thesis by simp
qed

lemma views_cong:
  assumes "views R s" "\<And>c. map_of (conn_to_session s') c = map_of (conn_to_session s) c"
    "\<And>c. map_of (conn_to_session_id s') c = map_of (conn_to_session_id s) c"
    "session_id_to_user s' = session_id_to_user s" "session_id_to_conns s' = session_id_to_conns s"
    "user_to_session_ids s' = user_to_session_ids s" "max_sessions_per_user s' = max_sessions_per_user s"
    "\<And>u. map_of (sessions s') u = None \<longleftrightarrow> map_of (sessions s) u = None"
  shows "views R s'"
  using assms by (simp add: views_def)

lemma remove_inv:
  assumes "sm_inv s"
  shows "sm_inv (removeConnection conn s) \<and> sess_rel (removeConnection conn s) = (sess_rel s)(conn := None)
    \<and> next_session_id (removeConnection conn s) = next_session_id s
    \<and> max_sessions_per_user (removeConnection conn s) = max_sessions_per_user s"
proof (cases "sess_rel s conn")
  case None
  have v: "views (sess_rel s) s" using assms by (simp add: sm_inv_def)
  have m: "map_of (conn_to_session s) conn = None" "map_of (conn_to_session_id s) conn = None"
    using viewsD(1,2)[OF v, of conn] None by simp_all
  then have e: "removeConnection conn s = s\<lparr> conn_to_session_id := AList.delete conn (conn_to_session_id s) \<rparr>"
    by (simp add: removeConnection_def)
  have "views (sess_rel s) (removeConnection conn s)"
    by (rule views_cong[OF v]) (simp_all add: e m)
  moreover have "(sess_rel s)(conn := None) = sess_rel s" using None by (simp add: fun_upd_idem)
  ultimately show ?thesis
    using sm_invI[of "sess_rel s" "removeConnection conn s"] assms by (simp add: e sm_inv_def)
next
  case (Some p)
  then show ?thesis using remove_known[OF assms] by (cases p) auto
qed

lemma text_channel_sel [simp]:
  "next_session_id (joinTextChannel u h c s) = next_session_id s" "next_session_id (leaveTextChannel u s) = next_session_id s"
  "max_sessions_per_user (joinTextChannel u h c s) = max_sessions_per_user s"
  "max_sessions_per_user (leaveTextChannel u s) = max_sessions_per_user s"
  "user_to_session_ids (joinTextChannel u h c s) = user_to_session_ids s"
  "user_to_session_ids (leaveTextChannel u s) = user_to_session_ids s"
  "active_users (joinTextChannel u h c s) = active_users s" "active_users (leaveTextChannel u s) = active_users s"
  by (simp_all add: joinTextChannel_def leaveTextChannel_def split: option.split)

lemma text_channel_inv:
  assumes "sm_inv s"
  shows "sm_inv (joinTextChannel u h c s) \<and> sess_rel (joinTextChannel u h c s) = sess_rel s"
    "sm_inv (leaveTextChannel u s) \<and> sess_rel (leaveTextChannel u s) = sess_rel s"
proof -
  have v: "views (sess_rel s) s" using assms by (simp add: sm_inv_def)
  have w: "views (sess_rel s) (joinTextChannel u h c s)" "views (sess_rel s) (leaveTextChannel u s)"
    by (rule views_cong[OF v]; auto simp: joinTextChannel_def leaveTextChannel_def split: option.split)+
  show "sm_inv (joinTextChannel u h c s) \<and> sess_rel (joinTextChannel u h c s) = sess_rel s"
    by (rule sm_invI[OF w(1)]) (use assms in \<open>simp_all add: sm_inv_def\<close>)
  show "sm_inv (leaveTextChannel u s) \<and> sess_rel (leaveTextChannel u s) = sess_rel s"
    by (rule sm_invI[OF w(2)]) (use assms in \<open>simp_all add: sm_inv_def\<close>)
qed

section \<open>Runs\<close>

datatype session_op = Attach GlobalConnId UserId | Remove GlobalConnId
  | JoinText UserId HubId ChannelId | LeaveText UserId

fun session_step :: "session_op \<Rightarrow> session_manager \<Rightarrow> session_manager" where
  "session_step (Attach c u) s = snd (attachConnection c u s)"
| "session_step (Remove c) s = removeConnection c s"
| "session_step (JoinText u h c) s = joinTextChannel u h c s"
| "session_step (LeaveText u) s = leaveTextChannel u s"

lemma session_step_inv:
  assumes "sm_inv s" "next_session_id s \<noteq> - 1"
  shows "sm_inv (session_step op s) \<and> unat (next_session_id (session_step op s)) \<le> Suc (unat (next_session_id s))
    \<and> max_sessions_per_user (session_step op s) = max_sessions_per_user s"
proof (cases op)
  case (Attach c u)
  then show ?thesis using attach_inv[OF assms, of c u] by (cases "attachConnection c u s") simp
qed (use assms remove_inv[OF assms(1)] text_channel_inv[OF assms(1)] in simp_all)

text \<open>Session ids are 64-bit; the counter does not wrap within fewer than \<open>2^64 - 1\<close> operations.\<close>

lemma session_run_inv:
  assumes "sm_inv s" "unat (next_session_id s) + length ops < 2 ^ 64"
  shows "sm_inv (fold session_step ops s) \<and> max_sessions_per_user (fold session_step ops s) = max_sessions_per_user s"
  using assms
proof (induction ops arbitrary: s)
  case (Cons op ops)
  have "next_session_id s \<noteq> - 1"
  proof
    assume "next_session_id s = - 1"
    then have "unat (next_session_id s) = 2 ^ 64 - 1" by (simp add: unsigned_minus_1_eq_mask mask_eq_exp_minus_1)
    with Cons.prems(2) show False by simp
  qed
  from session_step_inv[OF Cons.prems(1) this, of op] Cons.prems(2) Cons.IH[of "session_step op s"]
  show ?case by simp
qed simp

section \<open>What the queries see\<close>

lemma sm_inv_views: "sm_inv s \<Longrightarrow> views (sess_rel s) s"
  by (simp add: sm_inv_def)

lemma sessionOf_iff:
  assumes "sm_inv s"
  shows "sessionOfConnection c s = Inr u \<longleftrightarrow> (\<exists>sid. sess_rel s c = Some (u, sid))"
    "sessionIdOfConnection c s = Inr sid \<longleftrightarrow> (\<exists>u. sess_rel s c = Some (u, sid))"
  using viewsD(1,2)[OF sm_inv_views[OF assms], of c]
  by (auto simp: sessionOfConnection_def sessionIdOfConnection_def split: option.splits)

lemma getIdConns_iff:
  assumes "sm_inv s"
  shows "getSessionIdConnections sid s = [c] \<longleftrightarrow> (\<exists>u. sess_rel s c = Some (u, sid))"
  using viewsD(4)[OF sm_inv_views[OF assms], of sid]
  by (cases "map_of (session_id_to_conns s) sid") (auto simp: getSessionIdConnections_def)

lemma set_userSessionIds:
  assumes "sm_inv s"
  shows "set (getUserSessionIds u s) = ids_of (sess_rel s) u"
  using viewsD(5,6)[OF sm_inv_views[OF assms], of u]
  by (cases "map_of (user_to_session_ids s) u") (auto simp: getUserSessionIds_def)

lemma set_sessionConnections:
  assumes "sm_inv s"
  shows "set (getSessionConnections u s) = {c. \<exists>sid. sess_rel s c = Some (u, sid)}"
proof -
  have conns: "(case map_of (session_id_to_conns s) sid of Some cs \<Rightarrow> cs | None \<Rightarrow> []) = [c]"
    if "sess_rel s c = Some (v, sid)" for sid c v
    using viewsD(4)[OF sm_inv_views[OF assms], of sid "[c]"] that by auto
  have "set (getSessionConnections u s) =
      (\<Union>sid\<in>set (getUserSessionIds u s). set (case map_of (session_id_to_conns s) sid of Some cs \<Rightarrow> cs | None \<Rightarrow> []))"
    by (auto simp: getSessionConnections_def collectUserConnections_def getUserSessionIds_def split: option.split)
  also have "\<dots> = {c. \<exists>sid. sess_rel s c = Some (u, sid)}"
  proof (rule set_eqI)
    fix c
    have "c \<in> (\<Union>sid\<in>ids_of (sess_rel s) u. set (case map_of (session_id_to_conns s) sid of Some cs \<Rightarrow> cs | None \<Rightarrow> []))
        \<longleftrightarrow> (\<exists>sid c'. sess_rel s c' = Some (u, sid) \<and> c \<in> set (case map_of (session_id_to_conns s) sid of Some cs \<Rightarrow> cs | None \<Rightarrow> []))"
      by (auto simp: ids_of_def)
    also have "\<dots> \<longleftrightarrow> (\<exists>sid c'. sess_rel s c' = Some (u, sid) \<and> c = c')"
      using conns by (metis empty_iff list.set(1) list.set(2) insert_iff)
    finally show "c \<in> (\<Union>sid\<in>set (getUserSessionIds u s). set (case map_of (session_id_to_conns s) sid of Some cs \<Rightarrow> cs | None \<Rightarrow> []))
        \<longleftrightarrow> c \<in> {c. \<exists>sid. sess_rel s c = Some (u, sid)}"
      unfolding set_userSessionIds[OF assms] by blast
  qed
  finally show ?thesis .
qed

lemma hasSession_iff: "sm_inv s \<Longrightarrow> hasSession u s \<longleftrightarrow> (\<exists>c sid. sess_rel s c = Some (u, sid))"
  using viewsD(5,6)[OF sm_inv_views, of s u] userHasActive_views[OF sm_inv_views, of s u]
  by (cases "map_of (user_to_session_ids s) u") (fastforce simp: hasSession_def ids_of_def)+

lemma activeUsers_eq:
  assumes "sm_inv s"
  shows "activeUsers s = map fst (user_to_session_ids s)"
    "set (activeUsers s) = {u. hasSession u s}"
proof -
  have ne: "ids \<noteq> []" if "(u, ids) \<in> set (user_to_session_ids s)" for u ids
    using that assms viewsD(5)[OF sm_inv_views[OF assms], of u ids] by (simp add: sm_inv_def umap_mem)
  then show e: "activeUsers s = map fst (user_to_session_ids s)"
    by (auto simp: activeUsers_def intro!: arg_cong[where f = "map fst"] filter_True)
  have "u \<in> set (map fst (user_to_session_ids s)) \<longleftrightarrow> map_of (user_to_session_ids s) u \<noteq> None" for u
    by (metis map_of_eq_None_iff set_map)
  then show "set (activeUsers s) = {u. hasSession u s}"
    unfolding e hasSession_def userHasActive_views[OF sm_inv_views[OF assms]] by blast
qed

section \<open>Properties\<close>

text \<open>C3: after any sequence of attach, remove and text-channel operations on a new manager (fewer
  than \<open>2^64\<close> of them), the indexes agree: a connection has a user exactly when it has a session id that
  is listed for that user and has that connection as its only one; the connections reported for a user are
  exactly those whose user it is; a user has a session exactly when such a connection exists, and these are
  the active users, counted correctly by the metric; and no user has more sessions than the limit.\<close>

theorem session_indexes_agree:
  fixes n :: nat and ops :: "session_op list"
  assumes "length ops < 2 ^ 64"
  defines "s \<equiv> fold session_step ops (sm_new n)"
  shows "(sessionOfConnection c s = Inr u \<longleftrightarrow>
      (\<exists>sid. sessionIdOfConnection c s = Inr sid \<and> sid \<in> set (getUserSessionIds u s)
         \<and> getSessionIdConnections sid s = [c]))
    \<and> set (getSessionConnections u s) = {c. sessionOfConnection c s = Inr u}
    \<and> (hasSession u s \<longleftrightarrow> (\<exists>c. sessionOfConnection c s = Inr u))
    \<and> set (activeUsers s) = {u. hasSession u s} \<and> active_users s = int (length (activeUsers s))
    \<and> (n > 0 \<longrightarrow> length (getUserSessionIds u s) \<le> n)"
proof -
  have "unat (next_session_id (sm_new n)) + length ops < 2 ^ 64" using assms(1) by (simp add: sm_new_def)
  from session_run_inv[OF sm_new_inv this] have i: "sm_inv s" and m: "max_sessions_per_user s = n"
    by (simp_all add: s_def sm_new_def)
  have uniq: "\<And>c c' v w sid. sess_rel s c = Some (v, sid) \<Longrightarrow> sess_rel s c' = Some (w, sid) \<Longrightarrow> c = c'"
    using i by (auto simp: sm_inv_def rel_ok_def)
  have "length (getUserSessionIds u s) \<le> n" if "n > 0"
    using viewsD(5)[OF sm_inv_views[OF i], of u] that m
    by (auto simp: getUserSessionIds_def split: option.split)
  moreover have "(\<exists>sid. sess_rel s c = Some (u, sid)) \<longleftrightarrow>
      (\<exists>sid. (\<exists>v. sess_rel s c = Some (v, sid)) \<and> sid \<in> ids_of (sess_rel s) u \<and> (\<exists>w. sess_rel s c = Some (w, sid)))"
    unfolding ids_of_def using uniq by blast
  ultimately show ?thesis
    unfolding sessionOf_iff[OF i] getIdConns_iff[OF i] set_userSessionIds[OF i] set_sessionConnections[OF i]
      hasSession_iff[OF i] activeUsers_eq(2)[OF i]
    using i activeUsers_eq(1)[OF i] by (simp add: sm_inv_def)
qed

theorem session_indexes_agree_witness:
  "let c1 = GlobalConnId ''n'' ''1''; c2 = GlobalConnId ''n'' ''2'';
       s = fold session_step [Attach c1 ''u'', Attach c2 ''u'', Attach c2 ''v'', Remove c1] (sm_new 2)
   in sessionOfConnection c2 s = Inr ''u'' \<and> set (getSessionConnections ''u'' s) = {c. sessionOfConnection c s = Inr ''u''}
      \<and> length (getUserSessionIds ''u'' s) \<le> 2"
proof -
  let ?ops = "[Attach (GlobalConnId ''n'' ''1'') ''u'', Attach (GlobalConnId ''n'' ''2'') ''u'',
      Attach (GlobalConnId ''n'' ''2'') ''v'', Remove (GlobalConnId ''n'' ''1'')]"
  have "sessionOfConnection (GlobalConnId ''n'' ''2'') (fold session_step ?ops (sm_new 2)) = Inr ''u''"
    by (simp add: sm_new_def attachConnection_def removeConnection_def destroy_session_def userHasActiveSessions_def
        lookup_or_def set_insert_def emplace_def sessionOfConnection_def Let_def)
  with session_indexes_agree[of ?ops "GlobalConnId ''n'' ''2''" 2 "''u''"] show ?thesis
    unfolding Let_def by simp
qed

text \<open>The manager refines a single relation from connections to (user, session) pairs: removing a
  connection removes its pair; attaching an attached connection changes nothing and returns its session;
  a user at the limit is refused with an error and no change; every other attach adds one pair whose
  session id was never in use.\<close>

theorem session_ops_refine_relation:
  assumes "sm_inv s" "next_session_id s \<noteq> - 1"
  shows "sess_rel (removeConnection c s) = (sess_rel s)(c := None)
    \<and> (case attachConnection c u s of (res, s') \<Rightarrow>
         (case sess_rel s c of
            Some (v, sid) \<Rightarrow> res = Inr sid \<and> s' = s
          | None \<Rightarrow>
              if max_sessions_per_user s > 0 \<and> length (getUserSessionIds u s) \<ge> max_sessions_per_user s
              then res = Inl SESSION_LIMIT_EXCEEDED \<and> s' = s
              else \<exists>sid. res = Inr sid \<and> sess_rel s' = (sess_rel s)(c \<mapsto> (u, sid))
                     \<and> (\<forall>c' v. sess_rel s c' \<noteq> Some (v, sid))))"
proof -
  obtain res s' where a: "attachConnection c u s = (res, s')" by force
  have v: "views (sess_rel s) s" and ok: "rel_ok (sess_rel s) (next_session_id s)"
    using assms(1) by (simp_all add: sm_inv_def)
  have lim: "(max_sessions_per_user s > 0 \<and> (case map_of (user_to_session_ids s) u of
        Some ids \<Rightarrow> length ids \<ge> max_sessions_per_user s | None \<Rightarrow> False)) \<longleftrightarrow>
      max_sessions_per_user s > 0 \<and> length (getUserSessionIds u s) \<ge> max_sessions_per_user s"
    by (auto simp: getUserSessionIds_def split: option.split)
  have "case sess_rel s c of
            Some (v, sid) \<Rightarrow> res = Inr sid \<and> s' = s
          | None \<Rightarrow>
              if max_sessions_per_user s > 0 \<and> length (getUserSessionIds u s) \<ge> max_sessions_per_user s
              then res = Inl SESSION_LIMIT_EXCEEDED \<and> s' = s
              else \<exists>sid. res = Inr sid \<and> sess_rel s' = (sess_rel s)(c \<mapsto> (u, sid))
                     \<and> (\<forall>c' v. sess_rel s c' \<noteq> Some (v, sid))"
  proof (cases "sess_rel s c")
    case None
    then have c: "map_of (conn_to_session_id s) c = None" using viewsD(2)[OF v, of c] by simp
    have "sess_rel s c' \<noteq> Some (w, next_session_id s + 1)" for c' w
      using ok next_less[OF assms(2)] unfolding rel_ok_def by (metis leD)
    with None c a attach_new[OF assms c _ a] show ?thesis
      unfolding lim by (auto simp: attachConnection_def lim)
  next
    case (Some p)
    then show ?thesis using viewsD(2)[OF v, of c] a by (auto simp: attachConnection_def)
  qed
  with a remove_inv[OF assms(1)] show ?thesis by simp
qed

theorem session_ops_refine_relation_witness:
  "sess_rel (removeConnection (GlobalConnId ''n'' ''1'') (sm_new 1)) = (sess_rel (sm_new 1))(GlobalConnId ''n'' ''1'' := None)
   \<and> sess_rel (snd (attachConnection (GlobalConnId ''n'' ''1'') ''u'' (sm_new 1))) (GlobalConnId ''n'' ''1'') = Some (''u'', 1)"
proof -
  have "next_session_id (sm_new 1) \<noteq> - 1" by (simp add: sm_new_def)
  from session_ops_refine_relation[OF sm_new_inv this, of "GlobalConnId ''n'' ''1''" "''u''"]
  show ?thesis by (simp add: sess_rel_def attachConnection_def sm_new_def Let_def)
qed

end
