(* ===== verification/Subscriptions.thy ===== *)
theory Subscriptions
  imports Sessions "HOL-Library.Multiset"
begin

text \<open>
  \<^verbatim>\<open>SubscriptionManager\<close> and \<^verbatim>\<open>Topic\<close> (\<^verbatim>\<open>src/app/managers/subscription\<close>).

  The subscriber vectors are shared with readers by \<^verbatim>\<open>shared_ptr\<close> and copied before a write when a
  reader holds them. The model keeps that sharing: vectors live in a heap of addresses, a topic maps to an
  address, and the addresses handed to readers are recorded until they are released; a reference count
  above one is an address that some reader holds. The lemmas show that the two indexes agree, that a topic
  lists each subscriber once, and that a snapshot held by a reader never changes.
\<close>

section \<open>Topics\<close>

datatype TopicKind = HubKind | ChannelKind | UserKind

record Topic =
  topic_kind :: TopicKind
  topic_primary :: string
  topic_secondary :: string

definition HubTopic :: "HubId \<Rightarrow> Topic" where
  "HubTopic hub = \<lparr> topic_kind = HubKind, topic_primary = hub, topic_secondary = [] \<rparr>"

definition ChannelTopic :: "HubId \<Rightarrow> ChannelId \<Rightarrow> Topic" where
  "ChannelTopic hub channel = \<lparr> topic_kind = ChannelKind, topic_primary = hub, topic_secondary = channel \<rparr>"

definition UserTopic :: "UserId \<Rightarrow> Topic" where
  "UserTopic user = \<lparr> topic_kind = UserKind, topic_primary = user, topic_secondary = [] \<rparr>"

definition extractHubId :: "Topic \<Rightarrow> HubId" where
  "extractHubId t = (if topic_kind t = HubKind \<or> topic_kind t = ChannelKind then topic_primary t else [])"

definition extractChannelId :: "Topic \<Rightarrow> ChannelId" where
  "extractChannelId t = (if topic_kind t = ChannelKind then topic_secondary t else [])"

definition extractUserId :: "Topic \<Rightarrow> UserId" where
  "extractUserId t = (if topic_kind t = UserKind then topic_primary t else [])"

section \<open>State\<close>

record subscriptions =
  topic_to_conns :: "(Topic, nat) umap"
  conn_to_topics :: "(GlobalConnId, Topic list) umap"
  vec_heap :: "nat \<Rightarrow> GlobalConnId list"
  next_vec :: nat
  held :: "nat list"

definition subs_new :: subscriptions where
  "subs_new = \<lparr> topic_to_conns = [], conn_to_topics = [], vec_heap = (\<lambda>_. []), next_vec = 0, held = [] \<rparr>"

text \<open>The copy before a write.\<close>

definition writable :: "nat \<Rightarrow> subscriptions \<Rightarrow> nat \<times> subscriptions" where
  "writable p s =
     (if p \<in> set (held s)
      then (next_vec s, s\<lparr> vec_heap := (vec_heap s)(next_vec s := vec_heap s p), next_vec := next_vec s + 1 \<rparr>)
      else (p, s))"

text \<open>Erase by overwriting with the last element.\<close>

fun index_of :: "'a \<Rightarrow> 'a list \<Rightarrow> nat option" where
  "index_of x [] = None"
| "index_of x (y # ys) = (if y = x then Some 0 else map_option Suc (index_of x ys))"

definition swap_erase :: "'a \<Rightarrow> 'a list \<Rightarrow> 'a list" where
  "swap_erase x xs = (case index_of x xs of None \<Rightarrow> xs | Some i \<Rightarrow> butlast (xs[i := last xs]))"

text \<open>\<^verbatim>\<open>eraseConnFromTopic\<close> on the topic's vector, with the removal of the topic entry that its callers
  make when the vector became empty.\<close>

definition eraseConnFromTopic :: "GlobalConnId \<Rightarrow> Topic \<Rightarrow> subscriptions \<Rightarrow> subscriptions" where
  "eraseConnFromTopic conn topic s =
     (case map_of (topic_to_conns s) topic of
        None \<Rightarrow> s
      | Some p \<Rightarrow>
          (case writable p s of (q, s) \<Rightarrow>
             let vec = swap_erase conn (vec_heap s q);
                 s = s\<lparr> vec_heap := (vec_heap s)(q := vec) \<rparr>
             in if vec = [] then s\<lparr> topic_to_conns := AList.delete topic (topic_to_conns s) \<rparr>
                else s\<lparr> topic_to_conns := AList.update topic q (topic_to_conns s) \<rparr>))"

section \<open>Operations\<close>

definition subscribeConnection :: "GlobalConnId \<Rightarrow> Topic \<Rightarrow> subscriptions \<Rightarrow> bool \<times> subscriptions" where
  "subscribeConnection conn topic s =
     (let topics = lookup_or [] conn (conn_to_topics s) in
      if topic \<in> set topics then (False, s)
      else
        (let s = s\<lparr> conn_to_topics := AList.update conn (set_insert topic topics) (conn_to_topics s) \<rparr>;
             (q, s) = (case map_of (topic_to_conns s) topic of
                         None \<Rightarrow> (next_vec s, s\<lparr> vec_heap := (vec_heap s)(next_vec s := []), next_vec := next_vec s + 1 \<rparr>)
                       | Some p \<Rightarrow> writable p s)
         in (True, s\<lparr> vec_heap := (vec_heap s)(q := vec_heap s q @ [conn]),
                      topic_to_conns := AList.update topic q (topic_to_conns s) \<rparr>)))"

text \<open>Removing a topic from a connection's set, dropping the set when it is empty.\<close>

definition drop_topic :: "GlobalConnId \<Rightarrow> Topic \<Rightarrow> subscriptions \<Rightarrow> subscriptions" where
  "drop_topic conn topic s =
     (case map_of (conn_to_topics s) conn of
        None \<Rightarrow> s
      | Some topics \<Rightarrow>
          (let topics' = removeAll topic topics
           in s\<lparr> conn_to_topics := (if topics' = [] then AList.delete conn (conn_to_topics s)
                                    else AList.update conn topics' (conn_to_topics s)) \<rparr>))"

definition isSubscribed :: "GlobalConnId \<Rightarrow> Topic \<Rightarrow> subscriptions \<Rightarrow> bool" where
  "isSubscribed conn topic s =
     (case map_of (conn_to_topics s) conn of None \<Rightarrow> False | Some topics \<Rightarrow> topic \<in> set topics)"

definition unsubscribeConnection :: "GlobalConnId \<Rightarrow> Topic \<Rightarrow> subscriptions \<Rightarrow> bool \<times> subscriptions" where
  "unsubscribeConnection conn topic s =
     (if \<not> isSubscribed conn topic s then (False, s)
      else (True, eraseConnFromTopic conn topic (drop_topic conn topic s)))"

text \<open>\<^verbatim>\<open>getSubscribers\<close> hands the shared vector out; the caller drops its reference later.\<close>

definition getSubscribers :: "Topic \<Rightarrow> subscriptions \<Rightarrow> nat option \<times> subscriptions" where
  "getSubscribers topic s =
     (case map_of (topic_to_conns s) topic of
        None \<Rightarrow> (None, s)
      | Some p \<Rightarrow> (Some p, s\<lparr> held := p # held s \<rparr>))"

definition release :: "nat \<Rightarrow> subscriptions \<Rightarrow> subscriptions" where
  "release p s = s\<lparr> held := remove1 p (held s) \<rparr>"

definition getSubscriptionsForConnection :: "GlobalConnId \<Rightarrow> subscriptions \<Rightarrow> string + Topic list" where
  "getSubscriptionsForConnection conn s =
     (case map_of (conn_to_topics s) conn of None \<Rightarrow> Inl ''Connection not found'' | Some topics \<Rightarrow> Inr topics)"

definition removeAllForConnection :: "GlobalConnId \<Rightarrow> subscriptions \<Rightarrow> subscriptions" where
  "removeAllForConnection conn s =
     (case map_of (conn_to_topics s) conn of
        None \<Rightarrow> s
      | Some topics \<Rightarrow>
          (let s = fold (eraseConnFromTopic conn) topics s
           in s\<lparr> conn_to_topics := AList.delete conn (conn_to_topics s) \<rparr>))"

definition removeAllForTopic :: "Topic \<Rightarrow> subscriptions \<Rightarrow> subscriptions" where
  "removeAllForTopic topic s =
     (case map_of (topic_to_conns s) topic of
        None \<Rightarrow> s
      | Some p \<Rightarrow>
          (let s = fold (\<lambda>conn. drop_topic conn topic) (vec_heap s p) s
           in s\<lparr> topic_to_conns := AList.delete topic (topic_to_conns s) \<rparr>))"

section \<open>The swap erase\<close>

lemma index_of_None: "index_of x xs = None \<longleftrightarrow> x \<notin> set xs"
  by (induction xs) auto

lemma index_of_Some: "index_of x xs = Some i \<Longrightarrow> i < length xs \<and> xs ! i = x"
  by (induction xs arbitrary: i) (auto split: if_split_asm)

lemma swap_erase_perm:
  assumes "x \<in> set xs"
  shows "mset (swap_erase x xs) + {#x#} = mset xs"
proof -
  obtain i where i: "index_of x xs = Some i" using assms index_of_None by fastforce
  have l: "i < length xs" "xs ! i = x" using index_of_Some[OF i] by simp_all
  then have ne: "xs \<noteq> []" by auto
  let ?ys = "xs[i := last xs]"
  have "mset ?ys = add_mset (last xs) (mset xs - {#x#})" using l by (simp add: mset_update)
  moreover have "last ?ys = last xs" using l by (simp add: last_list_update ne)
  moreover have "mset (butlast ?ys) + {#last ?ys#} = mset ?ys"
    using ne by (metis append_butlast_last_id list_update_nonempty mset.simps(2) mset_append mset.simps(1) add_mset_add_single)
  ultimately have "mset (butlast ?ys) = mset xs - {#x#}" by simp
  then show ?thesis using assms by (simp add: swap_erase_def i)
qed

lemma swap_erase_absent: "x \<notin> set xs \<Longrightarrow> swap_erase x xs = xs"
  using index_of_None[of x xs] by (simp add: swap_erase_def)

lemma swap_erase_props:
  assumes "distinct xs"
  shows "distinct (swap_erase x xs)" "set (swap_erase x xs) = set xs - {x}"
proof -
  have "distinct (swap_erase x xs) \<and> set (swap_erase x xs) = set xs - {x}"
  proof (cases "x \<in> set xs")
    case True
    have m: "mset xs = mset (x # swap_erase x xs)" using swap_erase_perm[OF True] by simp
    from mset_eq_imp_distinct_iff[OF m] assms have "distinct (x # swap_erase x xs)" by blast
    moreover have "set xs = set (x # swap_erase x xs)" by (rule mset_eq_setD[OF m])
    ultimately show ?thesis by auto
  qed (use assms in \<open>simp add: swap_erase_absent\<close>)
  then show "distinct (swap_erase x xs)" "set (swap_erase x xs) = set xs - {x}" by simp_all
qed

section \<open>Both indexes hold one relation\<close>

definition vec_ok :: "(GlobalConnId \<times> Topic) set \<Rightarrow> subscriptions \<Rightarrow> bool" where
  "vec_ok R s \<longleftrightarrow>
     (\<forall>t p. map_of (topic_to_conns s) t = Some p \<longrightarrow> p < next_vec s \<and> vec_heap s p \<noteq> []
        \<and> distinct (vec_heap s p) \<and> set (vec_heap s p) = {c. (c, t) \<in> R})
     \<and> (\<forall>t. map_of (topic_to_conns s) t = None \<longrightarrow> (\<forall>c. (c, t) \<notin> R))
     \<and> (\<forall>t t' p. map_of (topic_to_conns s) t = Some p \<longrightarrow> map_of (topic_to_conns s) t' = Some p \<longrightarrow> t = t')
     \<and> (\<forall>p\<in>set (held s). p < next_vec s)"

definition conn_ok :: "(GlobalConnId \<times> Topic) set \<Rightarrow> subscriptions \<Rightarrow> bool" where
  "conn_ok R s \<longleftrightarrow> (\<forall>c t. isSubscribed c t s \<longleftrightarrow> (c, t) \<in> R)
     \<and> (\<forall>c ts. map_of (conn_to_topics s) c = Some ts \<longrightarrow> ts \<noteq> [] \<and> distinct ts)"

definition sub_rel :: "subscriptions \<Rightarrow> (GlobalConnId \<times> Topic) set" where
  "sub_rel s = {(c, t). isSubscribed c t s}"

definition subs_inv :: "subscriptions \<Rightarrow> bool" where
  "subs_inv s \<longleftrightarrow> vec_ok (sub_rel s) s \<and> conn_ok (sub_rel s) s"

lemma subs_invI: "vec_ok R s \<Longrightarrow> conn_ok R s \<Longrightarrow> subs_inv s \<and> sub_rel s = R"
proof -
  assume v: "vec_ok R s" and c: "conn_ok R s"
  have "sub_rel s = R" using c by (auto simp: sub_rel_def conn_ok_def)
  with v c show ?thesis by (simp add: subs_inv_def)
qed

lemma subs_new_inv: "subs_inv subs_new \<and> sub_rel subs_new = {}"
  by (rule subs_invI) (auto simp: vec_ok_def conn_ok_def subs_new_def isSubscribed_def)

lemma vec_okD:
  assumes "vec_ok R s"
  shows "map_of (topic_to_conns s) t = Some p \<Longrightarrow> p < next_vec s"
    "map_of (topic_to_conns s) t = Some p \<Longrightarrow> vec_heap s p \<noteq> [] \<and> distinct (vec_heap s p)"
    "map_of (topic_to_conns s) t = Some p \<Longrightarrow> set (vec_heap s p) = {c. (c, t) \<in> R}"
    "map_of (topic_to_conns s) t = None \<Longrightarrow> (c, t) \<notin> R"
    "map_of (topic_to_conns s) t = Some p \<Longrightarrow> map_of (topic_to_conns s) t' = Some p \<Longrightarrow> t = t'"
    "p \<in> set (held s) \<Longrightarrow> p < next_vec s"
  using assms by (auto simp: vec_ok_def)

text \<open>Writing a new vector for a topic through an address no other topic and no reader uses.\<close>

definition fresh_for :: "Topic \<Rightarrow> nat \<Rightarrow> subscriptions \<Rightarrow> bool" where
  "fresh_for t q s \<longleftrightarrow> q < next_vec s \<and> q \<notin> set (held s)
     \<and> (\<forall>t'. map_of (topic_to_conns s) t' = Some q \<longrightarrow> t' = t)"

lemma writable_fresh:
  assumes "vec_ok R s" "map_of (topic_to_conns s) t = Some p" "writable p s = (q, s1)"
  shows "vec_ok R s1" "fresh_for t q s1" "vec_heap s1 q = vec_heap s p"
    "topic_to_conns s1 = topic_to_conns s" "conn_to_topics s1 = conn_to_topics s" "held s1 = held s"
    "\<And>p'. p' \<in> set (held s) \<Longrightarrow> vec_heap s1 p' = vec_heap s p'"
proof -
  have lt: "\<And>t' p'. map_of (topic_to_conns s) t' = Some p' \<Longrightarrow> p' < next_vec s"
    "\<And>p'. p' \<in> set (held s) \<Longrightarrow> p' < next_vec s"
    using vec_okD(1,6)[OF assms(1)] by blast+
  have ne: "\<And>t' p'. map_of (topic_to_conns s) t' = Some p' \<Longrightarrow> p' \<noteq> next_vec s" using lt(1) by blast
  show "vec_heap s1 q = vec_heap s p" "topic_to_conns s1 = topic_to_conns s"
    "conn_to_topics s1 = conn_to_topics s" "held s1 = held s"
    using assms(3) by (auto simp: writable_def split: if_split_asm)
  show "fresh_for t q s1"
  proof (cases "p \<in> set (held s)")
    case True
    then have "q = next_vec s" "held s1 = held s" "next_vec s1 = next_vec s + 1" "topic_to_conns s1 = topic_to_conns s"
      using assms(3) by (auto simp: writable_def)
    then show ?thesis using lt(2) ne by (auto simp: fresh_for_def)
  next
    case False
    then have "q = p" "s1 = s" using assms(3) by (simp_all add: writable_def)
    then show ?thesis using False lt(1)[OF assms(2)] vec_okD(5)[OF assms(1) _ assms(2)] by (auto simp: fresh_for_def)
  qed
  show "vec_heap s1 p' = vec_heap s p'" if "p' \<in> set (held s)" for p'
    using assms(3) lt(2)[OF that] by (auto simp: writable_def split: if_split_asm)
  show "vec_ok R s1"
  proof (cases "p \<in> set (held s)")
    case True
    then have e: "s1 = s\<lparr> vec_heap := (vec_heap s)(next_vec s := vec_heap s p), next_vec := next_vec s + 1 \<rparr>"
      using assms(3) by (auto simp: writable_def)
    have "vec_heap s1 p' = vec_heap s p'" "p' < next_vec s1" if "map_of (topic_to_conns s) t' = Some p'" for t' p'
      using ne[OF that] lt(1)[OF that] by (simp_all add: e)
    then show ?thesis using assms(1) lt(2) unfolding vec_ok_def by (simp add: e less_Suc_eq)
  next
    case False
    then show ?thesis using assms(1,3) by (simp add: writable_def)
  qed
qed

lemma vec_ok_write:
  assumes "vec_ok R s" "fresh_for t q s" "v \<noteq> []" "distinct v"
  shows "vec_ok ({(c, t'). (c, t') \<in> R \<and> t' \<noteq> t} \<union> {(c, t) | c. c \<in> set v})
     (s\<lparr> vec_heap := (vec_heap s)(q := v), topic_to_conns := AList.update t q (topic_to_conns s) \<rparr>)"
    (is "vec_ok ?R ?s")
proof -
  have other: "p \<noteq> q" if "map_of (topic_to_conns s) t' = Some p" "t' \<noteq> t" for t' p
    using assms(2) that by (auto simp: fresh_for_def)
  show ?thesis
    unfolding vec_ok_def
  proof (intro conjI allI impI ballI)
    fix t' p assume m: "map_of (topic_to_conns ?s) t' = Some p"
    have "p < next_vec ?s \<and> vec_heap ?s p \<noteq> [] \<and> distinct (vec_heap ?s p) \<and> set (vec_heap ?s p) = {c. (c, t') \<in> ?R}"
    proof (cases "t' = t")
      case True
      then show ?thesis using m assms(2-4) by (auto simp: fresh_for_def)
    next
      case False
      then have m': "map_of (topic_to_conns s) t' = Some p" using m by simp
      with other[OF m' False] False vec_okD(1-3)[OF assms(1) m'] show ?thesis by auto
    qed
    then show "p < next_vec ?s" "vec_heap ?s p \<noteq> []" "distinct (vec_heap ?s p)"
      "set (vec_heap ?s p) = {c. (c, t') \<in> ?R}" by blast+
  next
    fix t' c assume "map_of (topic_to_conns ?s) t' = None"
    then show "(c, t') \<notin> ?R" using vec_okD(4)[OF assms(1), of t' c] by (auto split: if_split_asm)
  next
    fix t1 t2 p assume "map_of (topic_to_conns ?s) t1 = Some p" "map_of (topic_to_conns ?s) t2 = Some p"
    then show "t1 = t2" using other vec_okD(5)[OF assms(1), of t1 p t2] by (auto split: if_split_asm)
  next
    fix p assume "p \<in> set (held ?s)"
    then show "p < next_vec ?s" using vec_okD(6)[OF assms(1)] by simp
  qed
qed

lemma vec_ok_drop:
  assumes "vec_ok R s" "\<And>t' p. map_of (topic_to_conns s) t' = Some p \<Longrightarrow> t' \<noteq> t \<Longrightarrow> h p = vec_heap s p"
  shows "vec_ok {(c, t'). (c, t') \<in> R \<and> t' \<noteq> t}
     (s\<lparr> vec_heap := h, topic_to_conns := AList.delete t (topic_to_conns s) \<rparr>)"
  using assms unfolding vec_ok_def by (auto split: if_split_asm)

section \<open>Each operation on the relation\<close>

text \<open>What an operation may do to the vectors readers hold: nothing.\<close>

definition keeps_held :: "subscriptions \<Rightarrow> subscriptions \<Rightarrow> bool" where
  "keeps_held s s' \<longleftrightarrow> (\<forall>p\<in>set (held s). vec_heap s' p = vec_heap s p)"

lemma keeps_held_refl [simp]: "keeps_held s s"
  by (simp add: keeps_held_def)

lemma keeps_held_trans: "keeps_held a b \<Longrightarrow> held b = held a \<Longrightarrow> keeps_held b c \<Longrightarrow> keeps_held a c"
  by (simp add: keeps_held_def)

lemma erase_ok:
  assumes "vec_ok R s"
  shows "vec_ok (R - {(c, t)}) (eraseConnFromTopic c t s)
    \<and> conn_to_topics (eraseConnFromTopic c t s) = conn_to_topics s
    \<and> held (eraseConnFromTopic c t s) = held s \<and> keeps_held s (eraseConnFromTopic c t s)"
proof (cases "map_of (topic_to_conns s) t")
  case None
  then have "R - {(c, t)} = R" using vec_okD(4)[OF assms] by blast
  with None assms show ?thesis by (simp add: eraseConnFromTopic_def)
next
  case (Some p)
  obtain q s1 where w: "writable p s = (q, s1)" by force
  note f = writable_fresh[OF assms Some w]
  let ?v = "swap_erase c (vec_heap s1 q)"
  have d: "distinct (vec_heap s1 q)" "set (vec_heap s1 q) = {c'. (c', t) \<in> R}"
    using vec_okD(2,3)[OF assms Some] f(3) by simp_all
  have v: "distinct ?v" "set ?v = {c'. (c', t) \<in> R \<and> c' \<noteq> c}"
    using swap_erase_props[OF d(1), of c] d(2) by auto
  have qh: "q \<notin> set (held s)" using f(2,6) by (simp add: fresh_for_def)
  have k: "keeps_held s (s1\<lparr> vec_heap := (vec_heap s1)(q := ?v), topic_to_conns := m \<rparr>)" for m
    using qh f(7) by (auto simp: keeps_held_def)
  show ?thesis
  proof (cases "?v = []")
    case True
    have "{(c', t'). (c', t') \<in> R \<and> t' \<noteq> t} = R - {(c, t)}" using v(2) True by auto
    moreover have "vec_ok {(c', t'). (c', t') \<in> R \<and> t' \<noteq> t}
        (s1\<lparr> vec_heap := (vec_heap s1)(q := ?v), topic_to_conns := AList.delete t (topic_to_conns s1) \<rparr>)"
      by (rule vec_ok_drop[OF f(1)]) (use f(2) in \<open>auto simp: fresh_for_def\<close>)
    ultimately show ?thesis
      using True Some w f(4-6) k[of "AList.delete t (topic_to_conns s1)"] by (simp add: eraseConnFromTopic_def Let_def)
  next
    case False
    have "{(c', t'). (c', t') \<in> R \<and> t' \<noteq> t} \<union> {(c', t) | c'. c' \<in> set ?v} = R - {(c, t)}"
      using v(2) by auto
    with vec_ok_write[OF f(1,2) False v(1)] show ?thesis
      using False Some w f(4-6) k[of "AList.update t q (topic_to_conns s1)"] by (simp add: eraseConnFromTopic_def Let_def)
  qed
qed

lemma isSubscribed_upd:
  "isSubscribed c' t' (s\<lparr> conn_to_topics := AList.update c ts m \<rparr>) =
     (if c' = c then t' \<in> set ts else isSubscribed c' t' (s\<lparr> conn_to_topics := m \<rparr>))"
  "isSubscribed c' t' (s\<lparr> conn_to_topics := AList.delete c m \<rparr>) =
     (c' \<noteq> c \<and> isSubscribed c' t' (s\<lparr> conn_to_topics := m \<rparr>))"
  by (auto simp: isSubscribed_def)

lemma conn_ok_cong: "conn_to_topics s' = conn_to_topics s \<Longrightarrow> conn_ok R s' = conn_ok R s"
  by (simp add: conn_ok_def isSubscribed_def)

lemma vec_ok_cong:
  assumes "topic_to_conns s' = topic_to_conns s" "vec_heap s' = vec_heap s" "next_vec s' = next_vec s" "held s' = held s"
  shows "vec_ok R s' = vec_ok R s"
  using assms by (simp add: vec_ok_def)

lemma drop_topic_sel [simp]:
  "topic_to_conns (drop_topic c t s) = topic_to_conns s" "vec_heap (drop_topic c t s) = vec_heap s"
  "next_vec (drop_topic c t s) = next_vec s" "held (drop_topic c t s) = held s"
  by (simp_all add: drop_topic_def Let_def split: option.split)

lemma vec_ok_drop_topic [simp]: "vec_ok R (drop_topic c t s) = vec_ok R s"
  by (rule vec_ok_cong) simp_all

lemma drop_topic_ok:
  assumes "conn_ok R s"
  shows "conn_ok (R - {(c, t)}) (drop_topic c t s)"
proof (cases "map_of (conn_to_topics s) c")
  case None
  then have "\<not> isSubscribed c t s" by (simp add: isSubscribed_def)
  then have "(c, t) \<notin> R" using assms by (simp add: conn_ok_def)
  then show ?thesis using None assms by (simp add: drop_topic_def)
next
  case (Some ts)
  have i: "isSubscribed c' t' (drop_topic c t s) = (isSubscribed c' t' s \<and> (c', t') \<noteq> (c, t))" for c' t'
    using Some by (cases "removeAll t ts = []") (auto simp: drop_topic_def isSubscribed_def Let_def removeAll_filter_not_eq filter_empty_conv)
  have "ts' \<noteq> [] \<and> distinct ts'" if "map_of (conn_to_topics (drop_topic c t s)) c' = Some ts'" for c' ts'
    using that assms Some
    by (cases "c' = c") (auto simp: drop_topic_def conn_ok_def Let_def distinct_removeAll split: if_split_asm)
  then show ?thesis using assms by (auto simp: conn_ok_def i)
qed

text \<open>The vector a subscription is appended to: the topic's own, or a new one.\<close>

lemma subscribe_target:
  assumes "vec_ok R s" "(case map_of (topic_to_conns s) t of
        None \<Rightarrow> (next_vec s, s\<lparr> vec_heap := (vec_heap s)(next_vec s := []), next_vec := next_vec s + 1 \<rparr>)
      | Some p \<Rightarrow> writable p s) = (q, s1)"
  shows "vec_ok R s1 \<and> fresh_for t q s1 \<and> distinct (vec_heap s1 q) \<and> set (vec_heap s1 q) = {c'. (c', t) \<in> R}
    \<and> conn_to_topics s1 = conn_to_topics s \<and> held s1 = held s \<and> keeps_held s s1"
proof (cases "map_of (topic_to_conns s) t")
  case (Some p)
  then have w: "writable p s = (q, s1)" using assms(2) by simp
  note f = writable_fresh[OF assms(1) Some w]
  show ?thesis using f vec_okD(2,3)[OF assms(1) Some] by (simp add: keeps_held_def)
next
  case None
  then have e: "q = next_vec s" "s1 = s\<lparr> vec_heap := (vec_heap s)(q := []), next_vec := q + 1 \<rparr>"
    using assms(2) by auto
  have lt: "map_of (topic_to_conns s) t' = Some p' \<Longrightarrow> p' < q" "p' \<in> set (held s) \<Longrightarrow> p' < q" for t' p'
    using vec_okD(1,6)[OF assms(1)] e(1) by blast+
  have "vec_heap s1 p' = vec_heap s p'" "p' < next_vec s1" if "map_of (topic_to_conns s) t' = Some p'" for t' p'
    using lt(1)[OF that] by (simp_all add: e(2))
  then have "vec_ok R s1" using assms(1) lt(2) unfolding vec_ok_def by (simp add: e(2) less_Suc_eq)
  moreover have "{c'. (c', t) \<in> R} = {}" using vec_okD(4)[OF assms(1) None] by blast
  ultimately show ?thesis using lt by (force simp: e(2) fresh_for_def keeps_held_def)
qed

lemma subscribe_ok:
  assumes "subs_inv s"
  shows "subs_inv (snd (subscribeConnection c t s)) \<and> sub_rel (snd (subscribeConnection c t s)) = insert (c, t) (sub_rel s)
    \<and> (fst (subscribeConnection c t s) \<longleftrightarrow> (c, t) \<notin> sub_rel s) \<and> held (snd (subscribeConnection c t s)) = held s
    \<and> keeps_held s (snd (subscribeConnection c t s))"
proof -
  let ?R = "sub_rel s" and ?ts = "lookup_or [] c (conn_to_topics s)"
  have v: "vec_ok ?R s" and k: "conn_ok ?R s" using assms by (simp_all add: subs_inv_def)
  have ts: "t \<in> set ?ts \<longleftrightarrow> (c, t) \<in> ?R"
    by (auto simp: sub_rel_def isSubscribed_def lookup_or_def split: option.split)
  show ?thesis
  proof (cases "t \<in> set ?ts")
    case True
    then show ?thesis using assms ts by (simp add: subscribeConnection_def insert_absorb)
  next
    case False
    let ?s0 = "s\<lparr> conn_to_topics := AList.update c (?ts @ [t]) (conn_to_topics s) \<rparr>"
    have v0: "vec_ok ?R ?s0" using v by (rule vec_ok_cong[THEN iffD2, rotated -1]) simp_all
    obtain q s1 where w: "(case map_of (topic_to_conns ?s0) t of
        None \<Rightarrow> (next_vec ?s0, ?s0\<lparr> vec_heap := (vec_heap ?s0)(next_vec ?s0 := []), next_vec := next_vec ?s0 + 1 \<rparr>)
      | Some p \<Rightarrow> writable p ?s0) = (q, s1)" by force
    have f: "vec_ok ?R s1" "fresh_for t q s1" "distinct (vec_heap s1 q)" "set (vec_heap s1 q) = {c'. (c', t) \<in> ?R}"
      "conn_to_topics s1 = conn_to_topics ?s0" "held s1 = held s" "keeps_held s s1"
      using subscribe_target[OF v0 w] by (simp_all add: keeps_held_def)
    let ?s' = "s1\<lparr> vec_heap := (vec_heap s1)(q := vec_heap s1 q @ [c]), topic_to_conns := AList.update t q (topic_to_conns s1) \<rparr>"
    have e: "subscribeConnection c t s = (True, ?s')"
      using False w by (simp add: subscribeConnection_def Let_def set_insert_new)
    have "{(c', t'). (c', t') \<in> ?R \<and> t' \<noteq> t} \<union> {(c', t) | c'. c' \<in> set (vec_heap s1 q @ [c])} = insert (c, t) ?R"
      using f(4) by auto
    with vec_ok_write[OF f(1,2), of "vec_heap s1 q @ [c]"] have "vec_ok (insert (c, t) ?R) ?s'"
      using f(3,4) False ts by simp
    moreover have i: "isSubscribed c' t' ?s0 = (isSubscribed c' t' s \<or> (c', t') = (c, t))" for c' t'
      by (auto simp: isSubscribed_def lookup_or_def split: option.split)
    have "ts' \<noteq> [] \<and> distinct ts'" if "map_of (conn_to_topics ?s0) c' = Some ts'" for c' ts'
      using that k False
      by (cases "c' = c"; cases "map_of (conn_to_topics s) c") (auto simp: conn_ok_def lookup_or_def)
    then have "conn_ok (insert (c, t) ?R) ?s0"
      using k unfolding conn_ok_def i by auto
    then have "conn_ok (insert (c, t) ?R) ?s'" using f(5) by (subst conn_ok_cong[of _ ?s0]) simp_all
    ultimately show ?thesis
      using subs_invI[of "insert (c, t) ?R" ?s'] False ts f(2,6,7)
      by (auto simp: e keeps_held_def fresh_for_def)
  qed
qed

lemma unsubscribe_ok:
  assumes "subs_inv s"
  shows "subs_inv (snd (unsubscribeConnection c t s)) \<and> sub_rel (snd (unsubscribeConnection c t s)) = sub_rel s - {(c, t)}
    \<and> (fst (unsubscribeConnection c t s) \<longleftrightarrow> (c, t) \<in> sub_rel s) \<and> held (snd (unsubscribeConnection c t s)) = held s
    \<and> keeps_held s (snd (unsubscribeConnection c t s))"
proof (cases "isSubscribed c t s")
  case False
  then show ?thesis using assms by (auto simp: unsubscribeConnection_def sub_rel_def)
next
  case True
  have v: "vec_ok (sub_rel s) s" and k: "conn_ok (sub_rel s) s" using assms by (simp_all add: subs_inv_def)
  let ?s0 = "drop_topic c t s"
  let ?s' = "eraseConnFromTopic c t ?s0"
  have v0: "vec_ok (sub_rel s) ?s0" using v by simp
  note e = erase_ok[OF v0, of c t]
  have "conn_ok (sub_rel s - {(c, t)}) ?s'"
    using drop_topic_ok[OF k, of c t] conn_ok_cong[of ?s' ?s0] e by simp
  with e have "subs_inv ?s' \<and> sub_rel ?s' = sub_rel s - {(c, t)}" by (intro subs_invI) simp_all
  with True e show ?thesis
    by (simp add: unsubscribeConnection_def keeps_held_def) (simp add: sub_rel_def)
qed

lemma erase_all_ok:
  assumes "vec_ok R s"
  shows "vec_ok (R - {c} \<times> set ts) (fold (eraseConnFromTopic c) ts s)
    \<and> conn_to_topics (fold (eraseConnFromTopic c) ts s) = conn_to_topics s
    \<and> held (fold (eraseConnFromTopic c) ts s) = held s \<and> keeps_held s (fold (eraseConnFromTopic c) ts s)"
  using assms
proof (induction ts arbitrary: R s)
  case (Cons t ts)
  note e = erase_ok[OF Cons.prems, of c t]
  have "R - {(c, t)} - {c} \<times> set ts = R - {c} \<times> set (t # ts)" by auto
  with Cons.IH[of "R - {(c, t)}" "eraseConnFromTopic c t s"] e show ?case
    by (auto intro: keeps_held_trans)
qed simp

lemma removeAllForConnection_ok:
  assumes "subs_inv s"
  shows "subs_inv (removeAllForConnection c s) \<and> sub_rel (removeAllForConnection c s) = {(c', t) \<in> sub_rel s. c' \<noteq> c}
    \<and> held (removeAllForConnection c s) = held s \<and> keeps_held s (removeAllForConnection c s)"
proof (cases "map_of (conn_to_topics s) c")
  case None
  then have "(c, t) \<notin> sub_rel s" for t by (simp add: sub_rel_def isSubscribed_def)
  then have "{(c', t) \<in> sub_rel s. c' \<noteq> c} = sub_rel s" by auto
  with None assms show ?thesis by (simp add: removeAllForConnection_def)
next
  case (Some ts)
  have v: "vec_ok (sub_rel s) s" and k: "conn_ok (sub_rel s) s" using assms by (simp_all add: subs_inv_def)
  let ?s1 = "fold (eraseConnFromTopic c) ts s"
  let ?s' = "?s1\<lparr> conn_to_topics := AList.delete c (conn_to_topics ?s1) \<rparr>"
  let ?R = "{(c', t) \<in> sub_rel s. c' \<noteq> c}"
  note e = erase_all_ok[OF v, of c ts]
  have "sub_rel s - {c} \<times> set ts = ?R" using Some by (auto simp: sub_rel_def isSubscribed_def)
  with e have "vec_ok ?R ?s1" by simp
  then have "vec_ok ?R ?s'" by (rule vec_ok_cong[THEN iffD2, rotated -1]) simp_all
  moreover have "conn_ok ?R ?s'"
    using k e by (auto simp: conn_ok_def isSubscribed_def split: if_split_asm)
  ultimately have "subs_inv ?s' \<and> sub_rel ?s' = ?R" by (rule subs_invI)
  with e Some show ?thesis by (simp add: removeAllForConnection_def Let_def keeps_held_def)
qed

lemma drop_topics_ok:
  assumes "conn_ok R s"
  shows "conn_ok (R - set cs \<times> {t}) (fold (\<lambda>c. drop_topic c t) cs s)
    \<and> topic_to_conns (fold (\<lambda>c. drop_topic c t) cs s) = topic_to_conns s
    \<and> vec_heap (fold (\<lambda>c. drop_topic c t) cs s) = vec_heap s
    \<and> next_vec (fold (\<lambda>c. drop_topic c t) cs s) = next_vec s \<and> held (fold (\<lambda>c. drop_topic c t) cs s) = held s"
  using assms
proof (induction cs arbitrary: R s)
  case (Cons c cs)
  have "R - {(c, t)} - set cs \<times> {t} = R - set (c # cs) \<times> {t}" by auto
  with Cons.IH[OF drop_topic_ok[OF Cons.prems, of c t]] show ?case by simp
qed simp

lemma removeAllForTopic_ok:
  assumes "subs_inv s"
  shows "subs_inv (removeAllForTopic t s) \<and> sub_rel (removeAllForTopic t s) = {(c, t') \<in> sub_rel s. t' \<noteq> t}
    \<and> held (removeAllForTopic t s) = held s \<and> keeps_held s (removeAllForTopic t s)"
proof -
  have v: "vec_ok (sub_rel s) s" and k: "conn_ok (sub_rel s) s" using assms by (simp_all add: subs_inv_def)
  let ?R = "{(c, t') \<in> sub_rel s. t' \<noteq> t}"
  show ?thesis
  proof (cases "map_of (topic_to_conns s) t")
    case None
    then have "?R = sub_rel s" using vec_okD(4)[OF v] by auto
    with None assms show ?thesis by (simp add: removeAllForTopic_def)
  next
    case (Some p)
    let ?s1 = "fold (\<lambda>c. drop_topic c t) (vec_heap s p) s"
    let ?s' = "?s1\<lparr> topic_to_conns := AList.delete t (topic_to_conns ?s1) \<rparr>"
    note d = drop_topics_ok[OF k, of "vec_heap s p" t]
    have R: "sub_rel s - set (vec_heap s p) \<times> {t} = ?R" using vec_okD(3)[OF v Some] by auto
    have "conn_ok ?R ?s'" using d conn_ok_cong[of ?s' ?s1] unfolding R by simp
    moreover have "vec_ok ?R (s\<lparr> vec_heap := vec_heap s, topic_to_conns := AList.delete t (topic_to_conns s) \<rparr>)"
      by (rule vec_ok_drop[OF v]) simp
    then have "vec_ok ?R ?s'" by (rule vec_ok_cong[THEN iffD2, rotated -1]) (simp_all add: d)
    ultimately have "subs_inv ?s' \<and> sub_rel ?s' = ?R" by (intro subs_invI)
    with d Some show ?thesis by (simp add: removeAllForTopic_def Let_def keeps_held_def)
  qed
qed

lemma getSubscribers_ok:
  assumes "subs_inv s"
  shows "subs_inv (snd (getSubscribers t s)) \<and> sub_rel (snd (getSubscribers t s)) = sub_rel s
    \<and> vec_heap (snd (getSubscribers t s)) = vec_heap s"
proof (cases "map_of (topic_to_conns s) t")
  case (Some p)
  let ?s' = "s\<lparr> held := p # held s \<rparr>"
  have v: "vec_ok (sub_rel s) s" and k: "conn_ok (sub_rel s) s" using assms by (simp_all add: subs_inv_def)
  have "vec_ok (sub_rel s) ?s'" using v vec_okD(1)[OF v Some] by (auto simp: vec_ok_def)
  moreover have "conn_ok (sub_rel s) ?s'" using k conn_ok_cong[of ?s' s] by simp
  ultimately show ?thesis using Some subs_invI[of "sub_rel s" ?s'] by (simp add: getSubscribers_def)
qed (use assms in \<open>simp add: getSubscribers_def\<close>)

lemma release_ok:
  assumes "subs_inv s"
  shows "subs_inv (release p s) \<and> sub_rel (release p s) = sub_rel s \<and> vec_heap (release p s) = vec_heap s"
proof -
  have v: "vec_ok (sub_rel s) s" and k: "conn_ok (sub_rel s) s" using assms by (simp_all add: subs_inv_def)
  have "vec_ok (sub_rel s) (release p s)" using v by (auto simp: vec_ok_def release_def dest: notin_set_remove1)
  moreover have "conn_ok (sub_rel s) (release p s)" using k conn_ok_cong[of "release p s" s] by (simp add: release_def)
  ultimately show ?thesis using subs_invI[of "sub_rel s" "release p s"] by (simp add: release_def)
qed

section \<open>Executions\<close>

text \<open>Readers take and drop snapshots between the writes.\<close>

datatype sub_op = Subscribe GlobalConnId Topic | Unsubscribe GlobalConnId Topic
  | RemoveConn GlobalConnId | RemoveTopic Topic | TakeSnapshot Topic | DropSnapshot nat

fun sub_step :: "sub_op \<Rightarrow> subscriptions \<Rightarrow> subscriptions" where
  "sub_step (Subscribe c t) s = snd (subscribeConnection c t s)"
| "sub_step (Unsubscribe c t) s = snd (unsubscribeConnection c t s)"
| "sub_step (RemoveConn c) s = removeAllForConnection c s"
| "sub_step (RemoveTopic t) s = removeAllForTopic t s"
| "sub_step (TakeSnapshot t) s = snd (getSubscribers t s)"
| "sub_step (DropSnapshot p) s = release p s"

text \<open>What the operations mean for the relation between connections and topics.\<close>

fun rel_step :: "sub_op \<Rightarrow> (GlobalConnId \<times> Topic) set \<Rightarrow> (GlobalConnId \<times> Topic) set" where
  "rel_step (Subscribe c t) R = insert (c, t) R"
| "rel_step (Unsubscribe c t) R = R - {(c, t)}"
| "rel_step (RemoveConn c) R = {(c', t) \<in> R. c' \<noteq> c}"
| "rel_step (RemoveTopic t) R = {(c, t') \<in> R. t' \<noteq> t}"
| "rel_step (TakeSnapshot t) R = R"
| "rel_step (DropSnapshot p) R = R"

lemmas sub_ops_ok = subscribe_ok unsubscribe_ok removeAllForConnection_ok removeAllForTopic_ok
  getSubscribers_ok release_ok

lemma sub_step_ok:
  assumes "subs_inv s"
  shows "subs_inv (sub_step op s) \<and> sub_rel (sub_step op s) = rel_step op (sub_rel s) \<and> keeps_held s (sub_step op s)"
  by (cases op) (simp_all add: sub_ops_ok[OF assms], simp_all add: keeps_held_def sub_ops_ok[OF assms])

lemma sub_run_ok:
  "subs_inv s \<Longrightarrow> subs_inv (fold sub_step ops s) \<and> sub_rel (fold sub_step ops s) = fold rel_step ops (sub_rel s)"
  by (induction ops arbitrary: s) (simp_all add: sub_step_ok)

lemma sub_step_held:
  assumes "subs_inv s" "p \<in> set (held s)" "op \<noteq> DropSnapshot p"
  shows "p \<in> set (held (sub_step op s))"
  using assms(2,3)
  by (cases op) (auto simp: sub_ops_ok[OF assms(1)] getSubscribers_def release_def split: option.split)

lemma sub_run_snapshot:
  assumes "subs_inv s" "p \<in> set (held s)" "DropSnapshot p \<notin> set ops"
  shows "vec_heap (fold sub_step ops s) p = vec_heap s p"
  using assms
proof (induction ops arbitrary: s)
  case (Cons op ops)
  have "vec_heap (sub_step op s) p = vec_heap s p"
    using sub_step_ok[OF Cons.prems(1), of op] Cons.prems(2) by (simp add: keeps_held_def)
  moreover have "p \<in> set (held (sub_step op s))" using Cons.prems by (intro sub_step_held) auto
  ultimately show ?case using Cons.IH[of "sub_step op s"] Cons.prems sub_step_ok[OF Cons.prems(1), of op] by simp
qed simp

text \<open>The subscribers a reader sees for a topic.\<close>

definition subscribers :: "Topic \<Rightarrow> subscriptions \<Rightarrow> GlobalConnId list" where
  "subscribers t s = (case fst (getSubscribers t s) of None \<Rightarrow> [] | Some p \<Rightarrow> vec_heap s p)"

lemma subscribers_ok:
  assumes "subs_inv s"
  shows "distinct (subscribers t s)" "set (subscribers t s) = {c. (c, t) \<in> sub_rel s}"
proof -
  have v: "vec_ok (sub_rel s) s" using assms by (simp add: subs_inv_def)
  show "distinct (subscribers t s)" "set (subscribers t s) = {c. (c, t) \<in> sub_rel s}"
    using vec_okD(2,3,4)[OF v, of t]
    by (cases "map_of (topic_to_conns s) t"; simp add: subscribers_def getSubscribers_def)+
qed

section \<open>Properties\<close>

text \<open>C21: after any interleaving of subscriptions, removals and readers, both indexes hold exactly the
  relation the operations denote: a topic's vector lists each of its subscribers once and nobody else, and
  a connection's topic set is missing exactly when it has no subscription.\<close>

theorem subscription_indexes_agree:
  fixes ops :: "sub_op list"
  defines "s \<equiv> fold sub_step ops subs_new" and "R \<equiv> fold rel_step ops {}"
  shows "distinct (subscribers t s) \<and> set (subscribers t s) = {c. (c, t) \<in> R}
    \<and> (isSubscribed c t s \<longleftrightarrow> (c, t) \<in> R)
    \<and> (case getSubscriptionsForConnection c s of
         Inl e \<Rightarrow> \<not> (\<exists>t. (c, t) \<in> R)
       | Inr ts \<Rightarrow> ts \<noteq> [] \<and> distinct ts \<and> set ts = {t. (c, t) \<in> R})"
proof -
  have i: "subs_inv s" and r: "sub_rel s = R"
    using sub_run_ok[of subs_new ops] subs_new_inv by (simp_all add: s_def R_def)
  have k: "conn_ok R s" using i r by (simp add: subs_inv_def)
  show ?thesis
  proof (cases "map_of (conn_to_topics s) c")
    case None
    then have "\<not> isSubscribed c t' s" for t' by (simp add: isSubscribed_def)
    with k have "(c, t') \<notin> R" for t' by (simp add: conn_ok_def)
    with None k show ?thesis using subscribers_ok[OF i, of t] r
      by (simp add: getSubscriptionsForConnection_def conn_ok_def)
  next
    case (Some ts)
    then have "isSubscribed c t' s \<longleftrightarrow> t' \<in> set ts" for t' by (simp add: isSubscribed_def)
    with k have "(c, t') \<in> R \<longleftrightarrow> t' \<in> set ts" for t' by (simp add: conn_ok_def)
    with Some k show ?thesis using subscribers_ok[OF i, of t] r
      by (simp add: getSubscriptionsForConnection_def conn_ok_def)
  qed
qed

text \<open>C34: a snapshot of a topic's subscribers that a reader took stays as it was until the reader drops
  it, whatever subscriptions and removals run in between.\<close>

theorem snapshot_is_immutable:
  fixes before :: "sub_op list"
  defines "s \<equiv> fold sub_step before subs_new"
  assumes "getSubscribers t s = (Some p, s1)" "DropSnapshot p \<notin> set after"
  shows "vec_heap (fold sub_step after s1) p = subscribers t s"
proof -
  have i: "subs_inv s" using sub_run_ok[of subs_new before] subs_new_inv by (simp add: s_def)
  have s1: "subs_inv s1" "p \<in> set (held s1)" "vec_heap s1 = vec_heap s"
    using getSubscribers_ok[OF i, of t] assms(2)
    by (auto simp: getSubscribers_def split: option.split_asm)
  with sub_run_snapshot[OF s1(1,2) assms(3)] assms(2) show ?thesis by (simp add: subscribers_def)
qed

theorem snapshot_is_immutable_witness:
  "let a = GlobalConnId ''n'' ''1''; b = GlobalConnId ''n'' ''2''; t = HubTopic ''h'';
       s = fold sub_step [Subscribe a t, Subscribe b t] subs_new
   in vec_heap (fold sub_step [Unsubscribe a t, RemoveTopic t] (snd (getSubscribers t s))) 0 = [a, b]"
proof -
  let ?a = "GlobalConnId ''n'' ''1''" and ?b = "GlobalConnId ''n'' ''2''" and ?t = "HubTopic ''h''"
  let ?ops = "[Subscribe ?a ?t, Subscribe ?b ?t]"
  let ?s = "fold sub_step ?ops subs_new"
  have g: "getSubscribers ?t ?s = (Some 0, snd (getSubscribers ?t ?s))" "subscribers ?t ?s = [?a, ?b]"
    by (simp_all add: subscribers_def getSubscribers_def subscribeConnection_def subs_new_def lookup_or_def
        set_insert_def writable_def HubTopic_def Let_def)
  have "DropSnapshot 0 \<notin> set [Unsubscribe ?a ?t, RemoveTopic ?t]" by simp
  from snapshot_is_immutable[OF g(1) this] g(2) show ?thesis by (simp add: Let_def)
qed

end
