(* ===== verification/Presence.thy ===== *)
theory Presence
  imports Sessions Subscriptions
begin

text \<open>
  \<^verbatim>\<open>PresenceService\<close> (\<^verbatim>\<open>src/app/services/presence\<close>): who is online, read from the sessions and the
  subscriptions. What it needs of the sessions is the interface \<open>conn_directory\<close>, which the session manager
  provides.
\<close>

section \<open>Operations\<close>

text \<open>The loop of both hub and channel queries: the users of the subscribed connections, each once, in the
  order of their first connection.\<close>

fun collect_online :: "(GlobalConnId \<Rightarrow> 'e + UserId) \<Rightarrow> GlobalConnId list \<Rightarrow> UserId list \<Rightarrow> UserId list \<Rightarrow> UserId list" where
  "collect_online user_of [] unique online = online"
| "collect_online user_of (conn # conns) unique online =
     (case user_of conn of
        Inl _ \<Rightarrow> collect_online user_of conns unique online
      | Inr u \<Rightarrow> if u \<in> set unique then collect_online user_of conns unique online
                 else collect_online user_of conns (set_insert u unique) (online @ [u]))"

definition onlineUsers :: "session_manager \<Rightarrow> UserId list" where
  "onlineUsers sm = activeUsers sm"

definition onlineUsersInHub :: "HubId \<Rightarrow> session_manager \<Rightarrow> subscriptions \<Rightarrow> UserId list" where
  "onlineUsersInHub hub sm subs =
     (case fst (getSubscribers (HubTopic hub) subs) of
        None \<Rightarrow> []
      | Some p \<Rightarrow> collect_online (\<lambda>c. sessionOfConnection c sm) (vec_heap subs p) [] [])"

definition onlineUsersInChannel :: "HubId \<Rightarrow> ChannelId \<Rightarrow> session_manager \<Rightarrow> subscriptions \<Rightarrow> UserId list" where
  "onlineUsersInChannel hub channel sm subs =
     (case fst (getSubscribers (ChannelTopic hub channel) subs) of
        None \<Rightarrow> []
      | Some p \<Rightarrow> collect_online (\<lambda>c. sessionOfConnection c sm) (vec_heap subs p) [] [])"

definition isUserOnline :: "UserId \<Rightarrow> session_manager \<Rightarrow> bool" where
  "isUserOnline user sm = hasSession user sm"

section \<open>The directory of connections\<close>

locale conn_directory =
  fixes inv :: "'s \<Rightarrow> bool"
    and user_of :: "GlobalConnId \<Rightarrow> 's \<Rightarrow> 'e + UserId"
    and has :: "UserId \<Rightarrow> 's \<Rightarrow> bool"
  assumes has_iff: "inv s \<Longrightarrow> has u s \<longleftrightarrow> (\<exists>c. user_of c s = Inr u)"
begin

lemma collect_spec:
  assumes "set unique = set online" "distinct online"
  shows "distinct (collect_online (\<lambda>c. user_of c s) conns unique online)
    \<and> set (collect_online (\<lambda>c. user_of c s) conns unique online) = set online \<union> {u. \<exists>c\<in>set conns. user_of c s = Inr u}"
  using assms
proof (induction conns arbitrary: unique online)
  case (Cons c conns)
  show ?case
  proof (cases "user_of c s")
    case (Inl e)
    then show ?thesis using Cons.IH[OF Cons.prems] by auto
  next
    case (Inr u)
    show ?thesis
    proof (cases "u \<in> set unique")
      case True
      then show ?thesis using Inr Cons.IH[OF Cons.prems] Cons.prems by auto
    next
      case False
      then show ?thesis using Inr Cons.IH[of "set_insert u unique" "online @ [u]"] Cons.prems by auto
    qed
  qed
qed simp

lemma collected_users_have:
  assumes "inv s" "u \<in> set (collect_online (\<lambda>c. user_of c s) conns [] [])"
  shows "has u s"
  using assms has_iff collect_spec[of "[]" "[]" s conns] by auto

end

interpretation sess_dir: conn_directory sm_inv sessionOfConnection hasSession
proof
  fix s u assume i: "sm_inv s"
  show "hasSession u s \<longleftrightarrow> (\<exists>c. sessionOfConnection c s = Inr u)"
    unfolding hasSession_iff[OF i] sessionOf_iff[OF i] by blast
qed

lemma online_in_hub_eq: "onlineUsersInHub hub sm subs =
    collect_online (\<lambda>c. sessionOfConnection c sm) (subscribers (HubTopic hub) subs) [] []"
  by (simp add: onlineUsersInHub_def subscribers_def split: option.split)

lemma online_in_channel_eq: "onlineUsersInChannel hub ch sm subs =
    collect_online (\<lambda>c. sessionOfConnection c sm) (subscribers (ChannelTopic hub ch) subs) [] []"
  by (simp add: onlineUsersInChannel_def subscribers_def split: option.split)

section \<open>Properties\<close>

text \<open>In every state the session and subscription managers can reach, the users reported online in a
  hub are exactly the users of the connections subscribed to the hub, each reported once, and every one of
  them is online; likewise for a channel.\<close>

theorem hub_presence_exact:
  fixes sops :: "session_op list" and ops :: "sub_op list" and n :: nat
  assumes "length sops < 2 ^ 64"
  defines "sm \<equiv> fold session_step sops (sm_new n)" and "subs \<equiv> fold sub_step ops subs_new"
    and "R \<equiv> fold rel_step ops {}"
  shows "distinct (onlineUsersInHub hub sm subs)
    \<and> set (onlineUsersInHub hub sm subs) = {u. \<exists>c. (c, HubTopic hub) \<in> R \<and> sessionOfConnection c sm = Inr u}
    \<and> (\<forall>u\<in>set (onlineUsersInHub hub sm subs). isUserOnline u sm)
    \<and> distinct (onlineUsersInChannel hub ch sm subs)
    \<and> set (onlineUsersInChannel hub ch sm subs) =
        {u. \<exists>c. (c, ChannelTopic hub ch) \<in> R \<and> sessionOfConnection c sm = Inr u}"
proof -
  have i: "sm_inv sm" using session_run_inv[OF sm_new_inv, of n sops] assms(1) by (simp add: sm_def sm_new_def)
  have "subs_inv subs" "sub_rel subs = R"
    using sub_run_ok[of subs_new ops] subs_new_inv by (simp_all add: subs_def R_def)
  then have s: "set (subscribers t subs) = {c. (c, t) \<in> R}" for t using subscribers_ok(2) by blast
  note c = sess_dir.collect_spec[of "[]" "[]" sm]
  show ?thesis
    unfolding online_in_hub_eq online_in_channel_eq isUserOnline_def
    using c[of "subscribers (HubTopic hub) subs"] c[of "subscribers (ChannelTopic hub ch) subs"]
      sess_dir.collected_users_have[OF i, of _ "subscribers (HubTopic hub) subs"]
    by (simp add: s)
qed

theorem hub_presence_exact_witness:
  "let a = GlobalConnId ''n'' ''1''; b = GlobalConnId ''n'' ''2'';
       sm = fold session_step [Attach a ''u'', Attach b ''u''] (sm_new 5);
       subs = fold sub_step [Subscribe a (HubTopic ''h''), Subscribe b (HubTopic ''h'')] subs_new
   in onlineUsersInHub ''h'' sm subs = [''u''] \<and> isUserOnline ''u'' sm"
proof -
  let ?a = "GlobalConnId ''n'' ''1''" and ?b = "GlobalConnId ''n'' ''2''"
  let ?sops = "[Attach ?a ''u'', Attach ?b ''u'']"
  let ?ops = "[Subscribe ?a (HubTopic ''h''), Subscribe ?b (HubTopic ''h'')]"
  have "onlineUsersInHub ''h'' (fold session_step ?sops (sm_new 5)) (fold sub_step ?ops subs_new) = [''u'']"
    by (simp add: online_in_hub_eq subscribers_def getSubscribers_def subscribeConnection_def subs_new_def lookup_or_def
        set_insert_def writable_def HubTopic_def Let_def sm_new_def attachConnection_def userHasActiveSessions_def
        emplace_def sessionOfConnection_def)
  with hub_presence_exact[of ?sops "''h''" 5 ?ops] show ?thesis by (simp add: Let_def)
qed

end
