(* ===== verification/VoiceSessions.thy ===== *)
theory VoiceSessions
  imports Prelude
begin

text \<open>
  \<^verbatim>\<open>VoiceSessionManager\<close> (\<^verbatim>\<open>src/app/services/voice\<close>): which user is in which voice channel, which session
  owns the user's voice connection and the user's mute and deafen flags. The state is two containers, one by
  channel and one by user. The lemmas show that they always describe one partial function from users to
  (channel, owner, flags), which each operation changes as its contract says.
\<close>

section \<open>State\<close>

record ParticipantState =
  ps_muted :: bool
  ps_deafened :: bool

record UserVoiceState =
  uvs_channel :: ChannelId
  uvs_owner :: SessionId

record voice_sessions =
  voice_channels :: "(ChannelId, (UserId, ParticipantState) umap) umap"
  voice_users :: "(UserId, UserVoiceState) umap"

definition no_flags :: ParticipantState where
  "no_flags = \<lparr> ps_muted = False, ps_deafened = False \<rparr>"

definition voice_new :: voice_sessions where
  "voice_new = \<lparr> voice_channels = [], voice_users = [] \<rparr>"

section \<open>Operations\<close>

text \<open>Erasing a user from a channel's participants; an empty channel is dropped. The flag says whether
  the channel became empty.\<close>

definition erase_participant :: "ChannelId \<Rightarrow> UserId \<Rightarrow> (ChannelId, (UserId, ParticipantState) umap) umap
    \<Rightarrow> bool \<times> (ChannelId, (UserId, ParticipantState) umap) umap" where
  "erase_participant ch u chs =
     (let ps = AList.delete u (lookup_or [] ch chs)
      in if ps = [] then (True, AList.delete ch chs) else (False, AList.update ch ps chs))"

definition join :: "ChannelId \<Rightarrow> UserId \<Rightarrow> SessionId \<Rightarrow> voice_sessions \<Rightarrow> bool \<times> voice_sessions" where
  "join ch user sid v =
     (let (carry, chs) =
        (case map_of (voice_users v) user of
           None \<Rightarrow> (no_flags, voice_channels v)
         | Some st \<Rightarrow>
             (let old = lookup_or [] (uvs_channel st) (voice_channels v)
              in (if uvs_owner st = sid then lookup_or no_flags user old else no_flags,
                  snd (erase_participant (uvs_channel st) user (voice_channels v)))));
          ps = lookup_or [] ch chs;
          was_empty = (ps = [])
      in (was_empty, v\<lparr> voice_channels := AList.update ch (emplace user carry ps) chs,
                        voice_users := AList.update user \<lparr> uvs_channel = ch, uvs_owner = sid \<rparr> (voice_users v) \<rparr>))"

definition leave :: "ChannelId \<Rightarrow> UserId \<Rightarrow> voice_sessions \<Rightarrow> bool \<times> voice_sessions" where
  "leave ch user v =
     (let stale = (case map_of (voice_users v) user of None \<Rightarrow> False | Some st \<Rightarrow> uvs_channel st \<noteq> ch)
      in if stale then (False, v)
         else
           (let v = v\<lparr> voice_users := AList.delete user (voice_users v) \<rparr>
            in case map_of (voice_channels v) ch of
                 None \<Rightarrow> (False, v)
               | Some _ \<Rightarrow> (case erase_participant ch user (voice_channels v) of
                              (became_empty, chs) \<Rightarrow> (became_empty, v\<lparr> voice_channels := chs \<rparr>))))"

text \<open>The common part of \<^verbatim>\<open>leave_user\<close> and \<^verbatim>\<open>leave_if_owner\<close>.\<close>

definition leave_channel :: "ChannelId \<Rightarrow> UserId \<Rightarrow> voice_sessions \<Rightarrow> bool \<times> voice_sessions" where
  "leave_channel ch user v =
     (let v = v\<lparr> voice_users := AList.delete user (voice_users v) \<rparr>
      in case map_of (voice_channels v) ch of
           None \<Rightarrow> (True, v)
         | Some _ \<Rightarrow> (case erase_participant ch user (voice_channels v) of
                        (became_empty, chs) \<Rightarrow> (became_empty, v\<lparr> voice_channels := chs \<rparr>)))"

definition leave_user :: "UserId \<Rightarrow> voice_sessions \<Rightarrow> (ChannelId option \<times> bool) \<times> voice_sessions" where
  "leave_user user v =
     (case map_of (voice_users v) user of
        None \<Rightarrow> ((None, False), v)
      | Some st \<Rightarrow> (case leave_channel (uvs_channel st) user v of
                      (became_empty, v) \<Rightarrow> ((Some (uvs_channel st), became_empty), v)))"

record LeaveIfOwnerResult =
  lio_removed :: bool
  lio_channel :: "ChannelId option"
  lio_became_empty :: bool

definition not_removed :: LeaveIfOwnerResult where
  "not_removed = \<lparr> lio_removed = False, lio_channel = None, lio_became_empty = False \<rparr>"

definition leave_if_owner :: "UserId \<Rightarrow> SessionId \<Rightarrow> voice_sessions \<Rightarrow> LeaveIfOwnerResult \<times> voice_sessions" where
  "leave_if_owner user expected v =
     (case map_of (voice_users v) user of
        None \<Rightarrow> (not_removed, v)
      | Some st \<Rightarrow>
          if uvs_owner st \<noteq> expected then (not_removed, v)
          else (case leave_channel (uvs_channel st) user v of
                  (became_empty, v) \<Rightarrow>
                    (\<lparr> lio_removed = True, lio_channel = Some (uvs_channel st), lio_became_empty = became_empty \<rparr>, v)))"

text \<open>The participant entry that \<^verbatim>\<open>set_muted\<close> and \<^verbatim>\<open>set_deafened\<close> look up, and its update.\<close>

definition find_participant :: "UserId \<Rightarrow> voice_sessions \<Rightarrow> (ChannelId \<times> ParticipantState) option" where
  "find_participant user v =
     (case map_of (voice_users v) user of
        None \<Rightarrow> None
      | Some st \<Rightarrow>
          (case map_of (voice_channels v) (uvs_channel st) of
             None \<Rightarrow> None
           | Some ps \<Rightarrow> map_option (\<lambda>p. (uvs_channel st, p)) (map_of ps user)))"

definition put_participant :: "ChannelId \<Rightarrow> UserId \<Rightarrow> ParticipantState \<Rightarrow> voice_sessions \<Rightarrow> voice_sessions" where
  "put_participant ch user p v =
     v\<lparr> voice_channels := AList.update ch (AList.update user p (lookup_or [] ch (voice_channels v))) (voice_channels v) \<rparr>"

definition set_muted :: "UserId \<Rightarrow> bool \<Rightarrow> voice_sessions \<Rightarrow> bool \<times> voice_sessions" where
  "set_muted user m v =
     (case find_participant user v of
        None \<Rightarrow> (False, v)
      | Some (ch, p) \<Rightarrow>
          if ps_muted p = m then (False, v) else (True, put_participant ch user (p\<lparr> ps_muted := m \<rparr>) v))"

definition set_deafened :: "UserId \<Rightarrow> bool \<Rightarrow> voice_sessions \<Rightarrow> bool \<times> voice_sessions" where
  "set_deafened user d v =
     (case find_participant user v of
        None \<Rightarrow> (False, v)
      | Some (ch, p) \<Rightarrow>
          (let (changed, p1) = (if ps_deafened p \<noteq> d then (True, p\<lparr> ps_deafened := d \<rparr>) else (False, p));
               (changed, p2) = (if ps_muted p1 \<noteq> d then (True, p1\<lparr> ps_muted := d \<rparr>) else (changed, p1))
           in (changed, put_participant ch user p2 v)))"

definition user_channel :: "UserId \<Rightarrow> voice_sessions \<Rightarrow> ChannelId option" where
  "user_channel user v = (case map_of (voice_users v) user of None \<Rightarrow> None | Some st \<Rightarrow> Some (uvs_channel st))"

definition user_session :: "UserId \<Rightarrow> voice_sessions \<Rightarrow> SessionId option" where
  "user_session user v = (case map_of (voice_users v) user of None \<Rightarrow> None | Some st \<Rightarrow> Some (uvs_owner st))"

definition transfer_owner_session :: "UserId \<Rightarrow> SessionId \<Rightarrow> SessionId \<Rightarrow> voice_sessions \<Rightarrow> bool \<times> voice_sessions" where
  "transfer_owner_session user expected next_owner v =
     (case map_of (voice_users v) user of
        None \<Rightarrow> (False, v)
      | Some st \<Rightarrow>
          if uvs_owner st \<noteq> expected then (False, v)
          else (True, v\<lparr> voice_users := AList.update user (st\<lparr> uvs_owner := next_owner \<rparr>) (voice_users v) \<rparr>))"

record ParticipantInfo =
  pi_user :: UserId
  pi_muted :: bool
  pi_deafened :: bool

definition participants_in_channel :: "ChannelId \<Rightarrow> voice_sessions \<Rightarrow> ParticipantInfo list" where
  "participants_in_channel ch v =
     (case map_of (voice_channels v) ch of
        None \<Rightarrow> []
      | Some ps \<Rightarrow> map (\<lambda>(u, p). \<lparr> pi_user = u, pi_muted = ps_muted p, pi_deafened = ps_deafened p \<rparr>) ps)"

definition users_in_channel :: "ChannelId \<Rightarrow> voice_sessions \<Rightarrow> UserId list" where
  "users_in_channel ch v = (case map_of (voice_channels v) ch of None \<Rightarrow> [] | Some ps \<Rightarrow> map fst ps)"

definition active_voice_user_count :: "voice_sessions \<Rightarrow> nat" where
  "active_voice_user_count v = length (voice_users v)"

definition active_channels :: "voice_sessions \<Rightarrow> ChannelId list" where
  "active_channels v = map fst (voice_channels v)"

definition forget_user_of :: "ChannelId \<Rightarrow> UserId \<Rightarrow> (UserId, UserVoiceState) umap \<Rightarrow> (UserId, UserVoiceState) umap" where
  "forget_user_of ch u us =
     (case map_of us u of
        None \<Rightarrow> us
      | Some st \<Rightarrow> if uvs_channel st = ch then AList.delete u us else us)"

definition clear_channel :: "ChannelId \<Rightarrow> voice_sessions \<Rightarrow> UserId list \<times> voice_sessions" where
  "clear_channel ch v =
     (case map_of (voice_channels v) ch of
        None \<Rightarrow> ([], v)
      | Some ps \<Rightarrow>
          (map fst ps, v\<lparr> voice_users := fold (forget_user_of ch) (map fst ps) (voice_users v),
                          voice_channels := AList.delete ch (voice_channels v) \<rparr>))"

definition is_empty :: "ChannelId \<Rightarrow> voice_sessions \<Rightarrow> bool" where
  "is_empty ch v = (case map_of (voice_channels v) ch of None \<Rightarrow> True | Some ps \<Rightarrow> ps = [])"

section \<open>One partial function behind the two containers\<close>

definition part :: "(ChannelId, (UserId, ParticipantState) umap) umap \<Rightarrow> ChannelId \<Rightarrow> UserId \<Rightarrow> ParticipantState option" where
  "part chs ch u = map_of (lookup_or [] ch chs) u"

definition chs_ok :: "(ChannelId, (UserId, ParticipantState) umap) umap \<Rightarrow> bool" where
  "chs_ok chs \<longleftrightarrow> umap_ok chs \<and> (\<forall>ch ps. map_of chs ch = Some ps \<longrightarrow> ps \<noteq> [] \<and> umap_ok ps)"

definition voice_inv :: "voice_sessions \<Rightarrow> bool" where
  "voice_inv v \<longleftrightarrow> chs_ok (voice_channels v) \<and> umap_ok (voice_users v)
     \<and> (\<forall>ch u. part (voice_channels v) ch u \<noteq> None \<longleftrightarrow> user_channel u v = Some ch)"

definition voice_abs :: "voice_sessions \<Rightarrow> UserId \<rightharpoonup> ChannelId \<times> SessionId \<times> ParticipantState" where
  "voice_abs v u = (case map_of (voice_users v) u of None \<Rightarrow> None
     | Some st \<Rightarrow> map_option (\<lambda>p. (uvs_channel st, uvs_owner st, p)) (part (voice_channels v) (uvs_channel st) u))"

lemma part_update [simp]: "part (AList.update ch ps chs) ch' u = (if ch' = ch then map_of ps u else part chs ch' u)"
  by (simp add: part_def lookup_or_def)

lemma part_delete [simp]: "part (AList.delete ch chs) ch' u = (if ch' = ch then None else part chs ch' u)"
  by (simp add: part_def lookup_or_def)

lemma part_Nil [simp]: "part [] ch u = None"
  by (simp add: part_def lookup_or_def)

lemma chs_ok_lookup: "chs_ok chs \<Longrightarrow> umap_ok (lookup_or [] ch chs)"
  by (simp add: chs_ok_def lookup_or_def split: option.split)

lemma chs_ok_update [inv_intros]: "chs_ok chs \<Longrightarrow> umap_ok ps \<Longrightarrow> ps \<noteq> [] \<Longrightarrow> chs_ok (AList.update ch ps chs)"
  by (auto simp: chs_ok_def)

lemma chs_ok_delete [inv_intros]: "chs_ok chs \<Longrightarrow> chs_ok (AList.delete ch chs)"
  by (auto simp: chs_ok_def split: if_split_asm)

lemma empty_iff_part: "lookup_or [] ch chs = [] \<longleftrightarrow> (\<forall>u. part chs ch u = None)"
proof -
  have "m = [] \<longleftrightarrow> (\<forall>u. map_of m u = None)" for m :: "(UserId, ParticipantState) umap"
    by (cases m) force+
  then show ?thesis by (simp add: part_def)
qed

lemma erase_participant_ok:
  assumes "chs_ok chs" "erase_participant ch u chs = (e, chs')"
  shows "chs_ok chs'" "part chs' ch' u' = (if ch' = ch \<and> u' = u then None else part chs ch' u')"
    "e \<longleftrightarrow> (\<forall>w. w \<noteq> u \<longrightarrow> part chs ch w = None)"
proof -
  let ?ps = "AList.delete u (lookup_or [] ch chs)"
  have p: "map_of ?ps w = (if w = u then None else part chs ch w)" for w by (simp add: part_def)
  have em: "?ps = [] \<longleftrightarrow> (\<forall>w. w \<noteq> u \<longrightarrow> part chs ch w = None)"
  proof -
    have "?ps = [] \<longleftrightarrow> (\<forall>w. map_of ?ps w = None)" by (cases ?ps) force+
    then show ?thesis unfolding p by auto
  qed
  have e: "e \<longleftrightarrow> ?ps = []" "chs' = (if ?ps = [] then AList.delete ch chs else AList.update ch ?ps chs)"
    using assms(2) by (auto simp: erase_participant_def Let_def split: if_split_asm)
  show "e \<longleftrightarrow> (\<forall>w. w \<noteq> u \<longrightarrow> part chs ch w = None)" using e(1) em by simp
  show "chs_ok chs'"
    using assms(1) chs_ok_lookup[OF assms(1)] by (simp add: e(2) chs_ok_delete chs_ok_update)
  show "part chs' ch' u' = (if ch' = ch \<and> u' = u then None else part chs ch' u')"
    using em by (auto simp: e(2) simp flip: part_def)
qed

lemma voice_invD:
  assumes "voice_inv v"
  shows "chs_ok (voice_channels v)" "umap_ok (voice_users v)"
    "part (voice_channels v) ch u \<noteq> None \<longleftrightarrow> user_channel u v = Some ch"
  using assms by (simp_all add: voice_inv_def)

lemma voice_abs_dom: "voice_inv v \<Longrightarrow> voice_abs v u = None \<longleftrightarrow> map_of (voice_users v) u = None"
  using voice_invD(3)[of v _ u] by (auto simp: voice_abs_def user_channel_def split: option.splits)

lemma voice_abs_Some:
  assumes "voice_inv v"
  shows "voice_abs v u = Some (ch, sid, p) \<longleftrightarrow>
     map_of (voice_users v) u = Some \<lparr> uvs_channel = ch, uvs_owner = sid \<rparr> \<and> part (voice_channels v) ch u = Some p"
  by (auto simp: voice_abs_def split: option.split)

text \<open>The channel's participants are the users whose channel it is.\<close>

lemma part_iff: "voice_inv v \<Longrightarrow> part (voice_channels v) ch u = Some p \<longleftrightarrow> (\<exists>sid. voice_abs v u = Some (ch, sid, p))"
  using voice_invD(3)[of v ch u]
  by (auto simp: voice_abs_def user_channel_def split: option.splits)

lemma abs_of_user:
  assumes "voice_inv v" "map_of (voice_users v) u = Some st"
  obtains p where "part (voice_channels v) (uvs_channel st) u = Some p"
    "voice_abs v u = Some (uvs_channel st, uvs_owner st, p)"
  using voice_invD(3)[OF assms(1), of "uvs_channel st" u] assms(2)
  by (auto simp: voice_abs_def user_channel_def)

lemma user_channel_abs: "voice_inv v \<Longrightarrow> user_channel u v = map_option fst (voice_abs v u)"
  by (cases "map_of (voice_users v) u") (auto simp: user_channel_def voice_abs_def elim: abs_of_user)

lemma user_session_abs: "voice_inv v \<Longrightarrow> user_session u v = map_option (fst \<circ> snd) (voice_abs v u)"
  by (cases "map_of (voice_users v) u") (auto simp: user_session_def voice_abs_def elim: abs_of_user)

text \<open>A state represents a partial function.\<close>

definition repr :: "(UserId \<rightharpoonup> ChannelId \<times> SessionId \<times> ParticipantState) \<Rightarrow> voice_sessions \<Rightarrow> bool" where
  "repr A v \<longleftrightarrow> chs_ok (voice_channels v) \<and> umap_ok (voice_users v)
     \<and> (\<forall>u. map_of (voice_users v) u = map_option (\<lambda>(ch, sid, p). \<lparr> uvs_channel = ch, uvs_owner = sid \<rparr>) (A u))
     \<and> (\<forall>u ch. part (voice_channels v) ch u =
          (case A u of None \<Rightarrow> None | Some (c, sid, p) \<Rightarrow> if c = ch then Some p else None))"

lemma reprD:
  assumes "repr A v"
  shows "chs_ok (voice_channels v)" "umap_ok (voice_users v)"
    "map_of (voice_users v) u = map_option (\<lambda>(ch, sid, p). \<lparr> uvs_channel = ch, uvs_owner = sid \<rparr>) (A u)"
    "part (voice_channels v) ch u =
      (case A u of None \<Rightarrow> None | Some (c, sid, p) \<Rightarrow> if c = ch then Some p else None)"
  using assms by (simp_all add: repr_def)

lemma repr_inv: "repr A v \<Longrightarrow> voice_inv v \<and> voice_abs v = A"
proof -
  assume r: "repr A v"
  have "voice_inv v"
    using reprD[OF r] by (auto simp: voice_inv_def user_channel_def split: option.splits)
  moreover have "voice_abs v u = A u" for u
    using reprD(3,4)[OF r] by (auto simp: voice_abs_def split: option.split)
  ultimately show ?thesis by blast
qed

lemma inv_repr: "voice_inv v \<Longrightarrow> repr (voice_abs v) v"
proof -
  assume i: "voice_inv v"
  have "map_of (voice_users v) u =
      map_option (\<lambda>(ch, sid, p). \<lparr> uvs_channel = ch, uvs_owner = sid \<rparr>) (voice_abs v u)" for u
  proof (cases "map_of (voice_users v) u")
    case (Some st)
    then show ?thesis by (auto elim!: abs_of_user[OF i])
  qed (simp add: voice_abs_def)
  moreover have "part (voice_channels v) ch u =
      (case voice_abs v u of None \<Rightarrow> None | Some (c, sid, p) \<Rightarrow> if c = ch then Some p else None)" for ch u
  proof -
    have "\<forall>p. part (voice_channels v) ch u = Some p \<longleftrightarrow> (\<exists>sid. voice_abs v u = Some (ch, sid, p))"
      using part_iff[OF i] by blast
    then show ?thesis by (cases "voice_abs v u"; cases "part (voice_channels v) ch u") auto
  qed
  ultimately show ?thesis using voice_invD(1,2)[OF i] by (simp add: repr_def)
qed

lemma repr_new: "repr Map.empty voice_new"
  by (simp add: repr_def voice_new_def chs_ok_def)

section \<open>The contract of each operation\<close>

definition member_of :: "(UserId \<rightharpoonup> ChannelId \<times> SessionId \<times> ParticipantState) \<Rightarrow> ChannelId \<Rightarrow> UserId \<Rightarrow> bool" where
  "member_of A ch u = (map_option fst (A u) = Some ch)"

lemma part_None_iff: "repr A v \<Longrightarrow> part (voice_channels v) ch u = None \<longleftrightarrow> \<not> member_of A ch u"
  using reprD(4)[of A v ch u] by (auto simp: member_of_def split: option.splits)

text \<open>Taking a user out of the channel they are in.\<close>

lemma erase_repr:
  assumes r: "repr A v" and A: "A u = Some (ch, sid, p)"
    and e: "erase_participant ch u (voice_channels v) = (em, chs')"
  shows "repr (A(u := None)) (v\<lparr> voice_channels := chs', voice_users := AList.delete u (voice_users v) \<rparr>)"
    "em \<longleftrightarrow> (\<forall>w. \<not> member_of (A(u := None)) ch w)"
proof -
  note ok = erase_participant_ok[OF reprD(1)[OF r] e]
  show "repr (A(u := None)) (v\<lparr> voice_channels := chs', voice_users := AList.delete u (voice_users v) \<rparr>)"
    using ok(1,2) reprD[OF r] A by (auto simp: repr_def)
  show "em \<longleftrightarrow> (\<forall>w. \<not> member_of (A(u := None)) ch w)"
    using ok(3) part_None_iff[OF r] by (auto simp: member_of_def)
qed

lemma leave_channel_repr:
  assumes r: "repr A v" and A: "A u = Some (ch, sid, p)"
  shows "repr (A(u := None)) (snd (leave_channel ch u v))"
    "fst (leave_channel ch u v) \<longleftrightarrow> (\<forall>w. \<not> member_of (A(u := None)) ch w)"
proof -
  obtain em chs' where e: "erase_participant ch u (voice_channels v) = (em, chs')" by force
  have "map_of (voice_channels v) ch \<noteq> None"
    using reprD(4)[OF r, of ch u] A by (auto simp: part_def lookup_or_def split: option.split_asm)
  then have l: "leave_channel ch u v = (em, v\<lparr> voice_users := AList.delete u (voice_users v), voice_channels := chs' \<rparr>)"
    using e by (auto simp: leave_channel_def)
  have c: "v\<lparr> voice_users := a, voice_channels := b \<rparr> = v\<lparr> voice_channels := b, voice_users := a \<rparr>" for a b by simp
  show "repr (A(u := None)) (snd (leave_channel ch u v))"
    "fst (leave_channel ch u v) \<longleftrightarrow> (\<forall>w. \<not> member_of (A(u := None)) ch w)"
    using erase_repr[OF r A e] by (simp_all add: l c)
qed

lemma leave_repr:
  assumes r: "repr A v"
  shows "repr (if member_of A ch u then A(u := None) else A) (snd (leave ch u v))"
    "fst (leave ch u v) \<longleftrightarrow> member_of A ch u \<and> (\<forall>w. \<not> member_of (A(u := None)) ch w)"
proof -
  have "repr (if member_of A ch u then A(u := None) else A) (snd (leave ch u v))
    \<and> (fst (leave ch u v) \<longleftrightarrow> member_of A ch u \<and> (\<forall>w. \<not> member_of (A(u := None)) ch w))"
  proof (cases "A u")
    case None
    then have nu: "map_of (voice_users v) u = None" "\<not> member_of A ch u" using reprD(3)[OF r, of u] by (simp_all add: member_of_def)
    note d = delete_absent[OF nu(1)]
    show ?thesis
    proof (cases "map_of (voice_channels v) ch")
      case None
      with nu d r show ?thesis by (simp add: leave_def)
    next
      case (Some ps)
      then have ps: "ps \<noteq> []" "umap_ok ps" "part (voice_channels v) ch u = map_of ps u"
        using reprD(1)[OF r] by (auto simp: chs_ok_def part_def)
      then have "map_of ps u = None" using part_None_iff[OF r] nu(2) by metis
      from delete_absent[OF this] update_present[OF Some] nu d Some ps(1) r
      show ?thesis by (simp add: leave_def erase_participant_def)
    qed
  next
    case (Some t)
    obtain c sid p where t: "t = (c, sid, p)" by (cases t) auto
    show ?thesis
    proof (cases "c = ch")
      case False
      then show ?thesis using Some t r reprD(3)[OF r, of u] by (simp add: leave_def member_of_def)
    next
      case True
      have "map_of (voice_channels v) ch \<noteq> None"
        using reprD(4)[OF r, of ch u] Some t True
        by (auto simp: part_def lookup_or_def split: option.split_asm)
      then have "leave ch u v = leave_channel ch u v"
        using True Some t reprD(3)[OF r, of u] by (auto simp: leave_def leave_channel_def)
      with leave_channel_repr[OF r, of u ch sid p] Some t True show ?thesis by (simp add: member_of_def)
    qed
  qed
  then show "repr (if member_of A ch u then A(u := None) else A) (snd (leave ch u v))"
    "fst (leave ch u v) \<longleftrightarrow> member_of A ch u \<and> (\<forall>w. \<not> member_of (A(u := None)) ch w)" by blast+
qed

definition carried :: "(UserId \<rightharpoonup> ChannelId \<times> SessionId \<times> ParticipantState) \<Rightarrow> UserId \<Rightarrow> SessionId \<Rightarrow> ParticipantState" where
  "carried A u sid = (case A u of None \<Rightarrow> no_flags | Some (c, owner, p) \<Rightarrow> if owner = sid then p else no_flags)"

lemma join_fresh_repr:
  assumes r: "repr A v" and A: "A u = None" and ps: "ps = lookup_or [] ch (voice_channels v)"
    and u: "voice_users v = us \<or> voice_users v = AList.delete u us" "umap_ok us"
  shows "repr (A(u \<mapsto> (ch, sid, p))) (v\<lparr> voice_channels := AList.update ch (emplace u p ps) (voice_channels v),
      voice_users := AList.update u \<lparr> uvs_channel = ch, uvs_owner = sid \<rparr> us \<rparr>)"
proof -
  have us: "map_of us w = map_of (voice_users v) w" if "w \<noteq> u" for w
    using u(1) that by auto
  have "map_of ps u = None" using reprD(4)[OF r, of ch u] A by (simp add: ps part_def)
  then have e: "map_of (emplace u p ps) = (map_of ps)(u \<mapsto> p)" by (simp add: map_of_emplace)
  have ne: "emplace u p ps \<noteq> []"
    using e by (metis fun_upd_same map_of.simps(1) option.distinct(1))
  have "chs_ok (AList.update ch (emplace u p ps) (voice_channels v))"
    using chs_ok_lookup[OF reprD(1)[OF r]] reprD(1)[OF r] ne by (simp add: chs_ok_update ps)
  moreover have "map_of ps w = part (voice_channels v) ch w" for w by (simp add: ps part_def)
  ultimately show ?thesis
    using reprD(3,4)[OF r] us A u(2) by (auto simp: repr_def e)
qed

lemma join_repr:
  assumes r: "repr A v"
  shows "repr (A(u \<mapsto> (ch, sid, carried A u sid))) (snd (join ch u sid v))"
    "fst (join ch u sid v) \<longleftrightarrow> (\<forall>w. \<not> member_of (A(u := None)) ch w)"
proof -
  have "repr (A(u \<mapsto> (ch, sid, carried A u sid))) (snd (join ch u sid v))
    \<and> (fst (join ch u sid v) \<longleftrightarrow> (\<forall>w. \<not> member_of (A(u := None)) ch w))"
  proof (cases "A u")
    case None
    then have nu: "map_of (voice_users v) u = None" using reprD(3)[OF r, of u] by simp
    have "A(u := None) = A" using None by auto
    with join_fresh_repr[OF r None refl, where us = "voice_users v" and ch = ch and sid = sid and p = no_flags] nu None reprD(2)[OF r]
      part_None_iff[OF r] empty_iff_part[of ch "voice_channels v"]
    show ?thesis by (simp add: join_def carried_def Let_def)
  next
    case (Some t)
    obtain c owner p where t: "t = (c, owner, p)" by (cases t) auto
    then have A: "A u = Some (c, owner, p)" using Some by simp
    have nu: "map_of (voice_users v) u = Some \<lparr> uvs_channel = c, uvs_owner = owner \<rparr>"
      using reprD(3)[OF r, of u] A by simp
    have pl: "lookup_or no_flags u (lookup_or [] c (voice_channels v)) = p"
      using reprD(4)[OF r, of c u] A by (simp add: part_def)
    obtain em chs' where e: "erase_participant c u (voice_channels v) = (em, chs')" by force
    define v1 where "v1 = v\<lparr> voice_channels := chs', voice_users := AList.delete u (voice_users v) \<rparr>"
    have r1: "repr (A(u := None)) v1" using erase_repr(1)[OF r A e] by (simp add: v1_def)
    let ?ps = "lookup_or [] ch chs'"
    let ?f = "carried A u sid"
    have j: "join ch u sid v = (?ps = [], v1\<lparr> voice_channels := AList.update ch (emplace u ?f ?ps) (voice_channels v1),
        voice_users := AList.update u \<lparr> uvs_channel = ch, uvs_owner = sid \<rparr> (voice_users v) \<rparr>)"
      using nu pl e A by (auto simp: join_def Let_def v1_def carried_def)
    have "?ps = lookup_or [] ch (voice_channels v1)" by (simp add: v1_def)
    from join_fresh_repr[OF r1 _ this, where u = u and us = "voice_users v" and sid = sid and p = ?f] reprD(2)[OF r]
    have "repr (A(u \<mapsto> (ch, sid, ?f))) (snd (join ch u sid v))" by (simp add: j v1_def)
    moreover have "?ps = [] \<longleftrightarrow> (\<forall>w. \<not> member_of (A(u := None)) ch w)"
      using part_None_iff[OF r1, of ch] empty_iff_part[of ch chs'] by (simp add: v1_def)
    ultimately show ?thesis by (simp add: j)
  qed
  then show "repr (A(u \<mapsto> (ch, sid, carried A u sid))) (snd (join ch u sid v))"
    "fst (join ch u sid v) \<longleftrightarrow> (\<forall>w. \<not> member_of (A(u := None)) ch w)" by blast+
qed

lemma find_participant_repr:
  assumes r: "repr A v"
  shows "find_participant u v = map_option (\<lambda>(c, sid, p). (c, p)) (A u)"
proof (cases "A u")
  case (Some t)
  obtain c sid p where t: "t = (c, sid, p)" by (cases t) auto
  then show ?thesis using Some reprD(3)[OF r, of u] reprD(4)[OF r, of c u]
    by (auto simp: find_participant_def part_def lookup_or_def split: option.split_asm)
qed (use reprD(3)[OF r, of u] in \<open>simp add: find_participant_def\<close>)

lemma put_participant_repr:
  assumes r: "repr A v" and A: "A u = Some (c, sid, p)"
  shows "repr (A(u \<mapsto> (c, sid, q))) (put_participant c u q v)"
proof -
  let ?ps = "AList.update u q (lookup_or [] c (voice_channels v))"
  have "?ps \<noteq> []" by (cases "lookup_or [] c (voice_channels v)") auto
  then have "chs_ok (AList.update c ?ps (voice_channels v))"
    using chs_ok_lookup[OF reprD(1)[OF r]] reprD(1)[OF r] by (simp add: chs_ok_update)
  moreover have "map_of ?ps w = (if w = u then Some q else part (voice_channels v) c w)" for w
    by (simp add: part_def)
  ultimately show ?thesis
    using reprD[OF r] A by (auto simp: repr_def put_participant_def simp del: map_of_update)
qed

lemma set_muted_repr:
  assumes r: "repr A v"
  shows "repr (A(u := map_option (\<lambda>(c, sid, p). (c, sid, p\<lparr> ps_muted := m \<rparr>)) (A u))) (snd (set_muted u m v))"
    "fst (set_muted u m v) \<longleftrightarrow> (\<exists>c sid p. A u = Some (c, sid, p) \<and> ps_muted p \<noteq> m)"
proof -
  have "repr (A(u := map_option (\<lambda>(c, sid, p). (c, sid, p\<lparr> ps_muted := m \<rparr>)) (A u))) (snd (set_muted u m v))
    \<and> (fst (set_muted u m v) \<longleftrightarrow> (\<exists>c sid p. A u = Some (c, sid, p) \<and> ps_muted p \<noteq> m))"
  proof (cases "A u")
    case None
    then have "A(u := None) = A" by auto
    with None r find_participant_repr[OF r, of u] show ?thesis by (simp add: set_muted_def)
  next
    case (Some t)
    obtain c sid p where t: "t = (c, sid, p)" by (cases t) auto
    have f: "find_participant u v = Some (c, p)" using find_participant_repr[OF r, of u] Some t by simp
    show ?thesis
    proof (cases "ps_muted p = m")
      case True
      then have "p\<lparr> ps_muted := m \<rparr> = p" by simp
      then have "A(u \<mapsto> (c, sid, p\<lparr> ps_muted := m \<rparr>)) = A" using Some t by auto
      with True f r Some t show ?thesis by (simp add: set_muted_def)
    next
      case False
      then show ?thesis using f Some t put_participant_repr[OF r, of u c sid p] by (simp add: set_muted_def)
    qed
  qed
  then show "repr (A(u := map_option (\<lambda>(c, sid, p). (c, sid, p\<lparr> ps_muted := m \<rparr>)) (A u))) (snd (set_muted u m v))"
    "fst (set_muted u m v) \<longleftrightarrow> (\<exists>c sid p. A u = Some (c, sid, p) \<and> ps_muted p \<noteq> m)" by blast+
qed

lemma set_deafened_repr:
  assumes r: "repr A v"
  shows "repr (A(u := map_option (\<lambda>(c, sid, p). (c, sid, \<lparr> ps_muted = d, ps_deafened = d \<rparr>)) (A u))) (snd (set_deafened u d v))"
    "fst (set_deafened u d v) \<longleftrightarrow> (\<exists>c sid p. A u = Some (c, sid, p) \<and> p \<noteq> \<lparr> ps_muted = d, ps_deafened = d \<rparr>)"
proof -
  have "repr (A(u := map_option (\<lambda>(c, sid, p). (c, sid, \<lparr> ps_muted = d, ps_deafened = d \<rparr>)) (A u))) (snd (set_deafened u d v))
    \<and> (fst (set_deafened u d v) \<longleftrightarrow> (\<exists>c sid p. A u = Some (c, sid, p) \<and> p \<noteq> \<lparr> ps_muted = d, ps_deafened = d \<rparr>))"
  proof (cases "A u")
    case None
    then have "A(u := None) = A" by auto
    with None r find_participant_repr[OF r, of u] show ?thesis by (simp add: set_deafened_def)
  next
    case (Some t)
    obtain c sid p where t: "t = (c, sid, p)" by (cases t) auto
    have f: "find_participant u v = Some (c, p)" using find_participant_repr[OF r, of u] Some t by simp
    have "set_deafened u d v = (p \<noteq> \<lparr> ps_muted = d, ps_deafened = d \<rparr>, put_participant c u \<lparr> ps_muted = d, ps_deafened = d \<rparr> v)"
      using f by (cases p) (auto simp: set_deafened_def Let_def)
    then show ?thesis using Some t put_participant_repr[OF r, of u c sid p] by simp
  qed
  then show "repr (A(u := map_option (\<lambda>(c, sid, p). (c, sid, \<lparr> ps_muted = d, ps_deafened = d \<rparr>)) (A u))) (snd (set_deafened u d v))"
    "fst (set_deafened u d v) \<longleftrightarrow> (\<exists>c sid p. A u = Some (c, sid, p) \<and> p \<noteq> \<lparr> ps_muted = d, ps_deafened = d \<rparr>)" by blast+
qed

text \<open>The user is in voice and the session owns it.\<close>

definition owns :: "(UserId \<rightharpoonup> ChannelId \<times> SessionId \<times> ParticipantState) \<Rightarrow> UserId \<Rightarrow> SessionId \<Rightarrow> bool" where
  "owns A u sid = (map_option (fst \<circ> snd) (A u) = Some sid)"

lemma transfer_repr:
  assumes r: "repr A v"
  shows "repr (if owns A u a then A(u := map_option (\<lambda>(c, sid, p). (c, b, p)) (A u)) else A)
      (snd (transfer_owner_session u a b v))"
    "fst (transfer_owner_session u a b v) \<longleftrightarrow> owns A u a"
proof -
  have "repr (if owns A u a then A(u := map_option (\<lambda>(c, sid, p). (c, b, p)) (A u)) else A)
      (snd (transfer_owner_session u a b v)) \<and> (fst (transfer_owner_session u a b v) \<longleftrightarrow> owns A u a)"
  proof (cases "A u")
    case None
    then show ?thesis using r reprD(3)[OF r, of u] by (simp add: transfer_owner_session_def owns_def)
  next
    case (Some t)
    obtain c sid p where t: "t = (c, sid, p)" by (cases t) auto
    show ?thesis
    proof (cases "sid = a")
      case False
      then show ?thesis using Some t r reprD(3)[OF r, of u] by (simp add: transfer_owner_session_def owns_def)
    next
      case True
      have "repr (A(u \<mapsto> (c, b, p))) (v\<lparr> voice_users := AList.update u \<lparr> uvs_channel = c, uvs_owner = b \<rparr> (voice_users v) \<rparr>)"
        using reprD[OF r] Some t by (auto simp: repr_def)
      then show ?thesis using True Some t reprD(3)[OF r, of u] by (simp add: transfer_owner_session_def owns_def)
    qed
  qed
  then show "repr (if owns A u a then A(u := map_option (\<lambda>(c, sid, p). (c, b, p)) (A u)) else A)
      (snd (transfer_owner_session u a b v))" "fst (transfer_owner_session u a b v) \<longleftrightarrow> owns A u a" by blast+
qed

lemma leave_user_repr:
  assumes r: "repr A v"
  shows "repr (A(u := None)) (snd (leave_user u v))"
    "fst (leave_user u v) = (case A u of None \<Rightarrow> (None, False)
       | Some (c, sid, p) \<Rightarrow> (Some c, \<forall>w. \<not> member_of (A(u := None)) c w))"
proof -
  have "repr (A(u := None)) (snd (leave_user u v)) \<and> fst (leave_user u v) = (case A u of None \<Rightarrow> (None, False)
       | Some (c, sid, p) \<Rightarrow> (Some c, \<forall>w. \<not> member_of (A(u := None)) c w))"
  proof (cases "A u")
    case None
    then have "A(u := None) = A" by auto
    with None r reprD(3)[OF r, of u] show ?thesis by (simp add: leave_user_def)
  next
    case (Some t)
    obtain c sid p where t: "t = (c, sid, p)" by (cases t) auto
    with Some leave_channel_repr[OF r, of u c sid p] reprD(3)[OF r, of u]
    show ?thesis by (simp add: leave_user_def case_prod_unfold)
  qed
  then show "repr (A(u := None)) (snd (leave_user u v))" "fst (leave_user u v) = (case A u of None \<Rightarrow> (None, False)
       | Some (c, sid, p) \<Rightarrow> (Some c, \<forall>w. \<not> member_of (A(u := None)) c w))" by blast+
qed

lemma leave_if_owner_repr:
  assumes r: "repr A v"
  shows "repr (if owns A u sid then A(u := None) else A) (snd (leave_if_owner u sid v))"
    "lio_removed (fst (leave_if_owner u sid v)) \<longleftrightarrow> owns A u sid"
proof -
  have "repr (if owns A u sid then A(u := None) else A) (snd (leave_if_owner u sid v))
    \<and> (lio_removed (fst (leave_if_owner u sid v)) \<longleftrightarrow> owns A u sid)"
  proof (cases "A u")
    case None
    then show ?thesis using r reprD(3)[OF r, of u] by (simp add: leave_if_owner_def owns_def not_removed_def)
  next
    case (Some t)
    obtain c owner p where t: "t = (c, owner, p)" by (cases t) auto
    with Some leave_channel_repr[OF r, of u c owner p] reprD(3)[OF r, of u] r
    show ?thesis by (simp add: leave_if_owner_def owns_def not_removed_def case_prod_unfold)
  qed
  then show "repr (if owns A u sid then A(u := None) else A) (snd (leave_if_owner u sid v))"
    "lio_removed (fst (leave_if_owner u sid v)) \<longleftrightarrow> owns A u sid" by blast+
qed

lemma forget_users:
  assumes "umap_ok us"
  shows "umap_ok (fold (forget_user_of ch) ws us) \<and> map_of (fold (forget_user_of ch) ws us) w =
       (if w \<in> set ws \<and> map_option uvs_channel (map_of us w) = Some ch then None else map_of us w)"
  using assms
proof (induction ws arbitrary: us)
  case (Cons x ws)
  have "umap_ok (forget_user_of ch x us)" using Cons.prems by (simp add: forget_user_of_def split: option.split)
  moreover have "map_of (forget_user_of ch x us) w =
      (if w = x \<and> map_option uvs_channel (map_of us w) = Some ch then None else map_of us w)"
    by (simp add: forget_user_of_def split: option.split)
  ultimately show ?case using Cons.IH[of "forget_user_of ch x us"] by auto
qed simp

lemma clear_channel_repr:
  assumes r: "repr A v"
  shows "repr (\<lambda>u. if member_of A ch u then None else A u) (snd (clear_channel ch v))"
    "set (fst (clear_channel ch v)) = {u. member_of A ch u}"
proof -
  have s: "set (users_in_channel ch v) = {u. member_of A ch u}"
    if "map_of (voice_channels v) ch = Some ps" for ps
  proof -
    have "u \<in> fst ` set ps \<longleftrightarrow> part (voice_channels v) ch u \<noteq> None" for u
      using that by (simp add: part_def map_of_eq_None_iff)
    then show ?thesis using part_None_iff[OF r, of ch] that by (auto simp: users_in_channel_def)
  qed
  have "repr (\<lambda>u. if member_of A ch u then None else A u) (snd (clear_channel ch v))
    \<and> set (fst (clear_channel ch v)) = {u. member_of A ch u}"
  proof (cases "map_of (voice_channels v) ch")
    case None
    then have "\<not> member_of A ch u" for u using part_None_iff[OF r, of ch u] by (simp add: part_def)
    then show ?thesis using None r by (simp add: clear_channel_def)
  next
    case (Some ps)
    note f = forget_users[OF reprD(2)[OF r], of ch "map fst ps"]
    have m: "u \<in> set (map fst ps) \<longleftrightarrow> member_of A ch u" for u
      using s[OF Some] Some by (auto simp: users_in_channel_def)
    have "map_of (fold (forget_user_of ch) (map fst ps) (voice_users v)) u =
        (if member_of A ch u then None else map_of (voice_users v) u)" for u
      using f[of u] m[of u] reprD(3)[OF r, of u] by (auto simp: member_of_def)
    then have "repr (\<lambda>u. if member_of A ch u then None else A u)
        (v\<lparr> voice_users := fold (forget_user_of ch) (map fst ps) (voice_users v),
            voice_channels := AList.delete ch (voice_channels v) \<rparr>)"
      using reprD[OF r] f by (auto simp: repr_def chs_ok_delete member_of_def split: option.splits)
    then show ?thesis using Some s[OF Some] by (simp add: clear_channel_def users_in_channel_def)
  qed
  then show "repr (\<lambda>u. if member_of A ch u then None else A u) (snd (clear_channel ch v))"
    "set (fst (clear_channel ch v)) = {u. member_of A ch u}" by blast+
qed

section \<open>Executions\<close>

datatype voice_op = VJoin ChannelId UserId SessionId | VLeave ChannelId UserId | VLeaveUser UserId
  | VLeaveIfOwner UserId SessionId | VSetMuted UserId bool | VSetDeafened UserId bool
  | VTransfer UserId SessionId SessionId | VClear ChannelId

fun voice_step :: "voice_op \<Rightarrow> voice_sessions \<Rightarrow> voice_sessions" where
  "voice_step (VJoin ch u sid) v = snd (join ch u sid v)"
| "voice_step (VLeave ch u) v = snd (leave ch u v)"
| "voice_step (VLeaveUser u) v = snd (leave_user u v)"
| "voice_step (VLeaveIfOwner u sid) v = snd (leave_if_owner u sid v)"
| "voice_step (VSetMuted u m) v = snd (set_muted u m v)"
| "voice_step (VSetDeafened u d) v = snd (set_deafened u d v)"
| "voice_step (VTransfer u a b) v = snd (transfer_owner_session u a b v)"
| "voice_step (VClear ch) v = snd (clear_channel ch v)"

text \<open>The contract: what each operation does to the voice state of the users. A join keeps the flags only
  when the same session moves; a leave for another channel than the user's is ignored; the operations
  guarded by an owner act only for that owner.\<close>

fun voice_spec :: "voice_op \<Rightarrow> (UserId \<rightharpoonup> ChannelId \<times> SessionId \<times> ParticipantState)
    \<Rightarrow> (UserId \<rightharpoonup> ChannelId \<times> SessionId \<times> ParticipantState)" where
  "voice_spec (VJoin ch u sid) A = A(u \<mapsto> (ch, sid, carried A u sid))"
| "voice_spec (VLeave ch u) A = (if member_of A ch u then A(u := None) else A)"
| "voice_spec (VLeaveUser u) A = A(u := None)"
| "voice_spec (VLeaveIfOwner u sid) A = (if owns A u sid then A(u := None) else A)"
| "voice_spec (VSetMuted u m) A = A(u := map_option (\<lambda>(c, sid, p). (c, sid, p\<lparr> ps_muted := m \<rparr>)) (A u))"
| "voice_spec (VSetDeafened u d) A =
     A(u := map_option (\<lambda>(c, sid, p). (c, sid, \<lparr> ps_muted = d, ps_deafened = d \<rparr>)) (A u))"
| "voice_spec (VTransfer u a b) A =
     (if owns A u a then A(u := map_option (\<lambda>(c, sid, p). (c, b, p)) (A u)) else A)"
| "voice_spec (VClear ch) A = (\<lambda>u. if member_of A ch u then None else A u)"

lemmas voice_ops_repr = join_repr(1) leave_repr(1) leave_user_repr(1) leave_if_owner_repr(1) set_muted_repr(1)
  set_deafened_repr(1) transfer_repr(1) clear_channel_repr(1)

lemma voice_step_repr: "repr A v \<Longrightarrow> repr (voice_spec op A) (voice_step op v)"
  by (cases op) (simp_all only: voice_step.simps voice_spec.simps voice_ops_repr)

lemma voice_run_repr: "repr A v \<Longrightarrow> repr (fold voice_spec ops A) (fold voice_step ops v)"
  by (induction ops arbitrary: A v) (simp_all add: voice_step_repr)

lemma participants_repr:
  assumes r: "repr A v"
  shows "distinct (map pi_user (participants_in_channel ch v))"
    "set (participants_in_channel ch v) =
      {\<lparr> pi_user = u, pi_muted = ps_muted p, pi_deafened = ps_deafened p \<rparr> | u sid p. A u = Some (ch, sid, p)}"
    "map pi_user (participants_in_channel ch v) = users_in_channel ch v"
proof -
  have p: "(u, p) \<in> set ps \<longleftrightarrow> (\<exists>sid. A u = Some (ch, sid, p))" if "map_of (voice_channels v) ch = Some ps" for ps u p
  proof -
    have "umap_ok ps" using that reprD(1)[OF r] by (simp add: chs_ok_def)
    then have "(u, p) \<in> set ps \<longleftrightarrow> part (voice_channels v) ch u = Some p" using that by (simp add: umap_mem part_def)
    also have "\<dots> \<longleftrightarrow> (\<exists>sid. A u = Some (ch, sid, p))" using reprD(4)[OF r, of ch u] by (auto split: option.split)
    finally show ?thesis .
  qed
  have d: "umap_ok ps" if "map_of (voice_channels v) ch = Some ps" for ps
    using that reprD(1)[OF r] by (simp add: chs_ok_def)
  show e: "map pi_user (participants_in_channel ch v) = users_in_channel ch v"
    by (auto simp: participants_in_channel_def users_in_channel_def split: option.split)
  show "distinct (map pi_user (participants_in_channel ch v))"
    unfolding e using d by (auto simp: users_in_channel_def umap_ok_def split: option.split)
  show "set (participants_in_channel ch v) =
      {\<lparr> pi_user = u, pi_muted = ps_muted p, pi_deafened = ps_deafened p \<rparr> | u sid p. A u = Some (ch, sid, p)}"
  proof (cases "map_of (voice_channels v) ch")
    case None
    then have "A u \<noteq> Some (ch, sid, q)" for u sid q
      using reprD(4)[OF r, of ch u] by (auto simp: part_def split: option.splits)
    then show ?thesis using None by (simp add: participants_in_channel_def)
  next
    case (Some ps)
    have "set (participants_in_channel ch v) =
        (\<lambda>(u, q). \<lparr> pi_user = u, pi_muted = ps_muted q, pi_deafened = ps_deafened q \<rparr>) ` set ps"
      using Some by (simp add: participants_in_channel_def)
    also have "set ps = {(u, q). \<exists>sid. A u = Some (ch, sid, q)}" using p[OF Some] by (intro set_eqI) auto
    finally show ?thesis by (simp only:, intro set_eqI iffI) auto
  qed
qed

lemma active_channels_repr:
  assumes r: "repr A v"
  shows "set (active_channels v) = {ch. \<exists>u. member_of A ch u}" "is_empty ch v \<longleftrightarrow> (\<forall>u. \<not> member_of A ch u)"
proof -
  have e: "map_of (voice_channels v) c = None \<longleftrightarrow> (\<forall>u. \<not> member_of A c u)" for c
  proof -
    have "map_of (voice_channels v) c = None \<longleftrightarrow> lookup_or [] c (voice_channels v) = []"
      using reprD(1)[OF r] by (auto simp: chs_ok_def lookup_or_def split: option.split)
    then show ?thesis using empty_iff_part part_None_iff[OF r] by simp
  qed
  have "c \<in> set (active_channels v) \<longleftrightarrow> map_of (voice_channels v) c \<noteq> None" for c
    by (simp add: active_channels_def map_of_eq_None_iff)
  then show "set (active_channels v) = {ch. \<exists>u. member_of A ch u}" using e by blast
  show "is_empty ch v \<longleftrightarrow> (\<forall>u. \<not> member_of A ch u)"
    using e[of ch] reprD(1)[OF r] by (auto simp: is_empty_def chs_ok_def split: option.split)
qed

lemma active_count_repr:
  assumes r: "repr A v"
  shows "active_voice_user_count v = card (dom A)"
proof -
  have "dom A = fst ` set (voice_users v)"
    using reprD(3)[OF r] by (auto simp: dom_map_of_conv_image_fst[symmetric] dom_def)
  then show ?thesis
    using reprD(2)[OF r] distinct_card[of "map fst (voice_users v)"] by (simp add: active_voice_user_count_def umap_ok_def)
qed

section \<open>Properties\<close>

text \<open>C19: after any sequence of operations both containers describe exactly the voice state the contract
  assigns to the operations: every query (channel and owner of a user, participants with their flags, active
  channels, emptiness, the number of users) answers from it, so no user is ever in two channels and no
  empty channel stays listed.\<close>

theorem voice_sessions_refine_contract:
  fixes ops :: "voice_op list"
  defines "v \<equiv> fold voice_step ops voice_new" and "A \<equiv> fold voice_spec ops Map.empty"
  shows "user_channel u v = map_option fst (A u) \<and> user_session u v = map_option (fst \<circ> snd) (A u)
    \<and> distinct (map pi_user (participants_in_channel ch v))
    \<and> set (participants_in_channel ch v) =
        {\<lparr> pi_user = w, pi_muted = ps_muted p, pi_deafened = ps_deafened p \<rparr> | w sid p. A w = Some (ch, sid, p)}
    \<and> set (active_channels v) = {c. \<exists>w. map_option fst (A w) = Some c}
    \<and> (is_empty ch v \<longleftrightarrow> (\<forall>w. map_option fst (A w) \<noteq> Some ch))
    \<and> active_voice_user_count v = card (dom A)"
proof -
  have r: "repr A v" using voice_run_repr[OF repr_new] by (simp add: v_def A_def)
  have i: "voice_inv v" "voice_abs v = A" using repr_inv[OF r] by simp_all
  show ?thesis
    using user_channel_abs[OF i(1)] user_session_abs[OF i(1)] participants_repr[OF r] active_channels_repr[OF r]
      active_count_repr[OF r] i(2) by (simp add: member_of_def)
qed

text \<open>The values the operations return are right: a join reports the first participant, a leave reports
  that the channel became empty exactly when the user was there and was the last one, a mute or deafen request
  reports whether a flag changed, and a transfer or an owner's leave succeeds exactly for the owner.\<close>

theorem voice_results_exact:
  assumes "voice_inv v"
  defines "others \<equiv> \<lambda>u ch. {w. w \<noteq> u \<and> user_channel w v = Some ch}"
  shows "(fst (join ch u sid v) \<longleftrightarrow> others u ch = {})
    \<and> (fst (leave ch u v) \<longleftrightarrow> user_channel u v = Some ch \<and> others u ch = {})
    \<and> fst (leave_user u v) = (case user_channel u v of None \<Rightarrow> (None, False) | Some c \<Rightarrow> (Some c, others u c = {}))
    \<and> (lio_removed (fst (leave_if_owner u sid v)) \<longleftrightarrow> user_session u v = Some sid)
    \<and> (fst (transfer_owner_session u sid sid' v) \<longleftrightarrow> user_session u v = Some sid)
    \<and> (fst (set_muted u m v) \<longleftrightarrow> snd (set_muted u m v) \<noteq> v)"
proof -
  note r = inv_repr[OF assms(1)]
  let ?A = "voice_abs v"
  have m: "member_of (?A(u := None)) c w \<longleftrightarrow> w \<in> others u c" for c w
    using user_channel_abs[OF assms(1), of w] by (auto simp: member_of_def others_def)
  have mu: "member_of ?A c u \<longleftrightarrow> user_channel u v = Some c" for c
    using user_channel_abs[OF assms(1), of u] by (simp add: member_of_def)
  have o: "owns ?A u a \<longleftrightarrow> user_session u v = Some a" for a
    using user_session_abs[OF assms(1), of u] by (simp add: owns_def)
  have none: "(\<forall>w. \<not> member_of (?A(u := None)) c w) \<longleftrightarrow> others u c = {}" for c using m by blast
  have lu: "fst (leave_user u v) = (case user_channel u v of None \<Rightarrow> (None, False) | Some c \<Rightarrow> (Some c, others u c = {}))"
    unfolding leave_user_repr(2)[OF r] none user_channel_abs[OF assms(1)] by (simp split: option.split)
  have sm: "fst (set_muted u m v) \<longleftrightarrow> snd (set_muted u m v) \<noteq> v"
  proof
    assume "fst (set_muted u m v)"
    then obtain c sid p where a: "?A u = Some (c, sid, p)" "ps_muted p \<noteq> m" unfolding set_muted_repr(2)[OF r] by blast
    have "voice_abs (snd (set_muted u m v)) u = Some (c, sid, p\<lparr> ps_muted := m \<rparr>)"
      using repr_inv[OF set_muted_repr(1)[OF r, of u m]] a by simp
    moreover have "p\<lparr> ps_muted := m \<rparr> \<noteq> p" using a(2) by (metis ParticipantState.select_convs(1) ParticipantState.surjective ParticipantState.update_convs(1))
    ultimately show "snd (set_muted u m v) \<noteq> v" using a(1) by auto
  next
    assume "snd (set_muted u m v) \<noteq> v"
    then show "fst (set_muted u m v)" by (auto simp: set_muted_def split: option.split_asm if_split_asm)
  qed
  show ?thesis
    using join_repr(2)[OF r, of ch u sid] leave_repr(2)[OF r, of ch u] leave_if_owner_repr(2)[OF r, of u sid]
      transfer_repr(2)[OF r, of u sid sid'] lu sm unfolding none mu o by simp
qed

theorem voice_results_exact_witness:
  "let v = fold voice_step [VJoin ''c'' ''a'' 1, VJoin ''c'' ''b'' 2] voice_new
   in \<not> fst (join ''c'' ''x'' 3 v) \<and> \<not> fst (leave ''c'' ''a'' v)
      \<and> fst (leave ''c'' ''a'' (snd (leave ''c'' ''b'' v))) = (user_channel ''a'' (snd (leave ''c'' ''b'' v)) = Some ''c'')"
proof -
  define v where "v = fold voice_step [VJoin ''c'' ''a'' 1, VJoin ''c'' ''b'' 2] voice_new"
  define v' where "v' = snd (leave ''c'' ''b'' v)"
  have i: "voice_inv v" using repr_inv[OF voice_run_repr[OF repr_new]] unfolding v_def by blast
  have i': "voice_inv v'" using repr_inv[OF leave_repr(1)[OF inv_repr[OF i], of "''c''" "''b''"]] by (simp add: v'_def)
  have e: "v = \<lparr> voice_channels = [(''c'', [(''a'', no_flags), (''b'', no_flags)])],
      voice_users = [(''a'', \<lparr> uvs_channel = ''c'', uvs_owner = 1 \<rparr>), (''b'', \<lparr> uvs_channel = ''c'', uvs_owner = 2 \<rparr>)] \<rparr>"
    by (simp add: v_def voice_new_def join_def Let_def lookup_or_def emplace_def)
  then have "v' = \<lparr> voice_channels = [(''c'', [(''a'', no_flags)])],
      voice_users = [(''a'', \<lparr> uvs_channel = ''c'', uvs_owner = 1 \<rparr>)] \<rparr>"
    by (simp add: v'_def leave_def erase_participant_def Let_def lookup_or_def)
  with e have d: "user_channel ''b'' v = Some ''c''" "\<And>w. user_channel w v' = (if w = ''a'' then Some ''c'' else None)"
    by (simp_all add: user_channel_def)
  have "''b'' \<in> {w. w \<noteq> ''x'' \<and> user_channel w v = Some ''c''}" "''b'' \<in> {w. w \<noteq> ''a'' \<and> user_channel w v = Some ''c''}"
    using d(1) by simp_all
  then have "\<not> fst (join ''c'' ''x'' 3 v)" "\<not> fst (leave ''c'' ''a'' v)"
    using voice_results_exact[OF i, of "''c''" "''x''" 3, THEN conjunct1]
      voice_results_exact[OF i, of "''c''" "''a''", THEN conjunct2, THEN conjunct1] by blast+
  moreover have "fst (leave ''c'' ''a'' v')" using voice_results_exact[OF i', of "''c''" "''a''", THEN conjunct2, THEN conjunct1]
    by (simp add: d(2))
  ultimately show ?thesis using d(2)[of "''a''"] unfolding v_def v'_def Let_def by simp
qed

end
