(* ===== verification/Reconcile.thy ===== *)
theory Reconcile
  imports Strings
begin

text \<open>
  \<^verbatim>\<open>ReconcileEvidenceTracker\<close> and \<^verbatim>\<open>VoiceReconciler\<close> (\<^verbatim>\<open>src/app/services/voice\<close>): the scheduling of
  reconciliation runs and the evidence that a room or a participant has been missing on the media server
  for the whole grace period. Clock readings and durations are in ticks of the steady clock; the run of the
  target is a parameter (an exception of the target is caught and logged, so it leaves the state the target
  left).

  What one key of the evidence goes through is the interface \<open>evidence_log\<close>; channels and participants both
  provide it.
\<close>

section \<open>Query summary\<close>

record ReconcileQuerySummary =
  configured_queries :: nat
  successful_queries :: nat
  failed_queries :: nat
  participant_count :: nat

definition all_queries_succeeded :: "ReconcileQuerySummary \<Rightarrow> bool" where
  "all_queries_succeeded q \<longleftrightarrow> configured_queries q > 0 \<and> successful_queries q = configured_queries q \<and> failed_queries q = 0"

definition unanimously_absent :: "ReconcileQuerySummary \<Rightarrow> bool" where
  "unanimously_absent q \<longleftrightarrow> all_queries_succeeded q \<and> participant_count q = 0"

section \<open>Evidence\<close>

record MissingObservation =
  first_seen :: time
  mo_reason :: string

record ObservationResult =
  first_observation :: bool
  confirmed :: bool
  first_reason :: string

record evidence =
  missing_ttl :: int
  missing_channels :: "(ChannelId, MissingObservation) umap"
  missing_participants :: "(ChannelId, (UserId, MissingObservation) umap) umap"

definition ev_new :: "int \<Rightarrow> evidence" where
  "ev_new ttl = \<lparr> missing_ttl = ttl, missing_channels = [], missing_participants = [] \<rparr>"

text \<open>The result of \<^verbatim>\<open>try_emplace\<close> on the observation found for the key.\<close>

definition observe :: "int \<Rightarrow> string \<Rightarrow> time \<Rightarrow> MissingObservation option \<Rightarrow> ObservationResult" where
  "observe ttl reason now prev =
     (let inserted = (prev = None);
          ob = (case prev of None \<Rightarrow> \<lparr> first_seen = now, mo_reason = reason \<rparr> | Some m \<Rightarrow> m)
      in \<lparr> first_observation = inserted, confirmed = (\<not> inserted \<and> now - first_seen ob \<ge> ttl), first_reason = mo_reason ob \<rparr>)"

definition observe_channel_missing :: "ChannelId \<Rightarrow> string \<Rightarrow> time \<Rightarrow> evidence \<Rightarrow> ObservationResult \<times> evidence" where
  "observe_channel_missing ch reason now e =
     (let res = observe (missing_ttl e) reason now (map_of (missing_channels e) ch);
          e = e\<lparr> missing_channels := emplace ch \<lparr> first_seen = now, mo_reason = reason \<rparr> (missing_channels e) \<rparr>
      in (res, if confirmed res
               then e\<lparr> missing_channels := AList.delete ch (missing_channels e),
                       missing_participants := AList.delete ch (missing_participants e) \<rparr>
               else e))"

definition observe_participant_missing :: "ChannelId \<Rightarrow> UserId \<Rightarrow> string \<Rightarrow> time \<Rightarrow> evidence \<Rightarrow> ObservationResult \<times> evidence" where
  "observe_participant_missing ch user reason now e =
     (let by_user = lookup_or [] ch (missing_participants e);
          res = observe (missing_ttl e) reason now (map_of by_user user);
          by_user = emplace user \<lparr> first_seen = now, mo_reason = reason \<rparr> by_user
      in (res,
          if confirmed res
          then (let by_user = AList.delete user by_user
                in e\<lparr> missing_participants := (if by_user = [] then AList.delete ch (missing_participants e)
                                               else AList.update ch by_user (missing_participants e)) \<rparr>)
          else e\<lparr> missing_participants := AList.update ch by_user (missing_participants e) \<rparr>))"

definition clear_channel_missing :: "ChannelId \<Rightarrow> evidence \<Rightarrow> evidence" where
  "clear_channel_missing ch e = e\<lparr> missing_channels := AList.delete ch (missing_channels e) \<rparr>"

definition clear_participant_missing :: "ChannelId \<Rightarrow> UserId \<Rightarrow> evidence \<Rightarrow> evidence" where
  "clear_participant_missing ch user e =
     (case map_of (missing_participants e) ch of
        None \<Rightarrow> e
      | Some by_user \<Rightarrow>
          (let by_user = AList.delete user by_user
           in e\<lparr> missing_participants := (if by_user = [] then AList.delete ch (missing_participants e)
                                          else AList.update ch by_user (missing_participants e)) \<rparr>))"

definition reset_channel :: "ChannelId \<Rightarrow> evidence \<Rightarrow> evidence" where
  "reset_channel ch e = e\<lparr> missing_channels := AList.delete ch (missing_channels e),
                          missing_participants := AList.delete ch (missing_participants e) \<rparr>"

definition reset_all :: "evidence \<Rightarrow> evidence" where
  "reset_all e = e\<lparr> missing_channels := [], missing_participants := [] \<rparr>"

definition tracked_missing_channels :: "evidence \<Rightarrow> ChannelId list" where
  "tracked_missing_channels e = map fst (missing_channels e)"

section \<open>What one key goes through\<close>

text \<open>\<open>seen s\<close> is the observation the state holds for the key, \<open>obs op\<close> the reason and time when \<open>op\<close> observes the
  key as missing, \<open>clears op s\<close> that \<open>op\<close> discards the evidence.\<close>

locale evidence_log =
  fixes ttl :: int
    and seen :: "'s \<Rightarrow> MissingObservation option"
    and obs :: "'op \<Rightarrow> (string \<times> time) option"
    and clears :: "'op \<Rightarrow> 's \<Rightarrow> bool"
    and step :: "'op \<Rightarrow> 's \<Rightarrow> 's"
    and ok :: "'s \<Rightarrow> bool"
  assumes ok_step: "ok s \<Longrightarrow> ok (step op s)"
    and seen_obs: "ok s \<Longrightarrow> obs op = Some (r, now) \<Longrightarrow> seen (step op s) =
        (if confirmed (observe ttl r now (seen s)) then None
         else Some (case seen s of None \<Rightarrow> \<lparr> first_seen = now, mo_reason = r \<rparr> | Some m \<Rightarrow> m))"
    and seen_clear: "ok s \<Longrightarrow> obs op = None \<Longrightarrow> clears op s \<Longrightarrow> seen (step op s) = None"
    and seen_frame: "ok s \<Longrightarrow> obs op = None \<Longrightarrow> \<not> clears op s \<Longrightarrow> seen (step op s) = seen s"
begin

text \<open>No operation of the list discards the evidence when the list runs from \<open>s\<close>.\<close>

fun undisturbed :: "'op list \<Rightarrow> 's \<Rightarrow> bool" where
  "undisturbed [] s = True"
| "undisturbed (op # ops) s = ((obs op = None \<longrightarrow> \<not> clears op s) \<and> undisturbed ops (step op s))"

lemma run_ok: "ok s \<Longrightarrow> ok (fold step ops s)"
  by (induction ops arbitrary: s) (simp_all add: ok_step)

lemma undisturbed_snoc:
  "undisturbed (ops @ [op]) s \<longleftrightarrow> undisturbed ops s \<and> (obs op = None \<longrightarrow> \<not> clears op (fold step ops s))"
  by (induction ops arbitrary: s) auto

lemma seen_origin:
  assumes "ok s0" "seen s0 = None" "seen (fold step ops s0) = Some m"
  shows "\<exists>pre op mid. ops = pre @ op # mid \<and> obs op = Some (mo_reason m, first_seen m)
    \<and> undisturbed mid (fold step (pre @ [op]) s0)
    \<and> (\<forall>q\<in>set mid. \<forall>r now. obs q = Some (r, now) \<longrightarrow> now - first_seen m < ttl)"
  using assms(3)
proof (induction ops rule: rev_induct)
  case Nil
  then show ?case using assms(2) by simp
next
  case (snoc op ops)
  let ?s = "fold step ops s0"
  have ok: "ok ?s" using run_ok[OF assms(1)] .
  have keep: ?case if "seen ?s = Some m" "obs op = None \<longrightarrow> \<not> clears op ?s"
    "\<And>r now. obs op = Some (r, now) \<Longrightarrow> now - first_seen m < ttl"
  proof -
    note k = that
    obtain pre op' mid where *: "ops = pre @ op' # mid" "obs op' = Some (mo_reason m, first_seen m)"
      "undisturbed mid (fold step (pre @ [op']) s0)"
      "\<forall>q\<in>set mid. \<forall>r now. obs q = Some (r, now) \<longrightarrow> now - first_seen m < ttl"
      using snoc.IH[OF k(1)] by blast
    have "undisturbed (mid @ [op]) (fold step (pre @ [op']) s0)"
      using *(1,3) k(2) by (simp add: undisturbed_snoc)
    with * k(3) show ?thesis
      by (intro exI[of _ pre] exI[of _ op'] exI[of _ "mid @ [op]"]) auto
  qed
  show ?case
  proof (cases "obs op")
    case None
    then have n: "\<not> clears op ?s" using snoc.prems seen_clear[OF ok None] by auto
    then have "seen ?s = Some m" using snoc.prems seen_frame[OF ok None] by simp
    with None n show ?thesis by (intro keep) auto
  next
    case (Some p)
    obtain r now where p: "p = (r, now)" by force
    have o: "obs op = Some (r, now)" using Some p by simp
    have e: "\<not> confirmed (observe ttl r now (seen ?s))"
      "m = (case seen ?s of None \<Rightarrow> \<lparr> first_seen = now, mo_reason = r \<rparr> | Some m \<Rightarrow> m)"
      using snoc.prems seen_obs[OF ok o] by (auto split: if_split_asm)
    show ?thesis
    proof (cases "seen ?s")
      case None
      then show ?thesis using e(2) o by (intro exI[of _ ops] exI[of _ op] exI[of _ "[]"]) simp
    next
      case (Some m')
      then have "m' = m" using e(2) by simp
      with Some e(1) o show ?thesis by (intro keep) (auto simp: observe_def)
    qed
  qed
qed

text \<open>Safety: evidence is confirmed only against an observation made a whole period earlier, with nothing in
  between that discarded it.\<close>

lemma confirmed_only_after_ttl:
  assumes "ok s0" "seen s0 = None" "confirmed (observe ttl r now (seen (fold step ops s0)))"
  shows "\<exists>pre op mid r0 t0. ops = pre @ op # mid \<and> obs op = Some (r0, t0) \<and> now - t0 \<ge> ttl
    \<and> undisturbed mid (fold step (pre @ [op]) s0)
    \<and> first_reason (observe ttl r now (seen (fold step ops s0))) = r0"
proof -
  from assms(3) obtain m where m: "seen (fold step ops s0) = Some m" "now - first_seen m \<ge> ttl"
    by (auto simp: observe_def Let_def split: option.split_asm)
  have "first_reason (observe ttl r now (seen (fold step ops s0))) = mo_reason m" using m by (simp add: observe_def)
  then show ?thesis using m(2) seen_origin[OF assms(1,2) m(1)] by auto
qed

text \<open>Liveness: as long as nothing discards the evidence, an observation a whole period after another one is
  confirmed, unless one in between already was.\<close>

lemma kept_or_confirmed:
  assumes "ok s" "seen s = Some m" "undisturbed ops s"
  shows "(\<exists>pre op mid r now. ops = pre @ op # mid \<and> obs op = Some (r, now)
        \<and> confirmed (observe ttl r now (seen (fold step pre s)))) \<or> seen (fold step ops s) = Some m"
  using assms
proof (induction ops arbitrary: s)
  case (Cons op ops)
  have u: "undisturbed ops (step op s)" using Cons.prems(3) by simp
  have later: ?case if "seen (step op s) = Some m"
  proof -
    note sm = that
    consider (c) pre op' mid r now where "ops = pre @ op' # mid" "obs op' = Some (r, now)"
        "confirmed (observe ttl r now (seen (fold step pre (step op s))))"
      | (k) "seen (fold step ops (step op s)) = Some m"
      using Cons.IH[OF ok_step[OF Cons.prems(1)] sm u] by blast
    then show ?thesis
    proof cases
      case c
      then have "op # ops = (op # pre) @ op' # mid" "confirmed (observe ttl r now (seen (fold step (op # pre) s)))"
        by simp_all
      with c(2) show ?thesis by blast
    qed simp
  qed
  show ?case
  proof (cases "obs op")
    case None
    then have "seen (step op s) = Some m" using seen_frame[OF Cons.prems(1) None] Cons.prems(2,3) by simp
    then show ?thesis by (rule later)
  next
    case (Some p)
    obtain r now where p: "p = (r, now)" by force
    have o: "obs op = Some (r, now)" using Some p by simp
    show ?thesis
    proof (cases "confirmed (observe ttl r now (seen s))")
      case True
      then have "op # ops = [] @ op # ops \<and> obs op = Some (r, now) \<and> confirmed (observe ttl r now (seen (fold step [] s)))"
        using o by simp
      then show ?thesis by blast
    next
      case False
      then show ?thesis using seen_obs[OF Cons.prems(1) o] Cons.prems(2) by (intro later) simp
    qed
  qed
qed simp

end

section \<open>Executions of the tracker\<close>

datatype ev_op = ObsChannel ChannelId string time | ObsParticipant ChannelId UserId string time
  | ClearChannel ChannelId | ClearParticipant ChannelId UserId | ResetChannel ChannelId | ResetAll

fun ev_step :: "ev_op \<Rightarrow> evidence \<Rightarrow> evidence" where
  "ev_step (ObsChannel ch r now) e = snd (observe_channel_missing ch r now e)"
| "ev_step (ObsParticipant ch u r now) e = snd (observe_participant_missing ch u r now e)"
| "ev_step (ClearChannel ch) e = clear_channel_missing ch e"
| "ev_step (ClearParticipant ch u) e = clear_participant_missing ch u e"
| "ev_step (ResetChannel ch) e = reset_channel ch e"
| "ev_step ResetAll e = reset_all e"

fun obs_time :: "ev_op \<Rightarrow> time option" where
  "obs_time (ObsChannel ch r now) = Some now"
| "obs_time (ObsParticipant ch u r now) = Some now"
| "obs_time _ = None"

fun channel_obs :: "ChannelId \<Rightarrow> ev_op \<Rightarrow> (string \<times> time) option" where
  "channel_obs ch (ObsChannel ch' r now) = (if ch' = ch then Some (r, now) else None)"
| "channel_obs ch _ = None"

fun channel_clears :: "ChannelId \<Rightarrow> ev_op \<Rightarrow> bool" where
  "channel_clears ch (ClearChannel ch') = (ch' = ch)"
| "channel_clears ch (ResetChannel ch') = (ch' = ch)"
| "channel_clears ch ResetAll = True"
| "channel_clears ch _ = False"

fun participant_obs :: "ChannelId \<Rightarrow> UserId \<Rightarrow> ev_op \<Rightarrow> (string \<times> time) option" where
  "participant_obs ch u (ObsParticipant ch' u' r now) = (if ch' = ch \<and> u' = u then Some (r, now) else None)"
| "participant_obs ch u _ = None"

text \<open>A participant's evidence also goes when the channel's own evidence is confirmed.\<close>

fun participant_clears :: "ChannelId \<Rightarrow> UserId \<Rightarrow> ev_op \<Rightarrow> evidence \<Rightarrow> bool" where
  "participant_clears ch u (ClearParticipant ch' u') e = (ch' = ch \<and> u' = u)"
| "participant_clears ch u (ResetChannel ch') e = (ch' = ch)"
| "participant_clears ch u ResetAll e = True"
| "participant_clears ch u (ObsChannel ch' r now) e = (ch' = ch \<and> confirmed (fst (observe_channel_missing ch' r now e)))"
| "participant_clears ch u _ e = False"

definition seen_participant :: "ChannelId \<Rightarrow> UserId \<Rightarrow> evidence \<Rightarrow> MissingObservation option" where
  "seen_participant ch u e = map_of (lookup_or [] ch (missing_participants e)) u"

lemma ev_ttl [simp]: "missing_ttl (ev_step op e) = missing_ttl e"
  by (cases op) (simp_all add: observe_channel_missing_def observe_participant_missing_def clear_channel_missing_def
      clear_participant_missing_def reset_channel_def reset_all_def Let_def split: option.split)

lemma lookup_or_upd:
  "lookup_or d k (AList.update k' v m) = (if k = k' then v else lookup_or d k m)"
  "lookup_or d k (AList.delete k' m) = (if k = k' then d else lookup_or d k m)"
  by (simp_all add: lookup_or_def)

lemma observe_None [simp]: "\<not> confirmed (observe ttl r now None)"
  by (simp add: observe_def)

lemma map_of_emplace_case:
  "map_of (emplace k v m) k = Some (case map_of m k of None \<Rightarrow> v | Some w \<Rightarrow> w)"
  "k' \<noteq> k \<Longrightarrow> map_of (emplace k v m) k' = map_of m k'"
  by (auto simp: map_of_emplace split: option.split)

interpretation chan_ev: evidence_log ttl "\<lambda>e. map_of (missing_channels e) ch" "channel_obs ch"
    "\<lambda>op e. channel_clears ch op" ev_step "\<lambda>e. missing_ttl e = ttl" for ttl ch
proof (unfold_locales, goal_cases)
  case (2 s op r now)
  then have "op = ObsChannel ch r now" by (cases op) (auto split: if_split_asm)
  with 2 show ?case by (simp add: observe_channel_missing_def Let_def map_of_emplace_case)
next
  case (3 s op)
  then show ?case by (cases op) (simp_all add: clear_channel_missing_def reset_channel_def reset_all_def)
next
  case (4 s op)
  then show ?case
    by (cases op) (auto simp: observe_channel_missing_def observe_participant_missing_def clear_channel_missing_def
        clear_participant_missing_def reset_channel_def reset_all_def Let_def map_of_emplace_case split: option.split)
qed simp

lemma participant_obs_seen:
  "seen_participant ch u (snd (observe_participant_missing ch u r now e)) =
     (if confirmed (observe (missing_ttl e) r now (seen_participant ch u e)) then None
      else Some (case seen_participant ch u e of None \<Rightarrow> \<lparr> first_seen = now, mo_reason = r \<rparr> | Some m \<Rightarrow> m))"
  by (simp add: seen_participant_def observe_participant_missing_def Let_def lookup_or_upd map_of_emplace_case)

lemma participant_obs_other:
  "(ch', u') \<noteq> (ch, u) \<Longrightarrow>
   seen_participant ch u (snd (observe_participant_missing ch' u' r now e)) = seen_participant ch u e"
proof (cases "ch' = ch")
  case True
  assume "(ch', u') \<noteq> (ch, u)"
  then have u: "u \<noteq> u'" using True by simp
  let ?by = "AList.delete u' (emplace u' \<lparr> first_seen = now, mo_reason = r \<rparr> (lookup_or [] ch (missing_participants e)))"
  have "map_of ?by u = map_of (lookup_or [] ch (missing_participants e)) u" using u by (simp add: map_of_emplace_case)
  then have "?by = [] \<Longrightarrow> map_of (lookup_or [] ch (missing_participants e)) u = None" by (metis map_of.simps(1))
  then show ?thesis
    using True u by (simp add: seen_participant_def observe_participant_missing_def Let_def lookup_or_upd map_of_emplace_case)
qed (simp add: seen_participant_def observe_participant_missing_def Let_def lookup_or_upd)

lemma clear_participant_seen:
  "seen_participant ch u (clear_participant_missing ch' u' e) =
     (if ch' = ch \<and> u' = u then None else seen_participant ch u e)"
proof (cases "map_of (missing_participants e) ch'")
  case None
  then show ?thesis by (auto simp: clear_participant_missing_def seen_participant_def)
next
  case (Some by_user)
  have "u \<noteq> u' \<Longrightarrow> AList.delete u' by_user = [] \<Longrightarrow> map_of by_user u = None"
    by (metis fun_upd_other map_of.simps(1) map_of_delete)
  then show ?thesis using Some
    by (auto simp: clear_participant_missing_def seen_participant_def Let_def lookup_or_upd split: if_split_asm)
qed

interpretation part_ev: evidence_log ttl "seen_participant ch u" "participant_obs ch u"
    "participant_clears ch u" ev_step "\<lambda>e. missing_ttl e = ttl" for ttl ch u
proof (unfold_locales, goal_cases)
  case (2 s op r now)
  then have "op = ObsParticipant ch u r now" by (cases op) (auto split: if_split_asm)
  with 2 show ?case by (simp add: participant_obs_seen)
next
  case (3 s op)
  then show ?case
    by (cases op) (simp_all add: clear_participant_seen, simp_all add: reset_channel_def reset_all_def seen_participant_def
        lookup_or_upd observe_channel_missing_def Let_def)
next
  case (4 s op)
  then show ?case
    by (cases op) (auto simp: clear_participant_seen participant_obs_other split: if_split_asm,
        auto simp: clear_channel_missing_def reset_channel_def observe_channel_missing_def seen_participant_def
        lookup_or_upd Let_def)
qed simp

lemma chan_undisturbed:
  "chan_ev.undisturbed ch ops e \<longleftrightarrow> (\<forall>op\<in>set ops. \<not> channel_clears ch op)"
proof (induction ops arbitrary: e)
  case (Cons op ops)
  then show ?case by (cases op) auto
qed simp

section \<open>The reconciler\<close>

text \<open>The coordinator that runs the reconciliation policy, over its own state.\<close>

record 's reconcile_target =
  rt_channel :: "ChannelId \<Rightarrow> string \<Rightarrow> 's \<Rightarrow> 's"
  rt_full :: "string \<Rightarrow> 's \<Rightarrow> 's"

record 's reconciler =
  reconcile_interval :: int
  livekit_missing_clear_ttl :: int
  remote_missing_evidence :: evidence
  running :: bool
  stop_requested :: bool
  pending_channels :: "ChannelId list"
  next_full_run :: time
  target :: 's

definition kDefaultReconcileInterval :: int where
  "kDefaultReconcileInterval = 60"

definition kDefaultLivekitMissingClearTtl :: int where
  "kDefaultLivekitMissingClearTtl = 60"

text \<open>The interval and the grace period come from the environment, in seconds; \<open>ticks\<close> is the number of clock
  ticks in one.\<close>

definition VoiceReconciler :: "int \<Rightarrow> string \<Rightarrow> string \<Rightarrow> 's \<Rightarrow> 's reconciler" where
  "VoiceReconciler ticks env_interval env_clear t =
     (let interval = parse_positive_seconds env_interval kDefaultReconcileInterval * ticks;
          ttl = parse_positive_seconds env_clear kDefaultLivekitMissingClearTtl * ticks
      in \<lparr> reconcile_interval = interval, livekit_missing_clear_ttl = ttl, remote_missing_evidence = ev_new ttl,
           running = False, stop_requested = False, pending_channels = [], next_full_run = 0, target = t \<rparr>)"

text \<open>\<^verbatim>\<open>start\<close> runs the first sweep and then the thread, which computes the time of the next one.\<close>

definition rc_start :: "'s reconcile_target \<Rightarrow> time \<Rightarrow> 's reconciler \<Rightarrow> 's reconciler" where
  "rc_start tgt now r =
     (if running r then r
      else r\<lparr> running := True, stop_requested := False, target := rt_full tgt ''startup'' (target r),
              next_full_run := now + reconcile_interval r \<rparr>)"

definition rc_stop :: "'s reconciler \<Rightarrow> 's reconciler" where
  "rc_stop r = (if \<not> running r then r else r\<lparr> running := False, stop_requested := True, pending_channels := [] \<rparr>)"

definition rc_request :: "ChannelId \<Rightarrow> 's reconciler \<Rightarrow> 's reconciler" where
  "rc_request ch r = (if ch = [] then r else r\<lparr> pending_channels := set_insert ch (pending_channels r) \<rparr>)"

definition confirm_channel_remote_missing :: "ChannelId \<Rightarrow> string \<Rightarrow> time \<Rightarrow> 's reconciler \<Rightarrow> bool \<times> 's reconciler" where
  "confirm_channel_remote_missing ch reason now r =
     (case observe_channel_missing ch reason now (remote_missing_evidence r) of
        (res, e) \<Rightarrow> (confirmed res, r\<lparr> remote_missing_evidence := e \<rparr>))"

definition clear_channel_remote_missing_confirmation :: "ChannelId \<Rightarrow> 's reconciler \<Rightarrow> 's reconciler" where
  "clear_channel_remote_missing_confirmation ch r =
     r\<lparr> remote_missing_evidence := clear_channel_missing ch (remote_missing_evidence r) \<rparr>"

definition confirm_participant_remote_missing :: "ChannelId \<Rightarrow> UserId \<Rightarrow> string \<Rightarrow> time \<Rightarrow> 's reconciler \<Rightarrow> bool \<times> 's reconciler" where
  "confirm_participant_remote_missing ch user reason now r =
     (case observe_participant_missing ch user reason now (remote_missing_evidence r) of
        (res, e) \<Rightarrow> (confirmed res, r\<lparr> remote_missing_evidence := e \<rparr>))"

definition clear_participant_remote_missing_confirmation :: "ChannelId \<Rightarrow> UserId \<Rightarrow> 's reconciler \<Rightarrow> 's reconciler" where
  "clear_participant_remote_missing_confirmation ch user r =
     r\<lparr> remote_missing_evidence := clear_participant_missing ch user (remote_missing_evidence r) \<rparr>"

definition reset_remote_missing_confirmations :: "ChannelId \<Rightarrow> 's reconciler \<Rightarrow> 's reconciler" where
  "reset_remote_missing_confirmations ch r =
     r\<lparr> remote_missing_evidence := reset_channel ch (remote_missing_evidence r) \<rparr>"

text \<open>The condition under which the loop's wait ends, and the round that follows: the pending channels are
  taken under the lock, and requests that arrive while the target works on them are kept for the next round.
  \<^const>\<open>None\<close> is the loop's exit. \<open>now\<close> is the clock after the channels, \<open>later\<close> the clock after a full run.\<close>

definition rc_wakes :: "time \<Rightarrow> 's reconciler \<Rightarrow> bool" where
  "rc_wakes now r \<longleftrightarrow> stop_requested r \<or> pending_channels r \<noteq> [] \<or> now \<ge> next_full_run r"

definition rc_round :: "'s reconcile_target \<Rightarrow> ChannelId list \<Rightarrow> time \<Rightarrow> time \<Rightarrow> 's reconciler \<Rightarrow> 's reconciler option" where
  "rc_round tgt arrivals now later r =
     (if stop_requested r then None
      else
        (let chans = pending_channels r;
             r = fold rc_request arrivals (r\<lparr> pending_channels := [] \<rparr>);
             r = r\<lparr> target := fold (\<lambda>ch. rt_channel tgt ch ''on_demand'') chans (target r) \<rparr>
         in Some (if now \<ge> next_full_run r
                  then r\<lparr> target := rt_full tgt ''periodic'' (target r), next_full_run := later + reconcile_interval r \<rparr>
                  else r)))"

lemma rc_request_sel [simp]:
  "target (rc_request ch r) = target r" "next_full_run (rc_request ch r) = next_full_run r"
  "stop_requested (rc_request ch r) = stop_requested r" "reconcile_interval (rc_request ch r) = reconcile_interval r"
  by (simp_all add: rc_request_def)

lemma rc_requests:
  shows "target (fold rc_request chs r) = target r" "next_full_run (fold rc_request chs r) = next_full_run r"
    "stop_requested (fold rc_request chs r) = stop_requested r"
    "reconcile_interval (fold rc_request chs r) = reconcile_interval r"
    "set (pending_channels (fold rc_request chs r)) = set (pending_channels r) \<union> {c \<in> set chs. c \<noteq> []}"
    "distinct (pending_channels r) \<Longrightarrow> distinct (pending_channels (fold rc_request chs r))"
  by (induction chs arbitrary: r) (auto simp: rc_request_def)

section \<open>Properties\<close>

text \<open>C27: a channel is confirmed missing only if it was already observed missing at least the grace period
  earlier and nothing since then cleared the evidence for it; the reason reported is the one of that first
  observation.\<close>

theorem channel_cleanup_needs_full_grace_period:
  assumes "confirmed (fst (observe_channel_missing ch r now (fold ev_step ops (ev_new ttl))))"
  shows "\<exists>pre r0 t0 mid. ops = pre @ ObsChannel ch r0 t0 # mid \<and> now - t0 \<ge> ttl
    \<and> (\<forall>op\<in>set mid. \<not> channel_clears ch op)
    \<and> first_reason (fst (observe_channel_missing ch r now (fold ev_step ops (ev_new ttl)))) = r0"
proof -
  have t: "missing_ttl (fold ev_step ops (ev_new ttl)) = ttl"
    using chan_ev.run_ok[of "ev_new ttl" ttl ops] by (simp add: ev_new_def)
  then have o: "fst (observe_channel_missing ch r now (fold ev_step ops (ev_new ttl))) =
      observe ttl r now (map_of (missing_channels (fold ev_step ops (ev_new ttl))) ch)"
    by (simp add: observe_channel_missing_def Let_def)
  have "missing_ttl (ev_new ttl) = ttl" "map_of (missing_channels (ev_new ttl)) ch = None" by (simp_all add: ev_new_def)
  from chan_ev.confirmed_only_after_ttl[OF this, of r now ops] assms
  obtain pre op mid r0 t0 where "ops = pre @ op # mid" "channel_obs ch op = Some (r0, t0)" "now - t0 \<ge> ttl"
    "chan_ev.undisturbed ch mid (fold ev_step (pre @ [op]) (ev_new ttl))"
    "first_reason (observe ttl r now (map_of (missing_channels (fold ev_step ops (ev_new ttl))) ch)) = r0"
    unfolding o by blast
  moreover from this(2) have "op = ObsChannel ch r0 t0" by (cases op) (auto split: if_split_asm)
  ultimately show ?thesis unfolding o chan_undisturbed by blast
qed

theorem channel_cleanup_needs_full_grace_period_witness:
  "let ops = [ObsChannel ''c'' ''empty'' 0, ObsParticipant ''c'' ''u'' ''x'' 5, ObsChannel ''c'' ''empty'' 30]
   in confirmed (fst (observe_channel_missing ''c'' ''gone'' 60 (fold ev_step ops (ev_new 60))))
      \<and> (\<exists>pre r0 t0 mid. ops = pre @ ObsChannel ''c'' r0 t0 # mid \<and> 60 - t0 \<ge> (60 :: int))"
proof -
  let ?ops = "[ObsChannel ''c'' ''empty'' 0, ObsParticipant ''c'' ''u'' ''x'' 5, ObsChannel ''c'' ''empty'' 30]"
  have c: "confirmed (fst (observe_channel_missing ''c'' ''gone'' 60 (fold ev_step ?ops (ev_new 60))))"
    by (simp add: observe_channel_missing_def observe_participant_missing_def observe_def ev_new_def emplace_def lookup_or_def Let_def)
  from channel_cleanup_needs_full_grace_period[OF c] c show ?thesis unfolding Let_def by blast
qed

text \<open>The same for a participant, whose evidence is also discarded when the whole channel is confirmed
  missing: between the first observation and the confirmation no operation cleared it.\<close>

theorem participant_cleanup_needs_full_grace_period:
  assumes "confirmed (fst (observe_participant_missing ch u r now (fold ev_step ops (ev_new ttl))))"
  shows "\<exists>pre r0 t0 mid. ops = pre @ ObsParticipant ch u r0 t0 # mid \<and> now - t0 \<ge> ttl
    \<and> (\<forall>a op b. mid = a @ op # b \<longrightarrow> participant_obs ch u op = None \<longrightarrow>
         \<not> participant_clears ch u op (fold ev_step (pre @ ObsParticipant ch u r0 t0 # a) (ev_new ttl)))"
proof -
  have und: "\<not> participant_clears ch u op (fold ev_step a e)"
    if "part_ev.undisturbed ch u (a @ op # b) e" "participant_obs ch u op = None" for a op b e
    using that by (induction a arbitrary: e) auto
  have t: "missing_ttl (fold ev_step ops (ev_new ttl)) = ttl"
    using part_ev.run_ok[of "ev_new ttl" ttl ops] by (simp add: ev_new_def)
  then have o: "fst (observe_participant_missing ch u r now (fold ev_step ops (ev_new ttl))) =
      observe ttl r now (seen_participant ch u (fold ev_step ops (ev_new ttl)))"
    by (simp add: observe_participant_missing_def seen_participant_def Let_def)
  have "missing_ttl (ev_new ttl) = ttl" "seen_participant ch u (ev_new ttl) = None"
    by (simp_all add: ev_new_def seen_participant_def lookup_or_def)
  from part_ev.confirmed_only_after_ttl[OF this, of r now ops] assms
  obtain pre op mid r0 t0 where *: "ops = pre @ op # mid" "participant_obs ch u op = Some (r0, t0)" "now - t0 \<ge> ttl"
    "part_ev.undisturbed ch u mid (fold ev_step (pre @ [op]) (ev_new ttl))"
    unfolding o by blast
  have "op = ObsParticipant ch u r0 t0" using *(2) by (cases op) (auto split: if_split_asm)
  with * und show ?thesis by (intro exI[of _ pre] exI[of _ r0] exI[of _ t0] exI[of _ mid]) auto
qed

theorem participant_cleanup_needs_full_grace_period_witness:
  "let ops = [ObsParticipant ''c'' ''u'' ''x'' 5, ClearChannel ''c'']
   in confirmed (fst (observe_participant_missing ''c'' ''u'' ''y'' 65 (fold ev_step ops (ev_new 60))))
      \<and> (\<exists>pre r0 t0 mid. ops = pre @ ObsParticipant ''c'' ''u'' r0 t0 # mid \<and> 65 - t0 \<ge> (60 :: int))"
proof -
  let ?ops = "[ObsParticipant ''c'' ''u'' ''x'' 5, ClearChannel ''c'']"
  have c: "confirmed (fst (observe_participant_missing ''c'' ''u'' ''y'' 65 (fold ev_step ?ops (ev_new 60))))"
    by (simp add: clear_channel_missing_def observe_participant_missing_def observe_def ev_new_def emplace_def lookup_or_def Let_def)
  from participant_cleanup_needs_full_grace_period[OF c] c show ?thesis unfolding Let_def by blast
qed

text \<open>Evidence is acted on: if a channel is observed missing and, with no clearing in between, observed
  missing again at least the grace period later, then this observation or one before it is confirmed.\<close>

theorem missing_channel_is_eventually_confirmed:
  assumes "now - t0 \<ge> ttl" "\<forall>op\<in>set mid. \<not> channel_clears ch op"
    and clock: "sorted (map the (filter (\<lambda>t. t \<noteq> None) (map obs_time (pre @ [ObsChannel ch r0 t0]))))"
  shows "\<exists>a q t b. ObsChannel ch r0 t0 # mid @ [ObsChannel ch r now] = a @ ObsChannel ch q t # b
    \<and> confirmed (fst (observe_channel_missing ch q t (fold ev_step (pre @ a) (ev_new ttl))))"
proof -
  let ?s0 = "fold ev_step pre (ev_new ttl)"
  let ?see = "\<lambda>e. map_of (missing_channels e) ch"
  have new: "missing_ttl (ev_new ttl) = ttl" "?see (ev_new ttl) = None" by (simp_all add: ev_new_def)
  have t: "missing_ttl (fold ev_step xs (ev_new ttl)) = ttl" for xs using chan_ev.run_ok[OF new(1)] .
  have o: "fst (observe_channel_missing ch q t (fold ev_step xs (ev_new ttl))) = observe ttl q t (?see (fold ev_step xs (ev_new ttl)))"
    for q t xs by (simp add: observe_channel_missing_def Let_def t)
  let ?op = "ObsChannel ch r0 t0"
  let ?s1 = "ev_step ?op ?s0"
  show ?thesis
  proof (cases "confirmed (observe ttl r0 t0 (?see ?s0))")
    case True
    then have "confirmed (fst (observe_channel_missing ch r0 t0 (fold ev_step (pre @ []) (ev_new ttl))))" by (simp add: o)
    then show ?thesis by (rule_tac exI[of _ "[]"]) (intro exI[of _ r0] exI[of _ t0], auto)
  next
    case False
    have s1: "?see ?s1 = Some (case ?see ?s0 of None \<Rightarrow> \<lparr> first_seen = t0, mo_reason = r0 \<rparr> | Some m \<Rightarrow> m)"
      using chan_ev.seen_obs[of ?s0 ttl ch ?op r0 t0] False t by simp
    define m where "m = (case ?see ?s0 of None \<Rightarrow> \<lparr> first_seen = t0, mo_reason = r0 \<rparr> | Some m \<Rightarrow> m)"
    have "first_seen m \<le> t0"
    proof (cases "?see ?s0")
      case (Some m')
      obtain pre' op mid' where p: "pre = pre' @ op # mid'" "channel_obs ch op = Some (mo_reason m', first_seen m')"
        using chan_ev.seen_origin[OF new Some] by blast
      have "op = ObsChannel ch (mo_reason m') (first_seen m')" using p(2) by (cases op) (auto split: if_split_asm)
      with clock p(1) Some show ?thesis by (simp add: m_def sorted_append)
    qed (simp add: m_def)
    then have conf: "confirmed (observe ttl r now (Some m))" using assms(1) by (simp add: observe_def)
    have "chan_ev.undisturbed ch mid ?s1" using assms(2) by (simp add: chan_undisturbed)
    moreover have "missing_ttl ?s1 = ttl" using t[of "pre @ [?op]"] by simp
    ultimately consider (c) a op b q u where "mid = a @ op # b" "channel_obs ch op = Some (q, u)"
        "confirmed (observe ttl q u (?see (fold ev_step a ?s1)))"
      | (k) "?see (fold ev_step mid ?s1) = Some m"
      using chan_ev.kept_or_confirmed[of ?s1 ttl ch m mid, OF _ s1[folded m_def]] by blast
    then show ?thesis
    proof cases
      case c
      have op: "op = ObsChannel ch q u" using c(2) by (cases op) (auto split: if_split_asm)
      have "confirmed (fst (observe_channel_missing ch q u (fold ev_step (pre @ (?op # a)) (ev_new ttl))))"
        using c(3) unfolding o by simp
      with c(1) op show ?thesis by (rule_tac exI[of _ "?op # a"]) (intro exI[of _ q] exI[of _ u], auto)
    next
      case k
      have "confirmed (fst (observe_channel_missing ch r now (fold ev_step (pre @ (?op # mid)) (ev_new ttl))))"
        unfolding o using k conf by simp
      then show ?thesis by (rule_tac exI[of _ "?op # mid"]) (intro exI[of _ r] exI[of _ now], auto)
    qed
  qed
qed

theorem missing_channel_is_eventually_confirmed_witness:
  "\<exists>a r t b. [ObsChannel ''c'' ''x'' 0, ClearParticipant ''c'' ''u'', ObsChannel ''c'' ''x'' 61] = a @ ObsChannel ''c'' r t # b
    \<and> confirmed (fst (observe_channel_missing ''c'' r t (fold ev_step a (ev_new 60))))"
  using missing_channel_is_eventually_confirmed[of 60 61 0 "[ClearParticipant ''c'' ''u'']" "''c''" "[]" "''x''" "''x''"]
  by simp

text \<open>C35: every channel requested since the last round is reconciled exactly once in the next round unless the
  reconciler is stopping, in some order and before a periodic sweep that is due; requests arriving during the
  round are kept, and the next sweep is set a whole interval after this one ended.\<close>

theorem requested_channels_reconciled_once:
  fixes r :: "'s reconciler"
  assumes "pending_channels r = []" "\<not> stop_requested r"
  shows "\<exists>chs r'. distinct chs \<and> set chs = {c \<in> set reqs. c \<noteq> []}
    \<and> rc_round tgt arrivals now later (fold rc_request reqs r) = Some r'
    \<and> set (pending_channels r') = {c \<in> set arrivals. c \<noteq> []} \<and> distinct (pending_channels r')
    \<and> target r' = (if now \<ge> next_full_run r then rt_full tgt ''periodic'' else id)
                    (fold (\<lambda>ch. rt_channel tgt ch ''on_demand'') chs (target r))
    \<and> next_full_run r' = (if now \<ge> next_full_run r then later + reconcile_interval r else next_full_run r)"
proof -
  let ?r = "fold rc_request reqs r"
  let ?chs = "pending_channels ?r"
  have q: "distinct ?chs" "set ?chs = {c \<in> set reqs. c \<noteq> []}" "\<not> stop_requested ?r"
    using assms by (simp_all add: rc_requests)
  let ?r1 = "fold rc_request arrivals (?r\<lparr> pending_channels := [] \<rparr>)"
  have "set (pending_channels ?r1) = {c \<in> set arrivals. c \<noteq> []}" "distinct (pending_channels ?r1)"
    "target ?r1 = target r" "next_full_run ?r1 = next_full_run r" "reconcile_interval ?r1 = reconcile_interval r"
    by (simp_all add: rc_requests)
  with q show ?thesis by (intro exI[of _ ?chs]) (simp add: rc_round_def Let_def)
qed

theorem requested_channels_reconciled_once_witness:
  "let log = \<lparr> rt_channel = (\<lambda>ch _ l. l @ [ch]), rt_full = (\<lambda>_ l. l @ [''*'']) \<rparr>;
       r = VoiceReconciler 1 [] ''30'' []
   in \<exists>r' chs. rc_round log [''b''] 0 1 (fold rc_request [''a'', [], ''b'', ''a''] r) = Some r'
        \<and> set chs = {''a'', ''b''} \<and> set (pending_channels r') = {''b''}"
proof -
  let ?log = "\<lparr> rt_channel = (\<lambda>ch _ l. l @ [ch]), rt_full = (\<lambda>_ l. l @ [''*'']) \<rparr>"
  let ?r = "VoiceReconciler 1 [] ''30'' [] :: string list reconciler"
  have r: "pending_channels ?r = []" "\<not> stop_requested ?r" by (simp_all add: VoiceReconciler_def Let_def)
  have "{c \<in> set [''a'', [], ''b'', ''a'']. c \<noteq> []} = {''a'', ''b''}" "{c \<in> set [''b'']. c \<noteq> []} = {''b''}" by auto
  with requested_channels_reconciled_once[OF r, of "[''a'', [], ''b'', ''a'']" ?log "[''b'']" 0 1]
  show ?thesis unfolding Let_def by metis
qed

end
