(* ===== verification/NodeRegistry.thy ===== *)
theory NodeRegistry
  imports Prelude Complex_Main "HOL-Library.Multiset"
begin

text \<open>
  \<^verbatim>\<open>LivekitNodeRegistry\<close> (\<^verbatim>\<open>src/livekit/routing\<close>): the media nodes, the node each room is bound to, the
  rooms counted for each node and the choice of a node. The load score is a double holding a multiple of a
  quarter; the model keeps it as a rational, which agrees while the counters are below \<open>2^50\<close>.

  The lemmas show that a node's room counter is exactly the number of rooms counted for it, so the
  saturating decrements never lose a room, and that node choice is by least load and round robin.
\<close>

section \<open>State\<close>

record LivekitNode =
  node_id :: string
  public_host :: string
  private_host :: string
  active_rooms :: nat
  node_users :: nat
  load_score :: rat

record node_registry =
  nodes :: "(string, LivekitNode) umap"
  node_order :: "string list"
  room_to_node :: "(ChannelId, string) umap"
  counted_room_to_node :: "(ChannelId, string) umap"
  round_robin_cursor :: "64 word"

definition nr_new :: node_registry where
  "nr_new = \<lparr> nodes = [], node_order = [], room_to_node = [], counted_room_to_node = [], round_robin_cursor = 0 \<rparr>"

definition update_load :: "LivekitNode \<Rightarrow> LivekitNode" where
  "update_load n = n\<lparr> load_score := of_nat (node_users n) + of_nat (active_rooms n) / 4 \<rparr>"

section \<open>Operations\<close>

definition register_node :: "LivekitNode \<Rightarrow> node_registry \<Rightarrow> string + node_registry" where
  "register_node n r =
     (if map_of (nodes r) (node_id n) \<noteq> None then Inl ''Duplicate LiveKit node id''
      else Inr (r\<lparr> node_order := node_order r @ [node_id n], nodes := AList.update (node_id n) n (nodes r) \<rparr>))"

definition get_node :: "string \<Rightarrow> node_registry \<Rightarrow> LivekitNode option" where
  "get_node nid r = map_of (nodes r) nid"

definition get_room_node :: "ChannelId \<Rightarrow> node_registry \<Rightarrow> LivekitNode option" where
  "get_room_node room r =
     (case map_of (room_to_node r) room of None \<Rightarrow> None | Some nid \<Rightarrow> map_of (nodes r) nid)"

text \<open>A change of a node's counters followed by \<^verbatim>\<open>update_load\<close>, when the node is known.\<close>

definition on_node :: "string \<Rightarrow> (LivekitNode \<Rightarrow> LivekitNode) \<Rightarrow> node_registry \<Rightarrow> node_registry" where
  "on_node nid f r =
     (case map_of (nodes r) nid of
        None \<Rightarrow> r
      | Some n \<Rightarrow> r\<lparr> nodes := AList.update nid (update_load (f n)) (nodes r) \<rparr>)"

definition dec_rooms :: "LivekitNode \<Rightarrow> LivekitNode" where
  "dec_rooms n = (if active_rooms n > 0 then n\<lparr> active_rooms := active_rooms n - 1 \<rparr> else n)"

definition inc_rooms :: "LivekitNode \<Rightarrow> LivekitNode" where
  "inc_rooms n = n\<lparr> active_rooms := active_rooms n + 1 \<rparr>"

definition bind_room :: "ChannelId \<Rightarrow> string \<Rightarrow> node_registry \<Rightarrow> node_registry" where
  "bind_room room nid r =
     (if map_of (nodes r) nid = None then r
      else if map_of (room_to_node r) room = Some nid then r
      else
        (let r = (case map_of (counted_room_to_node r) room of
                    None \<Rightarrow> r
                  | Some old \<Rightarrow>
                      if old = nid then r
                      else (on_node nid inc_rooms (on_node old dec_rooms r))
                             \<lparr> counted_room_to_node := AList.update room nid (counted_room_to_node r) \<rparr>)
         in r\<lparr> room_to_node := AList.update room nid (room_to_node r) \<rparr>))"

definition clear_room :: "ChannelId \<Rightarrow> node_registry \<Rightarrow> node_registry" where
  "clear_room room r =
     (let r = (case map_of (counted_room_to_node r) room of
                 None \<Rightarrow> r
               | Some nid \<Rightarrow> (on_node nid dec_rooms r)
                     \<lparr> counted_room_to_node := AList.delete room (counted_room_to_node r) \<rparr>)
      in r\<lparr> room_to_node := AList.delete room (room_to_node r) \<rparr>)"

definition increment_room :: "ChannelId \<Rightarrow> string \<Rightarrow> node_registry \<Rightarrow> node_registry" where
  "increment_room room nid r =
     (if map_of (nodes r) nid = None then r
      else if map_of (counted_room_to_node r) room = Some nid then r
      else
        (let r = (case map_of (counted_room_to_node r) room of None \<Rightarrow> r | Some old \<Rightarrow> on_node old dec_rooms r);
             r = on_node nid inc_rooms r
         in r\<lparr> room_to_node := AList.update room nid (room_to_node r),
               counted_room_to_node := AList.update room nid (counted_room_to_node r) \<rparr>))"

definition decrement_room :: "ChannelId \<Rightarrow> node_registry \<Rightarrow> node_registry" where
  "decrement_room room r =
     (case map_of (counted_room_to_node r) room of
        None \<Rightarrow> r
      | Some nid \<Rightarrow> (on_node nid dec_rooms r)
            \<lparr> counted_room_to_node := AList.delete room (counted_room_to_node r) \<rparr>)"

definition increment_user :: "string \<Rightarrow> node_registry \<Rightarrow> node_registry" where
  "increment_user nid r = on_node nid (\<lambda>n. n\<lparr> node_users := node_users n + 1 \<rparr>) r"

definition decrement_user :: "string \<Rightarrow> node_registry \<Rightarrow> node_registry" where
  "decrement_user nid r =
     on_node nid (\<lambda>n. if node_users n > 0 then n\<lparr> node_users := node_users n - 1 \<rparr> else n) r"

text \<open>The loop of \<^verbatim>\<open>pick_node\<close>, with the best node so far.\<close>

fun pick_from :: "(string, LivekitNode) umap \<Rightarrow> string list \<Rightarrow> LivekitNode option \<Rightarrow> LivekitNode option" where
  "pick_from ns [] best = best"
| "pick_from ns (nid # nids) best =
     (case map_of ns nid of
        None \<Rightarrow> pick_from ns nids best
      | Some n \<Rightarrow>
          pick_from ns nids
            (case best of None \<Rightarrow> Some n | Some b \<Rightarrow> if load_score n < load_score b then Some n else best))"

definition pick_node :: "node_registry \<Rightarrow> LivekitNode option" where
  "pick_node r = pick_from (nodes r) (node_order r) None"

text \<open>The attempts of \<^verbatim>\<open>any_node\<close>; the counter is the number of attempts left.\<close>

fun any_from :: "nat \<Rightarrow> node_registry \<Rightarrow> LivekitNode option \<times> node_registry" where
  "any_from 0 r = (None, r)"
| "any_from (Suc k) r =
     (let nid = node_order r ! (unat (round_robin_cursor r) mod length (node_order r));
          r = r\<lparr> round_robin_cursor := round_robin_cursor r + 1 \<rparr>
      in case map_of (nodes r) nid of Some n \<Rightarrow> (Some n, r) | None \<Rightarrow> any_from k r)"

definition any_node :: "node_registry \<Rightarrow> LivekitNode option \<times> node_registry" where
  "any_node r = (if node_order r = [] then (None, r) else any_from (length (node_order r)) r)"

definition list_nodes :: "node_registry \<Rightarrow> LivekitNode list" where
  "list_nodes r = List.map_filter (\<lambda>nid. map_of (nodes r) nid) (node_order r)"

section \<open>Invariant\<close>

definition node_ok :: "(ChannelId, string) umap \<Rightarrow> string \<Rightarrow> LivekitNode \<Rightarrow> bool" where
  "node_ok counted nid n \<longleftrightarrow> node_id n = nid \<and> active_rooms n = count_vals ((=) nid) counted
     \<and> load_score n = of_nat (node_users n) + of_nat (active_rooms n) / 4"

definition nr_inv :: "node_registry \<Rightarrow> bool" where
  "nr_inv r \<longleftrightarrow> umap_ok (nodes r) \<and> umap_ok (counted_room_to_node r) \<and> distinct (node_order r)
     \<and> (\<forall>nid. nid \<in> set (node_order r) \<longleftrightarrow> map_of (nodes r) nid \<noteq> None)
     \<and> (\<forall>nid n. map_of (nodes r) nid = Some n \<longrightarrow> node_ok (counted_room_to_node r) nid n)
     \<and> (\<forall>room nid. map_of (counted_room_to_node r) room = Some nid \<longrightarrow> map_of (nodes r) nid \<noteq> None)
     \<and> (\<forall>room nid. map_of (room_to_node r) room = Some nid \<longrightarrow> map_of (nodes r) nid \<noteq> None)"

lemma nr_invD:
  assumes "nr_inv r"
  shows "umap_ok (nodes r)" "umap_ok (counted_room_to_node r)" "distinct (node_order r)"
    "nid \<in> set (node_order r) \<longleftrightarrow> map_of (nodes r) nid \<noteq> None"
    "map_of (nodes r) nid = Some n \<Longrightarrow> node_ok (counted_room_to_node r) nid n"
    "map_of (counted_room_to_node r) room = Some nid \<Longrightarrow> \<exists>n. map_of (nodes r) nid = Some n"
    "map_of (room_to_node r) room = Some nid \<Longrightarrow> \<exists>n. map_of (nodes r) nid = Some n"
  using assms unfolding nr_inv_def by blast+

lemma nr_new_inv: "nr_inv nr_new"
  by (simp add: nr_inv_def nr_new_def)

lemma on_node_sel [simp]:
  "node_order (on_node nid f r) = node_order r" "room_to_node (on_node nid f r) = room_to_node r"
  "counted_room_to_node (on_node nid f r) = counted_room_to_node r"
  "round_robin_cursor (on_node nid f r) = round_robin_cursor r"
  by (simp_all add: on_node_def split: option.split)

lemma on_node_map: "map_of (nodes (on_node nid f r)) x =
    (if x = nid then map_option (\<lambda>n. update_load (f n)) (map_of (nodes r) x) else map_of (nodes r) x)"
  by (simp add: on_node_def split: option.split)

lemma on_node_umap [simp]: "umap_ok (nodes r) \<Longrightarrow> umap_ok (nodes (on_node nid f r))"
  by (simp add: on_node_def split: option.split)

lemma count_vals_zero: "umap_ok m \<Longrightarrow> (\<And>k v. map_of m k = Some v \<Longrightarrow> \<not> P v) \<Longrightarrow> count_vals P m = 0"
  by (auto simp: count_vals_def filter_empty_conv umap_mem)

text \<open>The room counters after a change of the counted rooms: every node's counter moved by as much as its
  number of counted rooms did.\<close>

lemma nr_inv_recount:
  assumes i: "nr_inv r" and u: "umap_ok ns" "umap_ok counted"
    and dom: "\<And>x. map_of ns x = None \<longleftrightarrow> map_of (nodes r) x = None"
    and nd: "\<And>x n. map_of (nodes r) x = Some n \<Longrightarrow> \<exists>n'. map_of ns x = Some n' \<and> node_id n' = x
        \<and> active_rooms n' = count_vals ((=) x) counted
        \<and> load_score n' = of_nat (node_users n') + of_nat (active_rooms n') / 4"
    and c: "\<And>room x. map_of counted room = Some x \<Longrightarrow> map_of (nodes r) x \<noteq> None"
    and b: "\<And>room x. map_of bound room = Some x \<Longrightarrow> map_of (nodes r) x \<noteq> None"
  shows "nr_inv (r\<lparr> nodes := ns, counted_room_to_node := counted, room_to_node := bound \<rparr>)"
proof -
  have "node_ok counted x n" if "map_of ns x = Some n" for x n
  proof -
    have "map_of (nodes r) x \<noteq> None" using dom[of x] that by simp
    then obtain m where "map_of (nodes r) x = Some m" by auto
    from nd[OF this] that show ?thesis by (simp add: node_ok_def)
  qed
  then show ?thesis using i u dom c b by (simp add: nr_inv_def)
qed

text \<open>A known node's counters in terms of the counted rooms, and how a change of one room moves them.\<close>

lemma node_okD:
  assumes "nr_inv r" "map_of (nodes r) x = Some n"
  shows "node_id n = x" "active_rooms n = count_vals ((=) x) (counted_room_to_node r)"
  using nr_invD(5)[OF assms] by (simp_all add: node_ok_def)

lemma update_load_sel [simp]:
  "node_id (update_load n) = node_id n" "active_rooms (update_load n) = active_rooms n"
  "node_users (update_load n) = node_users n"
  "load_score (update_load n) = of_nat (node_users n) + of_nat (active_rooms n) / 4"
  by (simp_all add: update_load_def)

lemma rooms_sel [simp]:
  "node_id (dec_rooms n) = node_id n" "active_rooms (dec_rooms n) = active_rooms n - 1" "node_users (dec_rooms n) = node_users n"
  "node_id (inc_rooms n) = node_id n" "active_rooms (inc_rooms n) = active_rooms n + 1" "node_users (inc_rooms n) = node_users n"
  by (simp_all add: dec_rooms_def inc_rooms_def)

lemma node_load: "nr_inv r \<Longrightarrow> map_of (nodes r) x = Some n \<Longrightarrow> load_score n = of_nat (node_users n) + of_nat (active_rooms n) / 4"
  using nr_invD(5) by (auto simp: node_ok_def)

lemma uncount_inv:
  assumes i: "nr_inv r" and c: "map_of (counted_room_to_node r) room = Some nid"
    and b: "\<And>rm x. map_of bound rm = Some x \<Longrightarrow> map_of (nodes r) x \<noteq> None"
  shows "nr_inv (r\<lparr> nodes := nodes (on_node nid dec_rooms r),
      counted_room_to_node := AList.delete room (counted_room_to_node r), room_to_node := bound \<rparr>)"
proof (rule nr_inv_recount[OF i _ _ _ _ _ b])
  fix x n assume n: "map_of (nodes r) x = Some n"
  have "count_vals ((=) x) (AList.delete room (counted_room_to_node r)) + (if x = nid then 1 else 0) =
      count_vals ((=) x) (counted_room_to_node r)"
    using count_vals_delete_Some[OF nr_invD(2)[OF i] c, of "(=) x"] .
  with n node_okD[OF i n] node_load[OF i n]
  show "\<exists>n'. map_of (nodes (on_node nid dec_rooms r)) x = Some n' \<and> node_id n' = x
      \<and> active_rooms n' = count_vals ((=) x) (AList.delete room (counted_room_to_node r))
      \<and> load_score n' = of_nat (node_users n') + of_nat (active_rooms n') / 4"
    by (auto simp: on_node_map)
qed (use nr_invD[OF i] in \<open>auto simp: on_node_map split: if_split_asm\<close>)

lemma count_new_inv:
  assumes i: "nr_inv r" and k: "map_of (nodes r) nid \<noteq> None" and c: "map_of (counted_room_to_node r) room = None"
    and b: "\<And>rm x. map_of bound rm = Some x \<Longrightarrow> map_of (nodes r) x \<noteq> None"
  shows "nr_inv (r\<lparr> nodes := nodes (on_node nid inc_rooms r),
      counted_room_to_node := AList.update room nid (counted_room_to_node r), room_to_node := bound \<rparr>)"
proof (rule nr_inv_recount[OF i _ _ _ _ _ b])
  fix x n assume n: "map_of (nodes r) x = Some n"
  have "count_vals ((=) x) (AList.update room nid (counted_room_to_node r)) =
      count_vals ((=) x) (counted_room_to_node r) + (if x = nid then 1 else 0)"
    using count_vals_update_None[OF c, of "(=) x"] .
  with n node_okD[OF i n] node_load[OF i n]
  show "\<exists>n'. map_of (nodes (on_node nid inc_rooms r)) x = Some n' \<and> node_id n' = x
      \<and> active_rooms n' = count_vals ((=) x) (AList.update room nid (counted_room_to_node r))
      \<and> load_score n' = of_nat (node_users n') + of_nat (active_rooms n') / 4"
    by (auto simp: on_node_map)
qed (use nr_invD[OF i] k in \<open>auto simp: on_node_map split: if_split_asm\<close>)

lemma move_count_inv:
  assumes i: "nr_inv r" and k: "map_of (nodes r) nid \<noteq> None"
    and c: "map_of (counted_room_to_node r) room = Some old" and ne: "old \<noteq> nid"
    and b: "\<And>rm x. map_of bound rm = Some x \<Longrightarrow> map_of (nodes r) x \<noteq> None"
  shows "nr_inv (r\<lparr> nodes := nodes (on_node nid inc_rooms (on_node old dec_rooms r)),
      counted_room_to_node := AList.update room nid (counted_room_to_node r), room_to_node := bound \<rparr>)"
proof (rule nr_inv_recount[OF i _ _ _ _ _ b])
  fix x n assume n: "map_of (nodes r) x = Some n"
  have "count_vals ((=) x) (AList.update room nid (counted_room_to_node r)) + (if x = old then 1 else 0) =
      count_vals ((=) x) (counted_room_to_node r) + (if x = nid then 1 else 0)"
    using count_vals_update_Some[OF c, of "(=) x"] .
  with n node_okD[OF i n] node_load[OF i n] ne
  show "\<exists>n'. map_of (nodes (on_node nid inc_rooms (on_node old dec_rooms r))) x = Some n' \<and> node_id n' = x
      \<and> active_rooms n' = count_vals ((=) x) (AList.update room nid (counted_room_to_node r))
      \<and> load_score n' = of_nat (node_users n') + of_nat (active_rooms n') / 4"
    by (auto simp: on_node_map)
qed (use nr_invD[OF i] k in \<open>auto simp: on_node_map split: if_split_asm\<close>)

section \<open>Every operation keeps the invariant\<close>

lemma on_user_inv:
  assumes i: "nr_inv r" and f: "\<And>n. node_id (f n) = node_id n \<and> active_rooms (f n) = active_rooms n"
  shows "nr_inv (on_node nid f r)"
proof -
  have "nr_inv (r\<lparr> nodes := nodes (on_node nid f r), counted_room_to_node := counted_room_to_node r,
      room_to_node := room_to_node r \<rparr>)"
  proof (rule nr_inv_recount[OF i])
    fix x n assume n: "map_of (nodes r) x = Some n"
    show "\<exists>n'. map_of (nodes (on_node nid f r)) x = Some n' \<and> node_id n' = x
        \<and> active_rooms n' = count_vals ((=) x) (counted_room_to_node r)
        \<and> load_score n' = of_nat (node_users n') + of_nat (active_rooms n') / 4"
      using n node_okD[OF i n] node_load[OF i n] f[of n] by (auto simp: on_node_map)
  qed (use nr_invD[OF i] in \<open>auto simp: on_node_map split: if_split_asm\<close>)
  moreover have "on_node nid f r = r\<lparr> nodes := nodes (on_node nid f r), counted_room_to_node := counted_room_to_node r,
      room_to_node := room_to_node r \<rparr>"
    by (simp add: on_node_def split: option.split)
  ultimately show ?thesis by metis
qed

lemma users_inv [inv_intros]: "nr_inv r \<Longrightarrow> nr_inv (increment_user nid r)" "nr_inv r \<Longrightarrow> nr_inv (decrement_user nid r)"
  unfolding increment_user_def decrement_user_def by (rule on_user_inv; simp)+

lemma on_node_rest: "on_node nid f r = r\<lparr> nodes := nodes (on_node nid f r) \<rparr>"
  by (simp add: on_node_def split: option.split)

lemma clear_room_inv [inv_intros]:
  assumes i: "nr_inv r"
  shows "nr_inv (clear_room room r)"
proof -
  have b: "map_of (nodes r) x \<noteq> None" if "map_of (AList.delete room (room_to_node r)) rm = Some x" for rm x
    using nr_invD(7)[OF i, of rm x] that by (auto split: if_split_asm)
  show ?thesis
  proof (cases "map_of (counted_room_to_node r) room")
    case None
    then show ?thesis using i b by (simp add: clear_room_def nr_inv_def)
  next
    case (Some nid)
    have e: "clear_room room r = r\<lparr> nodes := nodes (on_node nid dec_rooms r),
        counted_room_to_node := AList.delete room (counted_room_to_node r), room_to_node := AList.delete room (room_to_node r) \<rparr>"
      using Some by (subst on_node_rest) (simp add: clear_room_def Let_def on_node_def split: option.split)
    show ?thesis unfolding e by (rule uncount_inv[OF i Some]) (rule b)
  qed
qed

lemma decrement_room_inv [inv_intros]:
  assumes i: "nr_inv r"
  shows "nr_inv (decrement_room room r)"
proof (cases "map_of (counted_room_to_node r) room")
  case None
  then show ?thesis using i by (simp add: decrement_room_def)
next
  case (Some nid)
  have b: "map_of (nodes r) x \<noteq> None" if "map_of (room_to_node r) rm = Some x" for rm x
    using nr_invD(7)[OF i that] by auto
  have e: "decrement_room room r = r\<lparr> nodes := nodes (on_node nid dec_rooms r),
      counted_room_to_node := AList.delete room (counted_room_to_node r), room_to_node := room_to_node r \<rparr>"
    using Some by (simp add: decrement_room_def on_node_def split: option.split)
  show ?thesis unfolding e by (rule uncount_inv[OF i Some]) (rule b)
qed

lemma bound_known:
  assumes "nr_inv r" "map_of (nodes r) nid \<noteq> None" "map_of (AList.update room nid (room_to_node r)) rm = Some x"
  shows "map_of (nodes r) x \<noteq> None"
  using assms nr_invD(7)[OF assms(1), of rm x] by (auto split: if_split_asm)

lemma bind_room_inv [inv_intros]:
  assumes i: "nr_inv r"
  shows "nr_inv (bind_room room nid r)"
proof (cases "map_of (nodes r) nid = None \<or> map_of (room_to_node r) room = Some nid")
  case True
  then show ?thesis using i by (auto simp: bind_room_def)
next
  case False
  then obtain n where n: "map_of (nodes r) nid = Some n" by auto
  then have b: "map_of (nodes r) x \<noteq> None" if "map_of (AList.update room nid (room_to_node r)) rm = Some x" for rm x
    using bound_known[OF i _ that] by simp
  show ?thesis
  proof (cases "map_of (counted_room_to_node r) room = None \<or> map_of (counted_room_to_node r) room = Some nid")
    case True
    then have "bind_room room nid r = r\<lparr> room_to_node := AList.update room nid (room_to_node r) \<rparr>"
      using False by (auto simp: bind_room_def)
    then show ?thesis using i False b by (simp add: nr_inv_def)
  next
    case c: False
    then obtain old where old: "map_of (counted_room_to_node r) room = Some old" "old \<noteq> nid" by auto
    have e: "bind_room room nid r = r\<lparr> nodes := nodes (on_node nid inc_rooms (on_node old dec_rooms r)),
        counted_room_to_node := AList.update room nid (counted_room_to_node r),
        room_to_node := AList.update room nid (room_to_node r) \<rparr>"
      using False old n by (simp add: bind_room_def Let_def on_node_def split: option.split)
    show ?thesis unfolding e by (rule move_count_inv[OF i _ old b]) (use n in simp)
  qed
qed

lemma increment_room_inv [inv_intros]:
  assumes i: "nr_inv r"
  shows "nr_inv (increment_room room nid r)"
proof (cases "map_of (nodes r) nid = None \<or> map_of (counted_room_to_node r) room = Some nid")
  case True
  then show ?thesis using i by (auto simp: increment_room_def)
next
  case False
  then obtain n where n: "map_of (nodes r) nid = Some n" by auto
  then have b: "map_of (nodes r) x \<noteq> None" if "map_of (AList.update room nid (room_to_node r)) rm = Some x" for rm x
    using bound_known[OF i _ that] by simp
  show ?thesis
  proof (cases "map_of (counted_room_to_node r) room")
    case None
    have e: "increment_room room nid r = r\<lparr> nodes := nodes (on_node nid inc_rooms r),
        counted_room_to_node := AList.update room nid (counted_room_to_node r),
        room_to_node := AList.update room nid (room_to_node r) \<rparr>"
      using False None n by (simp add: increment_room_def Let_def on_node_def split: option.split)
    show ?thesis unfolding e by (rule count_new_inv[OF i _ None b]) (use n in simp)
  next
    case (Some old)
    have e: "increment_room room nid r = r\<lparr> nodes := nodes (on_node nid inc_rooms (on_node old dec_rooms r)),
        counted_room_to_node := AList.update room nid (counted_room_to_node r),
        room_to_node := AList.update room nid (room_to_node r) \<rparr>"
      using False Some n by (simp add: increment_room_def Let_def on_node_def split: option.split)
    show ?thesis unfolding e by (rule move_count_inv[OF i _ Some _ b]) (use n False Some in auto)
  qed
qed

lemma register_inv:
  assumes i: "nr_inv r" and z: "active_rooms n = 0" "load_score n = of_nat (node_users n)"
    and r: "register_node n r = Inr r'"
  shows "nr_inv r'"
proof -
  have new: "map_of (nodes r) (node_id n) = None"
    and r': "r' = r\<lparr> node_order := node_order r @ [node_id n], nodes := AList.update (node_id n) n (nodes r) \<rparr>"
    using r by (auto simp: register_node_def split: if_split_asm)
  have "count_vals ((=) (node_id n)) (counted_room_to_node r) = 0"
    using new nr_invD(6)[OF i] by (intro count_vals_zero nr_invD(2)[OF i]) fastforce
  with i new z show ?thesis by (auto simp: nr_inv_def r' node_ok_def)
qed

section \<open>Choice of a node\<close>

definition least_load :: "LivekitNode set \<Rightarrow> LivekitNode option \<Rightarrow> bool" where
  "least_load S best = (case best of None \<Rightarrow> S = {} | Some b \<Rightarrow> b \<in> S \<and> (\<forall>n\<in>S. load_score b \<le> load_score n))"

lemma pick_from_best:
  fixes ns :: "(string, LivekitNode) umap" and nids :: "string list" and B :: "LivekitNode set"
  assumes "least_load B best"
  shows "least_load (B \<union> {n. \<exists>nid\<in>set nids. map_of ns nid = Some n}) (pick_from ns nids best)"
  using assms
proof (induction nids arbitrary: best B)
  case Nil
  then show ?case by simp
next
  case (Cons nid nids)
  show ?case
  proof (cases "map_of ns nid")
    case None
    then have "{n. \<exists>x\<in>set (nid # nids). map_of ns x = Some n} = {n. \<exists>x\<in>set nids. map_of ns x = Some n}" by auto
    then show ?thesis using None Cons.IH[OF Cons.prems] by simp
  next
    case (Some n)
    let ?best = "case best of None \<Rightarrow> Some n | Some b \<Rightarrow> if load_score n < load_score b then Some n else best"
    have e: "B \<union> {m. \<exists>x\<in>set (nid # nids). map_of ns x = Some m} = insert n B \<union> {m. \<exists>x\<in>set nids. map_of ns x = Some m}"
      using Some by auto
    have "least_load (insert n B) ?best"
      using Cons.prems by (force simp: least_load_def split: option.split_asm if_split_asm)
    from Cons.IH[OF this] Some e show ?thesis by simp
  qed
qed

lemma pick_node_least:
  assumes "nr_inv r"
  shows "case pick_node r of None \<Rightarrow> nodes r = []
    | Some b \<Rightarrow> map_of (nodes r) (node_id b) = Some b \<and> (\<forall>nid n. map_of (nodes r) nid = Some n \<longrightarrow> load_score b \<le> load_score n)"
proof -
  let ?S = "{n. \<exists>nid\<in>set (node_order r). map_of (nodes r) nid = Some n}"
  have S: "n \<in> ?S \<longleftrightarrow> (\<exists>nid. map_of (nodes r) nid = Some n)" for n
    using nr_invD(4)[OF assms] by blast
  have p: "least_load ?S (pick_node r)"
    using pick_from_best[of "{}" None "node_order r" "nodes r"] by (simp add: pick_node_def least_load_def)
  show ?thesis
  proof (cases "pick_node r")
    case None
    then have "?S = {}" using p by (simp add: least_load_def)
    then have "map_of (nodes r) nid = None" for nid using S by (metis empty_iff not_None_eq)
    then have "nodes r = []" by (metis list.exhaust map_of_Cons_code(2) option.distinct(1) surj_pair)
    with None show ?thesis by simp
  next
    case (Some b)
    with p obtain nid where "map_of (nodes r) nid = Some b" and l: "\<forall>n\<in>?S. load_score b \<le> load_score n"
      by (auto simp: least_load_def)
    moreover from this(1) have "node_id b = nid" using node_okD(1)[OF assms] by blast
    ultimately show ?thesis using Some S by auto
  qed
qed

lemma rotate_mset: "mset (rotate k xs) = mset xs"
proof -
  have "mset (take j xs) + mset (drop j xs) = mset xs" for j by (metis append_take_drop_id mset_append)
  then show ?thesis by (simp add: rotate_drop_take add.commute)
qed

text \<open>Successive calls of \<^verbatim>\<open>any_node\<close>.\<close>

fun any_nodes :: "nat \<Rightarrow> node_registry \<Rightarrow> LivekitNode option list \<times> node_registry" where
  "any_nodes 0 r = ([], r)"
| "any_nodes (Suc k) r = (case any_node r of (x, r) \<Rightarrow> (case any_nodes k r of (xs, r) \<Rightarrow> (x # xs, r)))"

lemma cursor_cong: "nr_inv (r\<lparr> round_robin_cursor := c \<rparr>) = nr_inv r"
  by (simp add: nr_inv_def)

lemma any_node_eq:
  assumes "nr_inv r" "node_order r \<noteq> []"
  shows "any_node r = (map_of (nodes r) (node_order r ! (unat (round_robin_cursor r) mod length (node_order r))),
      r\<lparr> round_robin_cursor := round_robin_cursor r + 1 \<rparr>)"
proof -
  let ?nid = "node_order r ! (unat (round_robin_cursor r) mod length (node_order r))"
  have "?nid \<in> set (node_order r)" using assms(2) by simp
  then obtain n where "map_of (nodes r) ?nid = Some n" using nr_invD(4)[OF assms(1), of ?nid] by auto
  moreover obtain k where "length (node_order r) = Suc k" using assms(2) by (cases "node_order r") auto
  ultimately show ?thesis using assms(2) by (simp add: any_node_def Let_def)
qed

lemma any_nodes_eq:
  assumes "nr_inv r" "node_order r \<noteq> []" "unat (round_robin_cursor r) + k < 2 ^ 64"
  shows "fst (any_nodes k r) =
    map (\<lambda>i. map_of (nodes r) (node_order r ! ((unat (round_robin_cursor r) + i) mod length (node_order r)))) [0..<k]"
  using assms
proof (induction k arbitrary: r)
  case (Suc k)
  let ?r = "r\<lparr> round_robin_cursor := round_robin_cursor r + 1 \<rparr>"
  have "unat (round_robin_cursor r) + 1 < 2 ^ 64" using Suc.prems(3) by simp
  then have u: "unat (round_robin_cursor r + 1) = unat (round_robin_cursor r) + 1"
    by (simp add: unat_word_ariths)
  have r: "any_nodes (Suc k) r = (fst (any_node r) # fst (any_nodes k ?r), snd (any_nodes k ?r))"
    by (simp add: any_node_eq[OF Suc.prems(1,2)] case_prod_unfold)
  have "fst (any_nodes k ?r) =
    map (\<lambda>i. map_of (nodes r) (node_order r ! ((unat (round_robin_cursor r) + 1 + i) mod length (node_order r)))) [0..<k]"
    using Suc.IH[of ?r] Suc.prems u by (simp add: cursor_cong)
  then show ?case
    by (simp add: r any_node_eq[OF Suc.prems(1,2)] upt_conv_Cons map_Suc_upt[symmetric] comp_def
        del: upt_Suc any_nodes.simps)
qed simp

section \<open>Properties\<close>

datatype nr_op = NRegister string string string | NBind ChannelId string | NClear ChannelId
  | NIncRoom ChannelId string | NDecRoom ChannelId | NIncUser string | NDecUser string

text \<open>A node enters the registry with its counters at zero; a duplicate is refused.\<close>

fun nr_step :: "nr_op \<Rightarrow> node_registry \<Rightarrow> node_registry" where
  "nr_step (NRegister nid pub priv) r =
     (case register_node \<lparr> node_id = nid, public_host = pub, private_host = priv, active_rooms = 0, node_users = 0,
         load_score = 0 \<rparr> r of Inl e \<Rightarrow> r | Inr r' \<Rightarrow> r')"
| "nr_step (NBind room nid) r = bind_room room nid r"
| "nr_step (NClear room) r = clear_room room r"
| "nr_step (NIncRoom room nid) r = increment_room room nid r"
| "nr_step (NDecRoom room) r = decrement_room room r"
| "nr_step (NIncUser nid) r = increment_user nid r"
| "nr_step (NDecUser nid) r = decrement_user nid r"

lemma nr_step_inv: "nr_inv r \<Longrightarrow> nr_inv (nr_step op r)"
proof (cases op)
  case (NRegister nid pub priv)
  assume i: "nr_inv r"
  let ?n = "\<lparr> node_id = nid, public_host = pub, private_host = priv, active_rooms = 0, node_users = 0, load_score = 0 \<rparr>"
  have "register_node ?n r = Inr r' \<Longrightarrow> nr_inv r'" for r' by (rule register_inv[OF i, of ?n]) simp_all
  with i NRegister show ?thesis by (simp split: sum.split)
qed (auto intro: inv_intros)

lemma nr_run_inv: "nr_inv r \<Longrightarrow> nr_inv (fold nr_step ops r)"
  by (induction ops arbitrary: r) (simp_all add: nr_step_inv)

text \<open>C32: after any sequence of registrations, bindings and counter updates, a node's room counter is exactly
  the number of rooms counted for it (the guarded decrements never lose one), its load is its users plus a
  quarter of its rooms, a bound room's node is always found, and the node picked for a new room has the least
  load of all, or there is no node.\<close>

theorem node_room_counts_exact:
  fixes ops :: "nr_op list"
  defines "r \<equiv> fold nr_step ops nr_new"
  shows "(\<forall>nid. case get_node nid r of None \<Rightarrow> True
      | Some n \<Rightarrow> active_rooms n = length (filter (\<lambda>(room, x). x = nid) (counted_room_to_node r))
          \<and> load_score n = of_nat (node_users n) + of_nat (active_rooms n) / 4)
    \<and> (map_of (room_to_node r) room = None \<longleftrightarrow> get_room_node room r = None)
    \<and> (case pick_node r of None \<Rightarrow> nodes r = []
       | Some b \<Rightarrow> get_node (node_id b) r = Some b
           \<and> (\<forall>nid. case get_node nid r of None \<Rightarrow> True | Some n \<Rightarrow> load_score b \<le> load_score n))"
proof -
  have i: "nr_inv r" using nr_run_inv[OF nr_new_inv] by (simp add: r_def)
  have c: "count_vals ((=) nid) m = length (filter (\<lambda>(room, x). x = nid) m)" for nid and m :: "(ChannelId, string) umap"
    by (induction m) auto
  have "case get_node nid r of None \<Rightarrow> True
      | Some n \<Rightarrow> active_rooms n = length (filter (\<lambda>(room, x). x = nid) (counted_room_to_node r))
          \<and> load_score n = of_nat (node_users n) + of_nat (active_rooms n) / 4" for nid
    using node_okD[OF i, of nid] node_load[OF i, of nid] by (auto simp: get_node_def c split: option.split)
  moreover have "map_of (room_to_node r) room = None \<longleftrightarrow> get_room_node room r = None"
    using nr_invD(7)[OF i, of room] by (auto simp: get_room_node_def split: option.split)
  ultimately show ?thesis
    using pick_node_least[OF i] by (auto simp: get_node_def split: option.splits)
qed

text \<open>Node choice for cluster-wide calls is a fair round robin: as many successive calls as there are nodes
  return every node exactly once (while the 64-bit cursor does not wrap in between).\<close>

theorem any_node_visits_every_node:
  fixes ops :: "nr_op list"
  assumes "unat c + length (node_order (fold nr_step ops nr_new)) < 2 ^ 64"
  defines "r \<equiv> (fold nr_step ops nr_new)\<lparr> round_robin_cursor := c \<rparr>"
  shows "mset (fst (any_nodes (length (node_order r)) r)) = mset (map Some (list_nodes r))"
proof (cases "node_order r = []")
  case True
  then show ?thesis by (simp add: list_nodes_def map_filter_def)
next
  case False
  let ?n = "length (node_order r)" and ?xs = "node_order r"
  have i: "nr_inv r" using nr_run_inv[OF nr_new_inv] by (simp add: r_def cursor_cong)
  have u: "unat (round_robin_cursor r) + ?n < 2 ^ 64" using assms(1) by (simp add: r_def)
  have rot: "map (\<lambda>k. ?xs ! ((unat (round_robin_cursor r) + k) mod ?n)) [0..<?n] = rotate (unat (round_robin_cursor r)) ?xs"
    by (rule nth_equalityI) (simp_all add: nth_rotate)
  have "fst (any_nodes ?n r) = map (map_of (nodes r)) (map (\<lambda>k. ?xs ! ((unat (round_robin_cursor r) + k) mod ?n)) [0..<?n])"
    using any_nodes_eq[OF i False u] by simp
  also have "\<dots> = map (map_of (nodes r)) (rotate (unat (round_robin_cursor r)) ?xs)" unfolding rot ..
  finally have "mset (fst (any_nodes ?n r)) = mset (map (map_of (nodes r)) ?xs)"
    by (metis mset_map rotate_mset)
  moreover have "map (map_of (nodes r)) zs = map Some (List.map_filter (map_of (nodes r)) zs)" if "set zs \<subseteq> set ?xs" for zs
    using that
  proof (induction zs)
    case (Cons z zs)
    then have "z \<in> set ?xs" by simp
    then obtain n where "map_of (nodes r) z = Some n" using nr_invD(4)[OF i, of z] by auto
    with Cons show ?case by (simp add: map_filter_simps)
  qed (simp add: map_filter_def)
  from this[of ?xs] have "map (map_of (nodes r)) ?xs = map Some (list_nodes r)" by (simp add: list_nodes_def)
  ultimately show ?thesis by simp
qed

theorem any_node_visits_every_node_witness:
  "let r = (fold nr_step [NRegister ''a'' ''p'' ''q'', NRegister ''b'' ''p'' ''q''] nr_new)\<lparr> round_robin_cursor := 3 \<rparr>
   in mset (fst (any_nodes 2 r)) = mset (map Some (list_nodes r)) \<and> length (list_nodes r) = 2"
proof -
  let ?ops = "[NRegister ''a'' ''p'' ''q'', NRegister ''b'' ''p'' ''q'']"
  have o: "node_order (fold nr_step ?ops nr_new) = [''a'', ''b'']" by (simp add: nr_new_def register_node_def)
  then have b: "unat (3 :: 64 word) + length (node_order (fold nr_step ?ops nr_new)) < 2 ^ 64" by simp
  have l: "length (node_order ((fold nr_step ?ops nr_new)\<lparr> round_robin_cursor := 3 \<rparr>)) = 2" using o by simp
  have "length (list_nodes ((fold nr_step ?ops nr_new)\<lparr> round_robin_cursor := 3 \<rparr>)) = 2"
    by (simp add: list_nodes_def nr_new_def register_node_def map_filter_def)
  with any_node_visits_every_node[OF b, unfolded l] show ?thesis unfolding Let_def by blast
qed

end
