(* ===== verification/Redis.thy ===== *)
theory Redis
  imports Strings
begin

text \<open>
  \<^verbatim>\<open>RedisClient\<close> (\<^verbatim>\<open>src/infra/redis\<close>), and the JSON documents that are kept in Redis.

  The redis++ library and the server behind it are not part of the repository: they are the record
  \<open>redis_api\<close> of operations on a server state, each of which may throw (\<^const>\<open>None\<close>). What the clients rely on is
  the documented behaviour of the commands while the server is reachable, the hypothesis \<open>redis_laws\<close> below: it
  speaks of the value and the remaining lifetime of each key (\<open>look\<close>) and of reachability (\<open>up\<close>). No time
  passes inside one operation. \<open>mem_redis\<close> is a server that satisfies the hypothesis, with a clock and a switch
  for outages.

  JSON text is produced and read by the nlohmann library: a document is a value of type \<open>json\<close>, and the
  functions \<open>dump\<close> and \<open>parse\<close> are parameters.
\<close>

section \<open>The server interface\<close>

record 'r redis_api =
  rx_setex :: "string \<Rightarrow> int \<Rightarrow> string \<Rightarrow> 'r \<Rightarrow> unit option \<times> 'r"
  rx_setnx :: "string \<Rightarrow> string \<Rightarrow> 'r \<Rightarrow> bool option \<times> 'r"
  rx_expire :: "string \<Rightarrow> int \<Rightarrow> 'r \<Rightarrow> unit option \<times> 'r"
  rx_get :: "string \<Rightarrow> 'r \<Rightarrow> string option option \<times> 'r"
  rx_del :: "string \<Rightarrow> 'r \<Rightarrow> unit option \<times> 'r"
  rx_ttl :: "string \<Rightarrow> 'r \<Rightarrow> int option \<times> 'r"

type_synonym store = "string \<rightharpoonup> string \<times> int option"

definition ttl_reply :: "store \<Rightarrow> string \<Rightarrow> int" where
  "ttl_reply m k = (case m k of None \<Rightarrow> - 2 | Some (v, None) \<Rightarrow> - 1 | Some (v, Some t) \<Rightarrow> t)"

definition setex_ok :: "'r redis_api \<Rightarrow> ('r \<Rightarrow> store) \<Rightarrow> ('r \<Rightarrow> bool) \<Rightarrow> bool" where
  "setex_ok api look up \<longleftrightarrow> (\<forall>r k t v. up r \<longrightarrow> t > 0 \<longrightarrow>
     (\<exists>r'. rx_setex api k t v r = (Some (), r') \<and> up r' \<and> look r' = (look r)(k \<mapsto> (v, Some t))))"

definition setnx_ok :: "'r redis_api \<Rightarrow> ('r \<Rightarrow> store) \<Rightarrow> ('r \<Rightarrow> bool) \<Rightarrow> bool" where
  "setnx_ok api look up \<longleftrightarrow> (\<forall>r k v. up r \<longrightarrow>
     (\<exists>r'. rx_setnx api k v r = (Some (look r k = None), r') \<and> up r'
        \<and> look r' = (if look r k = None then (look r)(k \<mapsto> (v, None)) else look r)))"

definition expire_ok :: "'r redis_api \<Rightarrow> ('r \<Rightarrow> store) \<Rightarrow> ('r \<Rightarrow> bool) \<Rightarrow> bool" where
  "expire_ok api look up \<longleftrightarrow> (\<forall>r k t. up r \<longrightarrow> t > 0 \<longrightarrow>
     (\<exists>r'. rx_expire api k t r = (Some (), r') \<and> up r'
        \<and> look r' = (look r)(k := map_option (\<lambda>p. (fst p, Some t)) (look r k))))"

definition get_ok :: "'r redis_api \<Rightarrow> ('r \<Rightarrow> store) \<Rightarrow> ('r \<Rightarrow> bool) \<Rightarrow> bool" where
  "get_ok api look up \<longleftrightarrow> (\<forall>r k. up r \<longrightarrow>
     (\<exists>r'. rx_get api k r = (Some (map_option fst (look r k)), r') \<and> up r' \<and> look r' = look r))"

definition del_ok :: "'r redis_api \<Rightarrow> ('r \<Rightarrow> store) \<Rightarrow> ('r \<Rightarrow> bool) \<Rightarrow> bool" where
  "del_ok api look up \<longleftrightarrow> (\<forall>r k. up r \<longrightarrow>
     (\<exists>r'. rx_del api k r = (Some (), r') \<and> up r' \<and> look r' = (look r)(k := None)))"

definition ttl_ok :: "'r redis_api \<Rightarrow> ('r \<Rightarrow> store) \<Rightarrow> ('r \<Rightarrow> bool) \<Rightarrow> bool" where
  "ttl_ok api look up \<longleftrightarrow> (\<forall>r k. up r \<longrightarrow>
     (\<exists>r'. rx_ttl api k r = (Some (ttl_reply (look r) k), r') \<and> up r' \<and> look r' = look r))"

definition redis_laws :: "'r redis_api \<Rightarrow> ('r \<Rightarrow> store) \<Rightarrow> ('r \<Rightarrow> bool) \<Rightarrow> bool" where
  "redis_laws api look up \<longleftrightarrow> setex_ok api look up \<and> setnx_ok api look up \<and> expire_ok api look up
     \<and> get_ok api look up \<and> del_ok api look up \<and> ttl_ok api look up"

section \<open>RedisClient\<close>

text \<open>Every exception is caught: writes are dropped, reads give \<^const>\<open>None\<close>.\<close>

definition setex :: "'r redis_api \<Rightarrow> string \<Rightarrow> int \<Rightarrow> string \<Rightarrow> 'r \<Rightarrow> 'r" where
  "setex api key ttl value r = snd (rx_setex api key ttl value r)"

definition setnxex :: "'r redis_api \<Rightarrow> string \<Rightarrow> int \<Rightarrow> string \<Rightarrow> 'r \<Rightarrow> bool option \<times> 'r" where
  "setnxex api key ttl value r =
     (case rx_setnx api key value r of
        (None, r) \<Rightarrow> (None, r)
      | (Some False, r) \<Rightarrow> (Some False, r)
      | (Some True, r) \<Rightarrow>
          (case rx_expire api key ttl r of (None, r) \<Rightarrow> (None, r) | (Some _, r) \<Rightarrow> (Some True, r)))"

definition redis_get :: "'r redis_api \<Rightarrow> string \<Rightarrow> 'r \<Rightarrow> string option \<times> 'r" where
  "redis_get api key r = (case rx_get api key r of (None, r) \<Rightarrow> (None, r) | (Some val, r) \<Rightarrow> (val, r))"

definition redis_del :: "'r redis_api \<Rightarrow> string \<Rightarrow> 'r \<Rightarrow> 'r" where
  "redis_del api key r = snd (rx_del api key r)"

definition redis_ttl :: "'r redis_api \<Rightarrow> string \<Rightarrow> 'r \<Rightarrow> int option \<times> 'r" where
  "redis_ttl api key r =
     (case rx_ttl api key r of
        (None, r) \<Rightarrow> (None, r)
      | (Some result, r) \<Rightarrow> (if result < 0 then None else Some result, r))"

section \<open>The client under the laws\<close>

lemma setex_law:
  assumes "redis_laws api look up" "up r" "t > 0"
  shows "up (setex api k t v r)" "look (setex api k t v r) = (look r)(k \<mapsto> (v, Some t))"
proof -
  obtain r' where "rx_setex api k t v r = (Some (), r')" "up r'" "look r' = (look r)(k \<mapsto> (v, Some t))"
    using assms unfolding redis_laws_def setex_ok_def by metis
  then show "up (setex api k t v r)" "look (setex api k t v r) = (look r)(k \<mapsto> (v, Some t))"
    by (simp_all add: setex_def)
qed

lemma get_law:
  assumes "redis_laws api look up" "up r"
  shows "\<exists>r'. redis_get api k r = (map_option fst (look r k), r') \<and> up r' \<and> look r' = look r"
proof -
  obtain r' where "rx_get api k r = (Some (map_option fst (look r k)), r')" "up r'" "look r' = look r"
    using assms unfolding redis_laws_def get_ok_def by metis
  then show ?thesis by (simp add: redis_get_def)
qed

lemma del_law:
  assumes "redis_laws api look up" "up r"
  shows "up (redis_del api k r)" "look (redis_del api k r) = (look r)(k := None)"
proof -
  obtain r' where "rx_del api k r = (Some (), r')" "up r'" "look r' = (look r)(k := None)"
    using assms unfolding redis_laws_def del_ok_def by metis
  then show "up (redis_del api k r)" "look (redis_del api k r) = (look r)(k := None)"
    by (simp_all add: redis_del_def)
qed

lemma ttl_law:
  assumes "redis_laws api look up" "up r"
  shows "\<exists>r'. redis_ttl api k r = (if ttl_reply (look r) k < 0 then None else Some (ttl_reply (look r) k), r')
    \<and> up r' \<and> look r' = look r"
proof -
  obtain r' where "rx_ttl api k r = (Some (ttl_reply (look r) k), r')" "up r'" "look r' = look r"
    using assms unfolding redis_laws_def ttl_ok_def by metis
  then show ?thesis by (simp add: redis_ttl_def)
qed

lemma setnxex_law:
  assumes "redis_laws api look up" "up r" "t > 0"
  shows "\<exists>r'. setnxex api k t v r = (Some (look r k = None), r') \<and> up r'
    \<and> look r' = (if look r k = None then (look r)(k \<mapsto> (v, Some t)) else look r)"
proof -
  obtain r1 where r1: "rx_setnx api k v r = (Some (look r k = None), r1)" "up r1"
    "look r1 = (if look r k = None then (look r)(k \<mapsto> (v, None)) else look r)"
    using assms unfolding redis_laws_def setnx_ok_def by metis
  show ?thesis
  proof (cases "look r k = None")
    case False
    with r1 show ?thesis by (auto simp: setnxex_def)
  next
    case True
    obtain r2 where "rx_expire api k t r1 = (Some (), r2)" "up r2"
      "look r2 = (look r1)(k := map_option (\<lambda>p. (fst p, Some t)) (look r1 k))"
      using assms(1,3) r1(2) unfolding redis_laws_def expire_ok_def by metis
    with True r1 show ?thesis by (simp add: setnxex_def)
  qed
qed

section \<open>A server that satisfies the laws\<close>

record mem =
  mem_clock :: int
  mem_entries :: "(string, string \<times> int option) umap"
  mem_alive :: bool

definition mem_empty :: mem where
  "mem_empty = \<lparr> mem_clock = 0, mem_entries = [], mem_alive = True \<rparr>"

definition mem_look :: "mem \<Rightarrow> store" where
  "mem_look m k =
     (case map_of (mem_entries m) k of
        None \<Rightarrow> None
      | Some (v, None) \<Rightarrow> Some (v, None)
      | Some (v, Some e) \<Rightarrow> if mem_clock m < e then Some (v, Some (e - mem_clock m)) else None)"

definition mem_wait :: "int \<Rightarrow> mem \<Rightarrow> mem" where
  "mem_wait d m = m\<lparr> mem_clock := mem_clock m + d \<rparr>"

definition if_alive :: "mem \<Rightarrow> 'a \<times> mem \<Rightarrow> 'a option \<times> mem" where
  "if_alive m p = (if mem_alive m then (Some (fst p), snd p) else (None, m))"

definition mem_put :: "string \<Rightarrow> string \<times> int option \<Rightarrow> mem \<Rightarrow> mem" where
  "mem_put k p m = m\<lparr> mem_entries := AList.update k p (mem_entries m) \<rparr>"

definition mem_redis :: "mem redis_api" where
  "mem_redis = \<lparr>
     rx_setex = (\<lambda>k t v m. if_alive m ((), mem_put k (v, Some (mem_clock m + t)) m)),
     rx_setnx = (\<lambda>k v m. if_alive m (if mem_look m k = None then (True, mem_put k (v, None) m) else (False, m))),
     rx_expire = (\<lambda>k t m. if_alive m ((), case mem_look m k of None \<Rightarrow> m | Some p \<Rightarrow> mem_put k (fst p, Some (mem_clock m + t)) m)),
     rx_get = (\<lambda>k m. if_alive m (map_option fst (mem_look m k), m)),
     rx_del = (\<lambda>k m. if_alive m ((), m\<lparr> mem_entries := AList.delete k (mem_entries m) \<rparr>)),
     rx_ttl = (\<lambda>k m. if_alive m (ttl_reply (mem_look m) k, m)) \<rparr>"

lemma mem_look_put:
  "mem_look (mem_put k (v, None) m) = (mem_look m)(k \<mapsto> (v, None))"
  "t > 0 \<Longrightarrow> mem_look (mem_put k (v, Some (mem_clock m + t)) m) = (mem_look m)(k \<mapsto> (v, Some t))"
  by (rule ext, simp add: mem_look_def mem_put_def split: option.split prod.split)+

lemma mem_look_del: "mem_look (m\<lparr> mem_entries := AList.delete k (mem_entries m) \<rparr>) = (mem_look m)(k := None)"
  by (rule ext) (simp add: mem_look_def split: option.split prod.split)

lemma mem_alive_put [simp]: "mem_alive (mem_put k p m) = mem_alive m"
  by (simp add: mem_put_def)

lemma mem_redis_laws: "redis_laws mem_redis mem_look mem_alive"
  unfolding redis_laws_def setex_ok_def setnx_ok_def expire_ok_def get_ok_def del_ok_def ttl_ok_def mem_redis_def
  by (intro conjI allI impI) (auto simp: if_alive_def mem_look_put mem_look_del split: option.split)

text \<open>The client on this server, for evaluation.\<close>

lemma mem_client:
  "setex mem_redis k t v m = (if mem_alive m then mem_put k (v, Some (mem_clock m + t)) m else m)"
  "redis_get mem_redis k m = (if mem_alive m then map_option fst (mem_look m k) else None, m)"
  "redis_del mem_redis k m = (if mem_alive m then m\<lparr> mem_entries := AList.delete k (mem_entries m) \<rparr> else m)"
  "redis_ttl mem_redis k m =
     (if mem_alive m \<and> ttl_reply (mem_look m) k \<ge> 0 then Some (ttl_reply (mem_look m) k) else None, m)"
  by (auto simp: setex_def redis_get_def redis_del_def redis_ttl_def mem_redis_def if_alive_def)

section \<open>JSON documents\<close>

datatype json = JNull | JBool bool | JUint "64 word" | JInt int | JString string | JObj "(string \<times> json) list" | JArr "json list"

text \<open>\<^verbatim>\<open>doc.contains(key)\<close> and \<^verbatim>\<open>doc[key]\<close> on an object.\<close>

definition jfield :: "string \<Rightarrow> (string \<times> json) list \<Rightarrow> json option" where
  "jfield k fs = map_of fs k"

definition jstring :: "string \<Rightarrow> (string \<times> json) list \<Rightarrow> string option" where
  "jstring k fs = (case jfield k fs of Some (JString s) \<Rightarrow> Some s | _ \<Rightarrow> None)"

definition jbool :: "string \<Rightarrow> (string \<times> json) list \<Rightarrow> bool option" where
  "jbool k fs = (case jfield k fs of Some (JBool b) \<Rightarrow> Some b | _ \<Rightarrow> None)"

definition juint :: "string \<Rightarrow> (string \<times> json) list \<Rightarrow> 64 word option" where
  "juint k fs = (case jfield k fs of Some (JUint n) \<Rightarrow> Some n | _ \<Rightarrow> None)"

text \<open>Documented behaviour of the library: text produced by \<^verbatim>\<open>dump\<close> parses to the same document.\<close>

definition json_laws :: "(json \<Rightarrow> string option) \<Rightarrow> (string \<Rightarrow> json option) \<Rightarrow> bool" where
  "json_laws dump parse \<longleftrightarrow> (\<forall>d s. dump d = Some s \<longrightarrow> parse s = Some d)"

end
