(* ===== verification/VoiceStores.thy ===== *)
theory VoiceStores
  imports Redis
begin

text \<open>
  \<^verbatim>\<open>PendingJoinIntentStore\<close> and \<^verbatim>\<open>VoiceResumeRegistry\<close> (\<^verbatim>\<open>src/app/services/voice\<close>): a user's staged intent to
  join a voice channel, kept in Redis as a JSON document, and the resume id that lets a reconnecting client take
  its voice back, kept in memory and in Redis. The wall clock and the random resume id are arguments.
\<close>

section \<open>Pending join intents\<close>

record PendingJoinIntent =
  session_id :: SessionId
  intent_nonce :: string
  to_channel :: ChannelId
  from_channel :: ChannelId
  has_from_channel :: bool
  pji_muted :: bool
  pji_deafened :: bool
  old_leave_seen :: bool
  new_join_seen :: bool
  expires_at_unix :: "64 word"

definition empty_intent :: PendingJoinIntent where
  "empty_intent = \<lparr> session_id = 0, intent_nonce = [], to_channel = [], from_channel = [], has_from_channel = False,
     pji_muted = False, pji_deafened = False, old_leave_seen = False, new_join_seen = False, expires_at_unix = 0 \<rparr>"

definition pending_key :: "UserId \<Rightarrow> string" where
  "pending_key user = ''voice:pending_join:'' @ user"

text \<open>The document that \<^verbatim>\<open>stage\<close> and \<^verbatim>\<open>update\<close> build.\<close>

definition intent_doc :: "UserId \<Rightarrow> PendingJoinIntent \<Rightarrow> 64 word \<Rightarrow> json" where
  "intent_doc user i expires = JObj
     [(''user_id'', JString user), (''session_id'', JUint (session_id i)), (''intent_nonce'', JString (intent_nonce i)),
      (''to_channel'', JString (to_channel i)),
      (''from_channel'', JString (if has_from_channel i then from_channel i else [])),
      (''has_from_channel'', JBool (has_from_channel i)), (''muted'', JBool (pji_muted i)),
      (''deafened'', JBool (pji_deafened i)), (''old_leave_seen'', JBool (old_leave_seen i)),
      (''new_join_seen'', JBool (new_join_seen i)), (''expires_at_unix'', JUint expires)]"

definition stage :: "'r redis_api \<Rightarrow> (json \<Rightarrow> string option) \<Rightarrow> 64 word \<Rightarrow> UserId \<Rightarrow> PendingJoinIntent \<Rightarrow> 64 word
    \<Rightarrow> 'r \<Rightarrow> bool \<times> 'r" where
  "stage api dump now user i expires_in r =
     (let ttl = expires_in + 10
      in case dump (intent_doc user i (now + ttl)) of
           None \<Rightarrow> (False, r)
         | Some body \<Rightarrow> (True, setex api (pending_key user) (sint ttl) body r))"

text \<open>The fields of a stored document; \<^const>\<open>None\<close> when there is no usable one or a conversion throws.\<close>

definition intent_of :: "(string \<times> json) list \<Rightarrow> PendingJoinIntent option" where
  "intent_of doc =
     (let sid = (case jfield ''session_id'' doc of
                   Some (JUint n) \<Rightarrow> Some n
                 | Some (JString s) \<Rightarrow> stoull s
                 | _ \<Rightarrow> Some 0);
          nonce = (case jstring ''intent_nonce'' doc of Some s \<Rightarrow> s | None \<Rightarrow> []);
          has_from = (case jbool ''has_from_channel'' doc of Some b \<Rightarrow> b | None \<Rightarrow> False);
          (from, has_from) = (case jstring ''from_channel'' doc of
                                Some f \<Rightarrow> if f \<noteq> [] then (f, True) else ([], has_from)
                              | None \<Rightarrow> ([], has_from));
          flag = (\<lambda>k. case jbool k doc of Some b \<Rightarrow> b | None \<Rightarrow> False)
      in case sid of
           None \<Rightarrow> None
         | Some sid \<Rightarrow>
             (case jstring ''to_channel'' doc of
                None \<Rightarrow> None
              | Some to_ch \<Rightarrow>
                  Some \<lparr> session_id = sid, intent_nonce = nonce, to_channel = to_ch, from_channel = from,
                         has_from_channel = has_from, pji_muted = flag ''muted'', pji_deafened = flag ''deafened'',
                         old_leave_seen = flag ''old_leave_seen'', new_join_seen = flag ''new_join_seen'',
                         expires_at_unix = (case juint ''expires_at_unix'' doc of Some n \<Rightarrow> n | None \<Rightarrow> 0) \<rparr>))"

definition read_intent :: "'r redis_api \<Rightarrow> (string \<Rightarrow> json option) \<Rightarrow> UserId \<Rightarrow> 'r \<Rightarrow> PendingJoinIntent option \<times> 'r" where
  "read_intent api parse user r =
     (case redis_get api (pending_key user) r of
        (None, r) \<Rightarrow> (None, r)
      | (Some raw, r) \<Rightarrow>
          (case parse raw of
             Some (JObj doc) \<Rightarrow> (intent_of doc, r)
           | _ \<Rightarrow> (None, r)))"

definition update_intent :: "'r redis_api \<Rightarrow> (json \<Rightarrow> string option) \<Rightarrow> UserId \<Rightarrow> PendingJoinIntent \<Rightarrow> 'r \<Rightarrow> bool \<times> 'r" where
  "update_intent api dump user i r =
     (case redis_ttl api (pending_key user) r of
        (None, r) \<Rightarrow> (False, r)
      | (Some ttl, r) \<Rightarrow>
          if ttl \<le> 0 then (False, r)
          else (case dump (intent_doc user i (expires_at_unix i)) of
                  None \<Rightarrow> (False, r)
                | Some body \<Rightarrow> (True, setex api (pending_key user) ttl body r)))"

definition clear_intent :: "'r redis_api \<Rightarrow> UserId \<Rightarrow> 'r \<Rightarrow> 'r" where
  "clear_intent api user r = redis_del api (pending_key user) r"

section \<open>Resume ids\<close>

type_synonym resume_ids = "(UserId, string) umap"

definition resume_key :: "UserId \<Rightarrow> string" where
  "resume_key user = ''voice:resume_id:'' @ user"

definition resume_ttl :: int where
  "resume_ttl = 24 * 60 * 60"

definition rotate_resume :: "'r redis_api \<Rightarrow> string \<Rightarrow> UserId \<Rightarrow> resume_ids \<Rightarrow> 'r \<Rightarrow> string \<times> resume_ids \<times> 'r" where
  "rotate_resume api nonce user ids r =
     (nonce, AList.update user nonce ids, setex api (resume_key user) resume_ttl nonce r)"

definition load_resume :: "'r redis_api \<Rightarrow> UserId \<Rightarrow> resume_ids \<Rightarrow> 'r \<Rightarrow> string option \<times> resume_ids \<times> 'r" where
  "load_resume api user ids r =
     (case redis_get api (resume_key user) r of
        (None, r) \<Rightarrow> (None, ids, r)
      | (Some stored, r) \<Rightarrow>
          if stored = [] then (None, ids, r) else (Some stored, AList.update user stored ids, r))"

definition read_resume :: "UserId \<Rightarrow> resume_ids \<Rightarrow> string option" where
  "read_resume user ids = map_of ids user"

definition clear_resume :: "'r redis_api \<Rightarrow> UserId \<Rightarrow> resume_ids \<Rightarrow> 'r \<Rightarrow> resume_ids \<times> 'r" where
  "clear_resume api user ids r = (AList.delete user ids, redis_del api (resume_key user) r)"

definition clear_all_resume :: "resume_ids \<Rightarrow> resume_ids" where
  "clear_all_resume ids = []"

section \<open>Keys do not collide\<close>

lemma pending_key_inj [simp]: "pending_key u = pending_key v \<longleftrightarrow> u = v"
  by (simp add: pending_key_def)

lemma resume_key_inj [simp]: "resume_key u = resume_key v \<longleftrightarrow> u = v"
  by (simp add: resume_key_def)

lemma keys_disjoint [simp]: "pending_key u \<noteq> resume_key v" "resume_key v \<noteq> pending_key u"
  by (simp_all add: pending_key_def resume_key_def)

section \<open>Round trips\<close>

text \<open>An intent as it comes back: without a source channel the stored one is empty.\<close>

definition stored_intent :: "PendingJoinIntent \<Rightarrow> 64 word \<Rightarrow> PendingJoinIntent" where
  "stored_intent i expires =
     i\<lparr> from_channel := (if has_from_channel i then from_channel i else []), expires_at_unix := expires \<rparr>"

lemma intent_roundtrip:
  "\<exists>doc. intent_doc user i expires = JObj doc \<and> intent_of doc = Some (stored_intent i expires)"
  by (cases i) (simp add: intent_doc_def intent_of_def jfield_def jstring_def jbool_def juint_def stored_intent_def)

lemma read_written:
  assumes j: "json_laws dump parse" and l: "redis_laws api look up" and u: "up r"
    and d: "dump (intent_doc user i e) = Some body" and s: "look r (pending_key user) = Some (body, t)"
  shows "fst (read_intent api parse user r) = Some (stored_intent i e)"
proof -
  obtain r' where g: "redis_get api (pending_key user) r = (Some body, r')"
    using get_law[OF l u, of "pending_key user"] s by auto
  have "parse body = Some (intent_doc user i e)" using j d by (simp add: json_laws_def)
  moreover obtain doc where "intent_doc user i e = JObj doc" "intent_of doc = Some (stored_intent i e)"
    using intent_roundtrip[of user i e] by blast
  ultimately show ?thesis using g by (simp add: read_intent_def)
qed

section \<open>Properties\<close>

text \<open>While Redis is reachable, an intent that was staged is read back field by field, with the expiry
  computed from the clock and with the source channel dropped when there is none; the intents of other users
  are not touched; and once cleared it is gone.\<close>

theorem staged_intent_reads_back:
  assumes "json_laws dump parse" "redis_laws api look up" "up r"
    and "stage api dump now user i expires_in r = (True, r')" "0 < sint (expires_in + 10)"
  shows "fst (read_intent api parse user r') = Some (stored_intent i (now + (expires_in + 10)))
    \<and> (\<forall>v. v \<noteq> user \<longrightarrow> fst (read_intent api parse v r') = fst (read_intent api parse v r))
    \<and> fst (read_intent api parse user (clear_intent api user r')) = None"
proof -
  obtain body where d: "dump (intent_doc user i (now + (expires_in + 10))) = Some body"
    and r': "r' = setex api (pending_key user) (sint (expires_in + 10)) body r"
    using assms(4) by (auto simp: stage_def Let_def split: option.split_asm)
  note s = setex_law[OF assms(2,3,5), of "pending_key user" body, folded r']
  have "fst (read_intent api parse user r') = Some (stored_intent i (now + (expires_in + 10)))"
    by (rule read_written[OF assms(1,2) s(1) d]) (simp add: s(2))
  moreover have "fst (read_intent api parse v r') = fst (read_intent api parse v r)" if "v \<noteq> user" for v
  proof -
    have k: "look r' (pending_key v) = look r (pending_key v)" using that by (simp add: s(2))
    obtain a b where "redis_get api (pending_key v) r' = (map_option fst (look r (pending_key v)), a)"
      "redis_get api (pending_key v) r = (map_option fst (look r (pending_key v)), b)"
      using get_law[OF assms(2) s(1), of "pending_key v"] get_law[OF assms(2,3), of "pending_key v"] unfolding k by blast
    then show ?thesis by (simp add: read_intent_def split: option.split json.split)
  qed
  moreover have "fst (read_intent api parse user (clear_intent api user r')) = None"
  proof -
    note c = del_law[OF assms(2) s(1), of "pending_key user"]
    obtain a where "redis_get api (pending_key user) (clear_intent api user r') = (None, a)"
      using get_law[OF assms(2) c(1), of "pending_key user"] c(2) by (auto simp: clear_intent_def)
    then show ?thesis by (simp add: read_intent_def)
  qed
  ultimately show ?thesis by blast
qed

text \<open>An update keeps the lifetime of the stored intent.\<close>

lemma update_keeps_ttl:
  assumes "redis_laws api look up" "up r" "update_intent api dump user i r = (True, r')"
  shows "\<exists>v t body. look r (pending_key user) = Some (v, Some t) \<and> look r' = (look r)(pending_key user \<mapsto> (body, Some t))"
proof -
  let ?k = "pending_key user"
  obtain r1 where t: "redis_ttl api ?k r = (if ttl_reply (look r) ?k < 0 then None else Some (ttl_reply (look r) ?k), r1)"
    "up r1" "look r1 = look r" using ttl_law[OF assms(1,2)] by blast
  with assms(3) obtain body where pos: "ttl_reply (look r) ?k > 0"
    and r': "r' = setex api ?k (ttl_reply (look r) ?k) body r1"
    by (auto simp: update_intent_def split: option.split_asm if_split_asm)
  obtain v tt where "look r ?k = Some (v, Some tt)" "ttl_reply (look r) ?k = tt"
    using pos by (auto simp: ttl_reply_def split: option.split_asm)
  with setex_law[OF assms(1) t(2) pos, of ?k body] r' t(3) show ?thesis by auto
qed

text \<open>A library instance for one document.\<close>

definition dump1 :: "json \<Rightarrow> json \<Rightarrow> string option" where
  "dump1 d x = (if x = d then Some ''doc'' else None)"

definition parse1 :: "json \<Rightarrow> string \<Rightarrow> json option" where
  "parse1 d s = (if s = ''doc'' then Some d else None)"

lemma one_doc_laws: "json_laws (dump1 d) (parse1 d)"
  by (simp add: json_laws_def dump1_def parse1_def)

theorem staged_intent_reads_back_witness:
  "let i = empty_intent\<lparr> session_id := 7, to_channel := ''c2'', from_channel := ''c1'' \<rparr>;
       d = intent_doc ''u'' i 1040;
       r' = snd (stage mem_redis (dump1 d) 1000 ''u'' i 30 mem_empty)
   in fst (read_intent mem_redis (parse1 d) ''u'' r') = Some (i\<lparr> from_channel := [], expires_at_unix := 1040 \<rparr>)"
proof -
  let ?i = "empty_intent\<lparr> session_id := 7, to_channel := ''c2'', from_channel := ''c1'' \<rparr>"
  let ?d = "intent_doc ''u'' ?i 1040"
  have e: "1000 + (30 + 10) = (1040 :: 64 word)" "sint (30 + 10 :: 64 word) = 40" by simp_all
  have "stage mem_redis (dump1 ?d) 1000 ''u'' ?i 30 mem_empty = (True, snd (stage mem_redis (dump1 ?d) 1000 ''u'' ?i 30 mem_empty))"
    by (simp add: stage_def dump1_def Let_def)
  moreover have "mem_alive mem_empty" by (simp add: mem_empty_def)
  ultimately have "fst (read_intent mem_redis (parse1 ?d) ''u'' (snd (stage mem_redis (dump1 ?d) 1000 ''u'' ?i 30 mem_empty))) =
      Some (stored_intent ?i 1040)"
    using staged_intent_reads_back[OF one_doc_laws mem_redis_laws, of mem_empty ?d 1000 "''u''" ?i 30] e by simp
  moreover have "stored_intent ?i 1040 = ?i\<lparr> from_channel := [], expires_at_unix := 1040 \<rparr>"
    by (simp add: stored_intent_def empty_intent_def)
  ultimately show ?thesis unfolding Let_def by simp
qed

text \<open>After a restart (the memory is gone) the resume id that Redis still holds is the one issued last, and
  a cleared or never issued id is not resurrected.\<close>

theorem resume_id_survives_restart:
  assumes "redis_laws api look up" "up r" "nonce \<noteq> []"
    and "rotate_resume api nonce user ids r = (res, ids', r')"
  shows "read_resume user ids' = Some nonce \<and> res = nonce
    \<and> fst (load_resume api user (clear_all_resume ids') r') = Some nonce
    \<and> read_resume user (fst (snd (load_resume api user (clear_all_resume ids') r'))) = Some nonce
    \<and> (case clear_resume api user ids' r' of (ids'', r'') \<Rightarrow>
         read_resume user ids'' = None \<and> fst (load_resume api user ids'' r'') = None)"
proof -
  have r': "r' = setex api (resume_key user) resume_ttl nonce r" "ids' = AList.update user nonce ids" "res = nonce"
    using assms(4) by (auto simp: rotate_resume_def)
  have "resume_ttl > 0" by (simp add: resume_ttl_def)
  note s = setex_law[OF assms(1,2) this, of "resume_key user" nonce, folded r'(1)]
  obtain r1 where g: "redis_get api (resume_key user) r' = (Some nonce, r1)"
    using get_law[OF assms(1) s(1), of "resume_key user"] s(2) by auto
  note c = del_law[OF assms(1) s(1), of "resume_key user"]
  obtain r2 where h: "redis_get api (resume_key user) (redis_del api (resume_key user) r') = (None, r2)"
    using get_law[OF assms(1) c(1), of "resume_key user"] c(2) by auto
  show ?thesis
    using assms(3) g h by (simp add: r'(2,3) load_resume_def read_resume_def clear_all_resume_def clear_resume_def)
qed

theorem resume_id_survives_restart_witness:
  "fst (load_resume mem_redis ''u'' [] (snd (snd (rotate_resume mem_redis ''abc'' ''u'' [] mem_empty)))) = Some ''abc''"
proof -
  have "mem_alive mem_empty" by (simp add: mem_empty_def)
  from resume_id_survives_restart[OF mem_redis_laws this, of "''abc''" "''u''" "[]"]
  show ?thesis by (simp add: rotate_resume_def clear_all_resume_def)
qed

end
