(* ===== verification/Invites.thy ===== *)
theory Invites
  imports Redis
begin

text \<open>
  \<^verbatim>\<open>InviteService\<close> (\<^verbatim>\<open>src/app/services/invite\<close>): hub invite tokens, kept in Redis under a key per token and
  a reverse key per hub. The random indices a token is made of are an argument.
\<close>

section \<open>Operations\<close>

definition INVITE_TTL :: int where "INVITE_TTL = 3600"

definition MIN_REUSE_TTL :: int where "MIN_REUSE_TTL = 180"

definition token_key :: "string \<Rightarrow> string" where
  "token_key token = ''invite:'' @ token"

definition hub_key :: "HubId \<Rightarrow> string" where
  "hub_key hub = ''invite_hub:'' @ hub"

definition BASE62_CHARS :: string where
  "BASE62_CHARS = ''abcdefghijklmnopqrstuvwxyzABCDEFGHIJKLMNOPQRSTUVWXYZ0123456789''"

definition generate_token :: "nat list \<Rightarrow> string" where
  "generate_token rnd = map (\<lambda>i. BASE62_CHARS ! i) (take 10 rnd)"

definition createInvite :: "'r redis_api \<Rightarrow> string \<Rightarrow> nat list \<Rightarrow> HubId \<Rightarrow> 'r \<Rightarrow> string \<times> 'r" where
  "createInvite api base_url rnd hub r =
     (let (existing, r) = redis_get api (hub_key hub) r;
          (reuse, r) = (case existing of
             None \<Rightarrow> (None, r)
           | Some token \<Rightarrow>
               (case redis_ttl api (token_key token) r of
                  (None, r) \<Rightarrow> (None, r)
                | (Some remaining, r) \<Rightarrow> (if remaining \<ge> MIN_REUSE_TTL then Some token else None, r)))
      in case reuse of
           Some token \<Rightarrow> (base_url @ ''/'' @ token, r)
         | None \<Rightarrow>
             (let token = generate_token rnd;
                  r = setex api (token_key token) INVITE_TTL hub r;
                  r = setex api (hub_key hub) INVITE_TTL token r
              in (base_url @ ''/'' @ token, r)))"

definition resolveInvite :: "'r redis_api \<Rightarrow> string \<Rightarrow> 'r \<Rightarrow> HubId option \<times> 'r" where
  "resolveInvite api token r = redis_get api (token_key token) r"

definition revokeInvitesForHub :: "'r redis_api \<Rightarrow> HubId \<Rightarrow> 'r \<Rightarrow> 'r" where
  "revokeInvitesForHub api hub r =
     (let (existing, r) = redis_get api (hub_key hub) r;
          r = (case existing of None \<Rightarrow> r | Some token \<Rightarrow> redis_del api (token_key token) r)
      in redis_del api (hub_key hub) r)"

section \<open>The two keys of a token\<close>

lemma token_key_inj [simp]: "token_key a = token_key b \<longleftrightarrow> a = b"
  by (simp add: token_key_def)

lemma hub_key_inj [simp]: "hub_key a = hub_key b \<longleftrightarrow> a = b"
  by (simp add: hub_key_def)

lemma invite_keys_disjoint [simp]: "token_key a \<noteq> hub_key b" "hub_key b \<noteq> token_key a"
  by (simp_all add: token_key_def hub_key_def)

lemma generate_token_alphabet:
  assumes "length rnd \<ge> 10" "\<forall>i\<in>set rnd. i < 62"
  shows "length (generate_token rnd) = 10 \<and> set (generate_token rnd) \<subseteq> set BASE62_CHARS"
proof -
  have l: "length BASE62_CHARS = 62" by (simp add: BASE62_CHARS_def)
  have "BASE62_CHARS ! i \<in> set BASE62_CHARS" if "i \<in> set (take 10 rnd)" for i
  proof -
    have "i < length BASE62_CHARS" using that assms(2) set_take_subset[of 10 rnd] l by auto
    then show ?thesis by (rule nth_mem)
  qed
  then show ?thesis using assms(1) by (auto simp: generate_token_def)
qed

text \<open>A hub's reverse key names a token of that hub, if the token still exists.\<close>

definition invites_ok :: "store \<Rightarrow> bool" where
  "invites_ok m \<longleftrightarrow> (\<forall>hub token t h t'. m (hub_key hub) = Some (token, t) \<longrightarrow> m (token_key token) = Some (h, t') \<longrightarrow> h = hub)"

definition token_unused :: "string \<Rightarrow> store \<Rightarrow> bool" where
  "token_unused token m \<longleftrightarrow> m (token_key token) = None \<and> (\<forall>hub t. m (hub_key hub) \<noteq> Some (token, t))"

lemma invites_ok_create:
  assumes "invites_ok m" "token_unused token m"
  shows "invites_ok (m(token_key token \<mapsto> (hub, a), hub_key hub \<mapsto> (token, b)))"
  using assms unfolding invites_ok_def token_unused_def
  by (auto split: if_split_asm)

lemma invites_ok_revoke:
  "invites_ok m \<Longrightarrow> invites_ok (m(token_key token := None, hub_key hub := None))"
  "invites_ok m \<Longrightarrow> invites_ok (m(hub_key hub := None))"
  by (auto simp: invites_ok_def split: if_split_asm)

lemma ttl_reply_pos: "ttl_reply m k \<ge> MIN_REUSE_TTL \<Longrightarrow> \<exists>v t. m k = Some (v, Some t) \<and> t = ttl_reply m k"
  by (auto simp: ttl_reply_def MIN_REUSE_TTL_def split: option.split_asm)

text \<open>Both outcomes of a creation.\<close>

lemma create_cases:
  assumes l: "redis_laws api look up" "up r"
  obtains (reuse) token t r' where "look r (hub_key hub) = Some (token, t)" "ttl_reply (look r) (token_key token) \<ge> MIN_REUSE_TTL"
      "createInvite api base rnd hub r = (base @ ''/'' @ token, r')" "up r'" "look r' = look r"
  | (fresh) r' where "createInvite api base rnd hub r = (base @ ''/'' @ generate_token rnd, r')" "up r'"
      "look r' = (look r)(token_key (generate_token rnd) \<mapsto> (hub, Some INVITE_TTL),
                          hub_key hub \<mapsto> (generate_token rnd, Some INVITE_TTL))"
proof -
  obtain r1 where g: "redis_get api (hub_key hub) r = (map_option fst (look r (hub_key hub)), r1)" "up r1" "look r1 = look r"
    using get_law[OF l] by blast
  have pos: "INVITE_TTL > 0" by (simp add: INVITE_TTL_def)
  have wr: thesis if c: "createInvite api base rnd hub r =
      (base @ ''/'' @ generate_token rnd, setex api (hub_key hub) INVITE_TTL (generate_token rnd)
         (setex api (token_key (generate_token rnd)) INVITE_TTL hub q))" "up q" "look q = look r" for q
  proof -
    let ?t = "generate_token rnd"
    note s = setex_law[OF l(1) c(2) pos, of "token_key ?t" hub]
    note s' = setex_law[OF l(1) s(1) pos, of "hub_key hub" ?t]
    show thesis by (rule fresh[OF c(1) s'(1)]) (simp add: s'(2) s(2) c(3))
  qed
  show thesis
  proof (cases "look r (hub_key hub)")
    case None
    then show thesis using g by (intro wr[of r1]) (simp_all add: createInvite_def Let_def)
  next
    case (Some p)
    obtain token t where p: "p = (token, t)" by force
    obtain r2 where t: "redis_ttl api (token_key token) r1 =
        (if ttl_reply (look r1) (token_key token) < 0 then None else Some (ttl_reply (look r1) (token_key token)), r2)"
      "up r2" "look r2 = look r1" using ttl_law[OF l(1) g(2)] by blast
    show thesis
    proof (cases "ttl_reply (look r) (token_key token) \<ge> MIN_REUSE_TTL")
      case True
      have "\<not> ttl_reply (look r) (token_key token) < 0" using True by (simp add: MIN_REUSE_TTL_def)
      then have "createInvite api base rnd hub r = (base @ ''/'' @ token, r2)"
        using Some p g t True by (simp add: createInvite_def)
      with True Some p t g show thesis by (intro reuse[of token t r2]) simp_all
    next
      case False
      then show thesis using Some p g t by (intro wr[of r2]) (simp_all add: createInvite_def Let_def)
    qed
  qed
qed

section \<open>Properties\<close>

text \<open>While Redis is reachable, the link returned for a hub ends in a token that resolves to that hub and
  lives at least three more minutes, whether it is a new token (one not in use) or a reused one; and the
  relation between tokens and hubs stays sound.\<close>

theorem created_invite_resolves:
  assumes "redis_laws api look up" "up r" "invites_ok (look r)" "token_unused (generate_token rnd) (look r)"
    and "createInvite api base rnd hub r = (link, r')"
  shows "\<exists>token. link = base @ ''/'' @ token \<and> fst (resolveInvite api token r') = Some hub
    \<and> ttl_reply (look r') (token_key token) \<ge> MIN_REUSE_TTL \<and> invites_ok (look r')"
proof (rule create_cases[OF assms(1,2), of hub base rnd])
  fix token t q
  assume *: "look r (hub_key hub) = Some (token, t)" "ttl_reply (look r) (token_key token) \<ge> MIN_REUSE_TTL"
    "createInvite api base rnd hub r = (base @ ''/'' @ token, q)" "up q" "look q = look r"
  have q: "q = r'" "link = base @ ''/'' @ token" using *(3) assms(5) by simp_all
  obtain h t' where h: "look r (token_key token) = Some (h, Some t')" using ttl_reply_pos[OF *(2)] by blast
  then have "h = hub" using assms(3) *(1) unfolding invites_ok_def by blast
  with h * q assms(3) show ?thesis
    using get_law[OF assms(1) *(4), of "token_key token"] by (auto simp: resolveInvite_def)
next
  fix q
  let ?t = "generate_token rnd"
  assume *: "createInvite api base rnd hub r = (base @ ''/'' @ ?t, q)" "up q"
    "look q = (look r)(token_key ?t \<mapsto> (hub, Some INVITE_TTL), hub_key hub \<mapsto> (?t, Some INVITE_TTL))"
  have q: "q = r'" "link = base @ ''/'' @ ?t" using *(1) assms(5) by simp_all
  have "ttl_reply (look q) (token_key ?t) \<ge> MIN_REUSE_TTL"
    by (simp add: *(3) ttl_reply_def INVITE_TTL_def MIN_REUSE_TTL_def)
  moreover have "invites_ok (look q)" unfolding *(3) using invites_ok_create[OF assms(3,4)] .
  moreover have "fst (resolveInvite api ?t q) = Some hub"
    using get_law[OF assms(1) *(2), of "token_key ?t"] by (auto simp: resolveInvite_def *(3))
  ultimately show ?thesis using q by blast
qed

theorem created_invite_resolves_witness:
  "fst (resolveInvite mem_redis ''abcdefghij'' (snd (createInvite mem_redis ''http://h'' [0..<10] ''hub'' mem_empty))) = Some ''hub''"
proof -
  have t: "generate_token [0..<10] = ''abcdefghij''"
    by (simp add: generate_token_def BASE62_CHARS_def upt_rec numeral_eq_Suc)
  have l: "mem_look mem_empty = Map.empty" by (rule ext) (simp add: mem_look_def mem_empty_def)
  have "mem_alive mem_empty" by (simp add: mem_empty_def)
  moreover have "invites_ok (mem_look mem_empty)" "token_unused (generate_token [0..<10]) (mem_look mem_empty)"
    by (simp_all add: l invites_ok_def token_unused_def)
  moreover have c: "createInvite mem_redis ''http://h'' [0..<10] ''hub'' mem_empty =
      (''http://h'' @ ''/'' @ ''abcdefghij'', snd (createInvite mem_redis ''http://h'' [0..<10] ''hub'' mem_empty))"
    by (simp add: createInvite_def mem_client l t Let_def)
  ultimately show ?thesis
    using created_invite_resolves[OF mem_redis_laws, of mem_empty "[0..<10]" "''http://h''" "''hub''"] by force
qed



text \<open>A token replaced because fewer than three minutes were left is not revoked: it keeps resolving to the
  hub after \<^verbatim>\<open>revokeInvitesForHub\<close>, although the comment there states that deleting the reverse key's token
  makes every previously shared link invalid.\<close>

theorem replaced_token_survives_revoke:
  "let r1 = snd (createInvite mem_redis ''b'' (replicate 10 0) ''hub'' mem_empty);
       r2 = snd (createInvite mem_redis ''b'' (replicate 10 3) ''hub'' (mem_wait 3500 r1));
       r3 = revokeInvitesForHub mem_redis ''hub'' r2
   in fst (resolveInvite mem_redis (generate_token (replicate 10 0)) r3) = Some ''hub''
      \<and> fst (resolveInvite mem_redis (generate_token (replicate 10 3)) r3) = None"
proof -
  let ?a = "generate_token (replicate 10 0)" and ?b = "generate_token (replicate 10 3)"
  have t: "?a = ''aaaaaaaaaa''" "?b = ''dddddddddd''"
    by (simp_all add: generate_token_def BASE62_CHARS_def numeral_eq_Suc)
  let ?r1 = "\<lparr> mem_clock = 0, mem_entries = [(token_key ?a, ''hub'', Some 3600), (hub_key ''hub'', ?a, Some 3600)], mem_alive = True \<rparr>"
  let ?r2 = "\<lparr> mem_clock = 3500, mem_entries = [(token_key ?a, ''hub'', Some 3600), (hub_key ''hub'', ?b, Some 7100),
      (token_key ?b, ''hub'', Some 7100)], mem_alive = True \<rparr>"
  have 1: "snd (createInvite mem_redis ''b'' (replicate 10 0) ''hub'' mem_empty) = ?r1"
    by (simp add: createInvite_def mem_client mem_look_def mem_put_def mem_empty_def INVITE_TTL_def Let_def)
  have 2: "snd (createInvite mem_redis ''b'' (replicate 10 3) ''hub'' (mem_wait 3500 ?r1)) = ?r2"
    by (simp add: createInvite_def mem_client mem_look_def mem_put_def mem_wait_def INVITE_TTL_def MIN_REUSE_TTL_def
        ttl_reply_def t Let_def)
  have "revokeInvitesForHub mem_redis ''hub'' ?r2 =
      \<lparr> mem_clock = 3500, mem_entries = [(token_key ?a, ''hub'', Some 3600)], mem_alive = True \<rparr>"
    by (simp add: revokeInvitesForHub_def mem_client mem_look_def t Let_def)
  then show ?thesis
    unfolding Let_def 1 2
    by (simp add: resolveInvite_def mem_client mem_look_def t)
qed

end
