(* ===== verification/KeyBlob.thy ===== *)
theory KeyBlob
  imports Strings
begin

text \<open>
  The at-rest format of channel keys (first part of \<^verbatim>\<open>src/app/services/voice/ChannelKeyService.cpp\<close>): a
  version byte, a 12 byte nonce, the AES-256-GCM ciphertext and a 16 byte tag, in base64.

  OpenSSL is not part of the repository: the record \<open>evp\<close> holds the primitives the code calls, \<^const>\<open>None\<close> being a
  failure code. \<open>evp_laws\<close> is their documented behaviour: base64 pads to groups of four characters and decoding
  yields the bytes padded with zeros, and decryption inverts encryption under the same key and nonce. The nonce
  drawn by \<^verbatim>\<open>RAND_bytes\<close> is an argument.
\<close>

section \<open>Primitives\<close>

record evp =
  evp_sha256 :: "string \<Rightarrow> string option"
  evp_encode_block :: "string \<Rightarrow> string option"
  evp_decode_block :: "string \<Rightarrow> string option"
  gcm_encrypt :: "string \<Rightarrow> string \<Rightarrow> string \<Rightarrow> (string \<times> string) option"
  gcm_decrypt :: "string \<Rightarrow> string \<Rightarrow> string \<Rightarrow> string \<Rightarrow> string option"

definition padding :: "nat \<Rightarrow> nat" where
  "padding n = (3 - n mod 3) mod 3"

text \<open>The padding characters at the end of a text, of which the decoder looks at two.\<close>

definition pad_count :: "string \<Rightarrow> nat" where
  "pad_count e = (if e \<noteq> [] \<and> last e = CHR ''='' then 1 else 0)
     + (if length e > 1 \<and> e ! (length e - 2) = CHR ''='' then 1 else 0)"

definition evp_laws :: "evp \<Rightarrow> bool" where
  "evp_laws v \<longleftrightarrow>
     (\<forall>s e. s \<noteq> [] \<longrightarrow> evp_encode_block v s = Some e \<longrightarrow> e \<noteq> [] \<and> length e mod 4 = 0 \<and> pad_count e = padding (length s)
        \<and> evp_decode_block v e = Some (s @ replicate (padding (length s)) (CHR 0x00)))
   \<and> (\<forall>k n p c t. gcm_encrypt v k n p = Some (c, t) \<longrightarrow>
        length c = length p \<and> length t = 16 \<and> gcm_decrypt v k n c t = Some p)"

section \<open>Operations\<close>

definition derive_master_key :: "evp \<Rightarrow> string \<Rightarrow> string option" where
  "derive_master_key v secret =
     (if secret = [] then None
      else case evp_sha256 v secret of
             None \<Rightarrow> None
           | Some digest \<Rightarrow> if length digest = 32 then Some digest else None)"

definition base64_encode :: "evp \<Rightarrow> string \<Rightarrow> string option" where
  "base64_encode v input =
     (if input = [] then Some []
      else case evp_encode_block v input of
             None \<Rightarrow> None
           | Some out \<Rightarrow> if out = [] then None else Some out)"

definition base64_decode :: "evp \<Rightarrow> string \<Rightarrow> string option" where
  "base64_decode v input =
     (if input = [] then Some []
      else if length input mod 4 \<noteq> 0 then None
      else case evp_decode_block v input of
             None \<Rightarrow> None
           | Some out \<Rightarrow> Some (take (length out - pad_count input) out))"

definition kVersion :: char where "kVersion = CHR 0x01"
definition kNonceLen :: nat where "kNonceLen = 12"
definition kTagLen :: nat where "kTagLen = 16"

definition encrypt_key_blob :: "evp \<Rightarrow> string option \<Rightarrow> string \<Rightarrow> string \<Rightarrow> string option" where
  "encrypt_key_blob v nonce master_key plaintext =
     (case nonce of
        None \<Rightarrow> None
      | Some nonce \<Rightarrow>
          (case gcm_encrypt v master_key nonce plaintext of
             None \<Rightarrow> None
           | Some (ciphertext, tag) \<Rightarrow> base64_encode v ([kVersion] @ nonce @ ciphertext @ tag)))"

definition decrypt_key_blob :: "evp \<Rightarrow> string \<Rightarrow> string \<Rightarrow> string option" where
  "decrypt_key_blob v master_key encoded =
     (case base64_decode v encoded of
        None \<Rightarrow> None
      | Some packed \<Rightarrow>
          if length packed < 1 + kNonceLen + kTagLen then None
          else if packed ! 0 \<noteq> kVersion then None
          else
            (let nonce = take kNonceLen (drop 1 packed);
                 ciphertext_len = length packed - (1 + kNonceLen + kTagLen);
                 ciphertext = take ciphertext_len (drop (1 + kNonceLen) packed);
                 tag = drop (length packed - kTagLen) packed
             in gcm_decrypt v master_key nonce ciphertext tag))"

section \<open>Base64\<close>

lemma base64_roundtrip:
  assumes "evp_laws v" "base64_encode v s = Some e"
  shows "base64_decode v e = Some s"
proof (cases "s = []")
  case True
  then show ?thesis using assms(2) by (simp add: base64_encode_def base64_decode_def)
next
  case False
  then have e: "evp_encode_block v s = Some e" using assms(2) by (auto simp: base64_encode_def split: option.split_asm if_split_asm)
  then have "e \<noteq> []" "length e mod 4 = 0" "pad_count e = padding (length s)"
    "evp_decode_block v e = Some (s @ replicate (padding (length s)) (CHR 0x00))"
    using assms(1) False unfolding evp_laws_def by blast+
  then show ?thesis by (simp add: base64_decode_def)
qed

lemma blob_decrypts:
  assumes "evp_laws v" "length nonce = 12" "encrypt_key_blob v (Some nonce) k plaintext = Some blob"
  shows "decrypt_key_blob v k blob = Some plaintext" "blob \<noteq> []"
proof -
  obtain c t where g: "gcm_encrypt v k nonce plaintext = Some (c, t)"
    and b: "base64_encode v ([kVersion] @ nonce @ c @ t) = Some blob"
    using assms(3) by (auto simp: encrypt_key_blob_def split: option.split_asm)
  have l: "length c = length plaintext" "length t = 16" "gcm_decrypt v k nonce c t = Some plaintext"
    using assms(1) g unfolding evp_laws_def by blast+
  have "drop (13 + length plaintext) (kVersion # nonce @ c @ t) = t" using l(1) assms(2) by (simp add: drop_Cons')
  then show "decrypt_key_blob v k blob = Some plaintext"
    using base64_roundtrip[OF assms(1) b] l assms(2) by (simp add: decrypt_key_blob_def kNonceLen_def kTagLen_def Let_def)
  show "blob \<noteq> []"
    using base64_roundtrip[OF assms(1) b] by (auto simp: base64_decode_def)
qed

section \<open>Properties\<close>

text \<open>C37: a key that was encrypted for storage decrypts to itself under the same master key; and whatever
  decrypts is a blob of the stored form (version byte, nonce, ciphertext, tag) that the cipher authenticated,
  so a truncated or re-versioned blob is refused.\<close>

theorem key_blob_roundtrip:
  assumes "evp_laws v" "length nonce = 12" "encrypt_key_blob v (Some nonce) k plaintext = Some blob"
  shows "decrypt_key_blob v k blob = Some plaintext
    \<and> (\<forall>enc p. decrypt_key_blob v k enc = Some p \<longrightarrow>
         (\<exists>n c t. base64_decode v enc = Some (kVersion # n @ c @ t) \<and> length n = 12 \<and> length t = 16
            \<and> gcm_decrypt v k n c t = Some p))"
proof -
  have "decrypt_key_blob v k blob = Some plaintext" by (rule blob_decrypts[OF assms])
  moreover have "\<exists>n c t. base64_decode v enc = Some (kVersion # n @ c @ t) \<and> length n = 12 \<and> length t = 16
      \<and> gcm_decrypt v k n c t = Some p" if "decrypt_key_blob v k enc = Some p" for enc p
  proof -
    note dec = that
    obtain packed where d: "base64_decode v enc = Some packed" "length packed \<ge> 29" "packed ! 0 = kVersion"
      "gcm_decrypt v k (take 12 (drop 1 packed)) (take (length packed - 29) (drop 13 packed)) (drop (length packed - 16) packed) = Some p"
      using dec by (auto simp: decrypt_key_blob_def kNonceLen_def kTagLen_def Let_def split: option.split_asm if_split_asm)
    let ?rest = "drop 13 packed"
    have "packed \<noteq> []" using d(2) by auto
    then have "packed = packed ! 0 # drop 1 packed" by (metis One_nat_def Cons_nth_drop_Suc drop0 length_greater_0_conv)
    also have "drop 1 packed = take 12 (drop 1 packed) @ ?rest"
      using append_take_drop_id[of 12 "drop 1 packed"] by (simp only: drop_drop) (simp add: add.commute)
    also have "?rest = take (length packed - 29) ?rest @ drop (length packed - 29) ?rest" by (simp only: append_take_drop_id)
    also have "drop (length packed - 29) ?rest = drop (length packed - 16) packed" using d(2) by simp
    finally have "packed = kVersion # take 12 (drop 1 packed) @ take (length packed - 29) ?rest @ drop (length packed - 16) packed"
      unfolding d(3) .
    moreover have "length (take 12 (drop 1 packed)) = 12" "length (drop (length packed - 16) packed) = 16"
      using d(2) by simp_all
    ultimately show ?thesis using d(1,4) by metis
  qed
  ultimately show ?thesis by blast
qed

text \<open>Primitives that satisfy the laws: groups of eight characters that carry three bytes, and a cipher that only
  appends a tag.\<close>

fun plain_encode :: "string \<Rightarrow> string" where
  "plain_encode [] = []"
| "plain_encode [a] = [a, CHR ''1'', CHR ''1'', CHR ''1'', CHR ''x'', CHR ''x'', CHR ''='', CHR ''='']"
| "plain_encode [a, b] = [a, b, CHR ''2'', CHR ''2'', CHR ''x'', CHR ''x'', CHR ''x'', CHR ''='']"
| "plain_encode (a # b # c # s) = [a, b, c, CHR ''3'', CHR ''x'', CHR ''x'', CHR ''x'', CHR ''x''] @ plain_encode s"

fun plain_decode :: "string \<Rightarrow> string" where
  "plain_decode (a # b # c # d # w # x # y # z # s) =
     (if d = CHR ''3'' then [a, b, c] else if d = CHR ''2'' then [a, b, CHR 0x00] else [a, CHR 0x00, CHR 0x00]) @ plain_decode s"
| "plain_decode _ = []"

definition plain_evp :: evp where
  "plain_evp = \<lparr> evp_sha256 = (\<lambda>s. Some (replicate 32 (CHR 0x00))), evp_encode_block = Some \<circ> plain_encode,
     evp_decode_block = Some \<circ> plain_decode, gcm_encrypt = (\<lambda>k n p. Some (p, replicate 16 (CHR 0x00))),
     gcm_decrypt = (\<lambda>k n c t. Some c) \<rparr>"

lemma pad_count_append:
  assumes "length t \<ge> 2"
  shows "pad_count (s @ t) = pad_count t"
proof -
  have "length (s @ t) - 2 = length s + (length t - 2)" using assms by simp
  then have "(s @ t) ! (length (s @ t) - 2) = t ! (length t - 2)" by (simp only: nth_append_length_plus)
  moreover have "t \<noteq> []" using assms by auto
  ultimately show ?thesis using assms unfolding pad_count_def by simp
qed

lemma plain_encode_laws:
  "s \<noteq> [] \<Longrightarrow> plain_encode s \<noteq> [] \<and> length (plain_encode s) mod 4 = 0
     \<and> pad_count (plain_encode s) = padding (length s)
     \<and> plain_decode (plain_encode s) = s @ replicate (padding (length s)) (CHR 0x00)"
proof (induction s rule: plain_encode.induct)
  case (4 a b c s)
  show ?case
  proof (cases "s = []")
    case True
    then show ?thesis by (simp add: pad_count_def padding_def)
  next
    case False
    have "length (plain_encode s) \<ge> 4"
    proof -
      have "length (plain_encode s) \<noteq> 0" "length (plain_encode s) mod 4 = 0" using 4 False by auto
      then show ?thesis by (metis dvd_imp_le mod_0_imp_dvd neq0_conv)
    qed
    then have "pad_count (plain_encode (a # b # c # s)) = pad_count (plain_encode s)"
      using pad_count_append[of "plain_encode s" "[a, b, c, CHR ''3'', CHR ''x'', CHR ''x'', CHR ''x'', CHR ''x'']"] by simp
    moreover have "padding (length (a # b # c # s)) = padding (length s)" by (simp add: padding_def)
    moreover have "(8 + k) mod 4 = 0" if "k mod 4 = 0" for k :: nat using that by presburger
    ultimately show ?thesis using 4 False by simp
  qed
qed (simp_all add: pad_count_def padding_def numeral_2_eq_2)

lemma plain_evp_laws: "evp_laws plain_evp"
  using plain_encode_laws by (auto simp: evp_laws_def plain_evp_def)

theorem key_blob_roundtrip_witness:
  "decrypt_key_blob plain_evp ''k'' (the (encrypt_key_blob plain_evp (Some ''0123456789ab'') ''k'' ''secret'')) = Some ''secret''"
proof -
  obtain b where b: "encrypt_key_blob plain_evp (Some ''0123456789ab'') ''k'' ''secret'' = Some b"
    by (simp add: encrypt_key_blob_def plain_evp_def base64_encode_def kVersion_def numeral_eq_Suc)
  have "length ''0123456789ab'' = 12" by simp
  from key_blob_roundtrip[OF plain_evp_laws this b] b show ?thesis by simp
qed

end
