(* ===== verification/VoiceWorld.thy ===== *)
theory VoiceWorld
  imports Queues Subscriptions VoiceSessions VoiceStores NodeRegistry Reconcile
begin

text \<open>
  The state the voice services share, their environment, and \<^verbatim>\<open>VoicePublisher\<close>
  (\<^verbatim>\<open>src/app/services/voice/VoicePublisher.cpp\<close>), which turns voice state changes into messages.

  The environment \<open>voice_env\<close> collects what lies outside the voice services, over one external state: the Redis
  server, the media servers behind \<^verbatim>\<open>PostJson\<close>, the entropy behind keys and nonces, the cipher of the stored
  keys, the hub a channel belongs to (\<^verbatim>\<open>HubService::getChannel\<close>), the clocks (a second has \<open>e_ticks\<close> steady ticks), the JSON library and the protobuf
  serializer. A failed or throwing call is \<^const>\<open>None\<close>.

  A message that is pushed to the outbound sink is appended to \<open>v_sent\<close>.
\<close>

section \<open>Messages\<close>

datatype voice_event =
    VoiceSnapshot HubId ChannelId "64 word" "ParticipantInfo list"
  | VoiceUpsert HubId ChannelId UserId bool bool
  | VoiceRemove HubId ChannelId UserId
  | VoiceKeyUpdate HubId ChannelId string "32 word"
  | VoiceSelfConnected bool HubId ChannelId "string option"
  | VoiceSelfDisconnected

definition make_outgoing_message :: "GlobalConnId list \<Rightarrow> string \<Rightarrow> OutgoingMessage" where
  "make_outgoing_message conns bytes =
     \<lparr> msg_priority = OutHigh, msg_target = conns,
       msg_action = SendPayload \<lparr> payload_data = Some bytes, is_binary = True \<rparr> False \<rparr>"

definition make_reliable_outgoing_message :: "GlobalConnId list \<Rightarrow> string \<Rightarrow> OutgoingMessage" where
  "make_reliable_outgoing_message conns bytes =
     \<lparr> msg_priority = OutHigh, msg_target = conns,
       msg_action = SendPayload \<lparr> payload_data = Some bytes, is_binary = True \<rparr> True \<rparr>"

section \<open>Environment and state\<close>

record 'r voice_env =
  e_redis :: "'r redis_api"
  e_dump :: "json \<Rightarrow> string option"
  e_parse :: "string \<Rightarrow> json option"
  e_post :: "string \<Rightarrow> string \<Rightarrow> json \<Rightarrow> 'r \<Rightarrow> string option \<times> 'r"
  e_token :: "UserId \<Rightarrow> ChannelId \<Rightarrow> string \<Rightarrow> SessionId \<Rightarrow> string \<Rightarrow> string"
  e_key :: "'r \<Rightarrow> string option \<times> 'r"
  e_nonce :: "'r \<Rightarrow> string \<times> 'r"
  e_encrypt :: "string \<Rightarrow> 'r \<Rightarrow> string option \<times> 'r"
  e_decrypt :: "string \<Rightarrow> string option"
  e_hub :: "ChannelId \<Rightarrow> 'r \<Rightarrow> HubId option \<times> 'r"
  e_steady :: "'r \<Rightarrow> time"
  e_ticks :: int
  e_unix :: "'r \<Rightarrow> 64 word"
  e_unix_ms :: "'r \<Rightarrow> 64 word"
  e_ser :: "voice_event \<Rightarrow> string"

record ChannelKey =
  ck_key :: string
  ck_index :: "32 word"

record 'r voice =
  v_ext :: 'r
  v_sessions :: voice_sessions
  v_app :: session_manager
  v_subs :: subscriptions
  v_resume :: resume_ids
  v_keys :: "(ChannelId, ChannelKey) umap"
  v_join_seen :: "(ChannelId, (UserId, time) umap) umap"
  v_nodes :: node_registry
  v_recon :: "unit reconciler"
  v_takeover :: "(ChannelId, time) umap"
  v_started :: "(ChannelId, 64 word) umap"
  v_user_ts :: "(UserId, 64 word) umap"
  v_room_ts :: "(ChannelId, 64 word) umap"
  v_recovery_counter :: "64 word"
  v_sent :: "OutgoingMessage list"
  v_storage_key_ready :: bool
  v_key_ttl :: int
  v_debounce_ttl :: int
  v_cluster_url :: string

text \<open>Calls of the environment on the shared state.\<close>

definition hub_of :: "'r voice_env \<Rightarrow> ChannelId \<Rightarrow> 'r voice \<Rightarrow> HubId option \<times> 'r voice" where
  "hub_of env ch w = (case e_hub env ch (v_ext w) of (h, r) \<Rightarrow> (h, w\<lparr> v_ext := r \<rparr>))"

definition rotate_resume_id :: "'r voice_env \<Rightarrow> UserId \<Rightarrow> 'r voice \<Rightarrow> string \<times> 'r voice" where
  "rotate_resume_id env user w =
     (case e_nonce env (v_ext w) of (nonce, r) \<Rightarrow>
        (case rotate_resume (e_redis env) nonce user (v_resume w) r of
           (res, ids, r) \<Rightarrow> (res, w\<lparr> v_resume := ids, v_ext := r \<rparr>)))"

definition clear_resume_id :: "'r voice_env \<Rightarrow> UserId \<Rightarrow> 'r voice \<Rightarrow> 'r voice" where
  "clear_resume_id env user w =
     (case clear_resume (e_redis env) user (v_resume w) (v_ext w) of (ids, r) \<Rightarrow> w\<lparr> v_resume := ids, v_ext := r \<rparr>)"

definition load_resume_id :: "'r voice_env \<Rightarrow> UserId \<Rightarrow> 'r voice \<Rightarrow> string option \<times> 'r voice" where
  "load_resume_id env user w =
     (case load_resume (e_redis env) user (v_resume w) (v_ext w) of (res, ids, r) \<Rightarrow> (res, w\<lparr> v_resume := ids, v_ext := r \<rparr>))"

section \<open>VoicePublisher\<close>

definition emit :: "OutgoingMessage \<Rightarrow> 'r voice \<Rightarrow> 'r voice" where
  "emit msg w = w\<lparr> v_sent := v_sent w @ [msg] \<rparr>"

text \<open>The fan-out to the subscribers of a hub; a hub without subscribers is skipped.\<close>

definition publish_to_hub :: "'r voice_env \<Rightarrow> HubId \<Rightarrow> voice_event \<Rightarrow> 'r voice \<Rightarrow> 'r voice" where
  "publish_to_hub env hub ev w =
     (let conns = subscribers (HubTopic hub) (v_subs w)
      in if conns = [] then w else emit (make_reliable_outgoing_message conns (e_ser env ev)) w)"

definition publish_voice_snapshot :: "'r voice_env \<Rightarrow> HubId \<Rightarrow> ChannelId \<Rightarrow> 64 word \<Rightarrow> 'r voice \<Rightarrow> 'r voice" where
  "publish_voice_snapshot env hub ch started w =
     publish_to_hub env hub (VoiceSnapshot hub ch started (participants_in_channel ch (v_sessions w))) w"

definition publish_voice_participant_upsert :: "'r voice_env \<Rightarrow> HubId \<Rightarrow> ChannelId \<Rightarrow> UserId \<Rightarrow> bool \<Rightarrow> bool
    \<Rightarrow> 'r voice \<Rightarrow> 'r voice" where
  "publish_voice_participant_upsert env hub ch user m d w = publish_to_hub env hub (VoiceUpsert hub ch user m d) w"

definition publish_voice_participant_remove :: "'r voice_env \<Rightarrow> HubId \<Rightarrow> ChannelId \<Rightarrow> UserId \<Rightarrow> 'r voice \<Rightarrow> 'r voice" where
  "publish_voice_participant_remove env hub ch user w = publish_to_hub env hub (VoiceRemove hub ch user) w"

definition publish_voice_key_update_to_user :: "'r voice_env \<Rightarrow> HubId \<Rightarrow> ChannelId \<Rightarrow> UserId \<Rightarrow> ChannelKey
    \<Rightarrow> 'r voice \<Rightarrow> 'r voice" where
  "publish_voice_key_update_to_user env hub ch user ck w =
     (case user_session user (v_sessions w) of
        None \<Rightarrow> w
      | Some owner \<Rightarrow>
          (let conns = getSessionIdConnections owner (v_app w)
           in if conns = [] then w
              else emit (make_reliable_outgoing_message conns (e_ser env (VoiceKeyUpdate hub ch (ck_key ck) (ck_index ck)))) w))"

definition publish_voice_key_update :: "'r voice_env \<Rightarrow> HubId \<Rightarrow> ChannelId \<Rightarrow> ChannelKey \<Rightarrow> 'r voice \<Rightarrow> 'r voice" where
  "publish_voice_key_update env hub ch ck w =
     fold (\<lambda>p. publish_voice_key_update_to_user env hub ch (pi_user p) ck) (participants_in_channel ch (v_sessions w)) w"

text \<open>The status one of the user's sessions is sent.\<close>

definition self_status_event :: "bool \<Rightarrow> SessionId option \<Rightarrow> ChannelId option \<Rightarrow> HubId option \<Rightarrow> string option \<Rightarrow> SessionId
    \<Rightarrow> voice_event" where
  "self_status_event conn owner ch hub resume sid =
     (let is_owner = (conn \<and> owner = Some sid)
      in case (conn, ch, hub) of
           (True, Some ch, Some hub) \<Rightarrow>
             VoiceSelfConnected is_owner hub ch
               (if is_owner then (case resume of Some i \<Rightarrow> if i = [] then None else Some i | None \<Rightarrow> None) else None)
         | _ \<Rightarrow> VoiceSelfDisconnected)"

definition publish_self_status :: "'r voice_env \<Rightarrow> UserId \<Rightarrow> bool \<Rightarrow> SessionId option \<Rightarrow> ChannelId option \<Rightarrow> SessionId option
    \<Rightarrow> 'r voice \<Rightarrow> 'r voice" where
  "publish_self_status env user conn owner ch only w =
     (let (hub, w) = (if conn then (case ch of None \<Rightarrow> (None, w) | Some c \<Rightarrow> hub_of env c w) else (None, w));
          resume = (if conn then read_resume user (v_resume w) else None)
      in fold (\<lambda>sid w.
           if only \<noteq> None \<and> only \<noteq> Some sid then w
           else
             (let conns = getSessionIdConnections sid (v_app w)
              in if conns = [] then w
                 else emit (make_reliable_outgoing_message conns (e_ser env (self_status_event conn owner ch hub resume sid))) w))
           (getUserSessionIds user (v_app w)) w)"

section \<open>What publishing leaves alone\<close>

text \<open>Publishing only appends messages and uses the environment.\<close>

definition only_sends :: "'r voice \<Rightarrow> 'r voice \<Rightarrow> bool" where
  "only_sends w w' \<longleftrightarrow> (\<exists>r msgs. w' = w\<lparr> v_ext := r, v_sent := v_sent w @ msgs \<rparr>)"

lemma only_sends_refl [simp]: "only_sends w w"
  unfolding only_sends_def by (rule exI[of _ "v_ext w"], rule exI[of _ "[]"]) simp

lemma only_sends_trans [trans]: "only_sends a b \<Longrightarrow> only_sends b c \<Longrightarrow> only_sends a c"
  unfolding only_sends_def by force

lemma only_sends_fold: "(\<And>x w. only_sends w (f x w)) \<Longrightarrow> only_sends w (fold f xs w)"
  by (induction xs arbitrary: w) (auto intro: only_sends_trans)

lemma only_sends_emit [simp]: "only_sends w (emit msg w)"
  unfolding only_sends_def emit_def by (rule exI[of _ "v_ext w"], rule exI[of _ "[msg]"]) simp

lemma only_sends_ext [simp]: "only_sends w (w\<lparr> v_ext := r \<rparr>)"
  unfolding only_sends_def by (rule exI[of _ r], rule exI[of _ "[]"]) simp

lemma only_sends_hub_of: "hub_of env ch w = (h, w') \<Longrightarrow> only_sends w w'"
  by (auto simp: hub_of_def split: prod.split_asm)

lemma only_sends_to_hub [simp]: "only_sends w (publish_to_hub env hub ev w)"
  by (simp add: publish_to_hub_def Let_def)

lemma only_sends_publish [simp]:
  "only_sends w (publish_voice_snapshot env hub ch started w)"
  "only_sends w (publish_voice_participant_upsert env hub ch user m d w)"
  "only_sends w (publish_voice_participant_remove env hub ch user w)"
  by (simp_all add: publish_voice_snapshot_def publish_voice_participant_upsert_def publish_voice_participant_remove_def)

lemma only_sends_key_to_user [simp]: "only_sends w (publish_voice_key_update_to_user env hub ch user ck w)"
  by (simp add: publish_voice_key_update_to_user_def Let_def split: option.split)

lemma only_sends_key [simp]: "only_sends w (publish_voice_key_update env hub ch ck w)"
  unfolding publish_voice_key_update_def by (rule only_sends_fold) simp

lemma only_sends_self_status [simp]: "only_sends w (publish_self_status env user conn owner ch only w)"
proof -
  obtain hub w1 where h: "(if conn then (case ch of None \<Rightarrow> (None, w) | Some c \<Rightarrow> hub_of env c w) else (None, w)) = (hub, w1)"
    by force
  then have "only_sends w w1"
    by (auto split: if_split_asm option.split_asm dest: only_sends_hub_of)
  then show ?thesis
    unfolding publish_self_status_def h Let_def prod.case
    by (rule only_sends_trans) (rule only_sends_fold, simp)
qed

lemma only_sends_sel:
  assumes "only_sends w w'"
  shows "v_sessions w' = v_sessions w" "v_app w' = v_app w" "v_subs w' = v_subs w" "v_resume w' = v_resume w"
    "v_keys w' = v_keys w" "v_join_seen w' = v_join_seen w" "v_nodes w' = v_nodes w" "v_recon w' = v_recon w"
    "v_takeover w' = v_takeover w" "v_started w' = v_started w" "v_user_ts w' = v_user_ts w" "v_room_ts w' = v_room_ts w"
    "v_recovery_counter w' = v_recovery_counter w" "v_storage_key_ready w' = v_storage_key_ready w"
    "v_key_ttl w' = v_key_ttl w" "v_debounce_ttl w' = v_debounce_ttl w" "v_cluster_url w' = v_cluster_url w"
    "\<exists>msgs. v_sent w' = v_sent w @ msgs"
  using assms by (auto simp: only_sends_def)

end
