(* ===== verification/MediaServer.thy ===== *)
theory MediaServer
  imports VoiceWorld
begin

text \<open>
  \<^verbatim>\<open>LivekitClient\<close> (\<^verbatim>\<open>src/livekit/cli/LivekitClient.cpp\<close>): the calls to a media node. The HTTP request with its
  admin token is \<open>e_post\<close>; \<^const>\<open>None\<close> is the exception of a failed request, of an unparsable reply or of a field of
  the wrong type.
\<close>

section \<open>Reading a reply\<close>

record RemoteParticipant =
  rp_sid :: string
  rp_identity :: UserId
  rp_metadata :: string
  rp_is_publisher :: bool

record RoomInfo =
  ri_room :: ChannelId
  ri_num_participants :: int

text \<open>\<^verbatim>\<open>p.value(key, default)\<close>, which throws when \<^verbatim>\<open>p\<close> is not an object or the field has another type.\<close>

definition value_string :: "string \<Rightarrow> string \<Rightarrow> json \<Rightarrow> string option" where
  "value_string k d p = (case p of JObj fs \<Rightarrow>
     (case jfield k fs of None \<Rightarrow> Some d | Some (JString s) \<Rightarrow> Some s | Some _ \<Rightarrow> None) | _ \<Rightarrow> None)"

definition value_bool :: "string \<Rightarrow> bool \<Rightarrow> json \<Rightarrow> bool option" where
  "value_bool k d p = (case p of JObj fs \<Rightarrow>
     (case jfield k fs of None \<Rightarrow> Some d | Some (JBool b) \<Rightarrow> Some b | Some _ \<Rightarrow> None) | _ \<Rightarrow> None)"

definition value_int :: "string \<Rightarrow> int \<Rightarrow> json \<Rightarrow> int option" where
  "value_int k d p = (case p of JObj fs \<Rightarrow>
     (case jfield k fs of None \<Rightarrow> Some d | Some (JUint n) \<Rightarrow> Some (sint (ucast n :: 32 word))
        | Some (JInt i) \<Rightarrow> Some (sint (word_of_int i :: 32 word)) | Some (JBool b) \<Rightarrow> Some (of_bool b)
        | Some _ \<Rightarrow> None) | _ \<Rightarrow> None)"

definition jcontains :: "string \<Rightarrow> json \<Rightarrow> bool" where
  "jcontains k p = (case p of JObj fs \<Rightarrow> jfield k fs \<noteq> None | _ \<Rightarrow> False)"

text \<open>What a range-based loop over a document visits.\<close>

fun elements_of :: "json \<Rightarrow> json list" where
  "elements_of (JArr xs) = xs"
| "elements_of (JObj fs) = map snd fs"
| "elements_of JNull = []"
| "elements_of j = [j]"

fun all_some :: "('a \<Rightarrow> 'b option) \<Rightarrow> 'a list \<Rightarrow> 'b list option" where
  "all_some f [] = Some []"
| "all_some f (x # xs) = (case f x of None \<Rightarrow> None | Some y \<Rightarrow> map_option (\<lambda>ys. y # ys) (all_some f xs))"

definition participant_of :: "json \<Rightarrow> RemoteParticipant option" where
  "participant_of p =
     (case (value_string ''sid'' [] p, value_string ''identity'' [] p, value_string ''metadata'' [] p,
            if jcontains ''is_publisher'' p then value_bool ''is_publisher'' False p else value_bool ''isPublisher'' False p) of
        (Some sid, Some identity, Some metadata, Some pub) \<Rightarrow>
          Some \<lparr> rp_sid = sid, rp_identity = identity, rp_metadata = metadata, rp_is_publisher = pub \<rparr>
      | _ \<Rightarrow> None)"

definition participants_of :: "json \<Rightarrow> RemoteParticipant list option" where
  "participants_of data =
     (case data of JObj fs \<Rightarrow>
        (case jfield ''participants'' fs of Some (JArr ps) \<Rightarrow> all_some participant_of ps | _ \<Rightarrow> Some [])
      | _ \<Rightarrow> Some [])"

text \<open>A room without a name is skipped.\<close>

definition room_of :: "json \<Rightarrow> RoomInfo option option" where
  "room_of r =
     (case value_string ''name'' [] r of
        None \<Rightarrow> None
      | Some name \<Rightarrow>
          if name = [] then Some None
          else (case (if jcontains ''num_participants'' r then value_int ''num_participants'' 0 r
                      else value_int ''numParticipants'' 0 r) of
                  None \<Rightarrow> None
                | Some n \<Rightarrow> Some (Some \<lparr> ri_room = name, ri_num_participants = n \<rparr>)))"

definition rooms_of :: "json \<Rightarrow> RoomInfo list option" where
  "rooms_of data =
     (case data of JObj fs \<Rightarrow>
        (case jfield ''rooms'' fs of
           None \<Rightarrow> Some []
         | Some rs \<Rightarrow> map_option (List.map_filter id) (all_some room_of (elements_of rs)))
      | _ \<Rightarrow> Some [])"

section \<open>Calls\<close>

definition post_json :: "'r voice_env \<Rightarrow> string \<Rightarrow> string \<Rightarrow> json \<Rightarrow> 'r voice \<Rightarrow> json option \<times> 'r voice" where
  "post_json env host endpoint req w =
     (case e_post env host endpoint req (v_ext w) of (res, r) \<Rightarrow>
        (case res of None \<Rightarrow> None | Some body \<Rightarrow> e_parse env body, w\<lparr> v_ext := r \<rparr>))"

definition ListParticipants :: "'r voice_env \<Rightarrow> string \<Rightarrow> ChannelId \<Rightarrow> 'r voice \<Rightarrow> RemoteParticipant list option \<times> 'r voice" where
  "ListParticipants env host room w =
     (case post_json env host ''/twirp/livekit.RoomService/ListParticipants'' (JObj [(''room'', JString room)]) w of
        (None, w) \<Rightarrow> (None, w)
      | (Some data, w) \<Rightarrow> (participants_of data, w))"

definition RemoveParticipant :: "'r voice_env \<Rightarrow> string \<Rightarrow> ChannelId \<Rightarrow> UserId \<Rightarrow> 'r voice \<Rightarrow> bool \<times> 'r voice" where
  "RemoveParticipant env host room identity w =
     (case e_post env host ''/twirp/livekit.RoomService/RemoveParticipant''
             (JObj [(''room'', JString room), (''identity'', JString identity)]) (v_ext w) of
        (res, r) \<Rightarrow> (res \<noteq> None, w\<lparr> v_ext := r \<rparr>))"

definition ListRooms :: "'r voice_env \<Rightarrow> string \<Rightarrow> 'r voice \<Rightarrow> RoomInfo list option \<times> 'r voice" where
  "ListRooms env host w =
     (case post_json env host ''/twirp/livekit.RoomService/ListRooms'' (JObj []) w of
        (None, w) \<Rightarrow> (None, w)
      | (Some data, w) \<Rightarrow> (rooms_of data, w))"

text \<open>Creating and deleting a room throw on failure; the flag is whether the call returned.\<close>

definition CreateRoom :: "'r voice_env \<Rightarrow> string \<Rightarrow> string \<Rightarrow> string \<Rightarrow> 'r voice \<Rightarrow> bool \<times> 'r voice" where
  "CreateRoom env host name metadata w =
     (case e_post env host ''/twirp/livekit.RoomService/CreateRoom''
             (JObj ([(''name'', JString name), (''emptyTimeout'', JInt 60)] @
                    (if metadata = [] then [] else [(''metadata'', JString metadata)]))) (v_ext w) of
        (res, r) \<Rightarrow> (res \<noteq> None, w\<lparr> v_ext := r \<rparr>))"

definition DeleteRoom :: "'r voice_env \<Rightarrow> string \<Rightarrow> string \<Rightarrow> 'r voice \<Rightarrow> bool \<times> 'r voice" where
  "DeleteRoom env host name w =
     (case e_post env host ''/twirp/livekit.RoomService/DeleteRoom'' (JObj [(''room'', JString name)]) (v_ext w) of
        (res, r) \<Rightarrow> (res \<noteq> None, w\<lparr> v_ext := r \<rparr>))"

lemma only_sends_calls:
  "ListParticipants env host room w = (a, w1) \<Longrightarrow> only_sends w w1"
  "RemoveParticipant env host room u w = (b, w2) \<Longrightarrow> only_sends w w2"
  "ListRooms env host w = (c, w3) \<Longrightarrow> only_sends w w3"
  by (auto simp: ListParticipants_def RemoveParticipant_def ListRooms_def post_json_def split: prod.split_asm option.split_asm)

end
