(* ===== verification/ChannelKeys.thy ===== *)
theory ChannelKeys
  imports MediaServer KeyBlob
begin

text \<open>
  \<^verbatim>\<open>E2EEKeyManager\<close> (\<^verbatim>\<open>src/livekit/crypto\<close>) and \<^verbatim>\<open>ChannelKeyService\<close> (\<^verbatim>\<open>src/app/services/voice\<close>): the end-to-end
  key of a voice channel, its rotation when members come and go, its copy in Redis and its distribution.

  The per-channel rotation lock makes each of the critical sections atomic; the operations below run one at a
  time. Generated keys come from the environment (\<open>e_key\<close>, \<^const>\<open>None\<close> when the generator throws).
\<close>

section \<open>E2EEKeyManager\<close>

definition kKeyringSize :: "32 word" where
  "kKeyringSize = 16"

definition no_key :: ChannelKey where
  "no_key = \<lparr> ck_key = [], ck_index = 0 \<rparr>"

definition get_key :: "ChannelId \<Rightarrow> (ChannelId, ChannelKey) umap \<Rightarrow> ChannelKey option" where
  "get_key ch ks = (case map_of ks ch of None \<Rightarrow> None | Some ck \<Rightarrow> if ck_key ck = [] then None else Some ck)"

definition generate_key :: "'r voice_env \<Rightarrow> 'r voice \<Rightarrow> string option \<times> 'r voice" where
  "generate_key env w = (case e_key env (v_ext w) of (k, r) \<Rightarrow> (k, w\<lparr> v_ext := r \<rparr>))"

text \<open>When the generator throws, \<^verbatim>\<open>channels_[channel]\<close> has already made an empty entry.\<close>

definition get_or_create_key :: "'r voice_env \<Rightarrow> ChannelId \<Rightarrow> 'r voice \<Rightarrow> ChannelKey option \<times> 'r voice" where
  "get_or_create_key env ch w =
     (case get_key ch (v_keys w) of
        Some ck \<Rightarrow> (Some ck, w)
      | None \<Rightarrow>
          (let w = w\<lparr> v_keys := emplace ch no_key (v_keys w) \<rparr>
           in case generate_key env w of
                (None, w) \<Rightarrow> (None, w)
              | (Some k, w) \<Rightarrow>
                  (let ck = \<lparr> ck_key = k, ck_index = 0 \<rparr> in (Some ck, w\<lparr> v_keys := AList.update ch ck (v_keys w) \<rparr>))))"

definition set_key :: "ChannelId \<Rightarrow> string \<Rightarrow> 32 word \<Rightarrow> 'r voice \<Rightarrow> 'r voice" where
  "set_key ch k idx w = w\<lparr> v_keys := AList.update ch \<lparr> ck_key = k, ck_index = idx mod kKeyringSize \<rparr> (v_keys w) \<rparr>"

definition rotate_key :: "'r voice_env \<Rightarrow> ChannelId \<Rightarrow> 'r voice \<Rightarrow> ChannelKey option \<times> 'r voice" where
  "rotate_key env ch w =
     (let w = w\<lparr> v_keys := emplace ch no_key (v_keys w) \<rparr>;
          old = lookup_or no_key ch (v_keys w);
          had_key = (ck_key old \<noteq> [])
      in case generate_key env w of
           (None, w) \<Rightarrow> (None, w)
         | (Some k, w) \<Rightarrow>
             (let ck = \<lparr> ck_key = k, ck_index = (if had_key then (ck_index old + 1) mod kKeyringSize else 0) \<rparr>
              in (Some ck, w\<lparr> v_keys := AList.update ch ck (v_keys w) \<rparr>)))"

definition clear_key :: "ChannelId \<Rightarrow> 'r voice \<Rightarrow> 'r voice" where
  "clear_key ch w = w\<lparr> v_keys := AList.delete ch (v_keys w) \<rparr>"

section \<open>Storage\<close>

definition key_storage_key :: "ChannelId \<Rightarrow> string" where
  "key_storage_key ch = ''voice:e2ee:channel:'' @ ch"

definition index_storage_key :: "ChannelId \<Rightarrow> string" where
  "index_storage_key ch = ''voice:e2ee_idx:channel:'' @ ch"

definition w_get :: "'r voice_env \<Rightarrow> string \<Rightarrow> 'r voice \<Rightarrow> string option \<times> 'r voice" where
  "w_get env k w = (case redis_get (e_redis env) k (v_ext w) of (x, r) \<Rightarrow> (x, w\<lparr> v_ext := r \<rparr>))"

definition w_setex :: "'r voice_env \<Rightarrow> string \<Rightarrow> int \<Rightarrow> string \<Rightarrow> 'r voice \<Rightarrow> 'r voice" where
  "w_setex env k t v w = w\<lparr> v_ext := setex (e_redis env) k t v (v_ext w) \<rparr>"

definition w_del :: "'r voice_env \<Rightarrow> string \<Rightarrow> 'r voice \<Rightarrow> 'r voice" where
  "w_del env k w = w\<lparr> v_ext := redis_del (e_redis env) k (v_ext w) \<rparr>"

text \<open>The stored index; an unreadable one counts as 0.\<close>

definition stored_index :: "string option \<Rightarrow> 32 word" where
  "stored_index raw =
     (case raw of
        None \<Rightarrow> 0
      | Some s \<Rightarrow> if s = [] then 0 else (case stoull s of None \<Rightarrow> 0 | Some n \<Rightarrow> ucast n mod kKeyringSize))"

definition load_from_storage :: "'r voice_env \<Rightarrow> ChannelId \<Rightarrow> 'r voice \<Rightarrow> ChannelKey option \<times> 'r voice" where
  "load_from_storage env ch w =
     (if \<not> v_storage_key_ready w then (None, w)
      else case w_get env (key_storage_key ch) w of
             (None, w) \<Rightarrow> (None, w)
           | (Some raw, w) \<Rightarrow>
               if raw = [] then (None, w)
               else (case e_decrypt env raw of
                       None \<Rightarrow> (None, w)
                     | Some k \<Rightarrow>
                         (case w_get env (index_storage_key ch) w of (raw_idx, w) \<Rightarrow>
                            (let idx = stored_index raw_idx;
                                 w = w_setex env (key_storage_key ch) (v_key_ttl w) raw w;
                                 w = w_setex env (index_storage_key ch) (v_key_ttl w) (to_string (unat idx)) w
                             in (Some \<lparr> ck_key = k, ck_index = idx \<rparr>, w)))))"

definition persist_to_storage :: "'r voice_env \<Rightarrow> ChannelId \<Rightarrow> ChannelKey \<Rightarrow> 'r voice \<Rightarrow> bool \<times> 'r voice" where
  "persist_to_storage env ch ck w =
     (if \<not> v_storage_key_ready w \<or> ck_key ck = [] then (False, w)
      else case e_encrypt env (ck_key ck) (v_ext w) of
             (None, r) \<Rightarrow> (False, w\<lparr> v_ext := r \<rparr>)
           | (Some blob, r) \<Rightarrow>
               (let w = w\<lparr> v_ext := r \<rparr>;
                    w = w_setex env (key_storage_key ch) (v_key_ttl w) blob w;
                    w = w_setex env (index_storage_key ch) (v_key_ttl w) (to_string (unat (ck_index ck))) w
                in (True, w)))"

definition clear_storage :: "'r voice_env \<Rightarrow> ChannelId \<Rightarrow> 'r voice \<Rightarrow> 'r voice" where
  "clear_storage env ch w = w_del env (index_storage_key ch) (w_del env (key_storage_key ch) w)"

section \<open>Debounce\<close>

text \<open>A time point of zero ticks counts as never seen, as the default-constructed time point does.\<close>

definition record_join_and_should_debounce_rotation :: "'r voice_env \<Rightarrow> ChannelId \<Rightarrow> UserId \<Rightarrow> 'r voice \<Rightarrow> bool \<times> 'r voice" where
  "record_join_and_should_debounce_rotation env ch user w =
     (let now = e_steady env (v_ext w);
          by_user = lookup_or [] ch (v_join_seen w);
          last_seen = lookup_or 0 user by_user;
          debounce = (last_seen \<noteq> 0 \<and> now < last_seen + v_debounce_ttl w)
      in (debounce, w\<lparr> v_join_seen := AList.update ch (AList.update user now by_user) (v_join_seen w) \<rparr>))"

definition clear_join_rotation_debounce :: "ChannelId \<Rightarrow> 'r voice \<Rightarrow> 'r voice" where
  "clear_join_rotation_debounce ch w = w\<lparr> v_join_seen := AList.delete ch (v_join_seen w) \<rparr>"

section \<open>Service operations\<close>

definition kDefaultKeyTtl :: int where
  "kDefaultKeyTtl = 24 * 60 * 60"

definition kDefaultJoinRotateDebounceTtl :: int where
  "kDefaultJoinRotateDebounceTtl = 15"

text \<open>The constructor: \<open>getenv\<close> is \<^verbatim>\<open>EnvLoader::get_env\<close> with its default; a clock second has \<open>ticks\<close> ticks.\<close>

definition ChannelKeyService :: "evp \<Rightarrow> int \<Rightarrow> (string \<Rightarrow> string \<Rightarrow> string) \<Rightarrow> 'r voice \<Rightarrow> 'r voice" where
  "ChannelKeyService v ticks getenv w =
     w\<lparr> v_key_ttl := parse_positive_seconds (getenv ''VOICE_E2EE_KEY_TTL_SEC'' []) kDefaultKeyTtl,
        v_debounce_ttl := parse_positive_seconds (getenv ''VOICE_E2EE_JOIN_ROTATE_DEBOUNCE_SEC'' []) kDefaultJoinRotateDebounceTtl * ticks,
        v_storage_key_ready :=
          derive_master_key v (getenv ''VOICE_E2EE_STORAGE_SECRET'' (getenv ''LIVEKIT_API_SECRET'' [])) \<noteq> None \<rparr>"

text \<open>Broadcast of a key after the hub lookup; without the hub nothing is sent.\<close>

definition broadcast_key :: "'r voice_env \<Rightarrow> ChannelId \<Rightarrow> ChannelKey \<Rightarrow> 'r voice \<Rightarrow> 'r voice" where
  "broadcast_key env ch ck w =
     (case hub_of env ch w of
        (None, w) \<Rightarrow> w
      | (Some hub, w) \<Rightarrow> publish_voice_key_update env hub ch ck w)"

definition rotate_and_broadcast :: "'r voice_env \<Rightarrow> ChannelId \<Rightarrow> 'r voice \<Rightarrow> ChannelKey \<times> 'r voice" where
  "rotate_and_broadcast env ch w =
     (case rotate_key env ch w of
        (None, w) \<Rightarrow> (no_key, w)
      | (Some rotated, w) \<Rightarrow>
          (let w = snd (persist_to_storage env ch rotated w);
               w = broadcast_key env ch rotated w
           in (rotated, w)))"

text \<open>The sweep over the nodes: \<^term>\<open>Some False\<close> when some node lists a participant; the second component counts
  the answers.\<close>

fun sweep_nodes :: "'r voice_env \<Rightarrow> ChannelId \<Rightarrow> LivekitNode list \<Rightarrow> nat \<Rightarrow> 'r voice \<Rightarrow> (bool option \<times> nat) \<times> 'r voice" where
  "sweep_nodes env ch [] ok w = ((None, ok), w)"
| "sweep_nodes env ch (n # ns) ok w =
     (case ListParticipants env (private_host n) ch w of
        (None, w) \<Rightarrow> sweep_nodes env ch ns ok w
      | (Some ps, w) \<Rightarrow> if ps \<noteq> [] then ((Some False, ok + 1), w) else sweep_nodes env ch ns (ok + 1) w)"

definition is_channel_effectively_empty :: "'r voice_env \<Rightarrow> ChannelId \<Rightarrow> 'r voice \<Rightarrow> bool option \<times> 'r voice" where
  "is_channel_effectively_empty env ch w =
     (if \<not> is_empty ch (v_sessions w) then (Some False, w)
      else
        (let ns = list_nodes (v_nodes w)
         in if ns = [] then (Some True, w)
            else (case sweep_nodes env ch ns 0 w of
                    ((Some b, _), w) \<Rightarrow> (Some b, w)
                  | ((None, ok), w) \<Rightarrow> (if ok \<noteq> length ns then None else Some True, w))))"

text \<open>The critical section of a join into a channel without tracked members and without a live key.\<close>

definition establish_key :: "'r voice_env \<Rightarrow> ChannelId \<Rightarrow> bool option \<Rightarrow> 'r voice \<Rightarrow> ChannelKey option \<times> 'r voice" where
  "establish_key env ch empty_state w =
     (case get_key ch (v_keys w) of
        Some ck \<Rightarrow> (Some ck, snd (persist_to_storage env ch ck w))
      | None \<Rightarrow>
          if empty_state = Some True then
            (case get_or_create_key env ch w of
               (None, w) \<Rightarrow> (None, w)
             | (Some ck, w) \<Rightarrow> (Some ck, snd (persist_to_storage env ch ck w)))
          else
            (case load_from_storage env ch w of
               (Some loaded, w) \<Rightarrow>
                 (let w = set_key ch (ck_key loaded) (ck_index loaded) w
                  in (Some loaded, snd (persist_to_storage env ch loaded w)))
             | (None, w) \<Rightarrow>
                 (case get_or_create_key env ch w of
                    (None, w) \<Rightarrow> (None, w)
                  | (Some ck, w) \<Rightarrow> (Some ck, broadcast_key env ch ck (snd (persist_to_storage env ch ck w))))))"

definition acquire_for_join :: "'r voice_env \<Rightarrow> ChannelId \<Rightarrow> UserId \<Rightarrow> 'r voice \<Rightarrow> (string + ChannelKey) \<times> 'r voice" where
  "acquire_for_join env ch user w =
     (let already_member = (user_channel user (v_sessions w) = Some ch);
          other_members_present = (\<not> already_member \<and> \<not> is_empty ch (v_sessions w));
          (ck, w) =
            (if other_members_present then
               (case record_join_and_should_debounce_rotation env ch user w of
                  (True, w) \<Rightarrow>
                    (case get_key ch (v_keys w) of
                       Some ck \<Rightarrow> (Some ck, w)
                     | None \<Rightarrow> (case rotate_and_broadcast env ch w of (ck, w) \<Rightarrow> (Some ck, w)))
                | (False, w) \<Rightarrow> (case rotate_and_broadcast env ch w of (ck, w) \<Rightarrow> (Some ck, w)))
             else
               (case get_key ch (v_keys w) of
                  Some ck \<Rightarrow> (Some ck, snd (persist_to_storage env ch ck w))
                | None \<Rightarrow>
                    (case is_channel_effectively_empty env ch w of
                       (empty_state, w) \<Rightarrow> establish_key env ch empty_state w)))
      in case ck of
           None \<Rightarrow> (Inl ''voice_key_unavailable'', w)
         | Some ck \<Rightarrow> if ck_key ck = [] then (Inl ''voice_key_unavailable'', w) else (Inr ck, w))"

definition resync_to_user :: "'r voice_env \<Rightarrow> UserId \<Rightarrow> 'r voice \<Rightarrow> 'r voice" where
  "resync_to_user env user w =
     (case user_channel user (v_sessions w) of
        None \<Rightarrow> w
      | Some ch \<Rightarrow>
          (case get_key ch (v_keys w) of
             None \<Rightarrow> w
           | Some ck \<Rightarrow>
               (case hub_of env ch w of
                  (None, w) \<Rightarrow> w
                | (Some hub, w) \<Rightarrow> publish_voice_key_update_to_user env hub ch user ck w)))"

definition clear_channel_key :: "'r voice_env \<Rightarrow> ChannelId \<Rightarrow> 'r voice \<Rightarrow> 'r voice" where
  "clear_channel_key env ch w = clear_join_rotation_debounce ch (clear_storage env ch (clear_key ch w))"

definition restore_key_for_recovery :: "'r voice_env \<Rightarrow> ChannelId \<Rightarrow> 'r voice \<Rightarrow> 'r voice" where
  "restore_key_for_recovery env ch w =
     (case load_from_storage env ch w of
        (Some ck, w) \<Rightarrow> snd (persist_to_storage env ch ck (set_key ch (ck_key ck) (ck_index ck) w))
      | (None, w) \<Rightarrow> w)"

section \<open>What the key service leaves alone\<close>

text \<open>The key service changes the key containers, uses the environment and appends messages.\<close>

definition key_frame :: "'r voice \<Rightarrow> 'r voice \<Rightarrow> bool" where
  "key_frame w w' \<longleftrightarrow> (\<exists>r msgs ks js. w' = w\<lparr> v_ext := r, v_keys := ks, v_join_seen := js, v_sent := v_sent w @ msgs \<rparr>)"

lemma key_frameI: "key_frame w (w\<lparr> v_ext := r, v_keys := ks, v_join_seen := js, v_sent := v_sent w @ msgs \<rparr>)"
  unfolding key_frame_def by blast

lemma only_sends_key_frame: "only_sends w w' \<Longrightarrow> key_frame w w'"
proof -
  assume "only_sends w w'"
  then obtain r msgs where "w' = w\<lparr> v_ext := r, v_sent := v_sent w @ msgs \<rparr>" unfolding only_sends_def by blast
  then show ?thesis using key_frameI[where w = w and r = r and ks = "v_keys w" and js = "v_join_seen w" and msgs = msgs] by simp
qed

lemma key_frame_refl [simp]: "key_frame w w"
  by (simp add: only_sends_key_frame)

lemma key_frame_trans [trans]: "key_frame a b \<Longrightarrow> key_frame b c \<Longrightarrow> key_frame a c"
  unfolding key_frame_def by force

lemma key_frame_keys [simp]: "key_frame w (w\<lparr> v_keys := ks \<rparr>)"
  using key_frameI[where w = w and r = "v_ext w" and ks = ks and js = "v_join_seen w" and msgs = "[]"] by simp

lemma key_frame_seen [simp]: "key_frame w (w\<lparr> v_join_seen := js \<rparr>)"
  using key_frameI[where w = w and r = "v_ext w" and ks = "v_keys w" and js = js and msgs = "[]"] by simp

lemma key_frame_ext [simp]: "key_frame w (w\<lparr> v_ext := r \<rparr>)"
  by (simp add: only_sends_key_frame)

lemma key_frame_sel:
  assumes "key_frame w w'"
  shows "v_sessions w' = v_sessions w" "v_app w' = v_app w" "v_subs w' = v_subs w" "v_resume w' = v_resume w"
    "v_nodes w' = v_nodes w" "v_recon w' = v_recon w" "v_takeover w' = v_takeover w" "v_started w' = v_started w"
    "v_user_ts w' = v_user_ts w" "v_room_ts w' = v_room_ts w" "v_recovery_counter w' = v_recovery_counter w"
    "v_storage_key_ready w' = v_storage_key_ready w" "v_key_ttl w' = v_key_ttl w" "v_debounce_ttl w' = v_debounce_ttl w"
    "v_cluster_url w' = v_cluster_url w"
  using assms by (auto simp: key_frame_def)

lemma only_sends_w_get: "w_get env k w = (x, w') \<Longrightarrow> only_sends w w'"
  by (auto simp: w_get_def split: prod.split_asm)

lemma only_sends_w_set [simp]: "only_sends w (w_setex env k t v w)" "only_sends w (w_del env k w)"
  by (simp_all add: w_setex_def w_del_def)

lemma only_sends_persist: "only_sends w (snd (persist_to_storage env ch ck w))"
  by (simp add: persist_to_storage_def w_setex_def split: prod.split option.split)

lemma only_sends_load: "load_from_storage env ch w = (x, w') \<Longrightarrow> only_sends w w'"
  unfolding load_from_storage_def w_setex_def w_get_def
  by (auto split: if_split_asm prod.split_asm option.split_asm simp: Let_def)

lemma only_sends_broadcast: "only_sends w (broadcast_key env ch ck w)"
  by (auto simp: broadcast_key_def split: prod.split option.split dest: only_sends_hub_of
      intro: only_sends_trans[OF only_sends_hub_of only_sends_key])

lemma only_sends_sweep: "sweep_nodes env ch ns ok w = (x, w') \<Longrightarrow> only_sends w w'"
  by (induction ns arbitrary: ok w)
    (auto split: prod.split_asm option.split_asm if_split_asm dest: only_sends_calls(1) intro: only_sends_trans)

lemma only_sends_empty_check: "is_channel_effectively_empty env ch w = (x, w') \<Longrightarrow> only_sends w w'"
  by (auto simp: is_channel_effectively_empty_def Let_def split: if_split_asm prod.split_asm option.split_asm
      dest: only_sends_sweep)

lemma key_frame_manager:
  "get_or_create_key env ch w = (x, w1) \<Longrightarrow> key_frame w w1"
  "rotate_key env ch w = (y, w2) \<Longrightarrow> key_frame w w2"
  "key_frame w (set_key ch k i w)" "key_frame w (clear_key ch w)"
  by (auto simp: get_or_create_key_def rotate_key_def generate_key_def set_key_def clear_key_def Let_def
      split: option.split_asm prod.split_asm
      intro!: key_frame_trans[OF key_frame_keys key_frame_ext]
        key_frame_trans[OF key_frame_trans[OF key_frame_keys key_frame_ext] key_frame_keys])

lemma key_frame_rotate_and_broadcast: "rotate_and_broadcast env ch w = (ck, w') \<Longrightarrow> key_frame w w'"
proof -
  assume a: "rotate_and_broadcast env ch w = (ck, w')"
  obtain x w1 where x: "rotate_key env ch w = (x, w1)" by force
  have "key_frame w1 (broadcast_key env ch k (snd (persist_to_storage env ch k w1)))" for k
    by (rule only_sends_key_frame) (rule only_sends_trans[OF only_sends_persist only_sends_broadcast])
  then show ?thesis
    using a x key_frame_manager(2)[OF x]
    by (cases x) (auto simp: rotate_and_broadcast_def Let_def intro: key_frame_trans)
qed

lemma key_frame_establish: "establish_key env ch e w = (ck, w') \<Longrightarrow> key_frame w w'"
proof -
  assume a: "establish_key env ch e w = (ck, w')"
  have p: "key_frame x (snd (persist_to_storage env ch k x))"
    "key_frame x (broadcast_key env ch k (snd (persist_to_storage env ch k x)))" for x k
    by (simp_all add: only_sends_key_frame only_sends_persist only_sends_trans[OF only_sends_persist only_sends_broadcast])
  show ?thesis
    using a unfolding establish_key_def Let_def
    by (auto split: option.split_asm if_split_asm prod.split_asm simp: p
        dest!: only_sends_load[THEN only_sends_key_frame]
        dest: key_frame_manager(1) intro: key_frame_trans p key_frame_trans[OF key_frame_manager(3) p(1)])
qed

lemma key_frame_debounce: "record_join_and_should_debounce_rotation env ch u w = (b, w') \<Longrightarrow> key_frame w w'"
  by (auto simp: record_join_and_should_debounce_rotation_def Let_def)

text \<open>The three ways a join gets its key.\<close>

definition keep_or_rotate :: "'r voice_env \<Rightarrow> ChannelId \<Rightarrow> UserId \<Rightarrow> 'r voice \<Rightarrow> ChannelKey option \<times> 'r voice" where
  "keep_or_rotate env ch user w =
     (case record_join_and_should_debounce_rotation env ch user w of
        (True, w) \<Rightarrow>
          (case get_key ch (v_keys w) of
             Some ck \<Rightarrow> (Some ck, w)
           | None \<Rightarrow> (case rotate_and_broadcast env ch w of (ck, w) \<Rightarrow> (Some ck, w)))
      | (False, w) \<Rightarrow> (case rotate_and_broadcast env ch w of (ck, w) \<Rightarrow> (Some ck, w)))"

definition keep_or_establish :: "'r voice_env \<Rightarrow> ChannelId \<Rightarrow> 'r voice \<Rightarrow> ChannelKey option \<times> 'r voice" where
  "keep_or_establish env ch w =
     (case get_key ch (v_keys w) of
        Some ck \<Rightarrow> (Some ck, snd (persist_to_storage env ch ck w))
      | None \<Rightarrow>
          (case is_channel_effectively_empty env ch w of
             (empty_state, w) \<Rightarrow> establish_key env ch empty_state w))"

definition joins_others :: "ChannelId \<Rightarrow> UserId \<Rightarrow> 'r voice \<Rightarrow> bool" where
  "joins_others ch user w \<longleftrightarrow> user_channel user (v_sessions w) \<noteq> Some ch \<and> \<not> is_empty ch (v_sessions w)"

lemma acquire_for_join_cases:
  "acquire_for_join env ch user w =
     (case (if joins_others ch user w then keep_or_rotate env ch user w else keep_or_establish env ch w) of
        (ck, w) \<Rightarrow>
          (case ck of
             None \<Rightarrow> (Inl ''voice_key_unavailable'', w)
           | Some ck \<Rightarrow> if ck_key ck = [] then (Inl ''voice_key_unavailable'', w) else (Inr ck, w)))"
  unfolding acquire_for_join_def joins_others_def keep_or_rotate_def keep_or_establish_def Let_def by simp

lemma key_frame_keep_or_rotate: "keep_or_rotate env ch u w = (ck, w') \<Longrightarrow> key_frame w w'"
  by (auto simp: keep_or_rotate_def split: prod.split_asm bool.split_asm option.split_asm
      dest!: key_frame_debounce key_frame_rotate_and_broadcast intro: key_frame_trans)

lemma key_frame_keep_or_establish: "keep_or_establish env ch w = (ck, w') \<Longrightarrow> key_frame w w'"
  by (auto simp: keep_or_establish_def only_sends_key_frame[OF only_sends_persist] split: prod.split_asm option.split_asm
      dest!: only_sends_empty_check[THEN only_sends_key_frame] key_frame_establish intro: key_frame_trans)

lemma key_frame_acquire: "acquire_for_join env ch user w = (x, w') \<Longrightarrow> key_frame w w'"
  by (auto simp: acquire_for_join_cases split: prod.split_asm option.split_asm if_split_asm
      dest: key_frame_keep_or_rotate key_frame_keep_or_establish)

lemma only_sends_resync: "only_sends w (resync_to_user env u w)"
proof -
  have "only_sends w (publish_voice_key_update_to_user env h c u k w1)" if "hub_of env c w = (x, w1)" for h c k x w1
    using only_sends_hub_of[OF that] only_sends_key_to_user by (rule only_sends_trans)
  then show ?thesis
    by (auto simp: resync_to_user_def split: option.split prod.split dest: only_sends_hub_of)
qed

lemma key_frame_clear: "key_frame w (clear_channel_key env ch w)"
proof -
  have "key_frame w (clear_key ch w)" by (rule key_frame_manager)
  also have "key_frame (clear_key ch w) (clear_storage env ch (clear_key ch w))"
    unfolding clear_storage_def by (rule only_sends_key_frame) (rule only_sends_trans[OF only_sends_w_set(2) only_sends_w_set(2)])
  finally show ?thesis
    unfolding clear_channel_key_def clear_join_rotation_debounce_def by (rule key_frame_trans) simp
qed

lemma key_frame_restore: "key_frame w (restore_key_for_recovery env ch w)"
proof -
  obtain x w1 where x: "load_from_storage env ch w = (x, w1)" by force
  have "key_frame w1 (snd (persist_to_storage env ch ck (set_key ch (ck_key ck) (ck_index ck) w1)))" for ck
    by (rule key_frame_trans[OF key_frame_manager(3) only_sends_key_frame[OF only_sends_persist]])
  then show ?thesis
    using x only_sends_key_frame[OF only_sends_load[OF x]]
    by (auto simp: restore_key_for_recovery_def split: option.split intro: key_frame_trans)
qed

section \<open>Key indices stay inside the keyring\<close>

definition keys_ok :: "(ChannelId, ChannelKey) umap \<Rightarrow> bool" where
  "keys_ok ks \<longleftrightarrow> (\<forall>ch ck. map_of ks ch = Some ck \<longrightarrow> ck_index ck < kKeyringSize)"

lemma mod_keyring [simp]: "i mod kKeyringSize < kKeyringSize" "0 < kKeyringSize"
  by (simp_all add: kKeyringSize_def word_mod_less_divisor)

lemma widen:
  "unat (ucast (x :: 32 word) :: 64 word) = unat x" "(ucast (ucast (x :: 32 word) :: 64 word) :: 32 word) = x"
  by (transfer, simp)+

lemma keys_ok_update [simp]: "keys_ok ks \<Longrightarrow> ck_index ck < kKeyringSize \<Longrightarrow> keys_ok (AList.update ch ck ks)"
  by (simp add: keys_ok_def)

lemma keys_ok_emplace [simp]: "keys_ok ks \<Longrightarrow> keys_ok (emplace ch no_key ks)"
  by (auto simp: keys_ok_def map_of_emplace no_key_def)

lemma keys_ok_get: "keys_ok ks \<Longrightarrow> get_key ch ks = Some ck \<Longrightarrow> ck_index ck < kKeyringSize \<and> ck_key ck \<noteq> []"
  by (auto simp: keys_ok_def get_key_def split: option.split_asm if_split_asm)

lemma stored_index_ok [simp]: "stored_index raw < kKeyringSize"
  by (simp add: stored_index_def split: option.split)

lemma load_index: "load_from_storage env ch w = (Some ck, w') \<Longrightarrow> ck_index ck < kKeyringSize"
  by (auto simp: load_from_storage_def Let_def split: if_split_asm prod.split_asm option.split_asm)

lemma keys_ok_create:
  assumes "get_or_create_key env ch w = (x, w')" "keys_ok (v_keys w)"
  shows "keys_ok (v_keys w') \<and> (\<forall>ck. x = Some ck \<longrightarrow> ck_index ck < kKeyringSize)"
  using assms by (auto simp: get_or_create_key_def generate_key_def Let_def dest: keys_ok_get
      split: option.split_asm prod.split_asm)

lemma keys_ok_rotate:
  assumes "rotate_key env ch w = (x, w')" "keys_ok (v_keys w)"
  shows "keys_ok (v_keys w') \<and> (\<forall>ck. x = Some ck \<longrightarrow> ck_index ck < kKeyringSize)"
  using assms by (auto simp: rotate_key_def generate_key_def Let_def split: option.split_asm prod.split_asm)

lemma persist_keys [simp]: "v_keys (snd (persist_to_storage env ch ck w)) = v_keys w"
  by (rule only_sends_sel(5)[OF only_sends_persist])

lemma broadcast_keys [simp]: "v_keys (broadcast_key env ch ck w) = v_keys w"
  by (rule only_sends_sel(5)[OF only_sends_broadcast])

lemma keys_ok_rotate_and_broadcast:
  assumes "rotate_and_broadcast env ch w = (ck, w')" "keys_ok (v_keys w)"
  shows "keys_ok (v_keys w') \<and> ck_index ck < kKeyringSize"
  using assms keys_ok_rotate[OF _ assms(2)]
  by (auto simp: rotate_and_broadcast_def Let_def no_key_def split: prod.split_asm option.split_asm)

lemma keys_ok_establish:
  assumes "establish_key env ch e w = (x, w')" "keys_ok (v_keys w)"
  shows "keys_ok (v_keys w') \<and> (\<forall>ck. x = Some ck \<longrightarrow> ck_index ck < kKeyringSize)"
proof -
  have l: "keys_ok (v_keys w1) \<and> (\<forall>ck. y = Some ck \<longrightarrow> ck_index ck < kKeyringSize)"
    if "load_from_storage env ch w = (y, w1)" for y w1
    using load_index[of env ch w _ w1] that only_sends_sel(5)[OF only_sends_load[OF that]] assms(2) by simp
  show ?thesis
    using assms unfolding establish_key_def Let_def
    by (auto split: option.split_asm if_split_asm prod.split_asm simp: set_key_def dest: keys_ok_get keys_ok_create l)
qed

lemma keys_ok_acquire:
  assumes "acquire_for_join env ch user w = (x, w')" "keys_ok (v_keys w)"
  shows "keys_ok (v_keys w') \<and> (\<forall>ck. x = Inr ck \<longrightarrow> ck_index ck < kKeyringSize)"
proof -
  have r: "keys_ok (v_keys w1) \<and> (\<forall>ck. y = Some ck \<longrightarrow> ck_index ck < kKeyringSize)"
    if "keep_or_rotate env ch user w = (y, w1)" for y w1
  proof -
    obtain b w0 where d: "record_join_and_should_debounce_rotation env ch user w = (b, w0)" by force
    then have "keys_ok (v_keys w0)"
      using assms(2) by (auto simp: record_join_and_should_debounce_rotation_def Let_def)
    then show ?thesis
      using that d by (auto simp: keep_or_rotate_def split: bool.split_asm option.split_asm prod.split_asm
          dest: keys_ok_get keys_ok_rotate_and_broadcast)
  qed
  have e: "keys_ok (v_keys w1) \<and> (\<forall>ck. y = Some ck \<longrightarrow> ck_index ck < kKeyringSize)"
    if "keep_or_establish env ch w = (y, w1)" for y w1
  proof (cases "get_key ch (v_keys w)")
    case (Some ck)
    then show ?thesis using that assms(2) by (auto simp: keep_or_establish_def dest: keys_ok_get)
  next
    case None
    obtain b w0 where d: "is_channel_effectively_empty env ch w = (b, w0)" by force
    then have "keys_ok (v_keys w0)" using assms(2) only_sends_sel(5)[OF only_sends_empty_check[OF d]] by simp
    then show ?thesis using None that d keys_ok_establish[of env ch b w0 y w1] by (simp add: keep_or_establish_def)
  qed
  show ?thesis
    using assms(1) unfolding acquire_for_join_cases
    by (auto split: if_split_asm prod.split_asm option.split_asm dest: r e)
qed

datatype key_op = KAcquire ChannelId UserId | KRotate ChannelId | KResync UserId | KClear ChannelId | KRestore ChannelId

fun key_step :: "'r voice_env \<Rightarrow> key_op \<Rightarrow> 'r voice \<Rightarrow> 'r voice" where
  "key_step env (KAcquire ch u) w = snd (acquire_for_join env ch u w)"
| "key_step env (KRotate ch) w = snd (rotate_and_broadcast env ch w)"
| "key_step env (KResync u) w = resync_to_user env u w"
| "key_step env (KClear ch) w = clear_channel_key env ch w"
| "key_step env (KRestore ch) w = restore_key_for_recovery env ch w"

lemma keys_ok_step: "keys_ok (v_keys w) \<Longrightarrow> keys_ok (v_keys (key_step env x w))"
proof (cases x)
  case (KAcquire ch u)
  then show "keys_ok (v_keys w) \<Longrightarrow> ?thesis"
    using keys_ok_acquire[of env ch u w] by (cases "acquire_for_join env ch u w") auto
next
  case (KRotate ch)
  then show "keys_ok (v_keys w) \<Longrightarrow> ?thesis"
    using keys_ok_rotate_and_broadcast[of env ch w] by (cases "rotate_and_broadcast env ch w") auto
next
  case (KResync u)
  then show "keys_ok (v_keys w) \<Longrightarrow> ?thesis" by (simp add: only_sends_sel(5)[OF only_sends_resync])
next
  case (KClear ch)
  then show "keys_ok (v_keys w) \<Longrightarrow> ?thesis"
    by (auto simp: clear_channel_key_def clear_join_rotation_debounce_def clear_storage_def w_del_def clear_key_def keys_ok_def
        split: if_split_asm)
next
  case (KRestore ch)
  assume k: "keys_ok (v_keys w)"
  obtain y w1 where l: "load_from_storage env ch w = (y, w1)" by force
  then have "keys_ok (v_keys w1)" using k only_sends_sel(5)[OF only_sends_load[OF l]] by simp
  then show ?thesis
    using l KRestore by (auto simp: restore_key_for_recovery_def set_key_def split: option.split)
qed

lemma keys_ok_run: "keys_ok (v_keys w) \<Longrightarrow> keys_ok (v_keys (fold (key_step env) ops w))"
  by (induction ops arbitrary: w) (auto intro: keys_ok_step)

section \<open>Who receives a key\<close>

definition key_conns :: "'r voice \<Rightarrow> UserId \<Rightarrow> GlobalConnId list" where
  "key_conns w u = (case user_session u (v_sessions w) of None \<Rightarrow> [] | Some s \<Rightarrow> getSessionIdConnections s (v_app w))"

definition key_messages :: "'r voice_env \<Rightarrow> HubId \<Rightarrow> ChannelId \<Rightarrow> ChannelKey \<Rightarrow> 'r voice \<Rightarrow> UserId list \<Rightarrow> OutgoingMessage list" where
  "key_messages env hub ch ck w us =
     map (\<lambda>u. make_reliable_outgoing_message (key_conns w u) (e_ser env (VoiceKeyUpdate hub ch (ck_key ck) (ck_index ck))))
       (filter (\<lambda>u. key_conns w u \<noteq> []) us)"

lemma key_messages_targets:
  "(\<Union>m \<in> set (key_messages env hub ch ck w us). set (msg_target m)) = (\<Union>u \<in> set us. set (key_conns w u))"
  by (induction us) (simp_all add: key_messages_def make_reliable_outgoing_message_def)

lemma key_to_user_sent:
  "publish_voice_key_update_to_user env hub ch u ck w = w\<lparr> v_sent := v_sent w @ key_messages env hub ch ck w [u] \<rparr>"
  by (simp add: publish_voice_key_update_to_user_def key_messages_def key_conns_def emit_def Let_def split: option.split)

lemma key_conns_frame [simp]: "key_conns (w\<lparr> v_sent := x \<rparr>) u = key_conns w u"
  by (simp add: key_conns_def split: option.split)

lemma key_messages_frame [simp]: "key_messages env hub ch ck (w\<lparr> v_sent := x \<rparr>) us = key_messages env hub ch ck w us"
  by (simp add: key_messages_def)

lemma key_update_sent_fold:
  "fold (\<lambda>p. publish_voice_key_update_to_user env hub ch (pi_user p) ck) ps w
     = w\<lparr> v_sent := v_sent w @ key_messages env hub ch ck w (map pi_user ps) \<rparr>"
proof (induction ps arbitrary: w)
  case (Cons p ps)
  have "key_messages env hub ch ck w [pi_user p] @ key_messages env hub ch ck w (map pi_user ps)
    = key_messages env hub ch ck w (map pi_user (p # ps))"
    by (simp add: key_messages_def)
  then show ?case by (simp add: Cons.IH key_to_user_sent[of env hub ch "pi_user p"] del: list.map)
qed (simp add: key_messages_def)

lemma participants_users: "map pi_user (participants_in_channel ch v) = users_in_channel ch v"
  by (simp add: participants_in_channel_def users_in_channel_def o_def case_prod_beta split: option.split)

lemma key_update_sent:
  "publish_voice_key_update env hub ch ck w
     = w\<lparr> v_sent := v_sent w @ key_messages env hub ch ck w (users_in_channel ch (v_sessions w)) \<rparr>"
  by (simp add: publish_voice_key_update_def key_update_sent_fold participants_users)

lemma users_in_channel_set: "voice_inv v \<Longrightarrow> set (users_in_channel ch v) = {u. user_channel u v = Some ch}"
proof -
  assume i: "voice_inv v"
  have "u \<in> set (users_in_channel ch v) \<longleftrightarrow> part (voice_channels v) ch u \<noteq> None" for u
    by (auto simp: users_in_channel_def part_def lookup_or_def map_of_eq_None_iff split: option.split)
  then show ?thesis using voice_invD(3)[OF i, of ch] by auto
qed

lemma rotate_key_Some:
  assumes "e_key env (v_ext w) = (Some k, r)"
  shows "\<exists>w'. rotate_key env ch w = (Some \<lparr> ck_key = k, ck_index =
       (case get_key ch (v_keys w) of None \<Rightarrow> 0 | Some old \<Rightarrow> (ck_index old + 1) mod kKeyringSize) \<rparr>, w')
     \<and> map_of (v_keys w') ch = Some \<lparr> ck_key = k, ck_index =
       (case get_key ch (v_keys w) of None \<Rightarrow> 0 | Some old \<Rightarrow> (ck_index old + 1) mod kKeyringSize) \<rparr>
     \<and> v_sessions w' = v_sessions w \<and> v_app w' = v_app w \<and> v_sent w' = v_sent w \<and> v_ext w' = r"
  using assms
  by (cases "map_of (v_keys w) ch")
    (simp_all add: rotate_key_def generate_key_def get_key_def Let_def map_of_emplace lookup_or_def no_key_def)

lemma persist_sent [simp]: "v_sent (snd (persist_to_storage env ch ck w)) = v_sent w"
  by (simp add: persist_to_storage_def w_setex_def split: prod.split option.split)

section \<open>A sample world\<close>

text \<open>An environment and a state on which the hypotheses of the properties are shown to hold: one user, \<open>alice\<close>, sits
  in the voice channel \<open>c\<close> of the hub \<open>h\<close> with one connection; \<open>bob\<close> is connected but in no channel.\<close>

definition sample_env :: "mem voice_env" where
  "sample_env = \<lparr>
     e_redis = mem_redis, e_dump = (\<lambda>_. None), e_parse = (\<lambda>_. Some (JObj [])), e_post = (\<lambda>_ _ _ r. (Some [], r)),
     e_token = (\<lambda>_ _ _ _ _. ''token''), e_key = (\<lambda>r. (Some ''fresh'', r)), e_nonce = (\<lambda>r. (''nonce'', r)),
     e_encrypt = (\<lambda>k r. (encrypt_key_blob plain_evp (Some ''0123456789ab'') ''m'' k, r)), e_decrypt = decrypt_key_blob plain_evp ''m'',
     e_hub = (\<lambda>_ r. (Some ''h'', r)), e_steady = mem_clock, e_ticks = 1, e_unix = (\<lambda>r. word_of_int (mem_clock r)),
     e_unix_ms = (\<lambda>r. word_of_int (mem_clock r * 1000)), e_ser = (\<lambda>_. ''bytes'') \<rparr>"

definition sample_voice :: "mem voice" where
  "sample_voice = \<lparr>
     v_ext = mem_empty,
     v_sessions = \<lparr> voice_channels = [(''c'', [(''alice'', no_flags)])],
                    voice_users = [(''alice'', \<lparr> uvs_channel = ''c'', uvs_owner = 1 \<rparr>)] \<rparr>,
     v_app = (sm_new 5)\<lparr> session_id_to_conns := [(1, [GlobalConnId ''n'' ''a'']), (2, [GlobalConnId ''n'' ''b''])] \<rparr>,
     v_subs = subs_new, v_resume = [], v_keys = [(''c'', \<lparr> ck_key = ''old'', ck_index = 15 \<rparr>)], v_join_seen = [],
     v_nodes = nr_new, v_recon = VoiceReconciler 1 [] [] (), v_takeover = [], v_started = [], v_user_ts = [], v_room_ts = [],
     v_recovery_counter = 0, v_sent = [], v_storage_key_ready = True, v_key_ttl = 60, v_debounce_ttl = 15,
     v_cluster_url = ''u'' \<rparr>"

lemma sample_inv: "voice_inv (v_sessions sample_voice)"
  by (auto simp: sample_voice_def voice_inv_def chs_ok_def umap_ok_def part_def lookup_or_def user_channel_def
      split: if_split_asm)

lemma rotation_exact:
  assumes "voice_inv (v_sessions w)" "e_key env (v_ext w) = (Some k, r)" "k \<noteq> []"
    and "\<And>r. fst (e_hub env ch r) = Some hub"
    and "rotate_and_broadcast env ch w = (ck, w')"
  shows "ck = \<lparr> ck_key = k, ck_index = (case get_key ch (v_keys w) of None \<Rightarrow> 0 | Some old \<Rightarrow> (ck_index old + 1) mod 16) \<rparr>
    \<and> get_key ch (v_keys w') = Some ck
    \<and> (\<exists>msgs. v_sent w' = v_sent w @ msgs
         \<and> (\<forall>m \<in> set msgs. msg_action m = SendPayload
               \<lparr> payload_data = Some (e_ser env (VoiceKeyUpdate hub ch k (ck_index ck))), is_binary = True \<rparr> True)
         \<and> (\<Union>m \<in> set msgs. set (msg_target m)) =
             {c. \<exists>u s. user_channel u (v_sessions w) = Some ch \<and> user_session u (v_sessions w) = Some s
                    \<and> c \<in> set (getSessionIdConnections s (v_app w))})"
proof -
  define nk where "nk = \<lparr> ck_key = k, ck_index = (case get_key ch (v_keys w) of None \<Rightarrow> 0 | Some old \<Rightarrow> (ck_index old + 1) mod 16) \<rparr>"
  obtain w1 where w1: "rotate_key env ch w = (Some nk, w1)" "map_of (v_keys w1) ch = Some nk"
    "v_sessions w1 = v_sessions w" "v_app w1 = v_app w" "v_sent w1 = v_sent w"
    using rotate_key_Some[OF assms(2), of ch] unfolding nk_def kKeyringSize_def by auto
  define w2 where "w2 = snd (persist_to_storage env ch nk w1)"
  have w2: "v_sessions w2 = v_sessions w" "v_app w2 = v_app w" "v_sent w2 = v_sent w"
    using only_sends_sel(1,2)[OF only_sends_persist[of w1 env ch nk]] w1 by (simp_all add: w2_def)
  have hub: "hub_of env ch w2 = (Some hub, w2\<lparr> v_ext := snd (e_hub env ch (v_ext w2)) \<rparr>)"
    using assms(4)[of "v_ext w2"] by (simp add: hub_of_def case_prod_beta)
  let ?us = "users_in_channel ch (v_sessions w)"
  have c: "ck = nk" and w': "w' = broadcast_key env ch nk w2"
    using assms(5) w1(1) by (auto simp: rotate_and_broadcast_def w2_def Let_def)
  have kc: "key_conns (w2\<lparr> v_ext := x \<rparr>) u = key_conns w u" for x u
    using w2 by (simp add: key_conns_def split: option.split)
  have sent: "v_sent w' = v_sent w @ key_messages env hub ch nk w ?us"
    unfolding w' broadcast_key_def hub prod.case option.case key_update_sent
    using w2 by (simp add: key_messages_def kc)
  have "get_key ch (v_keys w') = Some nk"
    using w1(2) assms(3) by (simp add: w' w2_def get_key_def nk_def)
  moreover have "set (key_conns w u) = {c. \<exists>s. user_session u (v_sessions w) = Some s \<and> c \<in> set (getSessionIdConnections s (v_app w))}" for u
    by (cases "user_session u (v_sessions w)") (auto simp: key_conns_def)
  then have "(\<Union>m \<in> set (key_messages env hub ch nk w ?us). set (msg_target m)) =
      {c. \<exists>u s. user_channel u (v_sessions w) = Some ch \<and> user_session u (v_sessions w) = Some s
                    \<and> c \<in> set (getSessionIdConnections s (v_app w))}"
    using users_in_channel_set[OF assms(1), of ch]
    by (simp add: key_messages_targets) blast
  moreover have "\<forall>m \<in> set (key_messages env hub ch nk w ?us). msg_action m = SendPayload
               \<lparr> payload_data = Some (e_ser env (VoiceKeyUpdate hub ch k (ck_index nk))), is_binary = True \<rparr> True"
    by (auto simp: key_messages_def make_reliable_outgoing_message_def nk_def)
  ultimately show ?thesis using sent c nk_def by blast
qed

section \<open>Properties\<close>





text \<open>Whatever joins, rotations, resyncs, clears and restores happen, every live key has an index inside the clients'
  16-slot keyring, and a join is answered with such an index.\<close>

theorem key_index_in_keyring:
  assumes "v_keys w = []"
  shows "(\<forall>ch ck. get_key ch (v_keys (fold (key_step env) ops w)) = Some ck \<longrightarrow> ck_index ck < 16)
    \<and> (\<forall>ch user ck. fst (acquire_for_join env ch user (fold (key_step env) ops w)) = Inr ck \<longrightarrow> ck_index ck < 16)"
proof -
  have k: "keys_ok (v_keys (fold (key_step env) ops w))"
    using assms by (intro keys_ok_run) (simp add: keys_ok_def)
  show ?thesis
    using keys_ok_get[OF k] keys_ok_acquire[OF prod.collapse[symmetric] k, of env]
    by (auto simp: kKeyringSize_def)
qed

theorem key_index_in_keyring_witness:
  "get_key ''c'' (v_keys (fold (key_step sample_env) [KRotate ''c'', KRotate ''c''] (sample_voice\<lparr> v_keys := [] \<rparr>)))
      = Some \<lparr> ck_key = ''fresh'', ck_index = 1 \<rparr> \<and> (1 :: 32 word) < 16"
proof -
  have r: "map_of (v_keys (snd (rotate_and_broadcast sample_env ''c'' w))) ''c'' = Some \<lparr> ck_key = ''fresh'',
      ck_index = (case get_key ''c'' (v_keys w) of None \<Rightarrow> 0 | Some old \<Rightarrow> (ck_index old + 1) mod kKeyringSize) \<rparr>" for w
    using rotate_key_Some[of sample_env w "''fresh''" "v_ext w" "''c''"]
    by (auto simp: rotate_and_broadcast_def Let_def sample_env_def)
  have k: "get_key ''c'' (v_keys (fold (key_step sample_env) [KRotate ''c'', KRotate ''c''] (sample_voice\<lparr> v_keys := [] \<rparr>)))
      = Some \<lparr> ck_key = ''fresh'', ck_index = 1 \<rparr>"
    using r[of "snd (rotate_and_broadcast sample_env ''c'' (sample_voice\<lparr> v_keys := [] \<rparr>))"] r[of "sample_voice\<lparr> v_keys := [] \<rparr>"]
    by (simp add: get_key_def kKeyringSize_def)
  have "v_keys (sample_voice\<lparr> v_keys := [] \<rparr>) = []" by simp
  from key_index_in_keyring[OF this, THEN conjunct1, rule_format, OF k] k show ?thesis by simp
qed

text \<open>C30: a key that was persisted survives the loss of the process: a service that starts over the same Redis, with the
  same master key, restores the key and the index the connected clients hold.\<close>

theorem persisted_key_is_restored:
  assumes "redis_laws (e_redis env) look up" "evp_laws v" "length nonce = 12"
    and "v_storage_key_ready w" "v_key_ttl w > 0" "ck_key ck \<noteq> []" "ck_index ck < 16"
    and "e_encrypt env (ck_key ck) (v_ext w) = (encrypt_key_blob v (Some nonce) master (ck_key ck), r)" "up r"
    and "encrypt_key_blob v (Some nonce) master (ck_key ck) \<noteq> None" "e_decrypt env = decrypt_key_blob v master"
    and "v_storage_key_ready w2" "v_ext w2 = v_ext (snd (persist_to_storage env ch ck w))"
  shows "get_key ch (v_keys (restore_key_for_recovery env ch w2)) = Some ck"
proof -
  obtain blob where b: "encrypt_key_blob v (Some nonce) master (ck_key ck) = Some blob" using assms(10) by blast
  note law = setex_law[OF assms(1)] get_law[OF assms(1)]
  let ?i = "to_string (unat (ck_index ck))"
  let ?r1 = "setex (e_redis env) (key_storage_key ch) (v_key_ttl w) blob r"
  let ?r2 = "setex (e_redis env) (index_storage_key ch) (v_key_ttl w) ?i ?r1"
  have ne: "key_storage_key ch \<noteq> index_storage_key ch" by (simp add: key_storage_key_def index_storage_key_def)
  have e2: "v_ext w2 = ?r2"
    using assms(4,6,8,13) b by (simp add: persist_to_storage_def w_setex_def Let_def)
  have "up ?r1" by (rule law(1)[OF assms(9,5)])
  then have u2: "up ?r2" by (rule law(1)[OF _ assms(5)])
  have l2: "look ?r2 = (look r)(key_storage_key ch \<mapsto> (blob, Some (v_key_ttl w)), index_storage_key ch \<mapsto> (?i, Some (v_key_ttl w)))"
    by (simp add: law(2)[OF \<open>up ?r1\<close> assms(5)] law(2)[OF assms(9,5)])
  obtain r3 where r3: "redis_get (e_redis env) (key_storage_key ch) ?r2 = (Some blob, r3)" "up r3" "look r3 = look ?r2"
    using law(3)[OF u2, of "key_storage_key ch"] l2 ne by auto
  obtain r4 where r4: "redis_get (e_redis env) (index_storage_key ch) r3 = (Some ?i, r4)"
    using law(3)[OF r3(2), of "index_storage_key ch"] r3(3) l2 by auto
  have idx: "stored_index (Some ?i) = ck_index ck"
  proof -
    let ?W = "ucast (ck_index ck) :: 64 word"
    have "stoull ?i = Some ?W" using stoull_to_string[of ?W] by (simp add: widen)
    moreover have "(ucast ?W :: 32 word) = ck_index ck" by (rule widen)
    moreover have "ck_index ck mod 16 = ck_index ck" using assms(7) by (rule mod_word_less)
    ultimately show ?thesis by (simp add: stored_index_def kKeyringSize_def)
  qed
  note dec = blob_decrypts[OF assms(2,3) b]
  have "ck_index ck mod 16 = ck_index ck" using assms(7) by (rule mod_word_less)
  then have "map_of (v_keys (restore_key_for_recovery env ch w2)) ch = Some ck"
    using assms(11,12) e2 r3(1) r4 dec idx
    by (simp add: restore_key_for_recovery_def load_from_storage_def w_get_def w_setex_def Let_def set_key_def kKeyringSize_def)
  then show ?thesis using assms(6) by (simp add: get_key_def)
qed

theorem persisted_key_is_restored_witness:
  "get_key ''c'' (v_keys (restore_key_for_recovery sample_env ''c''
     (sample_voice\<lparr> v_keys := [], v_ext := v_ext (snd (persist_to_storage sample_env ''c'' \<lparr> ck_key = ''old'', ck_index = 15 \<rparr> sample_voice)) \<rparr>)))
   = Some \<lparr> ck_key = ''old'', ck_index = 15 \<rparr>"
proof -
  have "encrypt_key_blob plain_evp (Some ''0123456789ab'') ''m'' ''old'' \<noteq> None"
    by (simp add: encrypt_key_blob_def plain_evp_def base64_encode_def)
  then show ?thesis
    using persisted_key_is_restored[of sample_env mem_look mem_alive plain_evp "''0123456789ab''" sample_voice
        "\<lparr> ck_key = ''old'', ck_index = 15 \<rparr>" "''m''" mem_empty
        "sample_voice\<lparr> v_keys := [], v_ext := v_ext (snd (persist_to_storage sample_env ''c'' \<lparr> ck_key = ''old'', ck_index = 15 \<rparr> sample_voice)) \<rparr>"
        "''c''"] plain_evp_laws mem_redis_laws
    by (simp add: sample_env_def sample_voice_def mem_empty_def)
qed

end
