(* ===== verification/VoiceService.thy ===== *)
theory VoiceService
  imports ChannelKeys
begin

unbundle bit_operations_syntax

text \<open>
  \<^verbatim>\<open>VoiceService\<close> (\<^verbatim>\<open>src/app/services/voice/VoiceService.cpp\<close>): the joins, leaves, takeovers and resumptions of voice
  channels, driven by commands and by the webhooks of the media servers, and the reconciliation of the two
  views. Every operation is a function on the shared state of theory \<open>VoiceWorld\<close>; log lines are not modelled.
\<close>

section \<open>Data\<close>

datatype LiveKitEventType = UNKNOWN | ROOM_STARTED | ROOM_FINISHED | PARTICIPANT_JOINED | PARTICIPANT_LEFT
  | PARTICIPANT_CONNECTION_ABORTED | TRACK_PUBLISHED | TRACK_UNPUBLISHED | EGRESS_STARTED | EGRESS_UPDATED
  | EGRESS_ENDED | INGRESS_STARTED | INGRESS_ENDED

definition parseLiveKitEvent :: "string \<Rightarrow> LiveKitEventType" where
  "parseLiveKitEvent event =
     (if event = ''room_started'' then ROOM_STARTED
      else if event = ''room_finished'' then ROOM_FINISHED
      else if event = ''participant_joined'' then PARTICIPANT_JOINED
      else if event = ''participant_left'' then PARTICIPANT_LEFT
      else if event = ''participant_connection_aborted'' then PARTICIPANT_CONNECTION_ABORTED
      else if event = ''track_published'' then TRACK_PUBLISHED
      else if event = ''track_unpublished'' then TRACK_UNPUBLISHED
      else if event = ''egress_started'' then EGRESS_STARTED
      else if event = ''egress_updated'' then EGRESS_UPDATED
      else if event = ''egress_ended'' then EGRESS_ENDED
      else if event = ''ingress_started'' then INGRESS_STARTED
      else if event = ''ingress_ended'' then INGRESS_ENDED
      else UNKNOWN)"

text \<open>The fields of an event that the service reads; the others are only logged.\<close>

record LiveKitEvent =
  lk_type :: LiveKitEventType
  lk_event_id :: string
  lk_channel :: ChannelId
  lk_user :: UserId
  lk_session :: "64 word"
  lk_nonce :: string
  lk_node :: string
  lk_timestamp_ms :: "64 word"

record ParticipantMetadata =
  pm_node_id :: string
  pm_app_session_id :: "64 word"
  pm_intent_nonce :: string
  pm_structured :: bool

record JoinVoiceToken =
  jv_token :: string
  jv_livekit_url :: string
  jv_expires_in :: "64 word"
  jv_e2ee_key :: string
  jv_key_index :: "32 word"
  jv_resume_id :: string
  jv_error_reason :: string

definition no_token :: JoinVoiceToken where
  "no_token = \<lparr> jv_token = [], jv_livekit_url = [], jv_expires_in = 0, jv_e2ee_key = [], jv_key_index = 0,
     jv_resume_id = [], jv_error_reason = [] \<rparr>"

record ResumeTransferResult =
  rt_previous_owner :: SessionId
  rt_channel_id :: ChannelId
  rt_resume_id :: string

definition kTakeoverGuardTtl :: int where
  "kTakeoverGuardTtl = 45"

definition kWebhookDedupTtl :: int where
  "kWebhookDedupTtl = 24 * 60 * 60"

section \<open>Parts of the shared state\<close>

definition on_recon :: "(unit reconciler \<Rightarrow> unit reconciler) \<Rightarrow> 'r voice \<Rightarrow> 'r voice" where
  "on_recon f w = w\<lparr> v_recon := f (v_recon w) \<rparr>"

definition on_nodes :: "(node_registry \<Rightarrow> node_registry) \<Rightarrow> 'r voice \<Rightarrow> 'r voice" where
  "on_nodes f w = w\<lparr> v_nodes := f (v_nodes w) \<rparr>"

definition on_sessions :: "(voice_sessions \<Rightarrow> 'b \<times> voice_sessions) \<Rightarrow> 'r voice \<Rightarrow> 'b \<times> 'r voice" where
  "on_sessions f w = (case f (v_sessions w) of (x, vs) \<Rightarrow> (x, w\<lparr> v_sessions := vs \<rparr>))"

definition take_node :: "'r voice \<Rightarrow> LivekitNode option \<times> 'r voice" where
  "take_node w = (case any_node (v_nodes w) of (n, ns) \<Rightarrow> (n, w\<lparr> v_nodes := ns \<rparr>))"

definition read_pending :: "'r voice_env \<Rightarrow> UserId \<Rightarrow> 'r voice \<Rightarrow> PendingJoinIntent option \<times> 'r voice" where
  "read_pending env user w = (case read_intent (e_redis env) (e_parse env) user (v_ext w) of (i, r) \<Rightarrow> (i, w\<lparr> v_ext := r \<rparr>))"

definition update_pending :: "'r voice_env \<Rightarrow> UserId \<Rightarrow> PendingJoinIntent \<Rightarrow> 'r voice \<Rightarrow> 'r voice" where
  "update_pending env user i w = w\<lparr> v_ext := snd (update_intent (e_redis env) (e_dump env) user i (v_ext w)) \<rparr>"

definition stage_pending_join_intent :: "'r voice_env \<Rightarrow> UserId \<Rightarrow> PendingJoinIntent \<Rightarrow> 64 word \<Rightarrow> 'r voice \<Rightarrow> bool \<times> 'r voice" where
  "stage_pending_join_intent env user i expires_in w =
     (case stage (e_redis env) (e_dump env) (e_unix env (v_ext w)) user i expires_in (v_ext w) of (b, r) \<Rightarrow> (b, w\<lparr> v_ext := r \<rparr>))"

definition clear_pending_join_intent :: "'r voice_env \<Rightarrow> UserId \<Rightarrow> 'r voice \<Rightarrow> 'r voice" where
  "clear_pending_join_intent env user w = w\<lparr> v_ext := clear_intent (e_redis env) user (v_ext w) \<rparr>"

definition set_channel_started_at_unix :: "ChannelId \<Rightarrow> 64 word \<Rightarrow> 'r voice \<Rightarrow> 'r voice" where
  "set_channel_started_at_unix ch t w = w\<lparr> v_started := AList.update ch t (v_started w) \<rparr>"

definition clear_channel_started_at_unix :: "ChannelId \<Rightarrow> 'r voice \<Rightarrow> 'r voice" where
  "clear_channel_started_at_unix ch w = w\<lparr> v_started := AList.delete ch (v_started w) \<rparr>"

definition read_channel_started_at_unix :: "ChannelId \<Rightarrow> 'r voice \<Rightarrow> 64 word" where
  "read_channel_started_at_unix ch w = lookup_or 0 ch (v_started w)"

section \<open>Commands\<close>

definition join_voice :: "'r voice_env \<Rightarrow> ChannelId \<Rightarrow> UserId \<Rightarrow> SessionId \<Rightarrow> string \<Rightarrow> 'r voice \<Rightarrow> JoinVoiceToken \<times> 'r voice" where
  "join_voice env ch user sid nonce w =
     (case take_node w of
        (None, w) \<Rightarrow> (no_token, w)
      | (Some node, w) \<Rightarrow>
          (let w = on_recon (clear_channel_remote_missing_confirmation ch) w
           in case acquire_for_join env ch user w of
                (Inl e, w) \<Rightarrow> (no_token\<lparr> jv_error_reason := e \<rparr>, w)
              | (Inr ck, w) \<Rightarrow>
                  (case rotate_resume_id env user w of
                     (rid, w) \<Rightarrow>
                       (\<lparr> jv_token = e_token env user ch (node_id node) sid nonce, jv_livekit_url = v_cluster_url w,
                          jv_expires_in = 600, jv_e2ee_key = ck_key ck, jv_key_index = ck_index ck,
                          jv_resume_id = rid, jv_error_reason = [] \<rparr>, w))))"

definition contains_participant :: "RemoteParticipant list \<Rightarrow> UserId \<Rightarrow> bool" where
  "contains_participant ps user = list_ex (\<lambda>p. rp_identity p = user) ps"

definition verified_kick_user :: "'r voice_env \<Rightarrow> ChannelId \<Rightarrow> UserId \<Rightarrow> 'r voice \<Rightarrow> bool \<times> 'r voice" where
  "verified_kick_user env ch tgt w =
     (case take_node w of
        (None, w) \<Rightarrow> (True, w)
      | (Some node, w) \<Rightarrow>
          (case RemoveParticipant env (private_host node) ch tgt w of
             (True, w) \<Rightarrow> (True, w)
           | (False, w) \<Rightarrow>
               (case ListParticipants env (private_host node) ch w of
                  (None, w) \<Rightarrow> (False, w)
                | (Some ps, w) \<Rightarrow> (\<not> contains_participant ps tgt, w))))"

definition kick_user :: "'r voice_env \<Rightarrow> ChannelId \<Rightarrow> UserId \<Rightarrow> 'r voice \<Rightarrow> bool \<times> 'r voice" where
  "kick_user env ch tgt w =
     (case take_node w of
        (None, w) \<Rightarrow> (False, w)
      | (Some node, w) \<Rightarrow> RemoveParticipant env (private_host node) ch tgt w)"

definition mark_channel_takeover :: "'r voice_env \<Rightarrow> ChannelId \<Rightarrow> 'r voice \<Rightarrow> 'r voice" where
  "mark_channel_takeover env ch w =
     w\<lparr> v_takeover := AList.update ch (e_steady env (v_ext w) + kTakeoverGuardTtl * e_ticks env) (v_takeover w) \<rparr>"

definition consume_channel_takeover_guard :: "'r voice_env \<Rightarrow> ChannelId \<Rightarrow> 'r voice \<Rightarrow> bool \<times> 'r voice" where
  "consume_channel_takeover_guard env ch w =
     (case map_of (v_takeover w) ch of
        None \<Rightarrow> (False, w)
      | Some t \<Rightarrow>
          if t < e_steady env (v_ext w) then (False, w\<lparr> v_takeover := AList.delete ch (v_takeover w) \<rparr>)
          else (True, w\<lparr> v_takeover := AList.delete ch (v_takeover w) \<rparr>))"

definition on_session_destroyed :: "UserId \<Rightarrow> 'r voice \<Rightarrow> 'r voice" where
  "on_session_destroyed user w =
     (case user_channel user (v_sessions w) of None \<Rightarrow> w | Some ch \<Rightarrow> on_recon (rc_request ch) w)"

definition try_resume_voice_ownership :: "'r voice_env \<Rightarrow> UserId \<Rightarrow> HubId \<Rightarrow> ChannelId \<Rightarrow> string \<Rightarrow> SessionId
    \<Rightarrow> 'r voice \<Rightarrow> ResumeTransferResult option \<times> 'r voice" where
  "try_resume_voice_ownership env user hub ch resume_id next_owner w =
     (if resume_id = [] then (None, w)
      else if user_channel user (v_sessions w) \<noteq> Some ch then (None, w)
      else
        (case hub_of env ch w of
           (h, w) \<Rightarrow>
             if h \<noteq> Some hub then (None, w)
             else
               (case user_session user (v_sessions w) of
                  None \<Rightarrow> (None, w)
                | Some owner \<Rightarrow>
                    if owner = next_owner then (None, w)
                    else if read_resume user (v_resume w) \<noteq> Some resume_id then (None, w)
                    else
                      (case on_sessions (transfer_owner_session user owner next_owner) w of
                         (False, w) \<Rightarrow> (None, w)
                       | (True, w) \<Rightarrow>
                           (case rotate_resume_id env user w of
                              (rid, w) \<Rightarrow> (Some \<lparr> rt_previous_owner = owner, rt_channel_id = ch, rt_resume_id = rid \<rparr>, w))))))"

section \<open>Cleaning up\<close>

definition on_channel_empty :: "'r voice_env \<Rightarrow> ChannelId \<Rightarrow> 'r voice \<Rightarrow> 'r voice" where
  "on_channel_empty env ch w = on_nodes (clear_room ch) (clear_channel_key env ch w)"

definition announce_gone :: "'r voice_env \<Rightarrow> HubId option \<Rightarrow> ChannelId \<Rightarrow> UserId \<Rightarrow> 'r voice \<Rightarrow> 'r voice" where
  "announce_gone env hub ch user w =
     (let w = (case hub of None \<Rightarrow> w | Some h \<Rightarrow> publish_voice_participant_remove env h ch user w);
          w = publish_self_status env user False None None None w
      in clear_resume_id env user w)"

definition on_channel_finish :: "'r voice_env \<Rightarrow> ChannelId \<Rightarrow> 'r voice \<Rightarrow> 'r voice" where
  "on_channel_finish env ch w =
     (let w = on_recon (reset_remote_missing_confirmations ch) w;
          (removed, w) = on_sessions (clear_channel ch) w;
          (hub, w) = hub_of env ch w;
          w = fold (announce_gone env hub ch) removed w;
          w = on_nodes (clear_room ch) w;
          w = clear_channel_key env ch w
      in clear_channel_started_at_unix ch w)"

definition force_local_leave :: "'r voice_env \<Rightarrow> UserId \<Rightarrow> ChannelId \<Rightarrow> 'r voice \<Rightarrow> 'r voice" where
  "force_local_leave env user ch w =
     (let w = on_recon (clear_participant_remote_missing_confirmation ch user) w;
          (became_empty, w) = on_sessions (leave ch user) w;
          (hub, w) = hub_of env ch w;
          w = announce_gone env hub ch user w
      in if became_empty then on_channel_empty env ch (clear_channel_started_at_unix ch w)
         else snd (rotate_and_broadcast env ch w))"

section \<open>Webhooks\<close>

definition webhook_seen_key :: "string \<Rightarrow> string" where
  "webhook_seen_key event_id = ''voice:webhook_seen:'' @ event_id"

definition mark_webhook_event_seen :: "'r voice_env \<Rightarrow> string \<Rightarrow> 'r voice \<Rightarrow> bool \<times> 'r voice" where
  "mark_webhook_event_seen env event_id w =
     (if event_id = [] then (True, w)
      else case setnxex (e_redis env) (webhook_seen_key event_id) kWebhookDedupTtl ''1'' (v_ext w) of
             (None, r) \<Rightarrow> (True, w\<lparr> v_ext := r \<rparr>)
           | (Some first, r) \<Rightarrow> (first, w\<lparr> v_ext := r \<rparr>))"

text \<open>The order check: the newest timestamp per key; reading it makes an entry.\<close>

definition check_order :: "64 word \<Rightarrow> string \<Rightarrow> (string, 64 word) umap \<Rightarrow> bool \<times> (string, 64 word) umap" where
  "check_order ts k m =
     (if ts = 0 \<or> k = [] then (False, m)
      else
        (let last_ts = lookup_or 0 k m
         in if last_ts \<noteq> 0 \<and> ts < last_ts then (True, m)
            else (False, AList.update k (if ts > last_ts then ts else last_ts) m)))"

definition is_stale_participant_event :: "LiveKitEvent \<Rightarrow> 'r voice \<Rightarrow> bool \<times> 'r voice" where
  "is_stale_participant_event ev w =
     (case check_order (lk_timestamp_ms ev) (lk_user ev) (v_user_ts w) of (b, m) \<Rightarrow> (b, w\<lparr> v_user_ts := m \<rparr>))"

definition is_stale_room_event :: "LiveKitEvent \<Rightarrow> 'r voice \<Rightarrow> bool \<times> 'r voice" where
  "is_stale_room_event ev w =
     (case check_order (lk_timestamp_ms ev) (lk_channel ev) (v_room_ts w) of (b, m) \<Rightarrow> (b, w\<lparr> v_room_ts := m \<rparr>))"

text \<open>The intent an arriving participant is admitted under, \<^const>\<open>None\<close> when nothing correlates with the event.\<close>

definition correlated_intent :: "LiveKitEvent \<Rightarrow> PendingJoinIntent option \<Rightarrow> SessionId list \<Rightarrow> PendingJoinIntent option" where
  "correlated_intent ev pending sids =
     (case pending of
        Some i \<Rightarrow>
          if lk_channel ev \<noteq> to_channel i then None
          else if lk_session ev \<noteq> 0 \<or> lk_nonce ev \<noteq> []
          then (if lk_session ev = session_id i \<and> intent_nonce i \<noteq> [] \<and> lk_nonce ev = intent_nonce i then Some i else None)
          else (if length sids = 1 \<and> hd sids = session_id i then Some i else None)
      | None \<Rightarrow>
          if lk_session ev = 0 \<and> lk_nonce ev = [] \<and> length sids = 1
          then Some (empty_intent\<lparr> session_id := hd sids, to_channel := lk_channel ev \<rparr>)
          else None)"

definition already_owner_here :: "LiveKitEvent \<Rightarrow> voice_sessions \<Rightarrow> bool" where
  "already_owner_here ev v \<longleftrightarrow> lk_session ev \<noteq> 0 \<and> user_channel (lk_user ev) v = Some (lk_channel ev)
     \<and> user_session (lk_user ev) v = Some (lk_session ev)"

text \<open>The session update of an admitted participant; the flag says whether the channel was empty before.\<close>

definition enter_channel :: "LiveKitEvent \<Rightarrow> PendingJoinIntent \<Rightarrow> voice_sessions \<Rightarrow> bool \<times> voice_sessions" where
  "enter_channel ev i v =
     (case join (lk_channel ev) (lk_user ev) (session_id i) v of
        (first, v) \<Rightarrow>
          (let v = snd (set_deafened (lk_user ev) (pji_deafened i) v);
               v = (if pji_deafened i then v else snd (set_muted (lk_user ev) (pji_muted i) v))
           in (first, v)))"

definition final_flags :: "LiveKitEvent \<Rightarrow> voice_sessions \<Rightarrow> bool \<times> bool" where
  "final_flags ev v =
     (case filter (\<lambda>p. pi_user p = lk_user ev) (participants_in_channel (lk_channel ev) v) of
        [] \<Rightarrow> (False, False) | p # _ \<Rightarrow> (pi_muted p, pi_deafened p))"

definition settle_join_intent :: "'r voice_env \<Rightarrow> UserId \<Rightarrow> PendingJoinIntent \<Rightarrow> 'r voice \<Rightarrow> 'r voice" where
  "settle_join_intent env user i w =
     (if has_from_channel i \<and> from_channel i \<noteq> to_channel i
      then (if old_leave_seen i then clear_pending_join_intent env user w
            else update_pending env user (i\<lparr> new_join_seen := True \<rparr>) w)
      else clear_pending_join_intent env user w)"

definition admit_participant :: "'r voice_env \<Rightarrow> LiveKitEvent \<Rightarrow> PendingJoinIntent \<Rightarrow> bool \<Rightarrow> 'r voice \<Rightarrow> 'r voice" where
  "admit_participant env ev i had_pending w =
     (let ch = lk_channel ev; user = lk_user ev;
          (first, w) = on_sessions (enter_channel ev i) w;
          w = (if first then set_channel_started_at_unix ch
                 (if lk_timestamp_ms ev > 0 then lk_timestamp_ms ev div 1000 else e_unix env (v_ext w)) w else w);
          (m, d) = final_flags ev (v_sessions w);
          w = (if read_resume user (v_resume w) = None then snd (rotate_resume_id env user w) else w);
          (hub, w) = hub_of env ch w;
          w = (case hub of
                 None \<Rightarrow> w
               | Some h \<Rightarrow>
                   (let w = (if first then publish_voice_snapshot env h ch (read_channel_started_at_unix ch w) w else w)
                    in publish_voice_participant_upsert env h ch user m d w));
          w = publish_self_status env user True (Some (session_id i)) (Some ch) None w;
          w = resync_to_user env user w
      in if had_pending then settle_join_intent env user i w else w)"

definition handle_participant_joined :: "'r voice_env \<Rightarrow> LiveKitEvent \<Rightarrow> 'r voice \<Rightarrow> 'r voice" where
  "handle_participant_joined env ev w =
     (let w = on_recon (clear_channel_remote_missing_confirmation (lk_channel ev)) w;
          w = on_recon (clear_participant_remote_missing_confirmation (lk_channel ev) (lk_user ev)) w;
          (pending, w) = read_pending env (lk_user ev) w
      in case correlated_intent ev pending (getUserSessionIds (lk_user ev) (v_app w)) of
           Some i \<Rightarrow> admit_participant env ev i (pending \<noteq> None) w
         | None \<Rightarrow>
             if already_owner_here ev (v_sessions w) then w
             else (let w = on_recon (rc_request (lk_channel ev)) w in snd (kick_user env (lk_channel ev) (lk_user ev) w)))"

definition nonce_mismatch :: "LiveKitEvent \<Rightarrow> PendingJoinIntent option \<Rightarrow> bool" where
  "nonce_mismatch ev pending =
     (case pending of
        None \<Rightarrow> False
      | Some i \<Rightarrow> to_channel i = lk_channel ev \<and> intent_nonce i \<noteq> [] \<and> lk_nonce ev \<noteq> [] \<and> lk_nonce ev \<noteq> intent_nonce i)"

definition leaving_current_voice :: "LiveKitEvent \<Rightarrow> PendingJoinIntent option \<Rightarrow> voice_sessions \<Rightarrow> bool" where
  "leaving_current_voice ev pending v \<longleftrightarrow>
     user_channel (lk_user ev) v = Some (lk_channel ev)
     \<and> (lk_session ev = 0 \<or> user_session (lk_user ev) v = Some (lk_session ev)) \<and> \<not> nonce_mismatch ev pending"

definition old_leave_for_switch :: "LiveKitEvent \<Rightarrow> PendingJoinIntent option \<Rightarrow> bool" where
  "old_leave_for_switch ev pending =
     (case pending of
        None \<Rightarrow> False
      | Some i \<Rightarrow> has_from_channel i \<and> from_channel i = lk_channel ev \<and> from_channel i \<noteq> to_channel i)"

definition settle_leave_intent :: "'r voice_env \<Rightarrow> UserId \<Rightarrow> PendingJoinIntent option \<Rightarrow> 'r voice \<Rightarrow> 'r voice" where
  "settle_leave_intent env user pending w =
     (case pending of
        None \<Rightarrow> w
      | Some i \<Rightarrow>
          if new_join_seen i then clear_pending_join_intent env user w
          else update_pending env user (i\<lparr> old_leave_seen := True \<rparr>) w)"

definition vacate_channel :: "'r voice_env \<Rightarrow> ChannelId \<Rightarrow> bool \<Rightarrow> 'r voice \<Rightarrow> 'r voice" where
  "vacate_channel env ch none_left w =
     (if none_left then on_channel_empty env ch (clear_channel_started_at_unix ch w) else snd (rotate_and_broadcast env ch w))"

definition handle_participant_left :: "'r voice_env \<Rightarrow> LiveKitEvent \<Rightarrow> 'r voice \<Rightarrow> 'r voice" where
  "handle_participant_left env ev w =
     (let ch = lk_channel ev; user = lk_user ev;
          (pending, w) = read_pending env user w;
          leaving = leaving_current_voice ev pending (v_sessions w);
          switching = old_leave_for_switch ev pending
      in if leaving \<or> switching then
           (let w = on_recon (clear_participant_remote_missing_confirmation ch user) w;
                (became_empty, w) = on_sessions (leave ch user) w;
                (hub, w) = hub_of env ch w;
                w = (case hub of None \<Rightarrow> w | Some h \<Rightarrow> publish_voice_participant_remove env h ch user w)
            in if leaving then
                 (let w = publish_self_status env user False None None None w;
                      w = (if switching then w else clear_resume_id env user w);
                      w = vacate_channel env ch became_empty w
                  in if switching then settle_leave_intent env user pending w else w)
               else settle_leave_intent env user pending (vacate_channel env ch (is_empty ch (v_sessions w)) w))
         else on_recon (rc_request ch) w)"

definition room_node_id :: "ChannelId \<Rightarrow> 'r voice \<Rightarrow> string" where
  "room_node_id ch w = (case get_room_node ch (v_nodes w) of None \<Rightarrow> [] | Some n \<Rightarrow> node_id n)"

definition on_room_finished :: "'r voice_env \<Rightarrow> ChannelId \<Rightarrow> 'r voice \<Rightarrow> 'r voice" where
  "on_room_finished env ch w =
     (let w = on_nodes (decrement_room ch) w
      in case consume_channel_takeover_guard env ch w of
           (True, w) \<Rightarrow> w
         | (False, w) \<Rightarrow> on_recon (rc_request ch) (on_recon (reset_remote_missing_confirmations ch) w))"

definition on_participant_joined :: "'r voice_env \<Rightarrow> LiveKitEvent \<Rightarrow> 'r voice \<Rightarrow> 'r voice" where
  "on_participant_joined env ev w =
     (let ch = lk_channel ev; user = lk_user ev;
          cur = room_node_id ch w;
          before = user_channel user (v_sessions w);
          (node, w) = (if lk_node ev \<noteq> [] \<and> cur = [] then (lk_node ev, on_nodes (bind_room ch (lk_node ev)) w) else (cur, w));
          w = handle_participant_joined env ev w
      in if user_channel user (v_sessions w) = Some ch \<and> before \<noteq> Some ch \<and> node \<noteq> []
         then on_nodes (increment_user node) w else w)"

definition on_participant_left :: "'r voice_env \<Rightarrow> LiveKitEvent \<Rightarrow> 'r voice \<Rightarrow> 'r voice" where
  "on_participant_left env ev w =
     (let ch = lk_channel ev; user = lk_user ev;
          cur = room_node_id ch w;
          mismatch = (lk_node ev \<noteq> [] \<and> cur \<noteq> [] \<and> lk_node ev \<noteq> cur);
          before = user_channel user (v_sessions w);
          w = handle_participant_left env ev w;
          w = (if before = Some ch \<and> user_channel user (v_sessions w) \<noteq> Some ch
               then (if lk_node ev \<noteq> [] then on_nodes (decrement_user (lk_node ev)) w
                     else if cur \<noteq> [] then on_nodes (decrement_user cur) w else w)
               else w)
      in if mismatch then on_recon (rc_request ch) w else w)"

definition dispatch_livekit_event :: "'r voice_env \<Rightarrow> LiveKitEvent \<Rightarrow> 'r voice \<Rightarrow> 'r voice" where
  "dispatch_livekit_event env ev w =
     (case lk_type ev of
        ROOM_STARTED \<Rightarrow>
          (let cur = room_node_id (lk_channel ev) w in if cur \<noteq> [] then on_nodes (increment_room (lk_channel ev) cur) w else w)
      | ROOM_FINISHED \<Rightarrow> on_room_finished env (lk_channel ev) w
      | PARTICIPANT_JOINED \<Rightarrow> on_participant_joined env ev w
      | PARTICIPANT_LEFT \<Rightarrow> on_participant_left env ev w
      | PARTICIPANT_CONNECTION_ABORTED \<Rightarrow> on_participant_left env ev w
      | _ \<Rightarrow> w)"

definition stale_event :: "LiveKitEvent \<Rightarrow> 'r voice \<Rightarrow> bool \<times> 'r voice" where
  "stale_event ev w =
     (if lk_type ev \<in> {PARTICIPANT_JOINED, PARTICIPANT_LEFT, PARTICIPANT_CONNECTION_ABORTED} then is_stale_participant_event ev w
      else if lk_type ev \<in> {ROOM_STARTED, ROOM_FINISHED} then is_stale_room_event ev w
      else (False, w))"

definition on_livekit_event :: "'r voice_env \<Rightarrow> LiveKitEvent \<Rightarrow> 'r voice \<Rightarrow> 'r voice" where
  "on_livekit_event env ev w =
     (case mark_webhook_event_seen env (lk_event_id ev) w of
        (False, w) \<Rightarrow> w
      | (True, w) \<Rightarrow>
          (case stale_event ev w of
             (True, w) \<Rightarrow> on_recon (rc_request (lk_channel ev)) w
           | (False, w) \<Rightarrow> dispatch_livekit_event env ev w))"

section \<open>Reconciliation\<close>

definition empty_metadata :: ParticipantMetadata where
  "empty_metadata = \<lparr> pm_node_id = [], pm_app_session_id = 0, pm_intent_nonce = [], pm_structured = False \<rparr>"

definition parse_participant_metadata :: "'r voice_env \<Rightarrow> string \<Rightarrow> ParticipantMetadata" where
  "parse_participant_metadata env raw =
     (if raw = [] then empty_metadata
      else case e_parse env raw of
             Some (JObj md) \<Rightarrow>
               \<lparr> pm_node_id = (case jstring ''node_id'' md of Some s \<Rightarrow> s | None \<Rightarrow> []),
                 pm_app_session_id = (case jfield ''app_session_id'' md of
                     Some (JUint n) \<Rightarrow> n
                   | Some (JString s) \<Rightarrow> (case stoull s of Some n \<Rightarrow> n | None \<Rightarrow> 0)
                   | _ \<Rightarrow> 0),
                 pm_intent_nonce = (case jstring ''intent_nonce'' md of Some s \<Rightarrow> s | None \<Rightarrow> []),
                 pm_structured = True \<rparr>
           | _ \<Rightarrow> empty_metadata\<lparr> pm_node_id := raw \<rparr>)"

text \<open>The node that the participants' metadata agree on: \<^term>\<open>Some n\<close> once one is seen, \<^const>\<open>None\<close> as long as
  none is; a conflict ends the search without a result.\<close>

fun agree_on_node :: "'r voice_env \<Rightarrow> node_registry \<Rightarrow> RemoteParticipant list \<Rightarrow> string option \<Rightarrow> string option" where
  "agree_on_node env ns [] found = found"
| "agree_on_node env ns (p # ps) found =
     (let n = pm_node_id (parse_participant_metadata env (rp_metadata p))
      in if n = [] \<or> get_node n ns = None then agree_on_node env ns ps found
         else (case found of
                 None \<Rightarrow> agree_on_node env ns ps (Some n)
               | Some m \<Rightarrow> if m = n then agree_on_node env ns ps found else None))"

definition resolve_participant_node_assignment :: "'r voice_env \<Rightarrow> node_registry \<Rightarrow> (UserId, RemoteParticipant) umap
    \<Rightarrow> string option" where
  "resolve_participant_node_assignment env ns ps = agree_on_node env ns (map snd ps) None"

definition has_active_owner_connection :: "UserId \<Rightarrow> ChannelId \<Rightarrow> 'r voice \<Rightarrow> bool" where
  "has_active_owner_connection user ch w \<longleftrightarrow>
     user_channel user (v_sessions w) = Some ch
     \<and> (case user_session user (v_sessions w) of None \<Rightarrow> False | Some s \<Rightarrow> sessionIdHasConnections s (v_app w))"

definition active_owner_connection_count :: "ChannelId \<Rightarrow> 'r voice \<Rightarrow> nat" where
  "active_owner_connection_count ch w =
     length (filter (\<lambda>p. has_active_owner_connection (pi_user p) ch w) (participants_in_channel ch (v_sessions w)))"

text \<open>The participants of a reply by user; the first entry of a user counts, one without an identity does not.\<close>

definition by_user :: "RemoteParticipant list \<Rightarrow> (UserId, RemoteParticipant) umap" where
  "by_user ps = fold (\<lambda>p m. if rp_identity p = [] then m else emplace (rp_identity p) p m) ps []"

definition query_cluster :: "'r voice_env \<Rightarrow> ChannelId \<Rightarrow> 'r voice
    \<Rightarrow> (string \<times> ReconcileQuerySummary \<times> (UserId, RemoteParticipant) umap) \<times> 'r voice" where
  "query_cluster env ch w =
     (case take_node w of
        (None, w) \<Rightarrow>
          (([], \<lparr> configured_queries = 0, successful_queries = 0, failed_queries = 0, participant_count = 0 \<rparr>, []), w)
      | (Some node, w) \<Rightarrow>
          (case ListParticipants env (private_host node) ch w of
             (None, w) \<Rightarrow>
               ((private_host node, \<lparr> configured_queries = 1, successful_queries = 0, failed_queries = 1, participant_count = 0 \<rparr>, []), w)
           | (Some ps, w) \<Rightarrow>
               ((private_host node,
                 \<lparr> configured_queries = 1, successful_queries = 1, failed_queries = 0, participant_count = length ps \<rparr>, by_user ps), w)))"

definition reconcile_room_missing :: "'r voice_env \<Rightarrow> ChannelId \<Rightarrow> string \<Rightarrow> ReconcileQuerySummary \<Rightarrow> 'r voice \<Rightarrow> 'r voice" where
  "reconcile_room_missing env ch reason q w =
     (if \<not> all_queries_succeeded q then w
      else if \<not> unanimously_absent q then on_recon (clear_channel_remote_missing_confirmation ch) w
      else if is_empty ch (v_sessions w) then on_recon (clear_channel_remote_missing_confirmation ch) w
      else if active_owner_connection_count ch w > 0 then on_recon (clear_channel_remote_missing_confirmation ch) w
      else
        (case confirm_channel_remote_missing ch reason (e_steady env (v_ext w)) (v_recon w) of
           (gone, rc) \<Rightarrow>
             (let w = w\<lparr> v_recon := rc \<rparr> in if gone then on_channel_finish env ch w else w)))"

definition reconcile_local_participant :: "'r voice_env \<Rightarrow> ChannelId \<Rightarrow> (UserId, RemoteParticipant) umap \<Rightarrow> UserId \<Rightarrow> 'r voice \<Rightarrow> 'r voice" where
  "reconcile_local_participant env ch remote user w =
     (if map_of remote user \<noteq> None then w
      else if has_active_owner_connection user ch w
      then on_recon (clear_participant_remote_missing_confirmation ch user) w
      else
        (case confirm_participant_remote_missing ch user ''participant_missing_in_livekit'' (e_steady env (v_ext w)) (v_recon w) of
           (gone, rc) \<Rightarrow>
             (let w = w\<lparr> v_recon := rc \<rparr> in if gone then force_local_leave env user ch w else w)))"

definition correlation_valid :: "ChannelId \<Rightarrow> ParticipantMetadata \<Rightarrow> PendingJoinIntent option \<Rightarrow> SessionId list \<Rightarrow> bool" where
  "correlation_valid ch md pending sids =
     (if (case pending of None \<Rightarrow> False | Some i \<Rightarrow> to_channel i = ch)
      then (case pending of
              None \<Rightarrow> False
            | Some i \<Rightarrow> pm_app_session_id md \<noteq> 0 \<and> pm_app_session_id md = session_id i
                \<and> intent_nonce i \<noteq> [] \<and> pm_intent_nonce md \<noteq> [] \<and> intent_nonce i = pm_intent_nonce md)
      else pm_app_session_id md \<noteq> 0 \<and> pm_app_session_id md \<in> set sids)"

definition synthetic_event :: "'r voice_env \<Rightarrow> ChannelId \<Rightarrow> UserId \<Rightarrow> ParticipantMetadata \<Rightarrow> 'r voice \<Rightarrow> LiveKitEvent" where
  "synthetic_event env ch user md w =
     \<lparr> lk_type = PARTICIPANT_JOINED, lk_event_id = [], lk_channel = ch, lk_user = user, lk_session = pm_app_session_id md,
       lk_nonce = pm_intent_nonce md, lk_node = pm_node_id md, lk_timestamp_ms = e_unix_ms env (v_ext w) \<rparr>"

definition reconcile_remote_participant :: "'r voice_env \<Rightarrow> ChannelId \<Rightarrow> string \<Rightarrow> bool \<Rightarrow> UserId list \<Rightarrow> UserId \<times> RemoteParticipant
    \<Rightarrow> 'r voice \<Rightarrow> 'r voice" where
  "reconcile_remote_participant env ch host all_ok local_users up w =
     (let (user, p) = up;
          w = on_recon (clear_participant_remote_missing_confirmation ch user) w
      in if user \<in> set local_users then w
         else
           (let md = parse_participant_metadata env (rp_metadata p);
                (pending, w) = read_pending env user w
            in if \<not> correlation_valid ch md pending (getUserSessionIds user (v_app w))
               then (if all_ok \<and> host \<noteq> [] then snd (RemoveParticipant env host ch user w) else w)
               else handle_participant_joined env (synthetic_event env ch user md w) w))"

definition reconcile_channel_state :: "'r voice_env \<Rightarrow> ChannelId \<Rightarrow> string \<Rightarrow> 'r voice \<Rightarrow> 'r voice" where
  "reconcile_channel_state env ch reason w =
     (case query_cluster env ch w of
        ((host, q, remote), w) \<Rightarrow>
          (let local_users = users_in_channel ch (v_sessions w);
               all_ok = all_queries_succeeded q;
               w = (if all_ok then w else on_recon (reset_remote_missing_confirmations ch) w)
           in if remote = [] then reconcile_room_missing env ch reason q w
              else
                (let w = on_recon (clear_channel_remote_missing_confirmation ch) w;
                     w = (if all_ok then fold (reconcile_local_participant env ch remote) local_users w else w)
                 in fold (reconcile_remote_participant env ch host all_ok local_users) remote w)))"

definition reconcile_full_state :: "'r voice_env \<Rightarrow> string \<Rightarrow> 'r voice \<Rightarrow> 'r voice" where
  "reconcile_full_state env reason w =
     (let chans = fold set_insert (tracked_missing_channels (remote_missing_evidence (v_recon w)))
                    (fold set_insert (active_channels (v_sessions w)) []);
          (chans, w) =
            (case take_node w of
               (None, w) \<Rightarrow> (chans, w)
             | (Some node, w) \<Rightarrow>
                 (case ListRooms env (private_host node) w of
                    (None, w) \<Rightarrow> (chans, w)
                  | (Some rooms, w) \<Rightarrow>
                      (fold (\<lambda>ri cs. if ri_num_participants ri > 0 \<or> \<not> is_empty (ri_room ri) (v_sessions w)
                                     then set_insert (ri_room ri) cs else cs) rooms chans, w)))
      in fold (\<lambda>ch. reconcile_channel_state env ch reason) chans w)"

text \<open>The callbacks that the reconciler's loop runs.\<close>

definition voice_target :: "'r voice_env \<Rightarrow> 'r voice reconcile_target" where
  "voice_target env = \<lparr> rt_channel = reconcile_channel_state env, rt_full = reconcile_full_state env \<rparr>"

section \<open>Recovery after a restart\<close>

definition next_recovery_session_id :: "'r voice \<Rightarrow> SessionId \<times> 'r voice" where
  "next_recovery_session_id w =
     (push_bit 63 1 OR v_recovery_counter w, w\<lparr> v_recovery_counter := v_recovery_counter w + 1 \<rparr>)"

definition recover_resume_id :: "'r voice_env \<Rightarrow> UserId \<Rightarrow> 'r voice \<Rightarrow> 'r voice" where
  "recover_resume_id env user w =
     (if read_resume user (v_resume w) \<noteq> None then w
      else case load_resume_id env user w of
             (Some _, w) \<Rightarrow> w
           | (None, w) \<Rightarrow> snd (rotate_resume_id env user w))"

definition recover_participant :: "'r voice_env \<Rightarrow> string \<Rightarrow> ChannelId \<Rightarrow> 64 word \<Rightarrow> RemoteParticipant
    \<Rightarrow> (UserId, ChannelId) umap \<times> 'r voice \<Rightarrow> (UserId, ChannelId) umap \<times> 'r voice" where
  "recover_participant env node room started p acc =
     (let (users, w) = acc; user = rp_identity p
      in if user = [] \<or> map_of users user \<noteq> None then (users, w)
         else
           (let md = parse_participant_metadata env (rp_metadata p);
                (sid, w) = (if pm_app_session_id md \<noteq> 0 then (pm_app_session_id md, w) else next_recovery_session_id w);
                (first, w) = on_sessions (join room user sid) w;
                w = snd (on_sessions (set_muted user False) w);
                w = snd (on_sessions (set_deafened user False) w);
                w = (if first then set_channel_started_at_unix room started w else w);
                n = (if pm_node_id md \<noteq> [] then pm_node_id md else node);
                w = (if n \<noteq> [] then on_nodes (increment_user n) w else w)
            in (AList.update user room users, recover_resume_id env user w)))"

definition recover_room :: "'r voice_env \<Rightarrow> LivekitNode \<Rightarrow> 64 word \<Rightarrow> RoomInfo
    \<Rightarrow> ChannelId list \<times> (UserId, ChannelId) umap \<times> 'r voice \<Rightarrow> ChannelId list \<times> (UserId, ChannelId) umap \<times> 'r voice" where
  "recover_room env node started ri acc =
     (let (rooms, users, w) = acc; room = ri_room ri;
          w = (if room \<in> set rooms then w
               else set_channel_started_at_unix room started
                      (on_nodes (increment_room room (node_id node)) (on_nodes (bind_room room (node_id node)) w)));
          rooms = set_insert room rooms
      in case ListParticipants env (private_host node) room w of
           (None, w) \<Rightarrow> (rooms, users, w)
         | (Some ps, w) \<Rightarrow>
             (let w = (case resolve_participant_node_assignment env (v_nodes w) (by_user ps) of
                         None \<Rightarrow> w
                       | Some n \<Rightarrow> on_nodes (increment_room room n) (on_nodes (bind_room room n) w));
                  w = (if ps = [] then w else restore_key_for_recovery env room w);
                  (users, w) = fold (recover_participant env (node_id node) room started) ps (users, w)
              in (rooms, users, w)))"

definition recover_node :: "'r voice_env \<Rightarrow> 64 word \<Rightarrow> LivekitNode
    \<Rightarrow> ChannelId list \<times> (UserId, ChannelId) umap \<times> 'r voice \<Rightarrow> ChannelId list \<times> (UserId, ChannelId) umap \<times> 'r voice" where
  "recover_node env started node acc =
     (let (rooms, users, w) = acc
      in case ListRooms env (private_host node) w of
           (None, w) \<Rightarrow> (rooms, users, w)
         | (Some ris, w) \<Rightarrow> fold (recover_room env node started) ris (rooms, users, w))"

definition forget_channel :: "ChannelId \<Rightarrow> 'r voice \<Rightarrow> 'r voice" where
  "forget_channel ch w = on_nodes (clear_room ch) (snd (on_sessions (clear_channel ch) w))"

definition recover_from_restart :: "'r voice_env \<Rightarrow> 'r voice \<Rightarrow> 'r voice" where
  "recover_from_restart env w =
     (let w = fold forget_channel (active_channels (v_sessions w)) w;
          w = w\<lparr> v_started := [], v_user_ts := [], v_room_ts := [], v_resume := clear_all_resume (v_resume w) \<rparr>;
          started = e_unix env (v_ext w)
      in snd (snd (fold (recover_node env started) (list_nodes (v_nodes w)) ([], [], w))))"

section \<open>Construction\<close>

text \<open>The constructor registers the configured nodes, given by id, public and private address; registering throws on
  a repeated id.\<close>

definition new_node :: "string \<times> string \<times> string \<Rightarrow> LivekitNode" where
  "new_node c = \<lparr> node_id = fst c, public_host = fst (snd c), private_host = snd (snd c), active_rooms = 0, node_users = 0, load_score = 0 \<rparr>"

fun register_nodes :: "(string \<times> string \<times> string) list \<Rightarrow> node_registry \<Rightarrow> string + node_registry" where
  "register_nodes [] ns = Inr ns"
| "register_nodes (c # cs) ns = (case register_node (new_node c) ns of Inl e \<Rightarrow> Inl e | Inr ns \<Rightarrow> register_nodes cs ns)"

definition VoiceService :: "evp \<Rightarrow> int \<Rightarrow> (string \<Rightarrow> string \<Rightarrow> string) \<Rightarrow> (string \<times> string \<times> string) list \<Rightarrow> string
    \<Rightarrow> session_manager \<Rightarrow> subscriptions \<Rightarrow> 'r \<Rightarrow> string + 'r voice" where
  "VoiceService v ticks getenv cfgs url app subs r =
     (case register_nodes cfgs nr_new of
        Inl e \<Rightarrow> Inl e
      | Inr ns \<Rightarrow>
          Inr (ChannelKeyService v ticks getenv
            \<lparr> v_ext = r, v_sessions = voice_new, v_app = app, v_subs = subs, v_resume = [], v_keys = [], v_join_seen = [],
              v_nodes = ns,
              v_recon = VoiceReconciler ticks (getenv ''LIVEKIT_RECONCILE_INTERVAL_SEC'' []) (getenv ''LIVEKIT_MISSING_CLEAR_SEC'' []) (),
              v_takeover = [], v_started = [], v_user_ts = [], v_room_ts = [], v_recovery_counter = 1, v_sent = [],
              v_storage_key_ready = False, v_key_ttl = 0, v_debounce_ttl = 0, v_cluster_url = url \<rparr>))"

end
