(* ===== verification/VoiceInvariants.thy ===== *)
theory VoiceInvariants
  imports VoiceService
begin

text \<open>
  What the operations of \<open>VoiceService\<close> keep: a relation \<open>affects U\<close> says that an operation preserves the invariant of
  the shared state and the application sessions, and changes the voice membership of no user outside \<open>U\<close>. The
  rules of the collection \<open>affects\<close> bound each operation; the properties of the service follow from them.
\<close>

named_theorems affects \<open>what an operation may change\<close>

section \<open>The relation\<close>

definition voice_ok :: "'r voice \<Rightarrow> bool" where
  "voice_ok w \<longleftrightarrow> voice_inv (v_sessions w) \<and> nr_inv (v_nodes w) \<and> keys_ok (v_keys w)"

definition affects :: "UserId set \<Rightarrow> 'r voice \<Rightarrow> 'r voice \<Rightarrow> bool" where
  "affects U w w' \<longleftrightarrow> (voice_ok w \<longrightarrow> voice_ok w' \<and> v_app w' = v_app w
     \<and> (\<forall>u. u \<notin> U \<longrightarrow> voice_abs (v_sessions w') u = voice_abs (v_sessions w) u))"

lemma affects_refl [simp]: "affects U w w"
  by (simp add: affects_def)

lemma affects_trans [trans]: "affects U a b \<Longrightarrow> affects U b c \<Longrightarrow> affects U a c"
  unfolding affects_def by (metis (no_types))

lemma affects_mono: "affects U w w' \<Longrightarrow> U \<subseteq> V \<Longrightarrow> affects V w w'"
  unfolding affects_def by blast

lemma affects_fold: "(\<And>x w. x \<in> set xs \<Longrightarrow> affects U w (f x w)) \<Longrightarrow> affects U w (fold f xs w)"
proof (induction xs arbitrary: w)
  case (Cons x xs)
  have "affects U w (f x w)" by (rule Cons.prems) simp
  also have "affects U (f x w) (fold f xs (f x w))" by (rule Cons.IH) (simp add: Cons.prems)
  finally show ?case by simp
qed simp

text \<open>Changes outside the sessions, nodes and keys.\<close>

lemma affects_same:
  assumes "v_sessions w' = v_sessions w" "v_app w' = v_app w" "v_nodes w' = v_nodes w" "v_keys w' = v_keys w"
  shows "affects U w w'"
  using assms by (simp add: affects_def voice_ok_def)

lemma affects_only_sends: "only_sends w w' \<Longrightarrow> affects U w w'"
  by (rule affects_same) (simp_all add: only_sends_sel)

lemma affects_key_frame: "key_frame w w' \<Longrightarrow> (keys_ok (v_keys w) \<Longrightarrow> keys_ok (v_keys w')) \<Longrightarrow> affects U w w'"
  by (simp add: affects_def voice_ok_def key_frame_sel)

lemma affects_recon: "affects U w (on_recon f w)" "affects U w (w\<lparr> v_recon := rc \<rparr>)"
  by (simp_all add: affects_same on_recon_def)

lemma affects_started:
  "affects U w (set_channel_started_at_unix ch t w)" "affects U w (clear_channel_started_at_unix ch w)"
  by (simp_all add: affects_same set_channel_started_at_unix_def clear_channel_started_at_unix_def)

lemma affects_pending:
  "affects U w (clear_pending_join_intent env u w)" "affects U w (update_pending env u i w)"
  by (simp_all add: affects_same clear_pending_join_intent_def update_pending_def)

lemma affects_read_pending: "read_pending env u w = (i, w') \<Longrightarrow> affects U w w'"
  by (auto simp: read_pending_def affects_same split: prod.split_asm)

lemma affects_stage: "stage_pending_join_intent env u i e w = (b, w') \<Longrightarrow> affects U w w'"
  by (auto simp: stage_pending_join_intent_def affects_same split: prod.split_asm)

lemma affects_takeover: "affects U w (mark_channel_takeover env ch w)"
  by (simp add: affects_same mark_channel_takeover_def)

lemma affects_guard: "consume_channel_takeover_guard env ch w = (b, w') \<Longrightarrow> affects U w w'"
  by (auto simp: consume_channel_takeover_guard_def affects_same split: option.split_asm if_split_asm)

lemma affects_stale: "stale_event ev w = (b, w') \<Longrightarrow> affects U w w'"
  by (auto simp: stale_event_def is_stale_participant_event_def is_stale_room_event_def affects_same
      split: prod.split_asm if_split_asm)

lemma affects_seen: "mark_webhook_event_seen env i w = (b, w') \<Longrightarrow> affects U w w'"
  by (auto simp: mark_webhook_event_seen_def affects_same split: prod.split_asm if_split_asm option.split_asm)

lemma affects_resume:
  "rotate_resume_id env u w = (x, w1) \<Longrightarrow> affects U w w1"
  "load_resume_id env u w = (y, w2) \<Longrightarrow> affects U w w2"
  "affects U w (clear_resume_id env u w)"
  by (auto simp: rotate_resume_id_def load_resume_id_def clear_resume_id_def rotate_resume_def load_resume_def clear_resume_def
      affects_same split: prod.split_asm option.split_asm if_split_asm)

lemma affects_rotate_resume: "affects U w (snd (rotate_resume_id env u w))"
  by (rule affects_resume(1)[of env u w "fst (rotate_resume_id env u w)"]) simp

lemma affects_publish:
  "affects U w (publish_voice_snapshot env hub ch started w)"
  "affects U w (publish_voice_participant_upsert env hub ch user m d w)"
  "affects U w (publish_voice_participant_remove env hub ch user w)"
  "affects U w (publish_self_status env user c owner chan only w)"
  "affects U w (resync_to_user env user w)"
  by (simp_all add: affects_only_sends only_sends_resync)

lemma affects_hub: "hub_of env ch w = (h, w') \<Longrightarrow> affects U w w'"
  by (rule affects_only_sends) (rule only_sends_hub_of)

lemma affects_calls:
  "ListParticipants env host room w = (a, w1) \<Longrightarrow> affects U w w1"
  "RemoveParticipant env host room u w = (b, w2) \<Longrightarrow> affects U w w2"
  "ListRooms env host w = (c, w3) \<Longrightarrow> affects U w w3"
  by (blast intro: affects_only_sends only_sends_calls)+

lemma affects_remove: "affects U w (snd (RemoveParticipant env host room u w))"
  by (rule affects_calls(2)[of env host room u w "fst (RemoveParticipant env host room u w)"]) simp

section \<open>Nodes and keys\<close>

lemma any_from_cursor: "\<exists>c. snd (any_from n r) = r\<lparr> round_robin_cursor := c \<rparr>"
proof (induction n arbitrary: r)
  case 0
  show ?case by (rule exI[of _ "round_robin_cursor r"]) simp
next
  case (Suc n)
  obtain c where "snd (any_from n (r\<lparr> round_robin_cursor := round_robin_cursor r + 1 \<rparr>)) = r\<lparr> round_robin_cursor := c \<rparr>"
    using Suc[of "r\<lparr> round_robin_cursor := round_robin_cursor r + 1 \<rparr>"] by auto
  then show ?case by (auto simp: Let_def split: option.split)
qed

lemma any_node_cursor: "\<exists>c. snd (any_node r) = r\<lparr> round_robin_cursor := c \<rparr>"
proof (cases "node_order r = []")
  case True
  then show ?thesis by (intro exI[of _ "round_robin_cursor r"]) (simp add: any_node_def)
next
  case False
  then show ?thesis using any_from_cursor[of "length (node_order r)" r] by (simp add: any_node_def)
qed

lemma affects_take_node: "take_node w = (n, w') \<Longrightarrow> affects U w w'"
proof -
  assume a: "take_node w = (n, w')"
  obtain c where "snd (any_node (v_nodes w)) = (v_nodes w)\<lparr> round_robin_cursor := c \<rparr>"
    using any_node_cursor by blast
  then have "w' = w\<lparr> v_nodes := (v_nodes w)\<lparr> round_robin_cursor := c \<rparr> \<rparr>"
    using a by (auto simp: take_node_def split: prod.split_asm)
  then show ?thesis by (simp add: affects_def voice_ok_def cursor_cong)
qed

lemma affects_nodes:
  "affects U w (on_nodes (clear_room ch) w)" "affects U w (on_nodes (bind_room ch n) w)"
  "affects U w (on_nodes (increment_room ch n) w)" "affects U w (on_nodes (decrement_room ch) w)"
  "affects U w (on_nodes (increment_user n) w)" "affects U w (on_nodes (decrement_user n) w)"
  by (auto simp: affects_def voice_ok_def on_nodes_def intro: inv_intros)

lemma affects_key_step: "key_frame w (key_step env x w) \<Longrightarrow> affects U w (key_step env x w)"
  by (rule affects_key_frame) (auto intro: keys_ok_step)

lemma affects_rotate: "affects U w (snd (rotate_and_broadcast env ch w))"
  using affects_key_step[of w env "KRotate ch"]
    key_frame_rotate_and_broadcast[of env ch w "fst (rotate_and_broadcast env ch w)"] by simp

lemma affects_clear_key: "affects U w (clear_channel_key env ch w)"
  using affects_key_step[of w env "KClear ch"] by (simp add: key_frame_clear)

lemma affects_restore: "affects U w (restore_key_for_recovery env ch w)"
  using affects_key_step[of w env "KRestore ch"] by (simp add: key_frame_restore)

lemma affects_acquire: "acquire_for_join env ch u w = (x, w') \<Longrightarrow> affects U w w'"
  using affects_key_step[of w env "KAcquire ch u"] key_frame_acquire[of env ch u w x w'] by simp

section \<open>Sessions\<close>

lemma affects_on_sessions:
  assumes "\<And>A. repr A (v_sessions w) \<Longrightarrow> \<exists>B. repr B (snd (f (v_sessions w))) \<and> (\<forall>u. u \<notin> U \<longrightarrow> B u = A u)"
  shows "affects U w (snd (on_sessions f w))"
  unfolding affects_def
proof
  assume ok: "voice_ok w"
  then obtain B where B: "repr B (snd (f (v_sessions w)))" "\<forall>u. u \<notin> U \<longrightarrow> B u = voice_abs (v_sessions w) u"
    using assms[OF inv_repr] unfolding voice_ok_def by blast
  have "snd (on_sessions f w) = w\<lparr> v_sessions := snd (f (v_sessions w)) \<rparr>"
    by (simp add: on_sessions_def split: prod.split)
  then show "voice_ok (snd (on_sessions f w)) \<and> v_app (snd (on_sessions f w)) = v_app w
    \<and> (\<forall>u. u \<notin> U \<longrightarrow> voice_abs (v_sessions (snd (on_sessions f w))) u = voice_abs (v_sessions w) u)"
    using ok B repr_inv[OF B(1)] by (simp add: voice_ok_def)
qed

lemma affects_join: "u \<in> U \<Longrightarrow> affects U w (snd (on_sessions (join ch u sid) w))"
proof (rule affects_on_sessions)
  fix A assume "u \<in> U" "repr A (v_sessions w)"
  then show "\<exists>B. repr B (snd (join ch u sid (v_sessions w))) \<and> (\<forall>x. x \<notin> U \<longrightarrow> B x = A x)"
    by (intro exI[of _ "A(u \<mapsto> (ch, sid, carried A u sid))"]) (auto simp: join_repr)
qed

lemma affects_leave: "u \<in> U \<Longrightarrow> affects U w (snd (on_sessions (leave ch u) w))"
proof (rule affects_on_sessions)
  fix A assume "u \<in> U" "repr A (v_sessions w)"
  then show "\<exists>B. repr B (snd (leave ch u (v_sessions w))) \<and> (\<forall>x. x \<notin> U \<longrightarrow> B x = A x)"
    by (intro exI[of _ "if member_of A ch u then A(u := None) else A"]) (auto simp: leave_repr)
qed

lemma affects_set_muted: "u \<in> U \<Longrightarrow> affects U w (snd (on_sessions (set_muted u b) w))"
proof (rule affects_on_sessions)
  fix A assume u: "u \<in> U" and r: "repr A (v_sessions w)"
  show "\<exists>B. repr B (snd (set_muted u b (v_sessions w))) \<and> (\<forall>x. x \<notin> U \<longrightarrow> B x = A x)"
    by (rule exI, rule conjI[OF set_muted_repr(1)[OF r]]) (use u in auto)
qed

lemma affects_set_deafened: "u \<in> U \<Longrightarrow> affects U w (snd (on_sessions (set_deafened u b) w))"
proof (rule affects_on_sessions)
  fix A assume u: "u \<in> U" and r: "repr A (v_sessions w)"
  show "\<exists>B. repr B (snd (set_deafened u b (v_sessions w))) \<and> (\<forall>x. x \<notin> U \<longrightarrow> B x = A x)"
    by (rule exI, rule conjI[OF set_deafened_repr(1)[OF r]]) (use u in auto)
qed

lemma affects_transfer: "u \<in> U \<Longrightarrow> affects U w (snd (on_sessions (transfer_owner_session u a b) w))"
proof (rule affects_on_sessions)
  fix A assume "u \<in> U" "repr A (v_sessions w)"
  then show "\<exists>B. repr B (snd (transfer_owner_session u a b (v_sessions w))) \<and> (\<forall>x. x \<notin> U \<longrightarrow> B x = A x)"
    by (intro exI[of _ "if owns A u a then A(u := map_option (\<lambda>(c, sid, p). (c, b, p)) (A u)) else A"]) (auto simp: transfer_repr)
qed

lemma affects_clear_channel:
  "{u. user_channel u (v_sessions w) = Some ch} \<subseteq> U \<Longrightarrow> affects U w (snd (on_sessions (clear_channel ch) w))"
proof (rule affects_on_sessions)
  fix A assume u: "{u. user_channel u (v_sessions w) = Some ch} \<subseteq> U" and r: "repr A (v_sessions w)"
  have "user_channel u (v_sessions w) = map_option fst (A u)" for u
    using repr_inv[OF r] user_channel_abs[of "v_sessions w" u] by simp
  then have "member_of A ch u \<Longrightarrow> u \<in> U" for u using u by (auto simp: member_of_def)
  then show "\<exists>B. repr B (snd (clear_channel ch (v_sessions w))) \<and> (\<forall>x. x \<notin> U \<longrightarrow> B x = A x)"
    using clear_channel_repr(1)[OF r, of ch] by (intro exI[of _ "\<lambda>u. if member_of A ch u then None else A u"]) auto
qed

lemma enter_channel_steps:
  "snd (on_sessions (enter_channel ev i) w) =
     (let w = snd (on_sessions (join (lk_channel ev) (lk_user ev) (session_id i)) w);
          w = snd (on_sessions (set_deafened (lk_user ev) (pji_deafened i)) w)
      in if pji_deafened i then w else snd (on_sessions (set_muted (lk_user ev) (pji_muted i)) w))"
  by (simp add: enter_channel_def on_sessions_def Let_def split: prod.split)

lemma affects_enter:
  assumes u: "lk_user ev \<in> U"
  shows "affects U w (snd (on_sessions (enter_channel ev i) w))"
proof -
  define a where "a = snd (on_sessions (join (lk_channel ev) (lk_user ev) (session_id i)) w)"
  define b where "b = snd (on_sessions (set_deafened (lk_user ev) (pji_deafened i)) a)"
  have "affects U w a" "affects U a b" unfolding a_def b_def by (rule affects_join[OF u] affects_set_deafened[OF u])+
  then have ab: "affects U w b" by (rule affects_trans)
  have "affects U b (snd (on_sessions (set_muted (lk_user ev) (pji_muted i)) b))" by (rule affects_set_muted[OF u])
  then show ?thesis
    using ab affects_trans[OF ab] unfolding enter_channel_steps Let_def a_def[symmetric] b_def[symmetric] by simp
qed

section \<open>Rules for sequences of operations\<close>

text \<open>The same facts for an operation at the end of a sequence, and the rules that follow the control flow of the code.\<close>

lemmas affects_after = affects_trans[rotated]

lemmas affects_ops [affects] =
  affects_recon[THEN affects_after] affects_started[THEN affects_after] affects_pending[THEN affects_after]
  affects_takeover[THEN affects_after] affects_resume(3)[THEN affects_after] affects_rotate_resume[THEN affects_after]
  affects_publish[THEN affects_after] affects_remove[THEN affects_after] affects_nodes[THEN affects_after]
  affects_rotate[THEN affects_after] affects_clear_key[THEN affects_after] affects_restore[THEN affects_after]
  affects_join[THEN affects_after] affects_leave[THEN affects_after] affects_set_muted[THEN affects_after]
  affects_set_deafened[THEN affects_after] affects_transfer[THEN affects_after] affects_enter[THEN affects_after]

lemma affects_snd:
  assumes "\<And>x w'. p = (x, w') \<Longrightarrow> affects U w w'" "affects U a w"
  shows "affects U a (snd p)"
  using affects_trans[OF assms(2) assms(1)[of "fst p" "snd p"]] by simp

lemma affects_pairs [affects]:
  "affects U a w \<Longrightarrow> affects U a (snd (read_pending env u w))"
  "affects U a w \<Longrightarrow> affects U a (snd (stage_pending_join_intent env u i e w))"
  "affects U a w \<Longrightarrow> affects U a (snd (consume_channel_takeover_guard env ch w))"
  "affects U a w \<Longrightarrow> affects U a (snd (stale_event ev w))"
  "affects U a w \<Longrightarrow> affects U a (snd (mark_webhook_event_seen env eid w))"
  "affects U a w \<Longrightarrow> affects U a (snd (load_resume_id env u w))"
  "affects U a w \<Longrightarrow> affects U a (snd (hub_of env ch w))"
  "affects U a w \<Longrightarrow> affects U a (snd (ListParticipants env host ch w))"
  "affects U a w \<Longrightarrow> affects U a (snd (ListRooms env host w))"
  "affects U a w \<Longrightarrow> affects U a (snd (take_node w))"
  "affects U a w \<Longrightarrow> affects U a (snd (acquire_for_join env ch u w))"
  by (erule affects_snd[rotated]; erule affects_read_pending affects_stage affects_guard affects_stale affects_seen
      affects_resume(2) affects_hub affects_calls(1) affects_calls(3) affects_take_node affects_acquire)+

lemma affects_flow [affects]:
  "(b \<Longrightarrow> affects U w x) \<Longrightarrow> (\<not> b \<Longrightarrow> affects U w y) \<Longrightarrow> affects U w (if b then x else y)"
  "(z = None \<Longrightarrow> affects U w x) \<Longrightarrow> (\<And>v. z = Some v \<Longrightarrow> affects U w (f v)) \<Longrightarrow> affects U w (case z of None \<Rightarrow> x | Some v \<Rightarrow> f v)"
  "(c \<Longrightarrow> affects U w x) \<Longrightarrow> (\<not> c \<Longrightarrow> affects U w y) \<Longrightarrow> affects U w (case c of True \<Rightarrow> x | False \<Rightarrow> y)"
  "(\<And>v. q = Inl v \<Longrightarrow> affects U w (g v)) \<Longrightarrow> (\<And>v. q = Inr v \<Longrightarrow> affects U w (h v)) \<Longrightarrow> affects U w (case q of Inl v \<Rightarrow> g v | Inr v \<Rightarrow> h v)"
  by (auto split: option.split bool.split sum.split)

lemma affects_bind [affects]:
  "affects U w (snd p) \<Longrightarrow> (\<And>x w'. p = (x, w') \<Longrightarrow> affects U w w' \<Longrightarrow> affects U w (k x w')) \<Longrightarrow> affects U w (case p of (x, w') \<Rightarrow> k x w')"
  by (cases p) simp

lemma affects_let [affects]:
  "affects U w t \<Longrightarrow> (\<And>w'. w' = t \<Longrightarrow> affects U w w' \<Longrightarrow> affects U w (f w')) \<Longrightarrow> affects U w (Let t f)"
  by (simp add: Let_def)

lemma affects_let_pair [affects]:
  "affects U w (snd p) \<Longrightarrow> (\<And>x w'. p = (x, w') \<Longrightarrow> affects U w w' \<Longrightarrow> affects U w (k x w')) \<Longrightarrow> affects U w (Let p (\<lambda>(x, w'). k x w'))"
  by (cases p) (simp add: Let_def)

text \<open>Bindings of plain values.\<close>

lemma affects_let_value [affects]:
  "affects U w (f t) \<Longrightarrow> affects U w (Let (t :: string) f)"
  "affects U w (g c) \<Longrightarrow> affects U w (Let (c :: bool) g)"
  "(\<And>b d. p = (b :: bool, d :: bool) \<Longrightarrow> affects U w (h b d)) \<Longrightarrow> affects U w (Let p (\<lambda>(b, d). h b d))"
  by (auto simp: Let_def split: prod.split)

lemma affects_fold_after [affects]:
  assumes "affects U w a" "\<And>x w'. x \<in> set xs \<Longrightarrow> affects U w' (f x w')"
  shows "affects U w (fold f xs a)"
  by (rule affects_trans[OF assms(1) affects_fold]) (rule assms(2))

lemmas snd_flow = prod.case_distrib[of snd] option.case_distrib[of snd] bool.case_distrib[of snd] sum.case_distrib[of snd] if_distrib[of snd]

section \<open>Operations of the service\<close>

lemma affects_on_channel_empty: "affects U w (on_channel_empty env ch w)"
  unfolding on_channel_empty_def by (intro affects affects_refl)

lemmas affects_on_channel_empty_after [affects] = affects_on_channel_empty[THEN affects_after]

lemma affects_announce_gone: "affects U w (announce_gone env hub ch u w)"
  unfolding announce_gone_def by (intro affects affects_refl) assumption+

lemmas affects_announce_gone_after [affects] = affects_announce_gone[THEN affects_after]

lemma affects_force_local_leave: "u \<in> U \<Longrightarrow> affects U w (force_local_leave env u ch w)"
  unfolding force_local_leave_def by (intro affects affects_refl) assumption+

lemma affects_on_channel_finish:
  "{u. user_channel u (v_sessions w) = Some ch} \<subseteq> U \<Longrightarrow> affects U w (on_channel_finish env ch w)"
  unfolding on_channel_finish_def
  apply (rule affects_let)
   apply (rule affects_recon)
  apply (rule affects_let_pair)
   apply (rule affects_trans, assumption, rule affects_clear_channel, simp add: on_recon_def)
  apply (intro affects affects_refl; assumption)
  done

lemmas affects_leaves [affects] = affects_force_local_leave[THEN affects_after]

lemma affects_settle:
  "affects U w (settle_join_intent env u i w)" "affects U w (settle_leave_intent env u j w)"
  unfolding settle_join_intent_def settle_leave_intent_def by (intro affects affects_refl)+

lemmas affects_settle_after [affects] = affects_settle[THEN affects_after]

lemma affects_admit: "lk_user ev \<in> U \<Longrightarrow> affects U w (admit_participant env ev i b w)"
  unfolding admit_participant_def by (intro affects affects_refl) assumption+

lemmas affects_admit_after [affects] = affects_admit[THEN affects_after]

lemma affects_kick: "affects U w (snd (kick_user env ch u w))" "affects U w (snd (verified_kick_user env ch u w))"
  by (auto simp: kick_user_def verified_kick_user_def split: prod.split option.split bool.split
      dest!: affects_take_node[where U = U] affects_calls[where U = U] intro: affects_trans affects_remove)

lemmas affects_kick_after [affects] = affects_kick[THEN affects_after]

lemma affects_handle_joined: "lk_user ev \<in> U \<Longrightarrow> affects U w (handle_participant_joined env ev w)"
  unfolding handle_participant_joined_def by (intro affects affects_refl) assumption+

lemma affects_vacate: "affects U w (vacate_channel env ch b w)"
  unfolding vacate_channel_def by (intro affects affects_refl)

lemmas affects_vacate_after [affects] = affects_vacate[THEN affects_after]

lemma affects_handle_left: "lk_user ev \<in> U \<Longrightarrow> affects U w (handle_participant_left env ev w)"
  unfolding handle_participant_left_def by (intro affects affects_refl) assumption+

lemmas affects_handlers [affects] = affects_handle_joined[THEN affects_after] affects_handle_left[THEN affects_after]

lemma affects_room_finished: "affects U w (on_room_finished env ch w)"
  unfolding on_room_finished_def by (intro affects affects_refl) assumption+

lemma affects_on_joined: "lk_user ev \<in> U \<Longrightarrow> affects U w (on_participant_joined env ev w)"
proof -
  assume u: "lk_user ev \<in> U"
  define t where "t = (if lk_node ev \<noteq> [] \<and> room_node_id (lk_channel ev) w = []
      then (lk_node ev, on_nodes (bind_room (lk_channel ev) (lk_node ev)) w) else (room_node_id (lk_channel ev) w, w))"
  have "affects U w (snd t)" unfolding t_def by (simp add: affects_nodes)
  then have "affects U w (handle_participant_joined env ev (snd t))"
    by (rule affects_trans) (rule affects_handle_joined[OF u])
  then show ?thesis
    unfolding on_participant_joined_def Let_def t_def[symmetric] case_prod_beta
    by (simp add: affects_trans[OF _ affects_nodes(5)])
qed

lemma affects_on_left: "lk_user ev \<in> U \<Longrightarrow> affects U w (on_participant_left env ev w)"
proof -
  assume u: "lk_user ev \<in> U"
  define h where "h = handle_participant_left env ev w"
  have h: "affects U w h" unfolding h_def by (rule affects_handle_left[OF u])
  then have "affects U w (on_nodes (decrement_user n) h)" for n by (rule affects_trans) (rule affects_nodes)
  then show ?thesis
    unfolding on_participant_left_def Let_def h_def[symmetric] using h by (auto intro: affects_trans affects_recon)
qed

lemma affects_dispatch: "lk_user ev \<in> U \<Longrightarrow> affects U w (dispatch_livekit_event env ev w)"
  by (auto simp: dispatch_livekit_event_def Let_def split: LiveKitEventType.split
      intro: affects_room_finished affects_on_joined affects_on_left affects_nodes)

lemma affects_livekit_event: "lk_user ev \<in> U \<Longrightarrow> affects U w (on_livekit_event env ev w)"
  unfolding on_livekit_event_def
  by (intro affects affects_refl affects_dispatch[THEN affects_after]) assumption+

lemma affects_join_voice: "affects U w (snd (join_voice env ch u sid n w))"
proof -
  obtain node w1 where t: "take_node w = (node, w1)" by force
  define w2 where "w2 = on_recon (clear_channel_remote_missing_confirmation ch) w1"
  obtain x w3 where k: "acquire_for_join env ch u w2 = (x, w3)" by force
  have w1: "affects U w w1" by (rule affects_take_node[OF t])
  have "affects U w w2" unfolding w2_def by (rule affects_trans[OF w1 affects_recon(1)])
  then have w3: "affects U w w3" by (rule affects_trans[OF _ affects_acquire[OF k]])
  then have "affects U w (snd (rotate_resume_id env u w3))" by (rule affects_trans[OF _ affects_rotate_resume])
  then show ?thesis
    using t k w1 w3 by (auto simp: join_voice_def Let_def w2_def[symmetric] case_prod_beta split: option.split sum.split)
qed

lemma affects_try_resume: "u \<in> U \<Longrightarrow> affects U w (snd (try_resume_voice_ownership env u hub ch rid s w))"
proof -
  assume u: "u \<in> U"
  obtain h w1 where h: "hub_of env ch w = (h, w1)" by force
  obtain b w2 where t: "on_sessions (transfer_owner_session u (the (user_session u (v_sessions w1))) s) w1 = (b, w2)" by force
  have w1: "affects U w w1" by (rule affects_hub[OF h])
  have "affects U w1 w2" using affects_transfer[OF u, of w1] t by (metis snd_conv)
  then have w2: "affects U w w2" by (rule affects_trans[OF w1])
  then have "affects U w (snd (rotate_resume_id env u w2))" by (rule affects_trans) (rule affects_rotate_resume)
  then show ?thesis
    using h t w1 w2 by (auto simp: try_resume_voice_ownership_def split: option.split bool.split prod.split)
qed

lemma affects_session_destroyed: "affects U w (on_session_destroyed u w)"
  unfolding on_session_destroyed_def by (intro affects affects_refl)

section \<open>Reconciliation\<close>

lemma affects_query: "query_cluster env ch w = (x, w') \<Longrightarrow> affects U w w'"
  by (auto simp: query_cluster_def split: prod.split_asm option.split_asm
      dest!: affects_take_node[where U = U] affects_calls(1)[where U = U] intro: affects_trans)

lemma affects_reconcile_local: "u \<in> U \<Longrightarrow> affects U w (reconcile_local_participant env ch remote u w)"
  by (auto simp: reconcile_local_participant_def Let_def affects_recon split: prod.split
      intro: affects_trans[OF affects_recon(2) affects_force_local_leave])

lemma affects_reconcile_remote:
  assumes "fst up \<in> U \<or> fst up \<in> set local_users"
  shows "affects U w (reconcile_remote_participant env ch host ok local_users up w)"
proof -
  obtain user p where up: "up = (user, p)" by force
  define w1 where "w1 = on_recon (clear_participant_remote_missing_confirmation ch user) w"
  have w1: "affects U w w1" unfolding w1_def by (rule affects_recon)
  show ?thesis
  proof (cases "user \<in> set local_users")
    case True
    then show ?thesis using w1 by (simp add: reconcile_remote_participant_def up w1_def Let_def)
  next
    case False
    obtain i w2 where r: "read_pending env user w1 = (i, w2)" by force
    have w2: "affects U w w2" using w1 affects_read_pending[OF r] by (rule affects_trans)
    let ?ev = "synthetic_event env ch user (parse_participant_metadata env (rp_metadata p)) w2"
    have "lk_user ?ev \<in> U" using assms False by (simp add: synthetic_event_def up)
    then have "affects U w2 (handle_participant_joined env ?ev w2)" by (rule affects_handle_joined)
    then show ?thesis
      using False w2 r by (auto simp: reconcile_remote_participant_def up Let_def w1_def[symmetric]
          intro: affects_trans affects_remove)
  qed
qed

lemma affects_room_missing:
  assumes "active_owner_connection_count ch w = 0 \<Longrightarrow> {u. user_channel u (v_sessions w) = Some ch} \<subseteq> U"
  shows "affects U w (reconcile_room_missing env ch reason q w)"
proof -
  have "affects U w (on_channel_finish env ch (w\<lparr> v_recon := rc \<rparr>))" if "active_owner_connection_count ch w = 0" for rc
    by (rule affects_trans[OF affects_recon(2) affects_on_channel_finish]) (use assms that in simp)
  then show ?thesis
    by (auto simp: reconcile_room_missing_def Let_def affects_recon split: prod.split)
qed

lemma affects_reconcile: "affects UNIV w (reconcile_channel_state env ch reason w)"
proof -
  obtain host q remote w1 where q: "query_cluster env ch w = ((host, q, remote), w1)" by (cases "query_cluster env ch w") auto
  have w1: "affects UNIV w w1" by (rule affects_query[OF q])
  define w2 where "w2 = (if all_queries_succeeded q then w1 else on_recon (reset_remote_missing_confirmations ch) w1)"
  have w2: "affects UNIV w w2" unfolding w2_def using w1 by (auto intro: affects_trans affects_recon)
  then have w3: "affects UNIV w (on_recon (clear_channel_remote_missing_confirmation ch) w2)"
    by (rule affects_trans) (rule affects_recon)
  let ?L = "users_in_channel ch (v_sessions w1)"
  define w4 where "w4 = (if all_queries_succeeded q
     then fold (reconcile_local_participant env ch remote) ?L (on_recon (clear_channel_remote_missing_confirmation ch) w2)
     else on_recon (clear_channel_remote_missing_confirmation ch) w2)"
  have "affects UNIV w5 (fold (reconcile_local_participant env ch remote) ?L w5)" for w5
    by (rule affects_fold) (simp add: affects_reconcile_local)
  then have "affects UNIV w w4"
    unfolding w4_def using w3 by (auto intro: affects_trans)
  then have "affects UNIV w (fold (reconcile_remote_participant env ch host (all_queries_succeeded q) ?L) remote w4)"
    by (rule affects_trans) (rule affects_fold, simp add: affects_reconcile_remote)
  moreover have "affects UNIV w (reconcile_room_missing env ch reason q w2)"
    by (rule affects_trans[OF w2 affects_room_missing]) simp
  moreover have "reconcile_channel_state env ch reason w = (if remote = [] then reconcile_room_missing env ch reason q w2
      else fold (reconcile_remote_participant env ch host (all_queries_succeeded q) ?L) remote w4)"
    by (simp add: reconcile_channel_state_def q Let_def w2_def w4_def)
  ultimately show ?thesis by simp
qed

lemma affects_reconcile_full: "affects UNIV w (reconcile_full_state env reason w)"
  unfolding reconcile_full_state_def Let_def
  by (auto split: prod.split option.split dest!: affects_take_node[where U = UNIV] affects_calls(3)[where U = UNIV]
      intro: affects_trans affects_fold affects_reconcile)

text \<open>A user whose owner session is connected keeps the membership in a channel when the channel is reconciled.\<close>

definition keeps :: "UserId \<Rightarrow> ChannelId \<Rightarrow> 'r voice \<Rightarrow> 'r voice \<Rightarrow> bool" where
  "keeps u ch w w' \<longleftrightarrow> (voice_ok w \<and> has_active_owner_connection u ch w \<longrightarrow>
     voice_ok w' \<and> v_app w' = v_app w \<and> voice_abs (v_sessions w') u = voice_abs (v_sessions w) u)"

lemma active_owner_cong:
  assumes "voice_ok w" "voice_ok w'" "v_app w' = v_app w" "voice_abs (v_sessions w') u = voice_abs (v_sessions w) u"
  shows "has_active_owner_connection u ch w' = has_active_owner_connection u ch w"
proof -
  have "user_channel u (v_sessions w') = user_channel u (v_sessions w)" "user_session u (v_sessions w') = user_session u (v_sessions w)"
    using assms by (simp_all add: voice_ok_def user_channel_abs user_session_abs)
  then show ?thesis unfolding has_active_owner_connection_def assms(3) by simp
qed

lemma keeps_refl [simp]: "keeps u ch w w"
  by (simp add: keeps_def)

lemma keeps_trans: "keeps u ch a b \<Longrightarrow> keeps u ch b c \<Longrightarrow> keeps u ch a c"
  unfolding keeps_def using active_owner_cong[of a b u ch] by metis

lemma affects_keeps: "affects U w w' \<Longrightarrow> u \<notin> U \<Longrightarrow> keeps u ch w w'"
  unfolding affects_def keeps_def by blast

lemma keeps_fold: "(\<And>x w. x \<in> set xs \<Longrightarrow> keeps u ch w (f x w)) \<Longrightarrow> keeps u ch w (fold f xs w)"
proof (induction xs arbitrary: w)
  case (Cons x xs)
  have "keeps u ch w (f x w)" by (rule Cons.prems) simp
  then have "keeps u ch w (fold f xs (f x w))" by (rule keeps_trans) (rule Cons.IH, simp add: Cons.prems)
  then show ?case by simp
qed (simp add: keeps_def)

lemma keeps_local: "keeps u ch w (reconcile_local_participant env ch remote v w)"
proof (cases "v = u")
  case False
  then have "u \<notin> {v}" by simp
  then show ?thesis by (rule affects_keeps[rotated]) (rule affects_reconcile_local, simp)
next
  case True
  have "affects {} w (reconcile_local_participant env ch remote u w)" if "has_active_owner_connection u ch w"
    using that by (simp add: reconcile_local_participant_def affects_recon)
  then show ?thesis using True affects_keeps[of "{}" w] unfolding keeps_def by blast
qed

lemma active_owner_counted:
  assumes "voice_inv (v_sessions w)" "has_active_owner_connection u ch w"
  shows "active_owner_connection_count ch w > 0" "u \<in> set (users_in_channel ch (v_sessions w))"
proof -
  have "user_channel u (v_sessions w) = Some ch" using assms(2) by (simp add: has_active_owner_connection_def)
  then show "u \<in> set (users_in_channel ch (v_sessions w))" using users_in_channel_set[OF assms(1), of ch] by blast
  then have "u \<in> pi_user ` set (participants_in_channel ch (v_sessions w))"
    by (simp add: participants_users[symmetric])
  then show "active_owner_connection_count ch w > 0"
    using assms(2) by (auto simp: active_owner_connection_count_def filter_empty_conv)
qed

lemma reconcile_keeps_owner: "keeps u ch w (reconcile_channel_state env ch reason w)"
proof -
  obtain host q remote w1 where q: "query_cluster env ch w = ((host, q, remote), w1)" by (cases "query_cluster env ch w") auto
  define w2 where "w2 = (if all_queries_succeeded q then w1 else on_recon (reset_remote_missing_confirmations ch) w1)"
  define w3 where "w3 = on_recon (clear_channel_remote_missing_confirmation ch) w2"
  let ?L = "users_in_channel ch (v_sessions w1)"
  define w4 where "w4 = (if all_queries_succeeded q then fold (reconcile_local_participant env ch remote) ?L w3 else w3)"
  have w1: "affects {} w w1" by (rule affects_query[OF q])
  have w12: "affects {} w1 w2" unfolding w2_def by (simp add: affects_recon)
  have k2: "keeps u ch w w2" by (rule affects_keeps[OF affects_trans[OF w1 w12]]) simp
  have k23: "keeps u ch w2 w3" unfolding w3_def by (rule affects_keeps[OF affects_recon(1)[where U = "{}"]]) simp
  have "keeps u ch w3 w4" unfolding w4_def by (simp add: keeps_fold keeps_local)
  then have k4: "keeps u ch w w4" using k2 k23 by (blast intro: keeps_trans)
  have remote_step: "keeps u ch x (fold (reconcile_remote_participant env ch host b ?L) remote x)" if "u \<in> set ?L" for x b
  proof (rule keeps_fold)
    fix up w
    show "keeps u ch w (reconcile_remote_participant env ch host b ?L up w)"
    proof (cases "fst up = u")
      case True
      then show ?thesis using that affects_keeps[OF affects_reconcile_remote[where U = "{}"]] by blast
    next
      case False
      then show ?thesis by (intro affects_keeps[OF affects_reconcile_remote[where U = "{fst up}"]]) auto
    qed
  qed
  have L: "u \<in> set ?L" if "voice_ok w" "has_active_owner_connection u ch w"
  proof -
    have "voice_ok w1" "has_active_owner_connection u ch w1"
      using w1 that active_owner_cong[of w w1 u ch] unfolding affects_def by auto
    then show ?thesis using active_owner_counted(2) unfolding voice_ok_def by blast
  qed
  have missing: "keeps u ch w2 (reconcile_room_missing env ch reason q w2)"
  proof (cases "voice_ok w2 \<and> has_active_owner_connection u ch w2")
    case True
    then have "active_owner_connection_count ch w2 > 0" using active_owner_counted(1) unfolding voice_ok_def by blast
    then show ?thesis by (intro affects_keeps[OF affects_room_missing[where U = "{}"]]) simp_all
  qed (auto simp: keeps_def)
  have eq: "reconcile_channel_state env ch reason w = (if remote = [] then reconcile_room_missing env ch reason q w2
      else fold (reconcile_remote_participant env ch host (all_queries_succeeded q) ?L) remote w4)"
    by (simp add: reconcile_channel_state_def q Let_def w2_def w3_def w4_def)
  show ?thesis
  proof (cases "voice_ok w \<and> has_active_owner_connection u ch w")
    case True
    then show ?thesis unfolding eq using keeps_trans[OF k2 missing] keeps_trans[OF k4 remote_step[OF L]] by simp
  qed (auto simp: keeps_def)
qed

section \<open>Recovery\<close>

lemma affects_recover_resume: "affects U w (recover_resume_id env u w)"
  unfolding recover_resume_id_def by (intro affects affects_refl) assumption+

lemma affects_recover_participant: "affects UNIV (snd acc) (snd (recover_participant env n room st p acc))"
proof -
  obtain users w where acc: "acc = (users, w)" by force
  define md where "md = parse_participant_metadata env (rp_metadata p)"
  obtain sid w1 where s: "(if pm_app_session_id md \<noteq> 0 then (pm_app_session_id md, w) else next_recovery_session_id w) = (sid, w1)"
    by force
  have w1: "affects UNIV w w1"
    using s by (auto simp: next_recovery_session_id_def affects_same split: if_split_asm)
  obtain b w2 where j: "on_sessions (join room (rp_identity p) sid) w1 = (b, w2)" by force
  have "affects UNIV w1 w2" using affects_join[of "rp_identity p" UNIV w1 room sid] j by simp
  then have "affects UNIV w w2" by (rule affects_trans[OF w1])
  then have w4: "affects UNIV w (snd (on_sessions (set_deafened (rp_identity p) False)
      (snd (on_sessions (set_muted (rp_identity p) False) w2))))"
    by (intro affects UNIV_I)
  define w4 where "w4 = snd (on_sessions (set_deafened (rp_identity p) False) (snd (on_sessions (set_muted (rp_identity p) False) w2)))"
  define w5 where "w5 = (if b then set_channel_started_at_unix room st w4 else w4)"
  have "affects UNIV w w5" unfolding w5_def using w4 unfolding w4_def[symmetric] by (intro affects)
  then have m: "affects UNIV w (recover_resume_id env (rp_identity p) (if m \<noteq> [] then on_nodes (increment_user m) w5 else w5))" for m
    by (intro affects_trans[OF _ affects_recover_resume] affects)
  have eq: "snd (recover_participant env n room st p acc) = (if rp_identity p = [] \<or> map_of users (rp_identity p) \<noteq> None then w
      else recover_resume_id env (rp_identity p) (if (if pm_node_id md \<noteq> [] then pm_node_id md else n) \<noteq> []
        then on_nodes (increment_user (if pm_node_id md \<noteq> [] then pm_node_id md else n)) w5 else w5))"
    unfolding recover_participant_def acc Let_def prod.case md_def[symmetric] s j w4_def[symmetric] w5_def[symmetric] by simp
  have "affects UNIV w (snd (recover_participant env n room st p acc))" unfolding eq using m by (intro affects affects_refl)
  then show ?thesis by (simp add: acc)
qed

lemma affects_fold_acc:
  assumes "\<And>x a. affects U (g a) (g (f x a))"
  shows "affects U (g a) (g (fold f xs a))"
proof (induction xs arbitrary: a)
  case (Cons x xs)
  show ?case using affects_trans[OF assms Cons.IH] by simp
qed simp

lemma affects_snd_acc: "affects U (snd (a, w)) w' \<Longrightarrow> affects U w w'" "affects U (snd (snd (a, b, w))) w' \<Longrightarrow> affects U w w'"
  by simp_all

lemma affects_recover_room: "affects UNIV (snd (snd acc)) (snd (snd (recover_room env node st ri acc)))"
proof -
  obtain rooms users w where acc: "acc = (rooms, users, w)" by (cases acc) auto
  define w1 where "w1 = (if ri_room ri \<in> set rooms then w
      else set_channel_started_at_unix (ri_room ri) st
             (on_nodes (increment_room (ri_room ri) (node_id node)) (on_nodes (bind_room (ri_room ri) (node_id node)) w)))"
  have w1: "affects UNIV w w1" unfolding w1_def by (intro affects affects_refl)
  obtain ps w2 where l: "ListParticipants env (private_host node) (ri_room ri) w1 = (ps, w2)" by force
  have w2: "affects UNIV w w2" by (rule affects_trans[OF w1 affects_calls(1)[OF l]])
  define w3 where "w3 qs = (case resolve_participant_node_assignment env (v_nodes w2) (by_user qs) of
      None \<Rightarrow> w2 | Some n \<Rightarrow> on_nodes (increment_room (ri_room ri) n) (on_nodes (bind_room (ri_room ri) n) w2))" for qs
  have "affects UNIV w (w3 qs)" for qs unfolding w3_def using w2 by (intro affects)
  then have "affects UNIV w (if qs = [] then w3 qs else restore_key_for_recovery env (ri_room ri) (w3 qs))" for qs
    by (intro affects)
  then have r: "affects UNIV w (snd (fold (recover_participant env (node_id node) (ri_room ri) st) qs
      (users, if qs = [] then w3 qs else restore_key_for_recovery env (ri_room ri) (w3 qs))))" for qs
    by (rule affects_trans) (rule affects_fold_acc[where g = snd, OF affects_recover_participant, THEN affects_snd_acc(1)])
  have eq: "snd (snd (recover_room env node st ri acc)) = (case ps of None \<Rightarrow> w2
      | Some qs \<Rightarrow> snd (fold (recover_participant env (node_id node) (ri_room ri) st) qs
          (users, if qs = [] then w3 qs else restore_key_for_recovery env (ri_room ri) (w3 qs))))"
    unfolding recover_room_def acc Let_def prod.case w1_def[symmetric] l w3_def[symmetric]
    by (simp add: case_prod_beta split: option.split)
  have "affects UNIV w (snd (snd (recover_room env node st ri acc)))" unfolding eq using w2 r by (intro affects)
  then show ?thesis by (simp add: acc)
qed

lemma affects_recover_node: "affects UNIV (snd (snd acc)) (snd (snd (recover_node env st node acc)))"
proof -
  obtain rooms users w where acc: "acc = (rooms, users, w)" by (cases acc) auto
  obtain ris w1 where l: "ListRooms env (private_host node) w = (ris, w1)" by force
  have "affects UNIV w (snd (snd (fold (recover_room env node st) xs (rooms, users, w1))))" for xs
    by (rule affects_trans[OF affects_calls(3)[OF l]])
      (rule affects_fold_acc[where g = "\<lambda>a. snd (snd a)", OF affects_recover_room, THEN affects_snd_acc(2)])
  then show ?thesis
    using affects_calls(3)[OF l] by (auto simp: recover_node_def acc l split: option.split)
qed

lemma affects_recover: "affects UNIV w (recover_from_restart env w)"
proof -
  have f: "affects UNIV x (forget_channel ch x)" for x ch
    unfolding forget_channel_def by (rule affects_trans[OF affects_clear_channel affects_nodes(1)]) simp
  define w1 where "w1 = fold forget_channel (active_channels (v_sessions w)) w"
  define w2 where "w2 = w1\<lparr> v_started := [], v_user_ts := [], v_room_ts := [], v_resume := clear_all_resume (v_resume w1) \<rparr>"
  have "affects UNIV w w1" unfolding w1_def by (rule affects_fold) (rule f)
  also have "affects UNIV w1 w2" unfolding w2_def by (rule affects_same) simp_all
  finally have w2: "affects UNIV w w2" .
  show ?thesis
    unfolding recover_from_restart_def Let_def w1_def[symmetric] w2_def[symmetric]
    by (rule affects_trans[OF w2])
      (rule affects_fold_acc[where g = "\<lambda>a. snd (snd a)", OF affects_recover_node, THEN affects_snd_acc(2)])
qed

section \<open>Reachable states\<close>

text \<open>The calls that other components, the webhook server and the reconciler make. The application sessions, the
  subscriptions and the outside world move on their own.\<close>

inductive service_step :: "'r voice_env \<Rightarrow> 'r voice \<Rightarrow> 'r voice \<Rightarrow> bool" for env where
  step_join: "service_step env w (snd (join_voice env ch u sid n w))"
| step_stage: "service_step env w (snd (stage_pending_join_intent env u i e w))"
| step_clear_intent: "service_step env w (clear_pending_join_intent env u w)"
| step_kick: "service_step env w (snd (kick_user env ch u w))"
| step_verified_kick: "service_step env w (snd (verified_kick_user env ch u w))"
| step_takeover: "service_step env w (mark_channel_takeover env ch w)"
| step_muted: "service_step env w (snd (on_sessions (set_muted u b) w))"
| step_deafened: "service_step env w (snd (on_sessions (set_deafened u b) w))"
| step_resume: "service_step env w (snd (try_resume_voice_ownership env u hub ch rid s w))"
| step_resync: "service_step env w (resync_to_user env u w)"
| step_destroyed: "service_step env w (on_session_destroyed u w)"
| step_event: "service_step env w (on_livekit_event env ev w)"
| step_reconcile: "service_step env w (reconcile_channel_state env ch reason w)"
| step_reconcile_full: "service_step env w (reconcile_full_state env reason w)"
| step_recover: "service_step env w (recover_from_restart env w)"
| step_outside: "service_step env w (w\<lparr> v_ext := r, v_app := app, v_subs := subs \<rparr>)"

inductive service_reach :: "'r voice_env \<Rightarrow> 'r voice \<Rightarrow> bool" for env where
  reach_start: "VoiceService v ticks getenv cfgs url app subs r = Inr w \<Longrightarrow> service_reach env w"
| reach_step: "service_reach env w \<Longrightarrow> service_step env w w' \<Longrightarrow> service_reach env w'"

lemma affects_ok: "affects U w w' \<Longrightarrow> voice_ok w \<Longrightarrow> voice_ok w'"
  by (simp add: affects_def)

lemma affects_stage_step: "affects U w (snd (stage_pending_join_intent env u i e w))"
  by (intro affects affects_refl)

lemma service_step_affects: "service_step env w w' \<Longrightarrow> voice_ok w \<Longrightarrow> voice_ok w'"
  by (induction rule: service_step.induct)
    ((rule affects_ok[where U = UNIV], (rule affects_join_voice affects_stage_step affects_pending affects_kick affects_takeover
        affects_set_muted[OF UNIV_I] affects_set_deafened[OF UNIV_I] affects_try_resume[OF UNIV_I] affects_publish
        affects_session_destroyed affects_livekit_event[OF UNIV_I] affects_reconcile affects_reconcile_full
        affects_recover; fail), assumption) | simp add: voice_ok_def)+

lemma register_nodes_inv: "nr_inv ns \<Longrightarrow> register_nodes cfgs ns = Inr ns' \<Longrightarrow> nr_inv ns'"
proof (induction cfgs arbitrary: ns)
  case (Cons c cfgs)
  then obtain ns1 where r: "register_node (new_node c) ns = Inr ns1" "register_nodes cfgs ns1 = Inr ns'"
    by (auto split: sum.split_asm)
  have "nr_inv ns1" by (rule register_inv[OF Cons.prems(1) _ _ r(1)]) (simp_all add: new_node_def)
  then show ?case using Cons.IH r(2) by blast
qed simp

lemma service_reach_ok: "service_reach env w \<Longrightarrow> voice_ok w"
proof (induction rule: service_reach.induct)
  case (reach_start v ticks getenv cfgs url app subs r w)
  then obtain ns where ns: "register_nodes cfgs nr_new = Inr ns" "v_sessions w = voice_new" "v_nodes w = ns" "v_keys w = []"
    by (auto simp: VoiceService_def ChannelKeyService_def split: sum.split_asm)
  then show ?case
    using register_nodes_inv[OF nr_new_inv] repr_inv[OF repr_new] by (simp add: voice_ok_def keys_ok_def)
qed (rule service_step_affects)

end
