(* ===== verification/VoiceProperties.thy ===== *)
theory VoiceProperties
  imports VoiceInvariants
begin

text \<open>
  The promises of the voice service: who is admitted, who is removed and who is never removed, what happens to the
  channel key when a member leaves, how ownership is handed over, and that repeated or late webhooks do
  nothing.
\<close>

section \<open>Messages of the announcements\<close>

text \<open>Messages that carry no key.\<close>

definition plain_message :: "'r voice_env \<Rightarrow> OutgoingMessage \<Rightarrow> bool" where
  "plain_message env m \<longleftrightarrow> (\<exists>ev. (\<forall>h c k i. ev \<noteq> VoiceKeyUpdate h c k i)
     \<and> msg_action m = SendPayload \<lparr> payload_data = Some (e_ser env ev), is_binary = True \<rparr> True)"

definition sends_plain :: "'r voice_env \<Rightarrow> 'r voice \<Rightarrow> 'r voice \<Rightarrow> bool" where
  "sends_plain env w w' \<longleftrightarrow> v_sessions w' = v_sessions w \<and> v_app w' = v_app w \<and> v_keys w' = v_keys w
     \<and> (\<exists>msgs. v_sent w' = v_sent w @ msgs \<and> (\<forall>m \<in> set msgs. plain_message env m))"

lemma sends_plainI:
  "v_sessions w' = v_sessions w \<Longrightarrow> v_app w' = v_app w \<Longrightarrow> v_keys w' = v_keys w \<Longrightarrow> v_sent w' = v_sent w \<Longrightarrow> sends_plain env w w'"
  by (simp add: sends_plain_def)

lemma sends_plain_trans [trans]: "sends_plain env a b \<Longrightarrow> sends_plain env b c \<Longrightarrow> sends_plain env a c"
  unfolding sends_plain_def by (metis (no_types) append.assoc set_append Un_iff)

lemma plain_reliable: "(\<And>h c k i. ev \<noteq> VoiceKeyUpdate h c k i) \<Longrightarrow> plain_message env (make_reliable_outgoing_message conns (e_ser env ev))"
  unfolding plain_message_def make_reliable_outgoing_message_def by (intro exI[of _ ev]) simp

lemma plain_emit: "plain_message env m \<Longrightarrow> sends_plain env w (emit m w)"
  by (simp add: sends_plain_def emit_def)

lemma plain_remove: "sends_plain env w (publish_voice_participant_remove env hub ch u w)"
  by (simp add: publish_voice_participant_remove_def publish_to_hub_def Let_def plain_emit plain_reliable sends_plainI)

lemma plain_hub_of: "hub_of env ch w = (h, w') \<Longrightarrow> sends_plain env w w'"
  by (auto simp: hub_of_def sends_plainI split: prod.split_asm)

lemma plain_fold:
  assumes "\<And>x w. sends_plain env w (f x w)"
  shows "sends_plain env w (fold f xs w)"
proof (induction xs arbitrary: w)
  case (Cons x xs)
  show ?case using sends_plain_trans[OF assms Cons.IH] by simp
qed (simp add: sends_plainI)

lemma plain_self_status: "sends_plain env w (publish_self_status env u False owner ch only w)"
proof -
  have "plain_message env (make_reliable_outgoing_message conns (e_ser env (self_status_event False owner ch None None sid)))" for conns sid
    by (rule plain_reliable) (simp add: self_status_event_def)
  then show ?thesis
    unfolding publish_self_status_def Let_def if_False prod.case
    by (intro plain_fold) (simp add: plain_emit sends_plainI)
qed

section \<open>Leaving\<close>

lemma leave_sessions:
  assumes "voice_inv v" "user_channel u v = Some ch"
  shows "voice_inv (snd (leave ch u v))" "voice_abs (snd (leave ch u v)) = (voice_abs v)(u := None)"
    "fst (leave ch u v) \<longleftrightarrow> (\<forall>x. x \<noteq> u \<longrightarrow> user_channel x v \<noteq> Some ch)"
proof -
  have m: "member_of (voice_abs v) ch u" using assms user_channel_abs[OF assms(1), of u] by (simp add: member_of_def)
  note l = leave_repr[OF inv_repr[OF assms(1)], of ch u]
  have r: "repr ((voice_abs v)(u := None)) (snd (leave ch u v))" using l(1) m by simp
  show "voice_inv (snd (leave ch u v))" "voice_abs (snd (leave ch u v)) = (voice_abs v)(u := None)"
    using repr_inv[OF r] by simp_all
  show "fst (leave ch u v) \<longleftrightarrow> (\<forall>x. x \<noteq> u \<longrightarrow> user_channel x v \<noteq> Some ch)"
    using l(2) m user_channel_abs[OF assms(1)] by (simp add: member_of_def)
qed

lemma same_ext: "\<exists>r. w = w\<lparr> v_ext := r \<rparr>"
  by (rule exI[of _ "v_ext w"]) simp

lemma settle_leave_frame: "\<exists>r. settle_leave_intent env u p w = w\<lparr> v_ext := r \<rparr>"
  using same_ext[of w] by (cases p) (auto simp: settle_leave_intent_def clear_pending_join_intent_def update_pending_def)

lemma read_pending_frame: "read_pending env u w = (i, w') \<Longrightarrow> \<exists>r. w' = w\<lparr> v_ext := r \<rparr>"
  by (auto simp: read_pending_def split: prod.split_asm)

lemma rotate_total:
  assumes "\<And>r. fst (e_key env r) = Some k"
  obtains r where "e_key env x = (Some k, r)"
  using assms[of x] by (cases "e_key env x") auto

text \<open>The state in which the key is rotated when one of several members leaves.\<close>

lemma left_state:
  assumes ok: "voice_ok w" and rd: "read_pending env (lk_user ev) w = (pending, w0)"
    and lv: "leaving_current_voice ev pending (v_sessions w)"
    and other: "user_channel v (v_sessions w) = Some (lk_channel ev)" "v \<noteq> lk_user ev"
  obtains w5 r where "voice_inv (v_sessions w5)" "voice_abs (v_sessions w5) = (voice_abs (v_sessions w))(lk_user ev := None)"
    "v_app w5 = v_app w" "\<exists>pre. v_sent w5 = v_sent w @ pre \<and> (\<forall>m \<in> set pre. plain_message env m)"
    "handle_participant_left env ev w = snd (rotate_and_broadcast env (lk_channel ev) w5)\<lparr> v_ext := r \<rparr>"
proof -
  let ?ch = "lk_channel ev" and ?u = "lk_user ev"
  obtain r0 where w0: "w0 = w\<lparr> v_ext := r0 \<rparr>" using read_pending_frame[OF rd] by blast
  define w1 where "w1 = on_recon (clear_participant_remote_missing_confirmation ?ch ?u) w0"
  obtain b w2 where w2: "on_sessions (leave ?ch ?u) w1 = (b, w2)" by force
  obtain h w3 where h: "hub_of env ?ch w2 = (h, w3)" by force
  define w4 where "w4 = (case h of None \<Rightarrow> w3 | Some hh \<Rightarrow> publish_voice_participant_remove env hh ?ch ?u w3)"
  define w5 where "w5 = (if old_leave_for_switch ev pending then publish_self_status env ?u False None None None w4
     else clear_resume_id env ?u (publish_self_status env ?u False None None None w4))"
  have s1: "v_sessions w1 = v_sessions w" "v_app w1 = v_app w" "v_sent w1 = v_sent w" by (simp_all add: w1_def w0 on_recon_def)
  have uc: "user_channel ?u (v_sessions w) = Some ?ch" using lv by (simp add: leaving_current_voice_def)
  have vi: "voice_inv (v_sessions w)" using ok by (simp add: voice_ok_def)
  note l = leave_sessions[OF vi uc]
  have b: "\<not> b" and s2: "v_sessions w2 = snd (leave ?ch ?u (v_sessions w))" "v_app w2 = v_app w" "v_sent w2 = v_sent w"
    using w2 l(3) other s1 by (auto simp: on_sessions_def split: prod.split_asm)
  have "sends_plain env w2 w3" by (rule plain_hub_of[OF h])
  also have "sends_plain env w3 w4" unfolding w4_def by (simp add: plain_remove sends_plainI split: option.split)
  also have "sends_plain env w4 (publish_self_status env ?u False None None None w4)" by (rule plain_self_status)
  also have "sends_plain env (publish_self_status env ?u False None None None w4) w5"
    unfolding w5_def by (auto simp: clear_resume_id_def sends_plainI split: prod.split)
  finally have p: "sends_plain env w2 w5" .
  have "\<exists>r. handle_participant_left env ev w = snd (rotate_and_broadcast env ?ch w5)\<lparr> v_ext := r \<rparr>"
  proof -
    have eq: "handle_participant_left env ev w = (if old_leave_for_switch ev pending
        then settle_leave_intent env ?u pending (snd (rotate_and_broadcast env ?ch w5)) else snd (rotate_and_broadcast env ?ch w5))"
      using lv b by (simp add: handle_participant_left_def Let_def rd w0 w1_def[unfolded w0, symmetric] w2 h w4_def[symmetric]
          w5_def vacate_channel_def)
    have "x = x\<lparr> v_ext := v_ext x \<rparr>" for x :: "'a voice" by simp
    then show ?thesis unfolding eq using settle_leave_frame[of env ?u pending] by metis
  qed
  then show ?thesis
    using that p s2 l(1,2) unfolding sends_plain_def by metis
qed


text \<open>A channel with two members, of whom \<open>bob\<close> leaves.\<close>

definition two_members :: "mem voice" where
  "two_members = sample_voice\<lparr>
     v_sessions := \<lparr> voice_channels = [(''c'', [(''alice'', no_flags), (''bob'', no_flags)])],
        voice_users = [(''alice'', \<lparr> uvs_channel = ''c'', uvs_owner = 1 \<rparr>), (''bob'', \<lparr> uvs_channel = ''c'', uvs_owner = 2 \<rparr>)] \<rparr> \<rparr>"

definition bob_left :: LiveKitEvent where
  "bob_left = \<lparr> lk_type = PARTICIPANT_LEFT, lk_event_id = ''e'', lk_channel = ''c'', lk_user = ''bob'', lk_session = 2, lk_nonce = [],
     lk_node = [], lk_timestamp_ms = 1 \<rparr>"

lemma two_members_ok: "voice_ok two_members"
proof -
  have "voice_inv (v_sessions two_members)"
    by (auto simp: two_members_def voice_inv_def chs_ok_def umap_ok_def part_def lookup_or_def user_channel_def split: if_split_asm)
  then show ?thesis
    by (simp add: voice_ok_def two_members_def sample_voice_def nr_new_inv keys_ok_def kKeyringSize_def)
qed

lemma no_pending [simp]: "read_pending sample_env u two_members = (None, two_members)"
  by (simp add: read_pending_def read_intent_def sample_env_def two_members_def sample_voice_def mem_client mem_empty_def mem_look_def)


section \<open>Admission\<close>

lemma take_node_frame: "take_node w = (n, w') \<Longrightarrow> \<exists>ns. w' = w\<lparr> v_nodes := ns \<rparr>"
  by (auto simp: take_node_def split: prod.split_asm)

lemma kick_frame: "\<exists>ns r. snd (kick_user env ch u w) = w\<lparr> v_nodes := ns, v_ext := r \<rparr>"
proof -
  obtain n w1 where t: "take_node w = (n, w1)" by force
  obtain ns where "w1 = w\<lparr> v_nodes := ns \<rparr>" using take_node_frame[OF t] by blast
  moreover have "\<exists>ns' r. w\<lparr> v_nodes := ns \<rparr> = w\<lparr> v_nodes := ns', v_ext := r \<rparr>"
    by (rule exI[of _ ns], rule exI[of _ "v_ext w"]) simp
  ultimately show ?thesis
    using t by (cases n) (auto simp: kick_user_def RemoveParticipant_def split: prod.split)
qed

text \<open>After an admission the sessions are those of \<^const>\<open>enter_channel\<close>.\<close>

lemma admit_sessions: "v_sessions (admit_participant env ev i b w) = snd (enter_channel ev i (v_sessions w))"
proof -
  let ?ch = "lk_channel ev" and ?u = "lk_user ev"
  obtain first w1 where w1: "on_sessions (enter_channel ev i) w = (first, w1)" by force
  have s1: "v_sessions w1 = snd (enter_channel ev i (v_sessions w))" using w1 by (auto simp: on_sessions_def split: prod.split_asm)
  define w2 where "w2 = (if first then set_channel_started_at_unix ?ch
      (if lk_timestamp_ms ev > 0 then lk_timestamp_ms ev div 1000 else e_unix env (v_ext w1)) w1 else w1)"
  have s2: "v_sessions w2 = v_sessions w1" by (simp add: w2_def set_channel_started_at_unix_def)
  define w3 where "w3 = (if read_resume ?u (v_resume w2) = None then snd (rotate_resume_id env ?u w2) else w2)"
  have s3: "v_sessions w3 = v_sessions w2" by (simp add: w3_def rotate_resume_id_def split: prod.split)
  obtain h w4 where h: "hub_of env ?ch w3 = (h, w4)" by force
  obtain m d where md: "final_flags ev (v_sessions w2) = (m, d)" by force
  define w5 where "w5 = (case h of None \<Rightarrow> w4 | Some hh \<Rightarrow> (let x = (if first
      then publish_voice_snapshot env hh ?ch (read_channel_started_at_unix ?ch w4) w4 else w4)
      in publish_voice_participant_upsert env hh ?ch ?u m d x))"
  have "only_sends w4 w5"
    unfolding w5_def Let_def by (auto split: option.split intro: only_sends_trans[OF only_sends_publish(1) only_sends_publish(2)])
  then have "only_sends w3 w5" by (rule only_sends_trans[OF only_sends_hub_of[OF h]])
  then have "only_sends w3 (resync_to_user env ?u (publish_self_status env ?u True (Some (session_id i)) (Some ?ch) None w5))"
    by (rule only_sends_trans) (rule only_sends_trans[OF only_sends_self_status only_sends_resync])
  note s5 = only_sends_sel(1)[OF this]
  have "v_sessions (settle_join_intent env ?u i x) = v_sessions x" for x
    by (simp add: settle_join_intent_def clear_pending_join_intent_def update_pending_def)
  then show ?thesis
    unfolding admit_participant_def Let_def w1 prod.case w2_def[symmetric] md w3_def[symmetric] h w5_def[unfolded Let_def, symmetric]
    using s1 s2 s3 s5 by simp
qed

lemma enter_abs:
  assumes "voice_inv v"
  shows "user_channel (lk_user ev) (snd (enter_channel ev i v)) = Some (lk_channel ev)"
    "user_session (lk_user ev) (snd (enter_channel ev i v)) = Some (session_id i)"
    "voice_inv (snd (enter_channel ev i v))"
    "\<exists>p. voice_abs (snd (enter_channel ev i v)) (lk_user ev) = Some (lk_channel ev, session_id i, p)
       \<and> (ps_deafened p \<longleftrightarrow> pji_deafened i) \<and> (ps_muted p \<longleftrightarrow> pji_muted i \<or> pji_deafened i)"
proof -
  let ?u = "lk_user ev" and ?ch = "lk_channel ev"
  define A where "A = voice_abs v"
  define B where "B = A(?u \<mapsto> (?ch, session_id i, carried A ?u (session_id i)))"
  define C where "C = B(?u := map_option (\<lambda>(c, sid, p). (c, sid, \<lparr> ps_muted = pji_deafened i, ps_deafened = pji_deafened i \<rparr>)) (B ?u))"
  define D where "D = (if pji_deafened i then C else C(?u := map_option (\<lambda>(c, sid, p). (c, sid, p\<lparr> ps_muted := pji_muted i \<rparr>)) (C ?u)))"
  have "repr B (snd (join ?ch ?u (session_id i) v))" unfolding B_def A_def by (rule join_repr[OF inv_repr[OF assms]])
  then have "repr C (snd (set_deafened ?u (pji_deafened i) (snd (join ?ch ?u (session_id i) v))))"
    unfolding C_def by (rule set_deafened_repr)
  then have r: "repr D (snd (enter_channel ev i v))"
    using set_muted_repr(1)[of C _ ?u "pji_muted i"]
    by (cases "pji_deafened i") (simp_all add: D_def enter_channel_def Let_def case_prod_beta)
  have d: "D ?u = Some (?ch, session_id i, \<lparr> ps_muted = pji_muted i \<or> pji_deafened i, ps_deafened = pji_deafened i \<rparr>)"
    by (simp add: D_def C_def B_def)
  note ri = repr_inv[OF r]
  show "voice_inv (snd (enter_channel ev i v))" using ri by simp
  then show "user_channel ?u (snd (enter_channel ev i v)) = Some ?ch" "user_session ?u (snd (enter_channel ev i v)) = Some (session_id i)"
    using ri d by (simp_all add: user_channel_abs user_session_abs)
  show "\<exists>p. voice_abs (snd (enter_channel ev i v)) ?u = Some (?ch, session_id i, p)
       \<and> (ps_deafened p \<longleftrightarrow> pji_deafened i) \<and> (ps_muted p \<longleftrightarrow> pji_muted i \<or> pji_deafened i)"
    using ri d by auto
qed

text \<open>The two outcomes, by the intent the arrival correlates with.\<close>

lemma admission_cases:
  assumes "voice_ok w" "read_pending env (lk_user ev) w = (pending, w0)" "lk_channel ev \<noteq> []"
  shows "case correlated_intent ev pending (getUserSessionIds (lk_user ev) (v_app w)) of
      Some i \<Rightarrow> (\<exists>p. voice_abs (v_sessions (handle_participant_joined env ev w)) (lk_user ev) = Some (lk_channel ev, session_id i, p)
          \<and> (ps_deafened p \<longleftrightarrow> pji_deafened i) \<and> (ps_muted p \<longleftrightarrow> pji_muted i \<or> pji_deafened i))
    | None \<Rightarrow> v_sessions (handle_participant_joined env ev w) = v_sessions w \<and> v_keys (handle_participant_joined env ev w) = v_keys w
        \<and> v_sent (handle_participant_joined env ev w) = v_sent w
        \<and> (already_owner_here ev (v_sessions w)
            \<or> lk_channel ev \<in> set (pending_channels (v_recon (handle_participant_joined env ev w))))"
proof -
  let ?ch = "lk_channel ev" and ?u = "lk_user ev"
  define w1 where "w1 = on_recon (clear_participant_remote_missing_confirmation ?ch ?u) (on_recon (clear_channel_remote_missing_confirmation ?ch) w)"
  have e1: "v_ext w1 = v_ext w" "v_sessions w1 = v_sessions w" "v_app w1 = v_app w" "v_keys w1 = v_keys w" "v_sent w1 = v_sent w"
    by (simp_all add: w1_def on_recon_def)
  obtain r where r: "read_pending env ?u w1 = (pending, w1\<lparr> v_ext := r \<rparr>)"
    using assms(2) e1(1) by (auto simp: read_pending_def split: prod.split_asm)
  have eq: "handle_participant_joined env ev w = (case correlated_intent ev pending (getUserSessionIds ?u (v_app w)) of
      Some i \<Rightarrow> admit_participant env ev i (pending \<noteq> None) (w1\<lparr> v_ext := r \<rparr>)
    | None \<Rightarrow> if already_owner_here ev (v_sessions w) then w1\<lparr> v_ext := r \<rparr>
        else snd (kick_user env ?ch ?u (on_recon (rc_request ?ch) (w1\<lparr> v_ext := r \<rparr>))))"
    unfolding handle_participant_joined_def Let_def w1_def[symmetric] r prod.case by (simp add: e1 cong: option.case_cong)
  show ?thesis
  proof (cases "correlated_intent ev pending (getUserSessionIds ?u (v_app w))")
    case (Some i)
    have "v_sessions (handle_participant_joined env ev w) = snd (enter_channel ev i (v_sessions w))"
      by (simp add: eq Some admit_sessions e1)
    then show ?thesis using enter_abs(4)[of "v_sessions w" ev i] assms(1) by (simp add: Some voice_ok_def)
  next
    case None
    obtain ns r' where k: "snd (kick_user env ?ch ?u (on_recon (rc_request ?ch) (w1\<lparr> v_ext := r \<rparr>)))
        = (on_recon (rc_request ?ch) (w1\<lparr> v_ext := r \<rparr>))\<lparr> v_nodes := ns, v_ext := r' \<rparr>"
      using kick_frame[of env ?ch ?u "on_recon (rc_request ?ch) (w1\<lparr> v_ext := r \<rparr>)"] by force
    show ?thesis
      unfolding eq None option.case k using assms(3) by (simp add: e1 on_recon_def rc_request_def)
  qed
qed

lemma correlated_staged:
  "correlated_intent ev (Some i) sids =
     (if to_channel i = lk_channel ev
        \<and> (if lk_session ev = 0 \<and> lk_nonce ev = [] then sids = [session_id i]
           else lk_session ev = session_id i \<and> lk_nonce ev = intent_nonce i \<and> lk_nonce ev \<noteq> [])
      then Some i else None)"
proof -
  have "length sids = 1 \<and> hd sids = s \<longleftrightarrow> sids = [s]" for s by (cases sids) auto
  then show ?thesis by (auto simp: correlated_intent_def)
qed

text \<open>C7: a participant that shows up on the media server becomes a member of the channel exactly when the arrival
  correlates with the user's staged intent for that channel (same session and same non-empty nonce, or, when it carries
  neither, the intent's session is the user's only one), or when there is no intent, nothing is carried and the user has
  exactly one session. Then the owner session and the mute flags are the intent's. Otherwise the sessions, keys and
  announcements stay as they are, and unless the session already owns voice there a reconcile of the channel is
  requested.\<close>

theorem admitted_exactly_when_correlated:
  assumes "voice_ok w" "read_pending env (lk_user ev) w = (pending, w0)" "lk_channel ev \<noteq> []"
    and "sids = getUserSessionIds (lk_user ev) (v_app w)" "w' = handle_participant_joined env ev w"
  shows "(\<forall>i. pending = Some i \<and> to_channel i = lk_channel ev
        \<and> (if lk_session ev = 0 \<and> lk_nonce ev = [] then sids = [session_id i]
           else lk_session ev = session_id i \<and> lk_nonce ev = intent_nonce i \<and> lk_nonce ev \<noteq> []) \<longrightarrow>
        (\<exists>p. voice_abs (v_sessions w') (lk_user ev) = Some (lk_channel ev, session_id i, p)
          \<and> (ps_deafened p \<longleftrightarrow> pji_deafened i) \<and> (ps_muted p \<longleftrightarrow> pji_muted i \<or> pji_deafened i)))
    \<and> (\<forall>s. pending = None \<and> lk_session ev = 0 \<and> lk_nonce ev = [] \<and> sids = [s] \<longrightarrow>
        voice_abs (v_sessions w') (lk_user ev) = Some (lk_channel ev, s, no_flags))
    \<and> ((case pending of
          Some i \<Rightarrow> \<not> (to_channel i = lk_channel ev
            \<and> (if lk_session ev = 0 \<and> lk_nonce ev = [] then sids = [session_id i]
               else lk_session ev = session_id i \<and> lk_nonce ev = intent_nonce i \<and> lk_nonce ev \<noteq> []))
        | None \<Rightarrow> lk_session ev \<noteq> 0 \<or> lk_nonce ev \<noteq> [] \<or> length sids \<noteq> 1) \<longrightarrow>
        v_sessions w' = v_sessions w \<and> v_keys w' = v_keys w \<and> v_sent w' = v_sent w
        \<and> (already_owner_here ev (v_sessions w) \<or> lk_channel ev \<in> set (pending_channels (v_recon w'))))"
proof -
  note c = admission_cases[OF assms(1-3), folded assms(4,5)]
  show ?thesis
  proof (cases pending)
    case None
    show ?thesis
    proof (cases "lk_session ev = 0 \<and> lk_nonce ev = [] \<and> length sids = 1")
      case True
      then show ?thesis
        using c None by (auto simp: correlated_intent_def empty_intent_def no_flags_def intro!: ParticipantState.equality)
    qed (use c None in \<open>auto simp: correlated_intent_def\<close>)
  next
    case (Some i)
    show ?thesis
      using c unfolding Some correlated_staged by (auto split: if_split_asm)
  qed
qed

text \<open>A user with one session, whose arrival carries no correlation data.\<close>

definition carol_ready :: "mem voice" where
  "carol_ready = two_members\<lparr> v_app := (sm_new 5)\<lparr> user_to_session_ids := [(''carol'', [3])] \<rparr> \<rparr>"

definition carol_joined :: LiveKitEvent where
  "carol_joined = \<lparr> lk_type = PARTICIPANT_JOINED, lk_event_id = ''e2'', lk_channel = ''c'', lk_user = ''carol'', lk_session = 0,
     lk_nonce = [], lk_node = [], lk_timestamp_ms = 2 \<rparr>"

theorem admitted_exactly_when_correlated_witness:
  "voice_abs (v_sessions (handle_participant_joined sample_env carol_joined carol_ready)) ''carol'' = Some (''c'', 3, no_flags)"
proof -
  have ok: "voice_ok carol_ready"
    using two_members_ok by (simp add: voice_ok_def carol_ready_def)
  have rd: "read_pending sample_env (lk_user carol_joined) carol_ready = (None, carol_ready)"
    by (simp add: read_pending_def read_intent_def sample_env_def carol_ready_def two_members_def sample_voice_def mem_client
        mem_empty_def mem_look_def)
  have ch: "lk_channel carol_joined \<noteq> []" by (simp add: carol_joined_def)
  have "getUserSessionIds (lk_user carol_joined) (v_app carol_ready) = [3]"
    by (simp add: carol_joined_def carol_ready_def getUserSessionIds_def)
  then show ?thesis
    using admitted_exactly_when_correlated[OF ok rd ch refl refl] by (simp add: carol_joined_def)
qed

section \<open>Deliveries of the webhook server\<close>

lemma mark_seen:
  assumes "redis_laws (e_redis env) look up" "up (v_ext w)" "eid \<noteq> []"
  shows "\<exists>r. mark_webhook_event_seen env eid w = (look (v_ext w) (webhook_seen_key eid) = None, w\<lparr> v_ext := r \<rparr>) \<and> up r
     \<and> look r = (if look (v_ext w) (webhook_seen_key eid) = None
          then (look (v_ext w))(webhook_seen_key eid \<mapsto> (''1'', Some kWebhookDedupTtl)) else look (v_ext w))"
proof -
  have "kWebhookDedupTtl > 0" by (simp add: kWebhookDedupTtl_def)
  from setnxex_law[OF assms(1,2) this, of "webhook_seen_key eid" "''1''"] obtain r where
    r: "setnxex (e_redis env) (webhook_seen_key eid) kWebhookDedupTtl ''1'' (v_ext w) = (Some (look (v_ext w) (webhook_seen_key eid) = None), r)"
    "up r" "look r = (if look (v_ext w) (webhook_seen_key eid) = None
          then (look (v_ext w))(webhook_seen_key eid \<mapsto> (''1'', Some kWebhookDedupTtl)) else look (v_ext w))" by blast
  then show ?thesis
    using assms(3) by (intro exI[of _ r]) (simp add: mark_webhook_event_seen_def)
qed



text \<open>C25: an event of a participant that is older than the newest one seen for that user, a delayed departure
  for instance, neither moves the user nor touches keys, nodes, resume ids or announcements; it only asks for a
  reconcile of its channel.\<close>

theorem outdated_event_only_requests_reconcile:
  assumes "fst (mark_webhook_event_seen env (lk_event_id ev) w)"
    and "lk_type ev \<in> {PARTICIPANT_JOINED, PARTICIPANT_LEFT, PARTICIPANT_CONNECTION_ABORTED}"
    and "map_of (v_user_ts w) (lk_user ev) = Some newest" "0 < lk_timestamp_ms ev" "lk_timestamp_ms ev < newest"
    and "lk_user ev \<noteq> []" "lk_channel ev \<noteq> []"
  shows "\<exists>r. on_livekit_event env ev w
      = w\<lparr> v_ext := r, v_recon := (v_recon w)\<lparr> pending_channels := set_insert (lk_channel ev) (pending_channels (v_recon w)) \<rparr> \<rparr>"
proof -
  have "\<exists>r. snd (mark_webhook_event_seen env (lk_event_id ev) w) = w\<lparr> v_ext := r \<rparr>"
    using same_ext[of w] by (auto simp: mark_webhook_event_seen_def split: prod.split option.split)
  then obtain r where m: "mark_webhook_event_seen env (lk_event_id ev) w = (True, w\<lparr> v_ext := r \<rparr>)"
    using assms(1) by (metis prod.collapse)
  have "newest \<noteq> 0" using assms(4,5) by auto
  then have "check_order (lk_timestamp_ms ev) (lk_user ev) (v_user_ts w) = (True, v_user_ts w)"
    using assms(3-6) by (simp add: check_order_def lookup_or_def Let_def word_gt_0)
  then have "stale_event ev (w\<lparr> v_ext := r \<rparr>) = (True, w\<lparr> v_ext := r \<rparr>)"
    using assms(2) by (simp add: stale_event_def is_stale_participant_event_def)
  then have "on_livekit_event env ev w = on_recon (rc_request (lk_channel ev)) (w\<lparr> v_ext := r \<rparr>)"
    by (simp add: on_livekit_event_def m)
  then show ?thesis using assms(7) by (intro exI[of _ r]) (simp add: on_recon_def rc_request_def)
qed

theorem outdated_event_only_requests_reconcile_witness:
  "\<exists>r. on_livekit_event sample_env bob_left (two_members\<lparr> v_user_ts := [(''bob'', 5)] \<rparr>)
      = two_members\<lparr> v_user_ts := [(''bob'', 5)], v_ext := r, v_recon := (v_recon two_members)\<lparr> pending_channels := [''c''] \<rparr> \<rparr>"
proof -
  let ?w = "two_members\<lparr> v_user_ts := [(''bob'', 5)] \<rparr>"
  have "v_ext ?w = mem_empty" by (simp add: two_members_def sample_voice_def)
  then have "fst (mark_webhook_event_seen sample_env (lk_event_id bob_left) ?w)"
    by (simp add: mark_webhook_event_seen_def sample_env_def setnxex_def mem_redis_def if_alive_def mem_empty_def mem_look_def
        bob_left_def split: prod.split option.split)
  moreover have "pending_channels (v_recon ?w) = []"
    by (simp add: two_members_def sample_voice_def VoiceReconciler_def Let_def)
  ultimately show ?thesis
    using outdated_event_only_requests_reconcile[of sample_env bob_left ?w 5] by (simp add: bob_left_def set_insert_def)
qed

section \<open>Ownership\<close>



lemma transfer_owner:
  assumes "voice_inv v" "user_session u v = Some a"
  shows "fst (transfer_owner_session u a b v)" "voice_inv (snd (transfer_owner_session u a b v))"
    "user_session u (snd (transfer_owner_session u a b v)) = Some b"
    "user_channel x (snd (transfer_owner_session u a b v)) = user_channel x v"
    "x \<noteq> u \<Longrightarrow> user_session x (snd (transfer_owner_session u a b v)) = user_session x v"
proof -
  have o: "owns (voice_abs v) u a" using assms user_session_abs[OF assms(1)] by (auto simp: owns_def)
  note t = transfer_repr[OF inv_repr[OF assms(1)], of u a b]
  show "fst (transfer_owner_session u a b v)" using t(2) o by simp
  have r: "repr ((voice_abs v)(u := map_option (\<lambda>(c, sid, p). (c, b, p)) (voice_abs v u))) (snd (transfer_owner_session u a b v))"
    using t(1) o by simp
  note i = repr_inv[OF r]
  show "voice_inv (snd (transfer_owner_session u a b v))" using i by simp
  then show "user_session u (snd (transfer_owner_session u a b v)) = Some b"
    "user_channel x (snd (transfer_owner_session u a b v)) = user_channel x v"
    "x \<noteq> u \<Longrightarrow> user_session x (snd (transfer_owner_session u a b v)) = user_session x v"
    using i o assms(1) by (auto simp: user_session_abs user_channel_abs owns_def)
qed



section \<open>Every reachable state\<close>

lemma count_vals_card:
  assumes "umap_ok m"
  shows "count_vals ((=) v) m = card {k. map_of m k = Some v}"
proof -
  have d: "distinct (map fst (filter ((=) v \<circ> snd) m))"
    using assms by (simp add: umap_ok_def distinct_map_filter)
  have "set (map fst (filter ((=) v \<circ> snd) m)) = {k. map_of m k = Some v}"
    using umap_mem[OF assms] by force
  with distinct_card[OF d] show ?thesis by (simp add: count_vals_def)
qed

text \<open>C5: whatever joins, webhooks, resumes, kicks, reconcile passes and recoveries happened before, and whatever
  the media servers, Redis and the clients did: a user is listed in a channel exactly when that channel is the user's
  channel, so in one channel at most; a channel counts as empty exactly when nobody is in it; every node's room
  counter is the number of rooms counted on it; every key index fits the key ring.\<close>

theorem voice_state_consistent:
  assumes "service_reach env w"
  shows "(u \<in> set (users_in_channel ch (v_sessions w)) \<longleftrightarrow> user_channel u (v_sessions w) = Some ch)
    \<and> (is_empty ch (v_sessions w) \<longleftrightarrow> (\<forall>x. user_channel x (v_sessions w) \<noteq> Some ch))
    \<and> (user_channel u (v_sessions w) = None \<longleftrightarrow> user_session u (v_sessions w) = None)
    \<and> (\<forall>n. map_of (nodes (v_nodes w)) nid = Some n \<longrightarrow>
         active_rooms n = card {room. map_of (counted_room_to_node (v_nodes w)) room = Some nid})
    \<and> (\<forall>ck. get_key ch (v_keys w) = Some ck \<longrightarrow> ck_index ck < 16)"
proof -
  have ok: "voice_inv (v_sessions w)" "nr_inv (v_nodes w)" "keys_ok (v_keys w)"
    using service_reach_ok[OF assms] by (simp_all add: voice_ok_def)
  have "is_empty ch (v_sessions w) \<longleftrightarrow> (\<forall>x. user_channel x (v_sessions w) \<noteq> Some ch)"
    using active_channels_repr(2)[OF inv_repr[OF ok(1)]] by (simp add: member_of_def user_channel_abs[OF ok(1)])
  moreover have "user_channel u (v_sessions w) = None \<longleftrightarrow> user_session u (v_sessions w) = None"
    using ok(1) by (simp add: user_channel_abs user_session_abs)
  moreover have "active_rooms n = card {room. map_of (counted_room_to_node (v_nodes w)) room = Some nid}"
    if "map_of (nodes (v_nodes w)) nid = Some n" for n
    using nr_invD(5)[OF ok(2) that] count_vals_card[OF nr_invD(2)[OF ok(2)]] by (auto simp: node_ok_def)
  moreover have "ck_index ck < 16" if "get_key ch (v_keys w) = Some ck" for ck
    using ok(3) that by (auto simp: keys_ok_def kKeyringSize_def get_key_def split: option.split_asm if_split_asm)
  ultimately show ?thesis using users_in_channel_set[OF ok(1), of ch] by auto
qed

theorem voice_state_consistent_witness:
  "''carol'' \<in> set (users_in_channel ''c'' (v_sessions (on_livekit_event sample_env carol_joined
      (projr (VoiceService plain_evp 1 (\<lambda>_ d. d) [] ''u'' (sm_new 5) subs_new mem_empty)))))
   \<longleftrightarrow> user_channel ''carol'' (v_sessions (on_livekit_event sample_env carol_joined
      (projr (VoiceService plain_evp 1 (\<lambda>_ d. d) [] ''u'' (sm_new 5) subs_new mem_empty)))) = Some ''c''"
proof -
  have "VoiceService plain_evp 1 (\<lambda>_ d. d) [] ''u'' (sm_new 5) subs_new mem_empty
      = Inr (projr (VoiceService plain_evp 1 (\<lambda>_ d. d) [] ''u'' (sm_new 5) subs_new mem_empty))"
    by (simp add: VoiceService_def)
  from reach_step[OF reach_start[OF this] step_event[of sample_env _ carol_joined]] show ?thesis
    by (rule voice_state_consistent[THEN conjunct1])
qed

end
