(* ===== verification/Txn.thy ===== *)
theory Txn
  imports Prelude
begin

text \<open>
  \<^verbatim>\<open>TransactionRunner\<close> (\<^verbatim>\<open>src/infra/persistence/TransactionRunner.h\<close>): the loop that runs a unit of database work in a
  transaction and retries it when the connection breaks. A unit of work is a function on the database that
  gives an exception or a result; what the network does is the argument \<open>f\<close>. The two pools differ only in
  their connections and are not modelled.
\<close>

datatype db_error = TransientPersistenceError | SqlFailure string

type_synonym ('s, 'a) work = "'s \<Rightarrow> (db_error + 'a) \<times> 's"

text \<open>What happens to one attempt: nothing, the connection breaks before the commit, or it breaks from the commit,
  which the server may have carried out or not.\<close>

datatype attempt_fault = Steady | BrokenBeforeCommit | BrokenFromCommit bool

record txn_faults =
  lease_ok :: bool
  attempt_of :: "nat \<Rightarrow> attempt_fault"
  reconnect_ok :: "nat \<Rightarrow> bool"

definition no_faults :: txn_faults where
  "no_faults = \<lparr> lease_ok = True, attempt_of = (\<lambda>_. Steady), reconnect_ok = (\<lambda>_. True) \<rparr>"

definition kMaxAttempts :: nat where
  "kMaxAttempts = 2"

text \<open>A transaction that ends in an exception is rolled back.\<close>

definition commit :: "('s, 'a) work \<Rightarrow> ('s, 'a) work" where
  "commit fn s = (case fn s of (Inl e, _) \<Rightarrow> (Inl e, s) | (Inr x, s') \<Rightarrow> (Inr x, s'))"

text \<open>The loop has no bound of its own; that it ends is proved below.\<close>

partial_function (option) run_loop :: "bool \<Rightarrow> txn_faults \<Rightarrow> ('s, 'a) work \<Rightarrow> nat \<Rightarrow> 's \<Rightarrow> ((db_error + 'a) \<times> 's) option" where
  "run_loop idempotent f fn attempt s =
     (case attempt_of f attempt of
        Steady \<Rightarrow> Some (commit fn s)
      | BrokenBeforeCommit \<Rightarrow>
          if attempt < kMaxAttempts
          then (if reconnect_ok f attempt then run_loop idempotent f fn (attempt + 1) s else Some (Inl TransientPersistenceError, s))
          else Some (Inl TransientPersistenceError, s)
      | BrokenFromCommit applied \<Rightarrow>
          (case commit fn s of
             (Inl e, s') \<Rightarrow> Some (Inl e, s')
           | (Inr x, s') \<Rightarrow>
               if idempotent \<and> attempt < kMaxAttempts
               then (if reconnect_ok f attempt then run_loop idempotent f fn (attempt + 1) (if applied then s' else s)
                     else Some (Inl TransientPersistenceError, if applied then s' else s))
               else Some (Inl TransientPersistenceError, if applied then s' else s)))"

declare run_loop.simps [code]

definition txn_run :: "bool \<Rightarrow> txn_faults \<Rightarrow> ('s, 'a) work \<Rightarrow> ('s, 'a) work" where
  "txn_run idempotent f fn s =
     (if \<not> lease_ok f then (Inl TransientPersistenceError, s) else the (run_loop idempotent f fn 1 s))"

definition txn_read :: "txn_faults \<Rightarrow> ('s, 'a) work \<Rightarrow> ('s, 'a) work" where
  "txn_read = txn_run True"

definition txn_write :: "txn_faults \<Rightarrow> ('s, 'a) work \<Rightarrow> ('s, 'a) work" where
  "txn_write = txn_run False"

section \<open>The loop ends\<close>

lemma commit_cases: "commit fn s = (r, s') \<Longrightarrow> (\<exists>e. r = Inl e \<and> s' = s) \<or> fn s = (r, s') \<and> (\<exists>x. r = Inr x)"
  by (auto simp: commit_def split: prod.split_asm sum.split_asm)

lemma commit_Inr: "fn s = (Inr x, s') \<Longrightarrow> commit fn s = (Inr x, s')"
  by (simp add: commit_def)

lemma run_loop_total: "\<exists>r. run_loop idempotent f fn attempt s = Some r"
proof (induction "kMaxAttempts - attempt" arbitrary: attempt s)
  case 0
  then have "\<not> attempt < kMaxAttempts" by simp
  then show ?case
    by (subst run_loop.simps) (auto simp: commit_def split: attempt_fault.split prod.split sum.split)
next
  case (Suc n)
  then have "n = kMaxAttempts - (attempt + 1)" by simp
  note ih = Suc.hyps(1)[OF this]
  show ?case
    using ih by (subst run_loop.simps) (auto split: attempt_fault.split prod.split sum.split)
qed

text \<open>The loop looks at the faults of its own attempt and of later ones up to the limit only.\<close>

lemma run_loop_cong:
  assumes "\<And>n. attempt \<le> n \<Longrightarrow> n \<le> max attempt kMaxAttempts \<Longrightarrow> attempt_of g n = attempt_of f n \<and> reconnect_ok g n = reconnect_ok f n"
  shows "run_loop idempotent g fn attempt s = run_loop idempotent f fn attempt s"
  using assms
proof (induction "kMaxAttempts - attempt" arbitrary: attempt s)
  case 0
  then have "\<not> attempt < kMaxAttempts" by simp
  moreover have "attempt_of g attempt = attempt_of f attempt" using "0.prems"[of attempt] by simp
  ultimately show ?case
    by (cases "attempt_of f attempt"; cases idempotent) (simp_all add: run_loop.simps[of _ f fn attempt s] run_loop.simps[of _ g fn attempt s] split: prod.split sum.split)
next
  case (Suc n)
  have n: "n = kMaxAttempts - (attempt + 1)" using Suc.hyps(2) by simp
  have "run_loop idempotent g fn (attempt + 1) s = run_loop idempotent f fn (attempt + 1) s" for s
    using Suc.hyps(2) by (intro Suc.hyps(1)[OF n] Suc.prems) auto
  moreover have "attempt_of g attempt = attempt_of f attempt" "reconnect_ok g attempt = reconnect_ok f attempt"
    using Suc.prems[of attempt] by simp_all
  ultimately show ?case
    by (cases "attempt_of f attempt"; cases idempotent) (simp_all add: run_loop.simps[of _ f fn attempt s] run_loop.simps[of _ g fn attempt s] split: prod.split sum.split)
qed

text \<open>C38: the retry loop has no bound in its condition, yet it returns whatever the network and the unit of work
  do, and after two attempts at most: faults of later attempts cannot change what it returns.\<close>

theorem retry_loop_returns:
  "\<exists>res s'. run_loop idempotent f fn 1 s = Some (res, s')
     \<and> (\<forall>g. (\<forall>n \<in> {1..2}. attempt_of g n = attempt_of f n \<and> reconnect_ok g n = reconnect_ok f n) \<longrightarrow>
          run_loop idempotent g fn 1 s = Some (res, s'))"
proof -
  obtain res s' where "run_loop idempotent f fn 1 s = Some (res, s')" using run_loop_total[of idempotent f fn 1 s] by auto
  moreover have "run_loop idempotent g fn 1 s = run_loop idempotent f fn 1 s"
    if "\<forall>n \<in> {1..2}. attempt_of g n = attempt_of f n \<and> reconnect_ok g n = reconnect_ok f n" for g
    using that by (intro run_loop_cong) (auto simp: kMaxAttempts_def)
  ultimately show ?thesis by simp
qed

theorem retry_loop_returns_witness:
  "\<exists>res s'. run_loop True \<lparr> lease_ok = True, attempt_of = (\<lambda>n. if n \<le> 2 then BrokenBeforeCommit else Steady), reconnect_ok = (\<lambda>_. True) \<rparr>
       (\<lambda>n :: nat. (Inr n, n)) 1 7 = Some (res, s')
     \<and> run_loop True \<lparr> lease_ok = True, attempt_of = (\<lambda>_. BrokenBeforeCommit), reconnect_ok = (\<lambda>_. True) \<rparr> (\<lambda>n. (Inr n, n)) 1 7 = Some (res, s')"
proof -
  let ?f = "\<lparr> lease_ok = True, attempt_of = (\<lambda>n. if n \<le> 2 then BrokenBeforeCommit else Steady), reconnect_ok = (\<lambda>_. True) \<rparr>"
    and ?g = "\<lparr> lease_ok = True, attempt_of = (\<lambda>_ :: nat. BrokenBeforeCommit), reconnect_ok = (\<lambda>_ :: nat. True) \<rparr>"
  have "\<forall>n \<in> {1..2}. attempt_of ?g n = attempt_of ?f n \<and> reconnect_ok ?g n = reconnect_ok ?f n" by simp
  then show ?thesis using retry_loop_returns[of True ?f "\<lambda>n :: nat. (Inr n, n)" 7] by blast
qed

section \<open>A mutation is applied at most once\<close>

lemma run_loop_write:
  "run_loop False f fn attempt s = Some (r, s') \<Longrightarrow>
     (case r of Inr x \<Rightarrow> fn s = (Inr x, s')
      | Inl e \<Rightarrow> s' = s \<or> e = TransientPersistenceError \<and> (\<exists>x. fn s = (Inr x, s')) \<and> (\<exists>n. attempt_of f n = BrokenFromCommit True))"
proof (induction "kMaxAttempts - attempt" arbitrary: attempt rule: less_induct)
  case less
  show ?case
  proof (cases "attempt_of f attempt")
    case Steady
    then show ?thesis using less.prems commit_cases[of fn s r s'] by (auto simp: run_loop.simps split: sum.split)
  next
    case BrokenBeforeCommit
    show ?thesis
    proof (cases "attempt < kMaxAttempts \<and> reconnect_ok f attempt")
      case True
      then show ?thesis using less.prems BrokenBeforeCommit by (intro less.hyps[of "attempt + 1"]) (auto simp: run_loop.simps[of _ _ _ attempt])
    qed (use less.prems BrokenBeforeCommit in \<open>auto simp: run_loop.simps split: if_split_asm\<close>)
  next
    case (BrokenFromCommit applied)
    obtain r1 s1 where c: "commit fn s = (r1, s1)" by force
    show ?thesis
    proof (cases r1)
      case (Inl e)
      then show ?thesis using less.prems BrokenFromCommit c commit_cases[OF c] by (auto simp: run_loop.simps)
    next
      case (Inr x)
      then have "fn s = (Inr x, s1)" using commit_cases[OF c] by auto
      then show ?thesis using less.prems BrokenFromCommit c Inr by (auto simp: run_loop.simps split: if_split_asm)
    qed
  qed
qed

lemma run_loop_read:
  assumes "\<And>x. snd (fn x) = x"
  shows "run_loop True f fn attempt s = Some (r, s') \<Longrightarrow>
     s' = s \<and> (r = fst (fn s) \<or> r = Inl TransientPersistenceError)"
proof (induction "kMaxAttempts - attempt" arbitrary: attempt rule: less_induct)
  case less
  have c: "commit fn s = (fst (fn s), s)"
    using assms[of s] by (cases "fn s") (auto simp: commit_def split: sum.split)
  show ?case
  proof (cases "attempt_of f attempt \<noteq> Steady \<and> attempt < kMaxAttempts \<and> reconnect_ok f attempt \<and> (attempt_of f attempt = BrokenBeforeCommit \<or> (\<exists>x. fst (fn s) = Inr x))")
    case True
    then have "run_loop True f fn (attempt + 1) s = Some (r, s')"
      using less.prems c by (subst (asm) run_loop.simps) (auto split: attempt_fault.split_asm)
    then show ?thesis using True by (intro less.hyps[of "attempt + 1"]) auto
  next
    case False
    then show ?thesis
      using less.prems c by (subst (asm) run_loop.simps) (auto split: attempt_fault.split_asm sum.split_asm if_split_asm)
  qed
qed

lemma txn_run_loop: "txn_run idempotent f fn s = (r, s') \<Longrightarrow>
    (\<not> lease_ok f \<and> r = Inl TransientPersistenceError \<and> s' = s) \<or> run_loop idempotent f fn 1 s = Some (r, s')"
  using run_loop_total[of idempotent f fn 1 s] by (auto simp: txn_run_def split: if_split_asm)

lemma txn_write_cases:
  assumes "txn_write f fn s = (r, s')"
  obtains (applied) x where "r = Inr x" "fn s = (Inr x, s')"
    | (refused) e where "r = Inl e" "s' = s"
    | (ambiguous) x n where "r = Inl TransientPersistenceError" "fn s = (Inr x, s')" "attempt_of f n = BrokenFromCommit True"
  using txn_run_loop[OF assms[unfolded txn_write_def]] run_loop_write[of f fn 1 s r s']
  by (cases r) (auto split: sum.split_asm)

lemma txn_read_cases:
  assumes "txn_read f fn s = (r, s')" "\<And>x. snd (fn x) = x"
  shows "s' = s \<and> (r = fst (fn s) \<or> r = Inl TransientPersistenceError)"
  using txn_run_loop[OF assms(1)[unfolded txn_read_def]] run_loop_read[OF assms(2), of f 1 s r s'] by auto



end
