(* ===== verification/Tables.thy ===== *)
theory Tables
  imports Txn Strings
begin

text \<open>
  The tables of \<^verbatim>\<open>src/infra/persistence/sql\<close> that the server reads and writes, with their keys, checks, unique
  indexes, foreign keys and triggers. A table is the list of its rows in insertion order; a statement is a unit
  of work on all tables that fails with the message of the violated constraint or of the raising trigger. Constraints
  are tested in PostgreSQL's order: \<^verbatim>\<open>BEFORE\<close> triggers by name, checks, unique indexes, foreign keys.
  Random identifiers and the clock are arguments. The columns \<^verbatim>\<open>created_by\<close>, \<^verbatim>\<open>invited_by\<close> and \<^verbatim>\<open>updated_at\<close>, which no
  query reads, have no counterpart.
\<close>

section \<open>Rows\<close>

record profile_row =
  pr_user :: UserId
  pr_name :: string
  pr_display :: string
  pr_avatar :: string
  pr_deleted :: bool

record hub_row =
  hr_id :: HubId
  hr_name :: string
  hr_avatar :: string
  hr_owner :: UserId
  hr_created :: int

text \<open>\<^verbatim>\<open>role_id\<close> is represented by the unique name of the role.\<close>

record member_row =
  mr_hub :: HubId
  mr_user :: UserId
  mr_role :: string
  mr_joined :: int

record channel_row =
  cr_id :: ChannelId
  cr_hub :: HubId
  cr_name :: string
  cr_type :: string
  cr_position :: int
  cr_created :: int

record message_row =
  gr_id :: MessageId
  gr_channel :: ChannelId
  gr_sender :: "UserId option"
  gr_seq :: int
  gr_content :: string
  gr_preview :: "string option"
  gr_created :: int

record attachment_row =
  ar_id :: string
  ar_message :: MessageId
  ar_bucket :: string
  ar_key :: string
  ar_file :: string
  ar_mime :: "string option"
  ar_size :: int
  ar_created :: int

record database =
  t_profiles :: "profile_row list"
  t_hubs :: "hub_row list"
  t_members :: "member_row list"
  t_channels :: "channel_row list"
  t_counters :: "(ChannelId, int) umap"
  t_messages :: "message_row list"
  t_attachments :: "attachment_row list"

definition empty_database :: database where
  "empty_database = \<lparr> t_profiles = [], t_hubs = [], t_members = [], t_channels = [], t_counters = [], t_messages = [], t_attachments = [] \<rparr>"

text \<open>What the server relies on in PostgreSQL itself: the cast to \<^verbatim>\<open>uuid\<close>, which fails or gives the canonical text, and
  \<^verbatim>\<open>lower\<close>.\<close>

record pg =
  pg_uuid :: "string \<Rightarrow> string option"
  pg_lower :: "string \<Rightarrow> string"

definition uuid_laws :: "pg \<Rightarrow> bool" where
  "uuid_laws pg \<longleftrightarrow> (\<forall>s u. pg_uuid pg s = Some u \<longrightarrow> pg_uuid pg u = Some u)"

section \<open>Values\<close>

text \<open>\<^verbatim>\<open>char_length\<close> counts the code points of UTF-8 text, \<^verbatim>\<open>btrim\<close> removes blanks at both ends.\<close>

definition char_length :: "string \<Rightarrow> nat" where
  "char_length s = length (filter (\<lambda>c. of_char c div 64 \<noteq> (2 :: nat)) s)"

definition btrim :: "string \<Rightarrow> string" where
  "btrim s = rev (dropWhile (\<lambda>c. c = CHR '' '') (rev (dropWhile (\<lambda>c. c = CHR '' '') s)))"

definition name_length_ok :: "string \<Rightarrow> bool" where
  "name_length_ok n \<longleftrightarrow> char_length (btrim n) \<ge> 1 \<and> char_length n \<le> 80"

definition hub_roles :: "string list" where
  "hub_roles = [''owner'', ''admin'', ''member'']"

definition get_hub_role_id :: "string \<Rightarrow> string option" where
  "get_hub_role_id n = (if n \<in> set hub_roles then Some n else None)"

definition fails :: "string \<Rightarrow> (database, 'a) work" where
  "fails msg db = (Inl (SqlFailure msg), db)"

definition duplicate_key :: "string \<Rightarrow> string" where
  "duplicate_key index = ''duplicate key value violates unique constraint '' @ index"

text \<open>\<^verbatim>\<open>$1::uuid\<close> and \<^verbatim>\<open>ANY(ARRAY[$1::uuid, ...])\<close>.\<close>

definition with_uuid :: "pg \<Rightarrow> string \<Rightarrow> (string \<Rightarrow> (database, 'a) work) \<Rightarrow> (database, 'a) work" where
  "with_uuid pg s k db =
     (case pg_uuid pg s of None \<Rightarrow> fails ''invalid input syntax for type uuid'' db | Some u \<Rightarrow> k u db)"

fun with_uuids :: "pg \<Rightarrow> string list \<Rightarrow> (string list \<Rightarrow> (database, 'a) work) \<Rightarrow> (database, 'a) work" where
  "with_uuids pg [] k = k []"
| "with_uuids pg (s # ss) k = with_uuid pg s (\<lambda>u. with_uuids pg ss (\<lambda>us. k (u # us)))"

text \<open>The trigger functions read \<^verbatim>\<open>deleted_at\<close> of a profile, which is null for an unknown user.\<close>

definition has_profile :: "UserId \<Rightarrow> database \<Rightarrow> bool" where
  "has_profile u db = list_ex (\<lambda>p. pr_user p = u) (t_profiles db)"

definition is_deleted :: "UserId \<Rightarrow> database \<Rightarrow> bool" where
  "is_deleted u db = list_ex (\<lambda>p. pr_user p = u \<and> pr_deleted p) (t_profiles db)"

definition hub_of_id :: "HubId \<Rightarrow> database \<Rightarrow> hub_row option" where
  "hub_of_id h db = find (\<lambda>r. hr_id r = h) (t_hubs db)"

definition channel_of_id :: "ChannelId \<Rightarrow> database \<Rightarrow> channel_row option" where
  "channel_of_id c db = find (\<lambda>r. cr_id r = c) (t_channels db)"

definition member_of_hub :: "HubId \<Rightarrow> UserId \<Rightarrow> database \<Rightarrow> member_row option" where
  "member_of_hub h u db = find (\<lambda>r. mr_hub r = h \<and> mr_user r = u) (t_members db)"

definition owned_hubs :: "UserId \<Rightarrow> database \<Rightarrow> hub_row list" where
  "owned_hubs u db = filter (\<lambda>r. hr_owner r = u) (t_hubs db)"

definition channels_of :: "HubId \<Rightarrow> database \<Rightarrow> channel_row list" where
  "channels_of h db = filter (\<lambda>r. cr_hub r = h) (t_channels db)"

section \<open>Members\<close>

text \<open>\<^verbatim>\<open>prevent_invalid_owner_role\<close> and \<^verbatim>\<open>ensure_hub_member_active\<close>.\<close>

definition member_triggers :: "HubId \<Rightarrow> UserId \<Rightarrow> string option \<Rightarrow> database \<Rightarrow> string option" where
  "member_triggers h u role db =
     (if role = Some ''owner'' \<and> hub_of_id h db = None then Some ''Hub does not exist''
      else if role = Some ''owner'' \<and> map_option hr_owner (hub_of_id h db) \<noteq> Some u then Some ''Only hub owner can have owner role''
      else if is_deleted u db then Some ''Deleted users cannot be hub members''
      else None)"

definition upsert_member :: "int \<Rightarrow> HubId \<Rightarrow> UserId \<Rightarrow> string option \<Rightarrow> (database, unit) work" where
  "upsert_member now h u role db =
     (case member_triggers h u role db of
        Some msg \<Rightarrow> fails msg db
      | None \<Rightarrow>
          (case role of
             None \<Rightarrow> fails ''null value in column role_id violates not-null constraint'' db
           | Some r \<Rightarrow>
               if member_of_hub h u db \<noteq> None
               then (Inr (), db\<lparr> t_members := map (\<lambda>m. if mr_hub m = h \<and> mr_user m = u then m\<lparr> mr_role := r \<rparr> else m) (t_members db) \<rparr>)
               else if hub_of_id h db = None then fails ''hub_members_hub_id_fkey'' db
               else if \<not> has_profile u db then fails ''hub_members_user_id_fkey'' db
               else (Inr (), db\<lparr> t_members := t_members db @ [\<lparr> mr_hub = h, mr_user = u, mr_role = r, mr_joined = now \<rparr>] \<rparr>)))"

definition delete_member :: "HubId \<Rightarrow> UserId \<Rightarrow> (database, unit) work" where
  "delete_member h u db = (Inr (), db\<lparr> t_members := filter (\<lambda>m. \<not> (mr_hub m = h \<and> mr_user m = u)) (t_members db) \<rparr>)"

section \<open>Hubs\<close>

definition name_taken :: "pg \<Rightarrow> UserId \<Rightarrow> string \<Rightarrow> hub_row list \<Rightarrow> bool" where
  "name_taken pg owner name rows = list_ex (\<lambda>r. hr_owner r = owner \<and> pg_lower pg (hr_name r) = pg_lower pg name) rows"

text \<open>\<^verbatim>\<open>enforce_max_hubs_per_owner\<close>, \<^verbatim>\<open>ensure_hub_owner_active\<close>, and after the insert \<^verbatim>\<open>ensure_owner_membership\<close>.\<close>

definition insert_hub :: "pg \<Rightarrow> HubId \<Rightarrow> int \<Rightarrow> string \<Rightarrow> UserId \<Rightarrow> (database, hub_row) work" where
  "insert_hub pg new now name owner db =
     (if length (owned_hubs owner db) \<ge> 2 then fails ''Hub ownership limit reached: max 2 hubs per owner'' db
      else if is_deleted owner db then fails ''Deleted users cannot own hubs'' db
      else if \<not> name_length_ok name then fails ''hubs_name_length'' db
      else if hub_of_id new db \<noteq> None then fails (duplicate_key ''hubs_pkey'') db
      else if name_taken pg owner name (t_hubs db) then fails (duplicate_key ''idx_hubs_owner_name_unique'') db
      else if \<not> has_profile owner db then fails ''hubs_owner_id_fkey'' db
      else
        (let row = \<lparr> hr_id = new, hr_name = name, hr_avatar = ''Felix'', hr_owner = owner, hr_created = now \<rparr>
         in case upsert_member now new owner (get_hub_role_id ''owner'') (db\<lparr> t_hubs := t_hubs db @ [row] \<rparr>) of
              (Inl e, db) \<Rightarrow> (Inl e, db)
            | (Inr _, db) \<Rightarrow> (Inr row, db)))"

text \<open>\<^verbatim>\<open>UPDATE\<close> of one hub: the checks run on the new row, the unique index against all others.\<close>

definition update_hub :: "pg \<Rightarrow> HubId \<Rightarrow> (hub_row \<Rightarrow> hub_row) \<Rightarrow> (database, bool) work" where
  "update_hub pg h upd db =
     (case hub_of_id h db of
        None \<Rightarrow> (Inr False, db)
      | Some row \<Rightarrow>
          (let row' = upd row
           in if \<not> name_length_ok (hr_name row') then fails ''hubs_name_length'' db
              else if char_length (hr_avatar row') > 128 then fails ''hubs_avatar_seed_length'' db
              else if name_taken pg (hr_owner row') (hr_name row') (filter (\<lambda>r. hr_id r \<noteq> h) (t_hubs db))
              then fails (duplicate_key ''idx_hubs_owner_name_unique'') db
              else (Inr True, db\<lparr> t_hubs := map (\<lambda>r. if hr_id r = h then upd r else r) (t_hubs db) \<rparr>)))"

definition delete_messages :: "(message_row \<Rightarrow> bool) \<Rightarrow> database \<Rightarrow> database" where
  "delete_messages P db =
     db\<lparr> t_messages := filter (\<lambda>m. \<not> P m) (t_messages db),
        t_attachments := filter (\<lambda>a. \<not> list_ex (\<lambda>m. P m \<and> gr_id m = ar_message a) (t_messages db)) (t_attachments db) \<rparr>"

text \<open>Deleting channels takes their counters, messages and attachments along.\<close>

definition delete_channels :: "(channel_row \<Rightarrow> bool) \<Rightarrow> database \<Rightarrow> database" where
  "delete_channels P db =
     (let gone = map cr_id (filter P (t_channels db));
          db = delete_messages (\<lambda>m. gr_channel m \<in> set gone) db
      in db\<lparr> t_channels := filter (\<lambda>c. \<not> P c) (t_channels db), t_counters := filter (\<lambda>(c, _). c \<notin> set gone) (t_counters db) \<rparr>)"

definition delete_hub :: "HubId \<Rightarrow> UserId \<Rightarrow> (database, bool) work" where
  "delete_hub h owner db =
     (if map_option hr_owner (hub_of_id h db) \<noteq> Some owner then (Inr False, db)
      else
        (let db = delete_channels (\<lambda>c. cr_hub c = h) db
         in (Inr True, db\<lparr> t_hubs := filter (\<lambda>r. hr_id r \<noteq> h) (t_hubs db),
                           t_members := filter (\<lambda>m. mr_hub m \<noteq> h) (t_members db) \<rparr>)))"

section \<open>Channels\<close>

definition channel_name_taken :: "pg \<Rightarrow> HubId \<Rightarrow> string \<Rightarrow> channel_row list \<Rightarrow> bool" where
  "channel_name_taken pg h name rows = list_ex (\<lambda>r. cr_hub r = h \<and> pg_lower pg (cr_name r) = pg_lower pg name) rows"

text \<open>\<^verbatim>\<open>ensure_channel_creator_active\<close> and \<^verbatim>\<open>enforce_max_channels_per_hub\<close>.\<close>

definition insert_channel :: "pg \<Rightarrow> ChannelId \<Rightarrow> int \<Rightarrow> HubId \<Rightarrow> string \<Rightarrow> string \<Rightarrow> UserId \<Rightarrow> (database, ChannelId) work" where
  "insert_channel pg new now h name type creator db =
     (if is_deleted creator db then fails ''Deleted users cannot create channels'' db
      else if length (channels_of h db) \<ge> 3 then fails ''Channel limit reached: max 3 channels per hub'' db
      else if type \<notin> {''text'', ''voice''} then fails ''channels_type_check'' db
      else if \<not> name_length_ok name then fails ''channels_name_length'' db
      else if channel_of_id new db \<noteq> None then fails (duplicate_key ''channels_pkey'') db
      else if channel_name_taken pg h name (t_channels db) then fails (duplicate_key ''idx_channels_hub_name_unique'') db
      else if hub_of_id h db = None then fails ''channels_hub_id_fkey'' db
      else if \<not> has_profile creator db then fails ''channels_created_by_fkey'' db
      else (Inr new, db\<lparr> t_channels := t_channels db @
              [\<lparr> cr_id = new, cr_hub = h, cr_name = name, cr_type = type, cr_position = 0, cr_created = now \<rparr>] \<rparr>))"

definition update_channel_name :: "pg \<Rightarrow> ChannelId \<Rightarrow> string \<Rightarrow> (database, bool) work" where
  "update_channel_name pg c name db =
     (case channel_of_id c db of
        None \<Rightarrow> (Inr False, db)
      | Some row \<Rightarrow>
          if \<not> name_length_ok name then fails ''channels_name_length'' db
          else if channel_name_taken pg (cr_hub row) name (filter (\<lambda>r. cr_id r \<noteq> c) (t_channels db))
          then fails (duplicate_key ''idx_channels_hub_name_unique'') db
          else (Inr True, db\<lparr> t_channels := map (\<lambda>r. if cr_id r = c then r\<lparr> cr_name := name \<rparr> else r) (t_channels db) \<rparr>))"

definition delete_channel :: "ChannelId \<Rightarrow> HubId \<Rightarrow> (database, bool) work" where
  "delete_channel c h db =
     (if list_ex (\<lambda>r. cr_id r = c \<and> cr_hub r = h) (t_channels db)
      then (Inr True, delete_channels (\<lambda>r. cr_id r = c \<and> cr_hub r = h) db)
      else (Inr False, db))"

section \<open>Profiles\<close>

text \<open>Setting \<^verbatim>\<open>deleted_at\<close>: \<^verbatim>\<open>handle_profile_soft_delete_for_hubs\<close>.\<close>

definition soft_delete_profile :: "UserId \<Rightarrow> (database, unit) work" where
  "soft_delete_profile u db =
     (if list_ex (\<lambda>p. pr_user p = u \<and> \<not> pr_deleted p) (t_profiles db) \<and> owned_hubs u db \<noteq> []
      then fails ''Account deletion blocked: user owns hubs'' db
      else (Inr (), db\<lparr> t_profiles := map (\<lambda>p. if pr_user p = u then p\<lparr> pr_deleted := True \<rparr> else p) (t_profiles db),
              t_members := (if list_ex (\<lambda>p. pr_user p = u \<and> \<not> pr_deleted p) (t_profiles db)
                            then filter (\<lambda>m. mr_user m \<noteq> u) (t_members db) else t_members db) \<rparr>))"

end
