(* ===== verification/TableLaws.thy ===== *)
theory TableLaws
  imports Tables
begin

text \<open>
  What the constraints and triggers of theory \<open>Tables\<close> guarantee together: the state predicate \<open>db_ok\<close> and its
  preservation by every statement.
\<close>

section \<open>The state of the tables\<close>

definition pk_ok :: "database \<Rightarrow> bool" where
  "pk_ok db \<longleftrightarrow> distinct (map hr_id (t_hubs db)) \<and> distinct (map cr_id (t_channels db))
     \<and> distinct (map (\<lambda>m. (mr_hub m, mr_user m)) (t_members db))"

definition hubs_ok :: "database \<Rightarrow> bool" where
  "hubs_ok db \<longleftrightarrow> (\<forall>h \<in> set (t_hubs db). has_profile (hr_owner h) db \<and> \<not> is_deleted (hr_owner h) db \<and> name_length_ok (hr_name h))"

definition member_ok :: "database \<Rightarrow> member_row \<Rightarrow> bool" where
  "member_ok db m \<longleftrightarrow> has_profile (mr_user m) db \<and> \<not> is_deleted (mr_user m) db \<and> mr_role m \<in> set hub_roles
     \<and> (\<exists>h \<in> set (t_hubs db). hr_id h = mr_hub m \<and> (mr_role m = ''owner'' \<longrightarrow> hr_owner h = mr_user m))"

definition members_ok :: "database \<Rightarrow> bool" where
  "members_ok db \<longleftrightarrow> (\<forall>m \<in> set (t_members db). member_ok db m)"

definition channels_ok :: "database \<Rightarrow> bool" where
  "channels_ok db \<longleftrightarrow> (\<forall>c \<in> set (t_channels db). cr_hub c \<in> hr_id ` set (t_hubs db) \<and> cr_type c \<in> {''text'', ''voice''} \<and> name_length_ok (cr_name c))"

definition limits_ok :: "database \<Rightarrow> bool" where
  "limits_ok db \<longleftrightarrow> (\<forall>u. length (owned_hubs u db) \<le> 2) \<and> (\<forall>h. length (channels_of h db) \<le> 3)"

definition names_ok :: "pg \<Rightarrow> database \<Rightarrow> bool" where
  "names_ok pg db \<longleftrightarrow> inj_on (\<lambda>h. (hr_owner h, pg_lower pg (hr_name h))) (set (t_hubs db))
     \<and> inj_on (\<lambda>c. (cr_hub c, pg_lower pg (cr_name c))) (set (t_channels db))"

definition db_ok :: "pg \<Rightarrow> database \<Rightarrow> bool" where
  "db_ok pg db \<longleftrightarrow> pk_ok db \<and> hubs_ok db \<and> members_ok db \<and> channels_ok db \<and> limits_ok db \<and> names_ok pg db"

lemmas db_ok_defs = db_ok_def pk_ok_def hubs_ok_def members_ok_def channels_ok_def limits_ok_def names_ok_def

lemma db_ok_empty: "db_ok pg empty_database"
  by (simp add: db_ok_defs empty_database_def owned_hubs_def channels_of_def)

section \<open>Lookups\<close>

lemma find_eq_None: "find P xs = None \<longleftrightarrow> (\<forall>x \<in> set xs. \<not> P x)"
  by (auto simp: find_None_iff)

lemma find_SomeD: "find P xs = Some x \<Longrightarrow> x \<in> set xs \<and> P x"
  by (induction xs) (auto split: if_split_asm)

lemma hub_of_id_None: "hub_of_id h db = None \<longleftrightarrow> h \<notin> hr_id ` set (t_hubs db)"
  by (auto simp: hub_of_id_def find_eq_None)

lemma hub_of_id_Some: "hub_of_id h db = Some r \<Longrightarrow> r \<in> set (t_hubs db) \<and> hr_id r = h"
  unfolding hub_of_id_def by (drule find_SomeD) simp

lemma distinct_inj: "distinct (map f xs) \<Longrightarrow> x \<in> set xs \<Longrightarrow> y \<in> set xs \<Longrightarrow> f x = f y \<Longrightarrow> x = y"
  by (auto simp: distinct_map dest: inj_onD)

lemma find_unique:
  assumes "distinct (map f xs)" "x \<in> set xs" "\<And>y. P y \<Longrightarrow> f y = f x" "P x"
  shows "find P xs = Some x"
proof (cases "find P xs")
  case None
  then show ?thesis using assms by (auto simp: find_eq_None)
next
  case (Some y)
  then show ?thesis using find_SomeD[OF Some] assms distinct_inj[OF assms(1)] by blast
qed

lemma hub_of_id_mem: "pk_ok db \<Longrightarrow> r \<in> set (t_hubs db) \<Longrightarrow> hub_of_id (hr_id r) db = Some r"
  unfolding hub_of_id_def pk_ok_def by (rule find_unique[where f = hr_id]) auto

lemma channel_of_id_None: "channel_of_id c db = None \<longleftrightarrow> c \<notin> cr_id ` set (t_channels db)"
  by (auto simp: channel_of_id_def find_eq_None)

lemma channel_of_id_Some: "channel_of_id c db = Some r \<Longrightarrow> r \<in> set (t_channels db) \<and> cr_id r = c"
  unfolding channel_of_id_def by (drule find_SomeD) simp

lemma channel_of_id_mem: "pk_ok db \<Longrightarrow> r \<in> set (t_channels db) \<Longrightarrow> channel_of_id (cr_id r) db = Some r"
  unfolding channel_of_id_def pk_ok_def by (rule find_unique[where f = cr_id]) auto

lemma member_None: "member_of_hub h u db = None \<longleftrightarrow> (\<forall>m \<in> set (t_members db). \<not> (mr_hub m = h \<and> mr_user m = u))"
  by (auto simp: member_of_hub_def find_eq_None)

lemma member_Some: "member_of_hub h u db = Some m \<Longrightarrow> m \<in> set (t_members db) \<and> mr_hub m = h \<and> mr_user m = u"
  unfolding member_of_hub_def by (drule find_SomeD) simp

lemma member_mem: "pk_ok db \<Longrightarrow> m \<in> set (t_members db) \<Longrightarrow> member_of_hub (mr_hub m) (mr_user m) db = Some m"
  unfolding member_of_hub_def pk_ok_def by (rule find_unique[where f = "\<lambda>m. (mr_hub m, mr_user m)"]) auto

lemma profile_frame [simp]:
  "has_profile u (db\<lparr> t_hubs := a \<rparr>) = has_profile u db" "is_deleted u (db\<lparr> t_hubs := a \<rparr>) = is_deleted u db"
  "has_profile u (db\<lparr> t_members := b \<rparr>) = has_profile u db" "is_deleted u (db\<lparr> t_members := b \<rparr>) = is_deleted u db"
  "has_profile u (db\<lparr> t_channels := c \<rparr>) = has_profile u db" "is_deleted u (db\<lparr> t_channels := c \<rparr>) = is_deleted u db"
  by (simp_all add: has_profile_def is_deleted_def)

lemma member_ok_frame [simp]: "member_ok (db\<lparr> t_members := ms \<rparr>) m = member_ok db m" "member_ok (db\<lparr> t_channels := cs \<rparr>) m = member_ok db m"
  by (simp_all add: member_ok_def)

section \<open>Members\<close>

definition keeps_ok :: "pg \<Rightarrow> (database, 'a) work \<Rightarrow> bool" where
  "keeps_ok pg fn \<longleftrightarrow> (\<forall>db. db_ok pg db \<longrightarrow> db_ok pg (snd (fn db)))"

lemma ok_members:
  assumes "db_ok pg db" "distinct (map (\<lambda>m. (mr_hub m, mr_user m)) ms)" "members_ok (db\<lparr> t_members := ms \<rparr>)"
  shows "db_ok pg (db\<lparr> t_members := ms \<rparr>)"
  using assms by (simp add: db_ok_def pk_ok_def hubs_ok_def channels_ok_def limits_ok_def names_ok_def owned_hubs_def channels_of_def)

lemma keeps_upsert_member: "db_ok pg db \<Longrightarrow> role \<noteq> None \<longrightarrow> the role \<in> set hub_roles \<Longrightarrow> db_ok pg (snd (upsert_member now h u role db))"
proof -
  assume ok: "db_ok pg db" and role: "role \<noteq> None \<longrightarrow> the role \<in> set hub_roles"
  let ?k = "\<lambda>m. (mr_hub m, mr_user m)"
  have d: "distinct (map ?k (t_members db))" and mo: "members_ok db" using ok by (simp_all add: db_ok_def pk_ok_def)
  show "db_ok pg (snd (upsert_member now h u role db))"
  proof (cases "member_triggers h u role db = None \<and> role \<noteq> None")
    case False
    then show ?thesis using ok by (auto simp: upsert_member_def fails_def split: option.split)
  next
    case True
    then obtain r where r: "role = Some r" by auto
    have own: "\<exists>x \<in> set (t_hubs db). hr_id x = h \<and> hr_owner x = u" if "r = ''owner''"
      using True r that hub_of_id_Some[of h db] by (auto simp: member_triggers_def split: if_split_asm)
    have act: "\<not> is_deleted u db" using True by (auto simp: member_triggers_def split: if_split_asm)
    let ?upd = "map (\<lambda>m. if mr_hub m = h \<and> mr_user m = u then m\<lparr> mr_role := r \<rparr> else m) (t_members db)"
    let ?new = "t_members db @ [\<lparr> mr_hub = h, mr_user = u, mr_role = r, mr_joined = now \<rparr>]"
    have "map ?k ?upd = map ?k (t_members db)" by simp
    then have "distinct (map ?k ?upd)" using d by metis
    moreover have "member_ok db (m\<lparr> mr_role := r \<rparr>)" if "m \<in> set (t_members db)" "mr_hub m = h" "mr_user m = u" for m
      using mo own role r that by (auto simp: members_ok_def member_ok_def)
    then have "members_ok (db\<lparr> t_members := ?upd \<rparr>)"
      using mo by (auto simp: members_ok_def)
    ultimately have 1: "db_ok pg (db\<lparr> t_members := ?upd \<rparr>)" by (rule ok_members[OF ok])
    have 2: "db_ok pg (db\<lparr> t_members := ?new \<rparr>)" if "member_of_hub h u db = None" "hub_of_id h db \<noteq> None" "has_profile u db"
    proof -
      have "distinct (map ?k ?new)" using d that(1) by (auto simp: member_None)
      moreover have "member_ok db \<lparr> mr_hub = h, mr_user = u, mr_role = r, mr_joined = now \<rparr>"
        using own role r act that hub_of_id_Some[of h db] by (cases "r = ''owner''") (auto simp: member_ok_def)
      then have "members_ok (db\<lparr> t_members := ?new \<rparr>)" using mo by (auto simp: members_ok_def)
      ultimately show ?thesis by (rule ok_members[OF ok])
    qed
    show ?thesis using True r ok 1 2 by (auto simp: upsert_member_def fails_def)
  qed
qed

lemma keeps_delete_member: "keeps_ok pg (delete_member h u)"
  unfolding keeps_ok_def
proof (intro allI impI)
  fix db assume ok: "db_ok pg db"
  let ?ms = "filter (\<lambda>m. \<not> (mr_hub m = h \<and> mr_user m = u)) (t_members db)"
  have "distinct (map (\<lambda>m. (mr_hub m, mr_user m)) ?ms)"
    using ok by (simp add: db_ok_def pk_ok_def distinct_map_filter)
  moreover have "members_ok (db\<lparr> t_members := ?ms \<rparr>)"
    using ok by (simp add: db_ok_def members_ok_def)
  ultimately show "db_ok pg (snd (delete_member h u db))" by (simp add: delete_member_def ok_members[OF ok])
qed

section \<open>Hubs\<close>

lemma name_not_taken: "\<not> name_taken pg w n rows \<longleftrightarrow> (w, pg_lower pg n) \<notin> (\<lambda>h. (hr_owner h, pg_lower pg (hr_name h))) ` set rows"
  by (auto simp: name_taken_def list_ex_iff)

lemma ok_new_hub:
  assumes "db_ok pg db" "length (owned_hubs (hr_owner row) db) < 2" "\<not> is_deleted (hr_owner row) db" "name_length_ok (hr_name row)"
    "hub_of_id (hr_id row) db = None" "\<not> name_taken pg (hr_owner row) (hr_name row) (t_hubs db)" "has_profile (hr_owner row) db"
  shows "db_ok pg (db\<lparr> t_hubs := t_hubs db @ [row] \<rparr>)"
proof -
  let ?db = "db\<lparr> t_hubs := t_hubs db @ [row] \<rparr>"
  have "pk_ok ?db" using assms by (simp add: db_ok_def pk_ok_def hub_of_id_None)
  moreover have "hubs_ok ?db" using assms by (simp add: db_ok_def hubs_ok_def)
  moreover have "members_ok ?db" using assms by (auto simp: db_ok_def members_ok_def member_ok_def)
  moreover have "channels_ok ?db" using assms by (fastforce simp: db_ok_def channels_ok_def)
  moreover have "limits_ok ?db" using assms by (auto simp: db_ok_def limits_ok_def owned_hubs_def channels_of_def)
  moreover have "names_ok pg ?db" using assms by (auto simp: db_ok_def names_ok_def name_not_taken)
  ultimately show ?thesis by (simp add: db_ok_def)
qed

lemma owner_role_id: "get_hub_role_id ''owner'' = Some ''owner''"
  by (simp add: get_hub_role_id_def hub_roles_def)

lemma keeps_insert_hub: "keeps_ok pg (insert_hub pg new now name owner)"
  unfolding keeps_ok_def
proof (intro allI impI)
  fix db assume ok: "db_ok pg db"
  let ?row = "\<lparr> hr_id = new, hr_name = name, hr_avatar = ''Felix'', hr_owner = owner, hr_created = now \<rparr>"
  let ?db = "db\<lparr> t_hubs := t_hubs db @ [?row] \<rparr>"
  have up: "db_ok pg (snd (upsert_member now new owner (get_hub_role_id ''owner'') ?db))" if "db_ok pg ?db"
    by (rule keeps_upsert_member[OF that]) (simp add: owner_role_id hub_roles_def)
  show "db_ok pg (snd (insert_hub pg new now name owner db))"
    using ok up ok_new_hub[OF ok, of ?row]
    by (auto simp: insert_hub_def fails_def Let_def split: prod.split sum.split)
qed

lemma length_filter_upd:
  "(\<And>r. P (g r) = P r) \<Longrightarrow> length (filter P (map (\<lambda>r. if Q r then g r else r) xs)) = length (filter P xs)"
  by (induction xs) auto

lemma length_filter_filter: "length (filter P (filter Q xs)) \<le> length (filter P xs)"
  by (induction xs) auto

lemma map_upd_set: "set (map (\<lambda>r. if f r = h then g r else r) xs) = {r \<in> set xs. f r \<noteq> h} \<union> g ` {r \<in> set xs. f r = h}"
  by auto

lemma ok_changed_hub:
  assumes ok: "db_ok pg db" and row: "hub_of_id h db = Some row" and same: "\<And>r. hr_id (upd r) = hr_id r" "\<And>r. hr_owner (upd r) = hr_owner r"
    and n: "name_length_ok (hr_name (upd row))"
    and t: "\<not> name_taken pg (hr_owner (upd row)) (hr_name (upd row)) (filter (\<lambda>r. hr_id r \<noteq> h) (t_hubs db))"
  shows "db_ok pg (db\<lparr> t_hubs := map (\<lambda>r. if hr_id r = h then upd r else r) (t_hubs db) \<rparr>)"
proof -
  define hs where "hs = map (\<lambda>r. if hr_id r = h then upd r else r) (t_hubs db)"
  let ?f = "\<lambda>h. (hr_owner h, pg_lower pg (hr_name h))" and ?A = "{r \<in> set (t_hubs db). hr_id r \<noteq> h}"
  have row': "row \<in> set (t_hubs db)" "hr_id row = h" using hub_of_id_Some[OF row] by simp_all
  have d: "distinct (map hr_id (t_hubs db))" using ok by (simp add: db_ok_def pk_ok_def)
  have "{r \<in> set (t_hubs db). hr_id r = h} = {row}" using row' distinct_inj[OF d] by blast
  then have st: "set hs = insert (upd row) ?A" unfolding hs_def map_upd_set by simp
  have ids: "map hr_id hs = map hr_id (t_hubs db)" by (simp add: hs_def same)
  have sub: "\<exists>y \<in> set hs. hr_id y = hr_id x \<and> hr_owner y = hr_owner x" if "x \<in> set (t_hubs db)" for x
  proof -
    have "(if hr_id x = h then upd x else x) \<in> set hs" unfolding hs_def set_map by (rule imageI) (rule that)
    then show ?thesis by (rule bexI[rotated]) (simp add: same)
  qed
  have len: "length (filter (\<lambda>r. hr_owner r = u) hs) = length (filter (\<lambda>r. hr_owner r = u) (t_hubs db))" for u
    unfolding hs_def by (rule length_filter_upd) (simp add: same)
  have img: "hr_id ` set hs = hr_id ` set (t_hubs db)" using arg_cong[OF ids, of set] by simp
  have "inj_on ?f ?A" by (rule inj_on_subset[of _ "set (t_hubs db)"]) (use ok in \<open>auto simp: db_ok_def names_ok_def\<close>)
  moreover have "?f (upd row) \<notin> ?f ` ?A" using t unfolding name_not_taken set_filter .
  ultimately have inj: "inj_on ?f (set hs)" unfolding st inj_on_insert by blast
  have "\<forall>x \<in> set hs. has_profile (hr_owner x) db \<and> \<not> is_deleted (hr_owner x) db \<and> name_length_ok (hr_name x)"
    unfolding st using ok n row' by (auto simp: db_ok_def hubs_ok_def same)
  then have "hubs_ok (db\<lparr> t_hubs := hs \<rparr>)" by (simp add: hubs_ok_def)
  moreover have "member_ok (db\<lparr> t_hubs := hs \<rparr>) m" if "member_ok db m" for m
    using that unfolding member_ok_def by (auto dest!: sub)
  then have "members_ok (db\<lparr> t_hubs := hs \<rparr>)" using ok by (simp add: db_ok_def members_ok_def)
  moreover have "channels_ok (db\<lparr> t_hubs := hs \<rparr>)" using ok by (simp add: db_ok_def channels_ok_def img)
  moreover have "pk_ok (db\<lparr> t_hubs := hs \<rparr>)" using ok by (simp add: db_ok_def pk_ok_def ids)
  moreover have "limits_ok (db\<lparr> t_hubs := hs \<rparr>)" using ok by (simp add: db_ok_def limits_ok_def owned_hubs_def channels_of_def len)
  moreover have "names_ok pg (db\<lparr> t_hubs := hs \<rparr>)" using ok inj by (simp add: db_ok_def names_ok_def)
  ultimately show ?thesis unfolding hs_def[symmetric] by (simp add: db_ok_def)
qed

lemma keeps_update_hub:
  assumes "\<And>r. hr_id (upd r) = hr_id r" "\<And>r. hr_owner (upd r) = hr_owner r"
  shows "keeps_ok pg (update_hub pg h upd)"
  unfolding keeps_ok_def using ok_changed_hub[OF _ _ assms]
  by (auto simp: update_hub_def fails_def Let_def split: option.split)

section \<open>Channels\<close>

lemma channel_name_not_taken:
  "\<not> channel_name_taken pg h n rows \<longleftrightarrow> (h, pg_lower pg n) \<notin> (\<lambda>c. (cr_hub c, pg_lower pg (cr_name c))) ` set rows"
  by (auto simp: channel_name_taken_def list_ex_iff)

lemma keeps_insert_channel: "keeps_ok pg (insert_channel pg new now h name ty creator)"
  unfolding keeps_ok_def
proof (intro allI impI)
  fix db assume ok: "db_ok pg db"
  let ?row = "\<lparr> cr_id = new, cr_hub = h, cr_name = name, cr_type = ty, cr_position = 0, cr_created = now \<rparr>"
  let ?db = "db\<lparr> t_channels := t_channels db @ [?row] \<rparr>"
  have "db_ok pg ?db" if "length (channels_of h db) < 3" "ty \<in> {''text'', ''voice''}" "name_length_ok name"
    "channel_of_id new db = None" "\<not> channel_name_taken pg h name (t_channels db)" "hub_of_id h db \<noteq> None"
  proof -
    have "pk_ok ?db" using ok that by (simp add: db_ok_def pk_ok_def channel_of_id_None)
    moreover have "hubs_ok ?db" "members_ok ?db" using ok by (simp_all add: db_ok_def hubs_ok_def members_ok_def)
    moreover have "channels_ok ?db" using ok that by (auto simp: db_ok_def channels_ok_def hub_of_id_None)
    moreover have "limits_ok ?db" using ok that by (auto simp: db_ok_def limits_ok_def owned_hubs_def channels_of_def)
    moreover have "names_ok pg ?db" using ok that by (auto simp: db_ok_def names_ok_def channel_name_not_taken)
    ultimately show ?thesis by (simp add: db_ok_def)
  qed
  then show "db_ok pg (snd (insert_channel pg new now h name ty creator db))"
    using ok by (auto simp: insert_channel_def fails_def)
qed

lemma ok_fewer_channels:
  assumes "db_ok pg db" "t_channels db' = filter P (t_channels db)" "t_hubs db' = t_hubs db" "t_members db' = t_members db"
    "t_profiles db' = t_profiles db"
  shows "db_ok pg db'"
proof -
  have p: "has_profile u db' = has_profile u db" "is_deleted u db' = is_deleted u db" for u
    using assms(5) by (simp_all add: has_profile_def is_deleted_def)
  have "length (filter (\<lambda>r. cr_hub r = h) (filter P (t_channels db))) \<le> length (filter (\<lambda>r. cr_hub r = h) (t_channels db))" for h
    by (rule length_filter_filter)
  then have "limits_ok db'"
    using assms(1) unfolding db_ok_def limits_ok_def owned_hubs_def channels_of_def assms(2,3) by (blast intro: le_trans)
  moreover have "pk_ok db'" using assms(1) unfolding db_ok_def pk_ok_def assms(2-4) by (simp add: distinct_map_filter)
  moreover have "hubs_ok db'" "members_ok db'" "channels_ok db'"
    using assms(1) unfolding db_ok_def hubs_ok_def members_ok_def member_ok_def channels_ok_def assms(2-4) p by auto
  moreover have "names_ok pg db'"
    using assms(1) unfolding db_ok_def names_ok_def assms(2,3) by (auto intro: inj_on_subset)
  ultimately show ?thesis by (simp add: db_ok_def)
qed

lemma delete_channels_sel [simp]:
  "t_channels (delete_channels P db) = filter (\<lambda>c. \<not> P c) (t_channels db)"
  "t_hubs (delete_channels P db) = t_hubs db" "t_members (delete_channels P db) = t_members db"
  "t_profiles (delete_channels P db) = t_profiles db"
  by (simp_all add: delete_channels_def delete_messages_def Let_def)

lemma ok_delete_channels: "db_ok pg db \<Longrightarrow> db_ok pg (delete_channels P db)"
  by (rule ok_fewer_channels[where P = "\<lambda>c. \<not> P c"]) simp_all

lemma keeps_delete_channel: "keeps_ok pg (delete_channel c h)"
  by (simp add: keeps_ok_def delete_channel_def ok_delete_channels)

lemma keeps_delete_hub: "keeps_ok pg (delete_hub h owner)"
  unfolding keeps_ok_def
proof (intro allI impI)
  fix db assume "db_ok pg db"
  then have ok: "db_ok pg (delete_channels (\<lambda>c. cr_hub c = h) db)" (is "db_ok pg ?d") by (rule ok_delete_channels)
  let ?db = "?d\<lparr> t_hubs := filter (\<lambda>r. hr_id r \<noteq> h) (t_hubs ?d), t_members := filter (\<lambda>m. mr_hub m \<noteq> h) (t_members ?d) \<rparr>"
  have p: "has_profile u ?db = has_profile u ?d" "is_deleted u ?db = is_deleted u ?d" for u
    by (simp_all add: has_profile_def is_deleted_def)
  have "length (filter (\<lambda>r. hr_owner r = u) (filter (\<lambda>r. hr_id r \<noteq> h) (t_hubs db))) \<le> length (filter (\<lambda>r. hr_owner r = u) (t_hubs db))" for u
    by (rule length_filter_filter)
  then have "limits_ok ?db"
    using ok unfolding db_ok_def limits_ok_def owned_hubs_def channels_of_def by (auto intro: le_trans simp del: filter_filter)
  moreover have "pk_ok ?db" using ok by (simp add: db_ok_def pk_ok_def distinct_map_filter)
  moreover have "hubs_ok ?db" using ok unfolding db_ok_def hubs_ok_def p by simp
  moreover have "member_ok ?db m" if "member_ok ?d m" "mr_hub m \<noteq> h" for m
    using that unfolding member_ok_def p by auto
  then have "members_ok ?db" using ok by (auto simp: db_ok_def members_ok_def simp del: member_ok_frame)
  moreover have "channels_ok ?db" using ok unfolding db_ok_def channels_ok_def by auto
  moreover have "names_ok pg ?db" using ok unfolding db_ok_def names_ok_def by (auto intro: inj_on_subset)
  ultimately have "db_ok pg ?db" by (simp add: db_ok_def)
  then show "db_ok pg (snd (delete_hub h owner db))" using \<open>db_ok pg db\<close> by (simp add: delete_hub_def Let_def)
qed

lemma keeps_update_channel_name: "keeps_ok pg (update_channel_name pg c name)"
  unfolding keeps_ok_def
proof (intro allI impI)
  fix db assume ok: "db_ok pg db"
  let ?cs = "map (\<lambda>r. if cr_id r = c then r\<lparr> cr_name := name \<rparr> else r) (t_channels db)"
  let ?db = "db\<lparr> t_channels := ?cs \<rparr>"
  have "db_ok pg ?db" if row: "channel_of_id c db = Some row" and n: "name_length_ok name"
    and t: "\<not> channel_name_taken pg (cr_hub row) name (filter (\<lambda>r. cr_id r \<noteq> c) (t_channels db))" for row
  proof -
    have row': "row \<in> set (t_channels db)" "cr_id row = c" using channel_of_id_Some[OF row] by simp_all
    have d: "distinct (map cr_id (t_channels db))" using ok by (simp add: db_ok_def pk_ok_def)
    have only: "{r \<in> set (t_channels db). cr_id r = c} = {row}" using row' distinct_inj[OF d] by blast
    have st: "set ?cs = insert (row\<lparr> cr_name := name \<rparr>) {r \<in> set (t_channels db). cr_id r \<noteq> c}"
      unfolding map_upd_set only by simp
    have ids: "map cr_id ?cs = map cr_id (t_channels db)" by simp
    have 1: "pk_ok ?db" using ok ids unfolding pk_ok_def db_ok_def by (simp del: map_map)
    have 2: "hubs_ok ?db" "members_ok ?db" using ok by (simp_all add: db_ok_def hubs_ok_def members_ok_def)
    have 3: "channels_ok ?db" using ok n row' unfolding channels_ok_def db_ok_def by (auto simp: st simp del: set_map)
    have "length (filter (\<lambda>r. cr_hub r = x) ?cs) = length (filter (\<lambda>r. cr_hub r = x) (t_channels db))" for x
      by (rule length_filter_upd) simp
    then have 4: "limits_ok ?db" using ok by (simp add: db_ok_def limits_ok_def owned_hubs_def channels_of_def)
    let ?f = "\<lambda>c. (cr_hub c, pg_lower pg (cr_name c))"
    have "inj_on ?f {r \<in> set (t_channels db). cr_id r \<noteq> c}"
      by (rule inj_on_subset[of _ "set (t_channels db)"]) (use ok in \<open>auto simp: db_ok_def names_ok_def\<close>)
    moreover have "?f (row\<lparr> cr_name := name \<rparr>) \<notin> ?f ` {r \<in> set (t_channels db). cr_id r \<noteq> c}"
      using t unfolding channel_name_not_taken set_filter by simp
    ultimately have "inj_on ?f (set ?cs)" unfolding st inj_on_insert by blast
    then have 5: "names_ok pg ?db" using ok by (simp add: names_ok_def db_ok_def del: set_map)
    show ?thesis using 1 2 3 4 5 by (simp add: db_ok_def)
  qed
  then show "db_ok pg (snd (update_channel_name pg c name db))"
    using ok by (auto simp: update_channel_name_def fails_def split: option.split)
qed

section \<open>Profiles\<close>

lemma ok_signup:
  assumes "\<not> has_profile (pr_user p) db" "\<not> pr_deleted p" "db_ok pg db"
  shows "db_ok pg (db\<lparr> t_profiles := t_profiles db @ [p] \<rparr>)"
proof -
  let ?db = "db\<lparr> t_profiles := t_profiles db @ [p] \<rparr>"
  have "has_profile u db \<Longrightarrow> has_profile u ?db" "is_deleted u ?db = is_deleted u db" for u
    using assms(2) by (auto simp: has_profile_def is_deleted_def)
  then show ?thesis
    using assms(3) by (simp add: db_ok_def pk_ok_def hubs_ok_def members_ok_def member_ok_def channels_ok_def limits_ok_def names_ok_def
        owned_hubs_def channels_of_def)
qed

lemma keeps_soft_delete: "keeps_ok pg (soft_delete_profile u)"
  unfolding keeps_ok_def
proof (intro allI impI)
  fix db assume ok: "db_ok pg db"
  let ?active = "list_ex (\<lambda>p. pr_user p = u \<and> \<not> pr_deleted p) (t_profiles db)"
  let ?ps = "map (\<lambda>p. if pr_user p = u then p\<lparr> pr_deleted := True \<rparr> else p) (t_profiles db)"
  let ?ms = "if ?active then filter (\<lambda>m. mr_user m \<noteq> u) (t_members db) else t_members db"
  let ?db = "db\<lparr> t_profiles := ?ps, t_members := ?ms \<rparr>"
  let ?f = "\<lambda>p. if pr_user p = u then p\<lparr> pr_deleted := True \<rparr> else p"
  have "list_ex (\<lambda>p. pr_user p = v) (map ?f ps) = list_ex (\<lambda>p. pr_user p = v) ps" for v ps by (induction ps) auto
  then have p: "has_profile v ?db = has_profile v db" for v by (simp add: has_profile_def)
  have ne: "list_ex (\<lambda>p. pr_user p = v \<and> pr_deleted p) (map ?f ps) = list_ex (\<lambda>p. pr_user p = v \<and> pr_deleted p) ps" if "v \<noteq> u" for v ps
    using that by (induction ps) auto
  have na: "list_ex (\<lambda>p. pr_user p = v \<and> pr_deleted p) (map ?f ps) = list_ex (\<lambda>p. pr_user p = v \<and> pr_deleted p) ps"
    if "\<not> list_ex (\<lambda>p. pr_user p = u \<and> \<not> pr_deleted p) ps" for v ps
    using that by (induction ps) auto
  have q: "is_deleted v ?db = is_deleted v db" if "v \<noteq> u \<or> \<not> ?active" for v
    using that ne[of v "t_profiles db"] na[of "t_profiles db" v] by (auto simp: is_deleted_def)
  have "db_ok pg ?db" if no: "?active \<longrightarrow> owned_hubs u db = []"
  proof -
    have "hubs_ok ?db"
      unfolding hubs_ok_def
    proof
      fix x assume x: "x \<in> set (t_hubs ?db)"
      then have "hr_owner x \<noteq> u \<or> \<not> ?active" using no by (auto simp: owned_hubs_def filter_empty_conv)
      then show "has_profile (hr_owner x) ?db \<and> \<not> is_deleted (hr_owner x) ?db \<and> name_length_ok (hr_name x)"
        using ok x q p by (simp add: db_ok_def hubs_ok_def)
    qed
    moreover have "members_ok ?db"
      unfolding members_ok_def
    proof
      fix m assume m: "m \<in> set (t_members ?db)"
      then have "mr_user m \<noteq> u \<or> \<not> ?active" "m \<in> set (t_members db)" by (auto split: if_split_asm)
      then show "member_ok ?db m" using ok q p by (simp add: db_ok_def members_ok_def member_ok_def)
    qed
    moreover have "pk_ok ?db" using ok by (simp add: db_ok_def pk_ok_def distinct_map_filter)
    ultimately show ?thesis
      using ok by (simp add: db_ok_def channels_ok_def limits_ok_def names_ok_def owned_hubs_def channels_of_def)
  qed
  then show "db_ok pg (snd (soft_delete_profile u db))" using ok by (auto simp: soft_delete_profile_def fails_def)
qed

end
