(* ===== verification/HubRepo.thy ===== *)
theory HubRepo
  imports TableLaws
begin

text \<open>
  The domain types of hubs and channels (\<^verbatim>\<open>src/domains/Hub.h\<close>, \<^verbatim>\<open>Channel.h\<close>), the role policy
  (\<^verbatim>\<open>src/app/services/hub/RolePolicy.h\<close>) and \<^verbatim>\<open>HubRepository\<close> (\<^verbatim>\<open>src/infra/persistence/repositories/HubRepository.cpp\<close>):
  every method is its SQL statement on the tables of theory \<open>Tables\<close>, run by the transaction runner.
\<close>

section \<open>Domain types\<close>

datatype Role = USER | ADMIN | OWNER

text \<open>The enumeration order.\<close>

fun role_rank :: "Role \<Rightarrow> nat" where
  "role_rank USER = 0"
| "role_rank ADMIN = 1"
| "role_rank OWNER = 2"

lemma role_rank_inj: "role_rank r = role_rank r' \<longleftrightarrow> r = r'"
  by (cases r; cases r') simp_all

instantiation Role :: linorder
begin

definition less_eq_Role :: "Role \<Rightarrow> Role \<Rightarrow> bool" where
  "less_eq_Role r r' \<longleftrightarrow> role_rank r \<le> role_rank r'"

definition less_Role :: "Role \<Rightarrow> Role \<Rightarrow> bool" where
  "less_Role r r' \<longleftrightarrow> role_rank r < role_rank r'"

instance
  by standard (auto simp: less_eq_Role_def less_Role_def role_rank_inj)

end

datatype ChannelType = CHAT | VOICE

record Hub =
  hub_name :: string
  hub_id :: HubId
  hub_owner :: UserId
  hub_avatar_seed :: string
  hub_members :: "(UserId, Role) umap"

record Channel =
  channel_name :: string
  channel_id :: ChannelId
  channel_hub :: HubId
  channel_type :: ChannelType

definition new_hub :: "string \<Rightarrow> HubId \<Rightarrow> UserId \<Rightarrow> Hub" where
  "new_hub name i owner = \<lparr> hub_name = name, hub_id = i, hub_owner = owner, hub_avatar_seed = [], hub_members = [(owner, OWNER)] \<rparr>"

definition setMemberRole :: "UserId \<Rightarrow> Role \<Rightarrow> Hub \<Rightarrow> Hub" where
  "setMemberRole u r h = h\<lparr> hub_members := AList.update u r (hub_members h) \<rparr>"

definition tolower_ascii :: "string \<Rightarrow> string" where
  "tolower_ascii s = map to_lower s"

definition role_from_string :: "string \<Rightarrow> Role" where
  "role_from_string role =
     (let l = tolower_ascii role in if l = ''owner'' then OWNER else if l = ''admin'' then ADMIN else USER)"

fun role_to_string :: "Role \<Rightarrow> string" where
  "role_to_string OWNER = ''owner''"
| "role_to_string ADMIN = ''admin''"
| "role_to_string USER = ''member''"

definition normalize_db_role :: "string \<Rightarrow> string" where
  "normalize_db_role role =
     (case role_from_string role of OWNER \<Rightarrow> ''owner'' | ADMIN \<Rightarrow> ''admin'' | USER \<Rightarrow> ''member'')"

definition channel_type_from_string :: "string \<Rightarrow> ChannelType" where
  "channel_type_from_string type = (if tolower_ascii type = ''voice'' then VOICE else CHAT)"

section \<open>Role policy\<close>

definition canInvite :: "Role \<Rightarrow> bool" where
  "canInvite actor \<longleftrightarrow> actor = OWNER \<or> actor = ADMIN"

definition canKickHubMember :: "Role \<Rightarrow> Role \<Rightarrow> UserId \<Rightarrow> UserId \<Rightarrow> bool" where
  "canKickHubMember actor_role target_role actor tgt =
     (if actor = tgt then False
      else if target_role = OWNER then False
      else if actor_role = OWNER then target_role = ADMIN \<or> target_role = USER
      else if actor_role = ADMIN then target_role = USER
      else False)"

definition canKickVoiceParticipant :: "Role \<Rightarrow> Role \<Rightarrow> UserId \<Rightarrow> UserId \<Rightarrow> bool" where
  "canKickVoiceParticipant actor_role target_role actor tgt = canKickHubMember actor_role target_role actor tgt"

definition canChangeMemberRole :: "Role \<Rightarrow> Role \<Rightarrow> Role \<Rightarrow> UserId \<Rightarrow> UserId \<Rightarrow> bool" where
  "canChangeMemberRole actor_role target_role desired actor tgt =
     (if actor_role \<noteq> OWNER then False
      else if actor = tgt then False
      else if target_role = OWNER then False
      else if desired = OWNER then False
      else if desired \<noteq> ADMIN \<and> desired \<noteq> USER then False
      else if target_role \<noteq> ADMIN \<and> target_role \<noteq> USER then False
      else if target_role = desired then False
      else True)"

section \<open>Rows to values\<close>

definition parse_channel_row :: "channel_row \<Rightarrow> Channel" where
  "parse_channel_row r = \<lparr> channel_name = cr_name r, channel_id = cr_id r, channel_hub = cr_hub r,
     channel_type = channel_type_from_string (cr_type r) \<rparr>"

definition parse_hub_row :: "hub_row \<Rightarrow> Hub" where
  "parse_hub_row r = (new_hub (hr_name r) (hr_id r) (hr_owner r))\<lparr> hub_avatar_seed := hr_avatar r \<rparr>"

record MemberRole =
  mb_user :: UserId
  mb_role :: Role

definition parse_member_row :: "member_row \<Rightarrow> MemberRole" where
  "parse_member_row m = \<lparr> mb_user = mr_user m, mb_role = role_from_string (mr_role m) \<rparr>"

text \<open>\<^verbatim>\<open>ORDER BY position ASC, created_at ASC\<close> and \<^verbatim>\<open>ORDER BY joined_at ASC\<close>; ties keep the table order.\<close>

definition by_position :: "channel_row list \<Rightarrow> channel_row list" where
  "by_position rows = sort_key cr_position (sort_key cr_created rows)"

definition by_joined :: "member_row list \<Rightarrow> member_row list" where
  "by_joined rows = sort_key mr_joined rows"

text \<open>\<^verbatim>\<open>JOIN hub_roles r ON r.id = hm.role_id\<close>.\<close>

definition members_of :: "HubId \<Rightarrow> database \<Rightarrow> member_row list" where
  "members_of h db = filter (\<lambda>m. mr_hub m = h \<and> mr_role m \<in> set hub_roles) (t_members db)"

text \<open>\<^verbatim>\<open>by_hub[key].push_back(x)\<close> over the rows of a result.\<close>

definition push_back :: "'k \<Rightarrow> 'v \<Rightarrow> ('k, 'v list) umap \<Rightarrow> ('k, 'v list) umap" where
  "push_back k x m = AList.update k (lookup_or [] k m @ [x]) m"

definition group_rows :: "('r \<Rightarrow> 'k) \<Rightarrow> ('r \<Rightarrow> 'v) \<Rightarrow> 'r list \<Rightarrow> ('k, 'v list) umap" where
  "group_rows k v rows = fold (\<lambda>r. push_back (k r) (v r)) rows []"

section \<open>Queries\<close>

definition repo_getHub :: "pg \<Rightarrow> txn_faults \<Rightarrow> HubId \<Rightarrow> (database, Hub option) work" where
  "repo_getHub pg f h = txn_read f (with_uuid pg h (\<lambda>h db. (Inr (map_option parse_hub_row (hub_of_id h db)), db)))"

definition repo_getHubsByIds :: "pg \<Rightarrow> txn_faults \<Rightarrow> HubId list \<Rightarrow> (database, Hub list) work" where
  "repo_getHubsByIds pg f hs =
     (if hs = [] then (\<lambda>db. (Inr [], db))
      else txn_read f (with_uuids pg hs (\<lambda>hs db. (Inr (map parse_hub_row (filter (\<lambda>r. hr_id r \<in> set hs) (t_hubs db))), db))))"

definition repo_getUserHubs :: "pg \<Rightarrow> txn_faults \<Rightarrow> UserId \<Rightarrow> (database, Hub list) work" where
  "repo_getUserHubs pg f u =
     txn_read f (with_uuid pg u (\<lambda>v db.
       (Inr (map (\<lambda>(h, m). setMemberRole u (role_from_string (mr_role m)) (parse_hub_row h))
              (sort_key (\<lambda>(h, m). - hr_created h)
                (concat (map (\<lambda>h. map (Pair h) (filter (\<lambda>m. mr_user m = v) (members_of (hr_id h) db))) (t_hubs db))))), db)))"

definition repo_getChannel :: "pg \<Rightarrow> txn_faults \<Rightarrow> ChannelId \<Rightarrow> (database, Channel option) work" where
  "repo_getChannel pg f c = txn_read f (with_uuid pg c (\<lambda>c db. (Inr (map_option parse_channel_row (channel_of_id c db)), db)))"

definition repo_getChannelsByIds :: "pg \<Rightarrow> txn_faults \<Rightarrow> ChannelId list \<Rightarrow> (database, Channel list) work" where
  "repo_getChannelsByIds pg f cs =
     (if cs = [] then (\<lambda>db. (Inr [], db))
      else txn_read f (with_uuids pg cs (\<lambda>cs db. (Inr (map parse_channel_row (filter (\<lambda>r. cr_id r \<in> set cs) (t_channels db))), db))))"

definition repo_getHubChannels :: "pg \<Rightarrow> txn_faults \<Rightarrow> HubId \<Rightarrow> (database, Channel list) work" where
  "repo_getHubChannels pg f h =
     txn_read f (with_uuid pg h (\<lambda>h db. (Inr (map parse_channel_row (by_position (channels_of h db))), db)))"

text \<open>The order by hub first is immaterial: the rows go into one list per hub.\<close>

definition repo_getHubChannelsByHubIds :: "pg \<Rightarrow> txn_faults \<Rightarrow> HubId list \<Rightarrow> (database, (HubId, Channel list) umap) work" where
  "repo_getHubChannelsByHubIds pg f hs =
     (if hs = [] then (\<lambda>db. (Inr [], db))
      else txn_read f (with_uuids pg hs (\<lambda>hs db.
        (Inr (group_rows cr_hub parse_channel_row (by_position (filter (\<lambda>r. cr_hub r \<in> set hs) (t_channels db)))), db))))"

definition repo_isHubMember :: "pg \<Rightarrow> txn_faults \<Rightarrow> HubId \<Rightarrow> UserId \<Rightarrow> (database, bool) work" where
  "repo_isHubMember pg f h u =
     txn_read f (with_uuid pg h (\<lambda>h. with_uuid pg u (\<lambda>u db. (Inr (member_of_hub h u db \<noteq> None), db))))"

definition repo_getMembershipRole :: "pg \<Rightarrow> txn_faults \<Rightarrow> HubId \<Rightarrow> UserId \<Rightarrow> (database, Role option) work" where
  "repo_getMembershipRole pg f h u =
     txn_read f (with_uuid pg h (\<lambda>h. with_uuid pg u (\<lambda>u db.
       (Inr (map_option (\<lambda>m. role_from_string (mr_role m)) (find (\<lambda>m. mr_user m = u) (members_of h db))), db))))"

definition repo_getHubMemberRoles :: "pg \<Rightarrow> txn_faults \<Rightarrow> HubId \<Rightarrow> (database, MemberRole list) work" where
  "repo_getHubMemberRoles pg f h =
     txn_read f (with_uuid pg h (\<lambda>h db. (Inr (map parse_member_row (by_joined (members_of h db))), db)))"

definition repo_getHubMemberRolesByHubIds :: "pg \<Rightarrow> txn_faults \<Rightarrow> HubId list \<Rightarrow> (database, (HubId, MemberRole list) umap) work" where
  "repo_getHubMemberRolesByHubIds pg f hs =
     (if hs = [] then (\<lambda>db. (Inr [], db))
      else txn_read f (with_uuids pg hs (\<lambda>hs db.
        (Inr (group_rows mr_hub parse_member_row
           (by_joined (filter (\<lambda>m. mr_hub m \<in> set hs \<and> mr_role m \<in> set hub_roles) (t_members db)))), db))))"

definition repo_getHubWithMembers :: "pg \<Rightarrow> txn_faults \<Rightarrow> HubId \<Rightarrow> (database, Hub option) work" where
  "repo_getHubWithMembers pg f h =
     txn_read f (with_uuid pg h (\<lambda>h db.
       (Inr (case hub_of_id h db of
          None \<Rightarrow> None
        | Some r \<Rightarrow> Some (fold (\<lambda>m. setMemberRole (mr_user m) (role_from_string (mr_role m)))
                          (by_joined (filter (\<lambda>m. mr_hub m = h) (t_members db))) (parse_hub_row r))), db)))"

definition repo_getHubChannelIds :: "pg \<Rightarrow> txn_faults \<Rightarrow> HubId \<Rightarrow> (database, ChannelId list) work" where
  "repo_getHubChannelIds pg f h =
     txn_read f (with_uuid pg h (\<lambda>h db. (Inr (map cr_id (by_position (channels_of h db))), db)))"

definition repo_getHubChannelIdsByHubIds :: "pg \<Rightarrow> txn_faults \<Rightarrow> HubId list \<Rightarrow> (database, (HubId, ChannelId list) umap) work" where
  "repo_getHubChannelIdsByHubIds pg f hs =
     (if hs = [] then (\<lambda>db. (Inr [], db))
      else txn_read f (with_uuids pg hs (\<lambda>hs db.
        (Inr (group_rows cr_hub cr_id (by_position (filter (\<lambda>r. cr_hub r \<in> set hs) (t_channels db)))), db))))"

section \<open>Writes\<close>

definition repo_createHub :: "pg \<Rightarrow> txn_faults \<Rightarrow> HubId \<Rightarrow> int \<Rightarrow> string \<Rightarrow> UserId \<Rightarrow> (database, Hub) work" where
  "repo_createHub pg f new now name owner =
     txn_write f (with_uuid pg owner (\<lambda>u db.
       (case insert_hub pg new now name u db of (Inl e, db) \<Rightarrow> (Inl e, db) | (Inr r, db) \<Rightarrow> (Inr (parse_hub_row r), db))))"

definition repo_addMember :: "pg \<Rightarrow> txn_faults \<Rightarrow> int \<Rightarrow> HubId \<Rightarrow> UserId \<Rightarrow> string \<Rightarrow> (database, unit) work" where
  "repo_addMember pg f now h u role =
     txn_write f (with_uuid pg h (\<lambda>h. with_uuid pg u (\<lambda>u. upsert_member now h u (get_hub_role_id (normalize_db_role role)))))"

definition repo_removeMember :: "pg \<Rightarrow> txn_faults \<Rightarrow> HubId \<Rightarrow> UserId \<Rightarrow> (database, unit) work" where
  "repo_removeMember pg f h u = txn_write f (with_uuid pg h (\<lambda>h. with_uuid pg u (\<lambda>u. delete_member h u)))"

definition repo_renameHub :: "pg \<Rightarrow> txn_faults \<Rightarrow> HubId \<Rightarrow> string \<Rightarrow> (database, bool) work" where
  "repo_renameHub pg f h name = txn_write f (with_uuid pg h (\<lambda>h. update_hub pg h (\<lambda>r. r\<lparr> hr_name := name \<rparr>)))"

definition repo_updateHubAvatarSeed :: "pg \<Rightarrow> txn_faults \<Rightarrow> HubId \<Rightarrow> string \<Rightarrow> (database, bool) work" where
  "repo_updateHubAvatarSeed pg f h seed = txn_write f (with_uuid pg h (\<lambda>h. update_hub pg h (\<lambda>r. r\<lparr> hr_avatar := seed \<rparr>)))"

definition repo_deleteHub :: "pg \<Rightarrow> txn_faults \<Rightarrow> HubId \<Rightarrow> UserId \<Rightarrow> (database, bool) work" where
  "repo_deleteHub pg f h owner = txn_write f (with_uuid pg h (\<lambda>h. with_uuid pg owner (\<lambda>u. delete_hub h u)))"

definition repo_createChannel :: "pg \<Rightarrow> txn_faults \<Rightarrow> ChannelId \<Rightarrow> int \<Rightarrow> HubId \<Rightarrow> string \<Rightarrow> string \<Rightarrow> UserId \<Rightarrow> (database, ChannelId) work" where
  "repo_createChannel pg f new now h name type creator =
     txn_write f (with_uuid pg h (\<lambda>h. with_uuid pg creator (\<lambda>u. insert_channel pg new now h name type u)))"

definition repo_renameChannel :: "pg \<Rightarrow> txn_faults \<Rightarrow> ChannelId \<Rightarrow> string \<Rightarrow> (database, bool) work" where
  "repo_renameChannel pg f c name = txn_write f (with_uuid pg c (\<lambda>c. update_channel_name pg c name))"

definition repo_deleteChannel :: "pg \<Rightarrow> txn_faults \<Rightarrow> ChannelId \<Rightarrow> HubId \<Rightarrow> (database, bool) work" where
  "repo_deleteChannel pg f c h = txn_write f (with_uuid pg c (\<lambda>c. with_uuid pg h (\<lambda>h. delete_channel c h)))"

section \<open>The constraints hold\<close>

lemma role_strings [simp]: "role_from_string (role_to_string r) = r" "normalize_db_role (role_to_string r) = role_to_string r"
  by (cases r; simp add: role_from_string_def tolower_ascii_def to_lower_def normalize_db_role_def Let_def)+

lemma normalized_role: "get_hub_role_id (normalize_db_role role) = Some (role_to_string (role_from_string role))"
  by (cases "role_from_string role") (simp_all add: normalize_db_role_def get_hub_role_id_def hub_roles_def)

lemma role_id_known: "role_to_string r \<in> set hub_roles"
  by (cases r) (simp_all add: hub_roles_def)

lemma keeps_with_uuid: "(\<And>u. keeps_ok pg (k u)) \<Longrightarrow> keeps_ok pg (with_uuid pg' s k)"
  by (simp add: keeps_ok_def with_uuid_def fails_def split: option.split)

lemma keeps_write: "keeps_ok pg fn \<Longrightarrow> keeps_ok pg (txn_write f fn)"
  unfolding keeps_ok_def
proof (intro allI impI)
  fix db assume fn: "\<forall>db. db_ok pg db \<longrightarrow> db_ok pg (snd (fn db))" and ok: "db_ok pg db"
  obtain r db' where w: "txn_write f fn db = (r, db')" by force
  then have "db_ok pg db'" using fn ok by (cases rule: txn_write_cases) (metis snd_conv)+
  then show "db_ok pg (snd (txn_write f fn db))" by (simp add: w)
qed

lemma keeps_member_upsert: "keeps_ok pg (upsert_member now h u (get_hub_role_id (normalize_db_role role)))"
  unfolding keeps_ok_def normalized_role by (intro allI impI keeps_upsert_member) (simp_all add: role_id_known)

lemma keeps_createHub: "keeps_ok pg (repo_createHub pg f new now name owner)"
proof -
  have "keeps_ok pg (\<lambda>db. case insert_hub pg new now name u db of (Inl e, db) \<Rightarrow> (Inl e, db) | (Inr r, db) \<Rightarrow> (Inr (parse_hub_row r), db))" for u
    using keeps_insert_hub[of pg new now name u] by (force simp: keeps_ok_def split: prod.split sum.split)
  then show ?thesis unfolding repo_createHub_def by (intro keeps_write keeps_with_uuid)
qed

lemma keeps_repo:
  "keeps_ok pg (repo_addMember pg f now h u role)" "keeps_ok pg (repo_removeMember pg f h u)"
  "keeps_ok pg (repo_renameHub pg f h name)" "keeps_ok pg (repo_updateHubAvatarSeed pg f h seed)"
  "keeps_ok pg (repo_deleteHub pg f h owner)" "keeps_ok pg (repo_createChannel pg f new now h name ty creator)"
  "keeps_ok pg (repo_renameChannel pg f c name)" "keeps_ok pg (repo_deleteChannel pg f c h)"
  unfolding repo_addMember_def repo_removeMember_def repo_renameHub_def repo_updateHubAvatarSeed_def repo_deleteHub_def
    repo_createChannel_def repo_renameChannel_def repo_deleteChannel_def
  by (intro keeps_write keeps_with_uuid keeps_member_upsert keeps_delete_member keeps_update_hub keeps_delete_hub
      keeps_insert_channel keeps_update_channel_name keeps_delete_channel; simp)+

text \<open>Everything that changes these tables: the repository, a sign-up and the soft deletion of an account.\<close>

inductive repo_step :: "pg \<Rightarrow> database \<Rightarrow> database \<Rightarrow> bool" for pg where
  step_createHub: "repo_step pg db (snd (repo_createHub pg f new now name owner db))"
| step_addMember: "repo_step pg db (snd (repo_addMember pg f now h u role db))"
| step_removeMember: "repo_step pg db (snd (repo_removeMember pg f h u db))"
| step_renameHub: "repo_step pg db (snd (repo_renameHub pg f h name db))"
| step_avatar: "repo_step pg db (snd (repo_updateHubAvatarSeed pg f h seed db))"
| step_deleteHub: "repo_step pg db (snd (repo_deleteHub pg f h owner db))"
| step_createChannel: "repo_step pg db (snd (repo_createChannel pg f new now h name ty creator db))"
| step_renameChannel: "repo_step pg db (snd (repo_renameChannel pg f c name db))"
| step_deleteChannel: "repo_step pg db (snd (repo_deleteChannel pg f c h db))"
| step_signup: "\<not> has_profile (pr_user p) db \<Longrightarrow> \<not> pr_deleted p \<Longrightarrow> repo_step pg db (db\<lparr> t_profiles := t_profiles db @ [p] \<rparr>)"
| step_account_deletion: "repo_step pg db (snd (soft_delete_profile u db))"

inductive repo_reach :: "pg \<Rightarrow> database \<Rightarrow> bool" for pg where
  repo_empty: "repo_reach pg empty_database"
| repo_next: "repo_reach pg db \<Longrightarrow> repo_step pg db db' \<Longrightarrow> repo_reach pg db'"

lemma repo_step_ok: "repo_step pg db db' \<Longrightarrow> db_ok pg db \<Longrightarrow> db_ok pg db'"
proof (induction rule: repo_step.induct)
  case (step_signup p db)
  then show ?case by (rule ok_signup)
next
  case (step_account_deletion db u)
  then show ?case using keeps_soft_delete[of pg u] by (simp add: keeps_ok_def)
qed (use keeps_createHub keeps_repo in \<open>auto simp: keeps_ok_def\<close>)

lemma repo_reach_ok: "repo_reach pg db \<Longrightarrow> db_ok pg db"
  by (induction rule: repo_reach.induct) (simp_all add: db_ok_empty repo_step_ok)


text \<open>A PostgreSQL whose identifiers are any texts without capitals.\<close>

definition plain_pg :: pg where
  "plain_pg = \<lparr> pg_uuid = (\<lambda>s. Some (map to_lower s)), pg_lower = map to_lower \<rparr>"

definition ada :: profile_row where
  "ada = \<lparr> pr_user = ''ada'', pr_name = ''ada'', pr_display = ''Ada'', pr_avatar = ''Caleb'', pr_deleted = False \<rparr>"

definition ada_signed_up :: database where
  "ada_signed_up = empty_database\<lparr> t_profiles := [ada] \<rparr>"

definition ada_with_hub :: database where
  "ada_with_hub = snd (repo_createHub plain_pg no_faults ''h1'' 1 ''Hub'' ''ada'' ada_signed_up)"

lemma steady_write: "txn_write no_faults fn db = commit fn db"
  by (simp add: txn_write_def txn_run_def no_faults_def run_loop.simps)

lemma steady_read: "txn_read no_faults fn db = commit fn db"
  by (simp add: txn_read_def txn_run_def no_faults_def run_loop.simps)

lemma ada_reach: "repo_reach plain_pg ada_with_hub"
proof -
  have "repo_step plain_pg empty_database (empty_database\<lparr> t_profiles := t_profiles empty_database @ [ada] \<rparr>)"
    by (rule step_signup) (simp_all add: has_profile_def empty_database_def ada_def)
  then have "repo_reach plain_pg ada_signed_up"
    using repo_next[OF repo_empty] by (simp add: ada_signed_up_def empty_database_def)
  then show ?thesis unfolding ada_with_hub_def by (rule repo_next) (rule step_createHub)
qed

lemma ada_with_hub_eq:
  "ada_with_hub = ada_signed_up\<lparr> t_hubs := [\<lparr> hr_id = ''h1'', hr_name = ''Hub'', hr_avatar = ''Felix'', hr_owner = ''ada'', hr_created = 1 \<rparr>],
     t_members := [\<lparr> mr_hub = ''h1'', mr_user = ''ada'', mr_role = ''owner'', mr_joined = 1 \<rparr>] \<rparr>"
  by (simp add: ada_with_hub_def repo_createHub_def steady_write commit_def with_uuid_def plain_pg_def to_lower_def insert_hub_def
      ada_signed_up_def empty_database_def ada_def owned_hubs_def is_deleted_def has_profile_def name_length_ok_def char_length_def
      btrim_def hub_of_id_def name_taken_def upsert_member_def member_triggers_def get_hub_role_id_def hub_roles_def member_of_hub_def Let_def)


end
