(* ===== verification/HubService.thy ===== *)
theory HubService
  imports HubRepo "HOL-Library.List_Lexorder" "HOL-Library.Char_ord"
begin

text \<open>
  The caches of hubs and channels (\<^verbatim>\<open>src/core/cache\<close>, \<^verbatim>\<open>src/app/services/hub/HubCache.cpp\<close>, \<^verbatim>\<open>ChannelCache.h\<close>) and
  \<^verbatim>\<open>HubService\<close> (\<^verbatim>\<open>src/app/services/hub/HubService.cpp\<close>) over the repository of theory \<open>HubRepo\<close>. Every call of the
  repository takes the next entry of the script \<open>hs_faults\<close> of what the network does to it. The hash function of the
  C++ library is a parameter.
\<close>

section \<open>Caches\<close>

record AnyKey =
  ak_type :: string
  ak_hash :: "64 word"

definition make_key :: "string \<Rightarrow> (string \<Rightarrow> 64 word) \<Rightarrow> string \<Rightarrow> AnyKey" where
  "make_key t hash k = \<lparr> ak_type = t, ak_hash = hash k \<rparr>"

type_synonym 'v mem_cache = "(AnyKey, 'v) umap"

definition mc_get :: "AnyKey \<Rightarrow> 'v mem_cache \<Rightarrow> 'v option" where
  "mc_get k c = map_of c k"

definition mc_put :: "AnyKey \<Rightarrow> 'v \<Rightarrow> 'v mem_cache \<Rightarrow> 'v mem_cache" where
  "mc_put k v c = AList.update k v c"

definition mc_erase :: "AnyKey \<Rightarrow> 'v mem_cache \<Rightarrow> 'v mem_cache" where
  "mc_erase k c = AList.delete k c"

definition mc_contains :: "AnyKey \<Rightarrow> 'v mem_cache \<Rightarrow> bool" where
  "mc_contains k c \<longleftrightarrow> map_of c k \<noteq> None"

definition mc_clear :: "'v mem_cache \<Rightarrow> 'v mem_cache" where
  "mc_clear c = []"

definition mc_update :: "AnyKey \<Rightarrow> ('v \<Rightarrow> 'v) \<Rightarrow> 'v mem_cache \<Rightarrow> bool \<times> 'v mem_cache" where
  "mc_update k fn c = (case map_of c k of None \<Rightarrow> (False, c) | Some v \<Rightarrow> (True, AList.update k (fn v) c))"

definition mc_size :: "'v mem_cache \<Rightarrow> nat" where
  "mc_size c = length c"

record HubSnapshot =
  sn_id :: HubId
  sn_owner :: UserId
  sn_name :: string
  sn_avatar :: string
  sn_channel_ids :: "ChannelId list"
  sn_roles :: "(UserId, Role) umap"

text \<open>What a \<^verbatim>\<open>std::any\<close> of the hub cache can hold: a snapshot, or a null pointer or a value of another type.\<close>

datatype any = AnySnapshot HubSnapshot | AnyOther

datatype HubCacheError = NotFound | CorruptedEntry

definition hub_key :: "(string \<Rightarrow> 64 word) \<Rightarrow> HubId \<Rightarrow> AnyKey" where
  "hub_key hash h = make_key ''HubId'' hash h"

definition hc_get :: "(string \<Rightarrow> 64 word) \<Rightarrow> HubId \<Rightarrow> any mem_cache \<Rightarrow> (HubCacheError + HubSnapshot) \<times> any mem_cache" where
  "hc_get hash h c =
     (case mc_get (hub_key hash h) c of
        None \<Rightarrow> (Inl NotFound, c)
      | Some (AnySnapshot sn) \<Rightarrow> (Inr sn, c)
      | Some AnyOther \<Rightarrow> (Inl CorruptedEntry, mc_erase (hub_key hash h) c))"

definition hc_put :: "(string \<Rightarrow> 64 word) \<Rightarrow> HubSnapshot \<Rightarrow> any mem_cache \<Rightarrow> any mem_cache" where
  "hc_put hash sn c = mc_put (hub_key hash (sn_id sn)) (AnySnapshot sn) c"

definition hc_invalidate :: "(string \<Rightarrow> 64 word) \<Rightarrow> HubId \<Rightarrow> any mem_cache \<Rightarrow> any mem_cache" where
  "hc_invalidate hash h c = mc_erase (hub_key hash h) c"

definition cc_put :: "Channel \<Rightarrow> (ChannelId, Channel) umap \<Rightarrow> (ChannelId, Channel) umap" where
  "cc_put ch c = AList.update (channel_id ch) ch c"

definition cc_invalidate :: "ChannelId \<Rightarrow> (ChannelId, Channel) umap \<Rightarrow> (ChannelId, Channel) umap" where
  "cc_invalidate i c = AList.delete i c"

section \<open>State\<close>

record hub_service =
  hs_db :: database
  hs_faults :: "txn_faults list"
  hs_cache :: "any mem_cache"
  hs_channels :: "(ChannelId, Channel) umap"

record hub_env =
  he_pg :: pg
  he_hash :: "string \<Rightarrow> 64 word"

definition on_repo :: "(txn_faults \<Rightarrow> (database, 'a) work) \<Rightarrow> (hub_service, 'a) work" where
  "on_repo op s =
     (let f = (case hs_faults s of [] \<Rightarrow> no_faults | f # _ \<Rightarrow> f)
      in case op f (hs_db s) of (r, db) \<Rightarrow> (r, s\<lparr> hs_db := db, hs_faults := tl (hs_faults s) \<rparr>))"

definition bind_work :: "('s, 'a) work \<Rightarrow> ('a \<Rightarrow> ('s, 'b) work) \<Rightarrow> ('s, 'b) work" where
  "bind_work m k s = (case m s of (Inl e, s) \<Rightarrow> (Inl e, s) | (Inr x, s) \<Rightarrow> k x s)"

definition return_work :: "'a \<Rightarrow> ('s, 'a) work" where
  "return_work x s = (Inr x, s)"

text \<open>\<^verbatim>\<open>cache_->get\<close> followed by the removal of a corrupted entry, as every caller does it.\<close>

definition cached :: "hub_env \<Rightarrow> HubId \<Rightarrow> hub_service \<Rightarrow> HubSnapshot option \<times> hub_service" where
  "cached env h s =
     (case hc_get (he_hash env) h (hs_cache s) of
        (Inr sn, c) \<Rightarrow> (Some sn, s\<lparr> hs_cache := c \<rparr>)
      | (Inl CorruptedEntry, c) \<Rightarrow> (None, s\<lparr> hs_cache := hc_invalidate (he_hash env) h c \<rparr>)
      | (Inl NotFound, c) \<Rightarrow> (None, s\<lparr> hs_cache := c \<rparr>))"

definition put_snapshot :: "hub_env \<Rightarrow> HubSnapshot \<Rightarrow> hub_service \<Rightarrow> hub_service" where
  "put_snapshot env sn s = s\<lparr> hs_cache := hc_put (he_hash env) sn (hs_cache s) \<rparr>"

definition invalidateHubCaches :: "hub_env \<Rightarrow> HubId \<Rightarrow> hub_service \<Rightarrow> hub_service" where
  "invalidateHubCaches env h s = s\<lparr> hs_cache := hc_invalidate (he_hash env) h (hs_cache s) \<rparr>"

definition put_channel :: "Channel \<Rightarrow> hub_service \<Rightarrow> hub_service" where
  "put_channel ch s = s\<lparr> hs_channels := cc_put ch (hs_channels s) \<rparr>"

definition drop_channel :: "ChannelId \<Rightarrow> hub_service \<Rightarrow> hub_service" where
  "drop_channel i s = s\<lparr> hs_channels := cc_invalidate i (hs_channels s) \<rparr>"

definition to_hub :: "HubSnapshot \<Rightarrow> Hub" where
  "to_hub sn = (new_hub (sn_name sn) (sn_id sn) (sn_owner sn))\<lparr> hub_avatar_seed := sn_avatar sn \<rparr>"

definition roles_map :: "MemberRole list \<Rightarrow> (UserId, Role) umap" where
  "roles_map ms = fold (\<lambda>m. AList.update (mb_user m) (mb_role m)) ms []"

definition make_snapshot :: "Hub \<Rightarrow> ChannelId list \<Rightarrow> MemberRole list \<Rightarrow> HubSnapshot" where
  "make_snapshot hub cs ms =
     \<lparr> sn_id = hub_id hub, sn_owner = hub_owner hub, sn_name = hub_name hub, sn_avatar = hub_avatar_seed hub,
       sn_channel_ids = cs, sn_roles = roles_map ms \<rparr>"

section \<open>Snapshots\<close>

definition buildSnapshot :: "hub_env \<Rightarrow> HubId \<Rightarrow> (hub_service, HubSnapshot option) work" where
  "buildSnapshot env h =
     bind_work (on_repo (\<lambda>f. repo_getHub (he_pg env) f h)) (\<lambda>hub.
       case hub of
         None \<Rightarrow> return_work None
       | Some hub \<Rightarrow>
           bind_work (on_repo (\<lambda>f. repo_getHubChannelIds (he_pg env) f h)) (\<lambda>cs.
           bind_work (on_repo (\<lambda>f. repo_getHubMemberRoles (he_pg env) f h)) (\<lambda>ms s.
             (Inr (Some (make_snapshot hub cs ms)), put_snapshot env (make_snapshot hub cs ms) s))))"

definition loadSnapshot :: "hub_env \<Rightarrow> HubId \<Rightarrow> (hub_service, HubSnapshot option) work" where
  "loadSnapshot env h s =
     (case cached env h s of
        (Some sn, s) \<Rightarrow> (Inr (Some sn), s)
      | (None, s) \<Rightarrow> buildSnapshot env h s)"

record HubTopology =
  tp_members :: "(UserId \<times> Role) list"
  tp_channel_ids :: "ChannelId list"

definition getHubTopology :: "hub_env \<Rightarrow> HubId \<Rightarrow> (hub_service, HubTopology) work" where
  "getHubTopology env h =
     bind_work (loadSnapshot env h) (\<lambda>sn. return_work
       (case sn of
          None \<Rightarrow> \<lparr> tp_members = [], tp_channel_ids = [] \<rparr>
        | Some sn \<Rightarrow> \<lparr> tp_members = sort_key fst (sn_roles sn), tp_channel_ids = sn_channel_ids sn \<rparr>))"

definition getHubMembersWithRoles :: "hub_env \<Rightarrow> HubId \<Rightarrow> (hub_service, (UserId \<times> Role) list) work" where
  "getHubMembersWithRoles env h = bind_work (getHubTopology env h) (\<lambda>t. return_work (tp_members t))"

definition getHubChannelIds :: "hub_env \<Rightarrow> HubId \<Rightarrow> (hub_service, ChannelId list) work" where
  "getHubChannelIds env h = bind_work (getHubTopology env h) (\<lambda>t. return_work (tp_channel_ids t))"

definition resolveMembershipRole :: "hub_env \<Rightarrow> HubId \<Rightarrow> UserId \<Rightarrow> (hub_service, Role option) work" where
  "resolveMembershipRole env h u =
     bind_work (loadSnapshot env h) (\<lambda>sn. return_work (case sn of None \<Rightarrow> None | Some sn \<Rightarrow> map_of (sn_roles sn) u))"

definition getMembershipRole :: "hub_env \<Rightarrow> HubId \<Rightarrow> UserId \<Rightarrow> (hub_service, Role option) work" where
  "getMembershipRole env h u = resolveMembershipRole env h u"

definition isHubMember :: "hub_env \<Rightarrow> HubId \<Rightarrow> UserId \<Rightarrow> (hub_service, bool) work" where
  "isHubMember env h u = bind_work (resolveMembershipRole env h u) (\<lambda>r. return_work (r \<noteq> None))"

section \<open>Hubs and channels\<close>

definition getHub :: "hub_env \<Rightarrow> HubId \<Rightarrow> (hub_service, Hub option) work" where
  "getHub env h s =
     (case cached env h s of
        (Some sn, s) \<Rightarrow> (Inr (Some (to_hub sn)), s)
      | (None, s) \<Rightarrow> on_repo (\<lambda>f. repo_getHub (he_pg env) f h) s)"

text \<open>The scan of a list of identifiers: blanks and repetitions are skipped, the others are found in the cache or missed.\<close>

fun scan_cached :: "(string \<Rightarrow> 's \<Rightarrow> 'v option \<times> 's) \<Rightarrow> string list \<Rightarrow> string list \<Rightarrow> 's \<Rightarrow> (string, 'v) umap \<times> string list \<times> 's" where
  "scan_cached look [] seen s = ([], [], s)"
| "scan_cached look (i # is) seen s =
     (if i = [] \<or> i \<in> set seen then scan_cached look is seen s
      else
        (case look i s of
           (Some v, s) \<Rightarrow> (case scan_cached look is (i # seen) s of (found, misses, s) \<Rightarrow> ((i, v) # found, misses, s))
         | (None, s) \<Rightarrow> (case scan_cached look is (i # seen) s of (found, misses, s) \<Rightarrow> (found, i # misses, s))))"

definition store_fetched :: "hub_env \<Rightarrow> (HubId, Channel list) umap \<Rightarrow> (HubId, MemberRole list) umap \<Rightarrow> Hub \<Rightarrow> hub_service \<Rightarrow> hub_service" where
  "store_fetched env chs mems hub s =
     (let cs = lookup_or [] (hub_id hub) chs;
          s = fold put_channel cs s
      in put_snapshot env (make_snapshot hub (map channel_id cs) (lookup_or [] (hub_id hub) mems)) s)"

definition getHubsByIds :: "hub_env \<Rightarrow> HubId list \<Rightarrow> (hub_service, (HubId, Hub) umap) work" where
  "getHubsByIds env ids s =
     (if ids = [] then (Inr [], s)
      else
        (case scan_cached (cached env) ids [] s of
           (found, misses, s) \<Rightarrow>
             (let hubs = map (\<lambda>(i, sn). (i, to_hub sn)) found
              in if misses = [] then (Inr hubs, s)
                 else
                   bind_work (on_repo (\<lambda>f. repo_getHubsByIds (he_pg env) f misses)) (\<lambda>fetched.
                   bind_work (on_repo (\<lambda>f. repo_getHubChannelsByHubIds (he_pg env) f (map hub_id fetched))) (\<lambda>chs.
                   bind_work (on_repo (\<lambda>f. repo_getHubMemberRolesByHubIds (he_pg env) f (map hub_id fetched))) (\<lambda>mems s.
                     (Inr (fold (\<lambda>h. AList.update (hub_id h) h) fetched hubs), fold (store_fetched env chs mems) fetched s)))) s)))"

definition getChannel :: "hub_env \<Rightarrow> ChannelId \<Rightarrow> (hub_service, Channel option) work" where
  "getChannel env c s =
     (case map_of (hs_channels s) c of
        Some ch \<Rightarrow> (Inr (Some ch), s)
      | None \<Rightarrow>
          bind_work (on_repo (\<lambda>f. repo_getChannel (he_pg env) f c)) (\<lambda>ch s.
            (Inr ch, case ch of None \<Rightarrow> s | Some ch \<Rightarrow> put_channel ch s)) s)"

definition look_channel :: "ChannelId \<Rightarrow> hub_service \<Rightarrow> Channel option \<times> hub_service" where
  "look_channel c s = (map_of (hs_channels s) c, s)"

definition getChannelsByIds :: "hub_env \<Rightarrow> ChannelId list \<Rightarrow> (hub_service, (ChannelId, Channel) umap) work" where
  "getChannelsByIds env ids s =
     (if ids = [] then (Inr [], s)
      else
        (case scan_cached look_channel ids [] s of
           (found, misses, s) \<Rightarrow>
             if misses = [] then (Inr found, s)
             else
               bind_work (on_repo (\<lambda>f. repo_getChannelsByIds (he_pg env) f misses)) (\<lambda>fetched s.
                 (Inr (fold (\<lambda>ch. AList.update (channel_id ch) ch) fetched found), fold put_channel fetched s)) s))"

definition getHubChannels :: "hub_env \<Rightarrow> HubId \<Rightarrow> (hub_service, Channel list) work" where
  "getHubChannels env h =
     bind_work (getHubChannelIds env h) (\<lambda>ids.
       if ids = [] then return_work []
       else bind_work (getChannelsByIds env ids) (\<lambda>by_id. return_work (List.map_filter (map_of by_id) ids)))"

definition getUserHubs :: "hub_env \<Rightarrow> UserId \<Rightarrow> (hub_service, Hub list) work" where
  "getUserHubs env u = on_repo (\<lambda>f. repo_getUserHubs (he_pg env) f u)"

text \<open>The first loop of \<^verbatim>\<open>warmSnapshotsForHubs\<close>: the distinct hubs with their identifiers, and whether one is not cached.\<close>

fun warm_scan :: "hub_env \<Rightarrow> Hub list \<Rightarrow> HubId list \<Rightarrow> hub_service \<Rightarrow> Hub list \<times> bool \<times> hub_service" where
  "warm_scan env [] seen s = ([], False, s)"
| "warm_scan env (hub # hubs) seen s =
     (if hub_id hub = [] \<or> hub_id hub \<in> set seen then warm_scan env hubs seen s
      else
        (case cached env (hub_id hub) s of
           (sn, s) \<Rightarrow>
             (case warm_scan env hubs (hub_id hub # seen) s of
                (rest, refresh, s) \<Rightarrow> (hub # rest, sn = None \<or> refresh, s))))"

definition warmSnapshotsForHubs :: "hub_env \<Rightarrow> Hub list \<Rightarrow> (hub_service, unit) work" where
  "warmSnapshotsForHubs env hubs s =
     (case warm_scan env hubs [] s of
        (all, refresh, s) \<Rightarrow>
          if \<not> refresh then (Inr (), s)
          else
            bind_work (on_repo (\<lambda>f. repo_getHubChannelsByHubIds (he_pg env) f (map hub_id all))) (\<lambda>chs.
            bind_work (on_repo (\<lambda>f. repo_getHubMemberRolesByHubIds (he_pg env) f (map hub_id all))) (\<lambda>mems s.
              (Inr (), fold (store_fetched env chs mems) all s))) s)"

section \<open>Changes\<close>

definition createHub :: "hub_env \<Rightarrow> HubId \<Rightarrow> int \<Rightarrow> string \<Rightarrow> UserId \<Rightarrow> (hub_service, Hub) work" where
  "createHub env new now name owner =
     bind_work (on_repo (\<lambda>f. repo_createHub (he_pg env) f new now name owner)) (\<lambda>hub s.
       (Inr hub, invalidateHubCaches env (hub_id hub) s))"

definition createChannel :: "hub_env \<Rightarrow> ChannelId \<Rightarrow> int \<Rightarrow> HubId \<Rightarrow> string \<Rightarrow> string \<Rightarrow> UserId \<Rightarrow> (hub_service, ChannelId) work" where
  "createChannel env new now h name type creator =
     bind_work (on_repo (\<lambda>f. repo_createChannel (he_pg env) f new now h name type creator)) (\<lambda>c s.
       (let s = put_channel \<lparr> channel_name = name, channel_id = c, channel_hub = h, channel_type = channel_type_from_string type \<rparr> s
        in (Inr c,
            case cached env h s of
              (Some sn, s) \<Rightarrow>
                if c \<in> set (sn_channel_ids sn) then s
                else put_snapshot env (sn\<lparr> sn_channel_ids := sn_channel_ids sn @ [c] \<rparr>) s
            | (None, s) \<Rightarrow> s)))"

definition renameChannel :: "hub_env \<Rightarrow> ChannelId \<Rightarrow> string \<Rightarrow> (hub_service, bool) work" where
  "renameChannel env c name =
     bind_work (on_repo (\<lambda>f. repo_renameChannel (he_pg env) f c name)) (\<lambda>renamed s.
       if \<not> renamed then (Inr False, s)
       else (Inr True, case map_of (hs_channels s) c of
                         Some ch \<Rightarrow> put_channel (ch\<lparr> channel_name := name \<rparr>) s
                       | None \<Rightarrow> drop_channel c s))"

definition deleteChannel :: "hub_env \<Rightarrow> ChannelId \<Rightarrow> HubId \<Rightarrow> (hub_service, bool) work" where
  "deleteChannel env c h =
     bind_work (on_repo (\<lambda>f. repo_deleteChannel (he_pg env) f c h)) (\<lambda>deleted s.
       if \<not> deleted then (Inr False, s)
       else
         (let s = drop_channel c s
          in (Inr True,
              case cached env h s of
                (Some sn, s) \<Rightarrow> put_snapshot env (sn\<lparr> sn_channel_ids := removeAll c (sn_channel_ids sn) \<rparr>) s
              | (None, s) \<Rightarrow> s)))"

definition renameHub :: "hub_env \<Rightarrow> HubId \<Rightarrow> string \<Rightarrow> (hub_service, bool) work" where
  "renameHub env h name =
     bind_work (on_repo (\<lambda>f. repo_renameHub (he_pg env) f h name)) (\<lambda>b s. (Inr b, if b then invalidateHubCaches env h s else s))"

definition updateHubAvatarSeed :: "hub_env \<Rightarrow> HubId \<Rightarrow> string \<Rightarrow> (hub_service, bool) work" where
  "updateHubAvatarSeed env h seed =
     bind_work (on_repo (\<lambda>f. repo_updateHubAvatarSeed (he_pg env) f h seed)) (\<lambda>b s. (Inr b, if b then invalidateHubCaches env h s else s))"

definition deleteHub :: "hub_env \<Rightarrow> HubId \<Rightarrow> UserId \<Rightarrow> (hub_service, bool) work" where
  "deleteHub env h owner =
     bind_work (getHubChannelIds env h) (\<lambda>ids.
     bind_work (on_repo (\<lambda>f. repo_deleteHub (he_pg env) f h owner)) (\<lambda>b s.
       (Inr b, if b then fold drop_channel ids (invalidateHubCaches env h s) else s)))"

definition addMember :: "hub_env \<Rightarrow> int \<Rightarrow> HubId \<Rightarrow> UserId \<Rightarrow> Role \<Rightarrow> (hub_service, unit) work" where
  "addMember env now h u role =
     bind_work (on_repo (\<lambda>f. repo_addMember (he_pg env) f now h u (role_to_string role))) (\<lambda>_ s. (Inr (), invalidateHubCaches env h s))"

definition removeMember :: "hub_env \<Rightarrow> HubId \<Rightarrow> UserId \<Rightarrow> (hub_service, unit) work" where
  "removeMember env h u =
     bind_work (on_repo (\<lambda>f. repo_removeMember (he_pg env) f h u)) (\<lambda>_ s. (Inr (), invalidateHubCaches env h s))"

end
