(* ===== verification/HubCacheLaws.thy ===== *)
theory HubCacheLaws
  imports HubService "HOL-Library.Multiset"
begin

text \<open>
  The caches of \<^verbatim>\<open>HubService\<close> agree with the database: the coherence invariant, its preservation by every operation,
  and what the service answers in states that satisfy it.
\<close>

section \<open>Results of queries\<close>

lemma lookup_push_back: "lookup_or [] k (push_back k' x m) = (if k = k' then lookup_or [] k m @ [x] else lookup_or [] k m)"
  by (simp add: push_back_def lookup_or_def)

lemma lookup_fold_push: "lookup_or [] k (fold (\<lambda>r. push_back (kf r) (vf r)) rows m) = lookup_or [] k m @ map vf (filter (\<lambda>r. kf r = k) rows)"
  by (induction rows arbitrary: m) (auto simp: lookup_push_back)

lemma lookup_group: "lookup_or [] k (group_rows kf vf rows) = map vf (filter (\<lambda>r. kf r = k) rows)"
  unfolding group_rows_def lookup_fold_push by (simp add: lookup_or_def)

lemma set_by_position [simp]: "set (by_position rows) = set rows" "distinct (map f (by_position rows)) = distinct (map f rows)"
proof -
  show "set (by_position rows) = set rows" by (simp add: by_position_def)
  have "mset (map f (by_position rows)) = mset (map f rows)" by (simp add: by_position_def)
  then show "distinct (map f (by_position rows)) = distinct (map f rows)" by (metis mset_eq_imp_distinct_iff)
qed

lemma filter_by_position: "filter P (by_position rows) = by_position (filter P rows)"
  by (simp add: by_position_def filter_sort)

lemma filter_by_joined: "filter P (by_joined rows) = by_joined (filter P rows)"
  by (simp add: by_joined_def filter_sort)

lemma fold_roles: "distinct (map mb_user ms) \<Longrightarrow>
    map_of (fold (\<lambda>m. AList.update (mb_user m) (mb_role m)) ms acc) u
      = (case find (\<lambda>m. mb_user m = u) ms of Some m \<Rightarrow> Some (mb_role m) | None \<Rightarrow> map_of acc u)"
proof (induction ms arbitrary: acc)
  case (Cons m ms)
  have "find (\<lambda>x. mb_user x = mb_user m) ms = None" using Cons.prems by (auto simp: find_eq_None image_iff)
  then show ?case using Cons by (auto split: option.split)
qed simp

text \<open>The role a user has in a hub.\<close>

definition db_role :: "HubId \<Rightarrow> UserId \<Rightarrow> database \<Rightarrow> Role option" where
  "db_role h u db = map_option (\<lambda>m. role_from_string (mr_role m)) (member_of_hub h u db)"

lemma find_map: "find P (map f xs) = map_option f (find (P \<circ> f) xs)"
  by (induction xs) auto

lemma roles_exact:
  assumes "db_ok pg db"
  shows "map_of (roles_map (map parse_member_row (by_joined (members_of h db)))) u = db_role h u db"
proof -
  let ?rows = "by_joined (members_of h db)"
  have pk: "pk_ok db" and mo: "members_ok db" using assms by (simp_all add: db_ok_def)
  have "distinct (map (\<lambda>m. (mr_hub m, mr_user m)) (members_of h db))"
    using pk by (simp add: pk_ok_def members_of_def distinct_map_filter)
  then have "distinct (map mr_user (members_of h db))"
    by (auto simp: distinct_map inj_on_def members_of_def)
  then have d: "distinct (map mr_user ?rows)"
    by (metis by_joined_def mset_eq_imp_distinct_iff mset_map mset_sort)
  then have "distinct (map mb_user (map parse_member_row ?rows))" by (simp add: comp_def parse_member_row_def)
  note f = fold_roles[OF this, of "[]" u]
  have "find (\<lambda>m. mr_user m = u) ?rows = member_of_hub h u db"
  proof (cases "member_of_hub h u db")
    case None
    moreover have "find (\<lambda>m. mr_user m = u) ?rows = None"
      using None by (auto simp: member_None find_eq_None by_joined_def members_of_def)
    ultimately show ?thesis by simp
  next
    case (Some m)
    then have m: "m \<in> set (t_members db)" "mr_hub m = h" "mr_user m = u" using member_Some[OF Some] by simp_all
    then have "m \<in> set ?rows" using mo by (auto simp: by_joined_def members_of_def members_ok_def member_ok_def)
    then show ?thesis using Some m find_unique[OF d, of m "\<lambda>m. mr_user m = u"] by simp
  qed
  then show ?thesis
    using f by (simp add: roles_map_def db_role_def find_map comp_def parse_member_row_def split: option.split)
qed

section \<open>Coherence\<close>

definition hub_matches :: "database \<Rightarrow> HubId \<Rightarrow> UserId \<Rightarrow> string \<Rightarrow> string \<Rightarrow> bool" where
  "hub_matches db i owner name avatar \<longleftrightarrow> (\<exists>r. hub_of_id i db = Some r \<and> hr_owner r = owner \<and> hr_name r = name \<and> hr_avatar r = avatar)"

definition snapshot_current :: "database \<Rightarrow> HubSnapshot \<Rightarrow> bool" where
  "snapshot_current db sn \<longleftrightarrow> hub_matches db (sn_id sn) (sn_owner sn) (sn_name sn) (sn_avatar sn)
     \<and> distinct (sn_channel_ids sn) \<and> set (sn_channel_ids sn) = cr_id ` set (channels_of (sn_id sn) db)
     \<and> (\<forall>u. map_of (sn_roles sn) u = db_role (sn_id sn) u db)"

definition cache_current :: "hub_env \<Rightarrow> database \<Rightarrow> any mem_cache \<Rightarrow> bool" where
  "cache_current env db c \<longleftrightarrow> (\<forall>k v. map_of c k = Some v \<longrightarrow>
     (\<exists>sn. v = AnySnapshot sn \<and> k = hub_key (he_hash env) (sn_id sn) \<and> snapshot_current db sn))"

definition channels_current :: "database \<Rightarrow> (ChannelId, Channel) umap \<Rightarrow> bool" where
  "channels_current db cs \<longleftrightarrow> (\<forall>c ch. map_of cs c = Some ch \<longrightarrow> (\<exists>r. channel_of_id c db = Some r \<and> ch = parse_channel_row r))"

definition canon :: "hub_env \<Rightarrow> string \<Rightarrow> bool" where
  "canon env i \<longleftrightarrow> pg_uuid (he_pg env) i = Some i"

definition calm :: "txn_faults \<Rightarrow> bool" where
  "calm f \<longleftrightarrow> (\<forall>n. attempt_of f n \<noteq> BrokenFromCommit True)"

text \<open>\<open>H\<close> is a set of hub identifiers on which the hash function does not collide.\<close>

definition svc_ok :: "hub_env \<Rightarrow> HubId set \<Rightarrow> hub_service \<Rightarrow> bool" where
  "svc_ok env H s \<longleftrightarrow> db_ok (he_pg env) (hs_db s) \<and> hr_id ` set (t_hubs (hs_db s)) \<subseteq> H \<and> (\<forall>r \<in> set (t_hubs (hs_db s)). canon env (hr_id r))
     \<and> (\<forall>r \<in> set (t_channels (hs_db s)). canon env (cr_id r))
     \<and> (\<forall>f \<in> set (hs_faults s). calm f) \<and> cache_current env (hs_db s) (hs_cache s) \<and> channels_current (hs_db s) (hs_channels s)"

lemma canon_with: "canon env i \<Longrightarrow> with_uuid (he_pg env) i k = k i"
  by (rule ext) (simp add: canon_def with_uuid_def)

lemma canon_withs: "\<forall>i \<in> set is. canon env i \<Longrightarrow> with_uuids (he_pg env) is k = k is"
  by (induction "is" arbitrary: k) (simp_all add: canon_with)

lemma hub_key_eq_iff: "hub_key hash h = hub_key hash h' \<longleftrightarrow> hash h = hash h'"
  by (simp add: hub_key_def make_key_def)

lemma built_current:
  assumes "db_ok pg db" "hub_of_id i db = Some r"
  shows "snapshot_current db (make_snapshot (parse_hub_row r) (map cr_id (by_position (channels_of i db))) (map parse_member_row (by_joined (members_of i db))))"
proof -
  have i: "hr_id r = i" using hub_of_id_Some[OF assms(2)] by simp
  have "distinct (map cr_id (channels_of i db))"
    using assms(1) by (simp add: db_ok_def pk_ok_def channels_of_def distinct_map_filter)
  then show ?thesis
    using assms(2) roles_exact[OF assms(1)]
    by (simp add: snapshot_current_def make_snapshot_def parse_hub_row_def new_hub_def i hub_matches_def)
qed

section \<open>Repository calls\<close>

lemma with_uuid_same: "(\<And>u x. snd (k u x) = x) \<Longrightarrow> snd (with_uuid pg i k x) = x"
  by (simp add: with_uuid_def fails_def split: option.split)

lemma with_uuids_same: "(\<And>u x. snd (k u x) = x) \<Longrightarrow> snd (with_uuids pg is k x) = x"
  by (induction "is" arbitrary: k x) (auto intro!: with_uuid_same)

lemma on_read:
  assumes "on_repo (\<lambda>f. txn_read f fn) s = (r, s')" "\<And>x. snd (fn x) = x"
  shows "\<exists>fs. s' = s\<lparr> hs_faults := fs \<rparr> \<and> set fs \<subseteq> set (hs_faults s)" "r = Inr x \<Longrightarrow> fst (fn (hs_db s)) = Inr x"
proof -
  define f where "f = (case hs_faults s of [] \<Rightarrow> no_faults | f # _ \<Rightarrow> f)"
  obtain q db where q: "txn_read f fn (hs_db s) = (q, db)" by force
  have s': "r = q" "s' = s\<lparr> hs_db := db, hs_faults := tl (hs_faults s) \<rparr>"
    using assms(1) by (simp_all add: on_repo_def f_def[symmetric] q)
  note c = txn_read_cases[OF q assms(2)]
  show "\<exists>fs. s' = s\<lparr> hs_faults := fs \<rparr> \<and> set fs \<subseteq> set (hs_faults s)"
    using c s' by (intro exI[of _ "tl (hs_faults s)"]) (cases "hs_faults s"; auto)
  show "r = Inr x \<Longrightarrow> fst (fn (hs_db s)) = Inr x" using c s' by auto
qed

lemma on_write:
  assumes "on_repo (\<lambda>f. txn_write f fn) s = (r, s')" "\<forall>f \<in> set (hs_faults s). calm f"
  obtains (failed) e where "r = Inl e" "s' = s\<lparr> hs_faults := tl (hs_faults s) \<rparr>"
    | (written) x db where "r = Inr x" "fn (hs_db s) = (Inr x, db)" "s' = s\<lparr> hs_db := db, hs_faults := tl (hs_faults s) \<rparr>"
proof -
  define f where "f = (case hs_faults s of [] \<Rightarrow> no_faults | f # _ \<Rightarrow> f)"
  have f: "calm f" using assms(2) by (auto simp: f_def calm_def no_faults_def split: list.split)
  obtain q db where q: "txn_write f fn (hs_db s) = (q, db)" by force
  have s': "r = q" "s' = s\<lparr> hs_db := db, hs_faults := tl (hs_faults s) \<rparr>"
    using assms(1) by (simp_all add: on_repo_def f_def[symmetric] q)
  show ?thesis
    using q
  proof (cases rule: txn_write_cases)
    case (applied x)
    then show ?thesis using s' written by blast
  next
    case (refused e)
    then show ?thesis using s' failed[of e] by simp
  next
    case (ambiguous x n)
    then show ?thesis using f by (simp add: calm_def)
  qed
qed

section \<open>Operations that only read\<close>

text \<open>A computation that keeps the invariant and the database and whose results are described by \<open>Q\<close>.\<close>

definition reads :: "hub_env \<Rightarrow> HubId set \<Rightarrow> (database \<Rightarrow> bool) \<Rightarrow> (hub_service, 'a) work \<Rightarrow> (database \<Rightarrow> 'a \<Rightarrow> bool) \<Rightarrow> bool" where
  "reads env H P m Q \<longleftrightarrow> (\<forall>s r s'. svc_ok env H s \<longrightarrow> P (hs_db s) \<longrightarrow> m s = (r, s') \<longrightarrow>
     svc_ok env H s' \<and> hs_db s' = hs_db s \<and> (\<forall>x. r = Inr x \<longrightarrow> Q (hs_db s) x))"

lemma readsD:
  assumes "reads env H P m Q" "svc_ok env H s" "P (hs_db s)" "m s = (r, s')"
  shows "svc_ok env H s'" "hs_db s' = hs_db s" "r = Inr x \<Longrightarrow> Q (hs_db s) x"
  using assms unfolding reads_def by blast+

lemma reads_bind:
  assumes "reads env H P m Q" "\<And>x. reads env H (\<lambda>db. P db \<and> Q db x) (k x) R"
  shows "reads env H P (bind_work m k) R"
  unfolding reads_def
proof (intro allI impI)
  fix s r s' assume s: "svc_ok env H s" "P (hs_db s)" and b: "bind_work m k s = (r, s')"
  obtain q s1 where m: "m s = (q, s1)" by force
  note d = readsD[OF assms(1) s m]
  show "svc_ok env H s' \<and> hs_db s' = hs_db s \<and> (\<forall>x. r = Inr x \<longrightarrow> R (hs_db s) x)"
  proof (cases q)
    case (Inl e)
    then show ?thesis using b m d by (auto simp: bind_work_def)
  next
    case (Inr x)
    then have k: "k x s1 = (r, s')" using b m by (simp add: bind_work_def)
    have "P (hs_db s1) \<and> Q (hs_db s1) x" using s(2) d(2) d(3)[OF Inr] by simp
    from readsD[OF assms(2) d(1) this k] show ?thesis using d(2) by auto
  qed
qed

lemma reads_return: "(\<And>db. db_ok (he_pg env) db \<Longrightarrow> P db \<Longrightarrow> Q db x) \<Longrightarrow> reads env H P (return_work x) Q"
  by (auto simp: reads_def return_work_def svc_ok_def)

lemma svc_ok_db: "svc_ok env H s \<Longrightarrow> db_ok (he_pg env) (hs_db s)"
  by (simp add: svc_ok_def)

lemma reads_weaken:
  assumes "reads env H P m Q" "\<And>db. P' db \<Longrightarrow> P db" "\<And>db x. db_ok (he_pg env) db \<Longrightarrow> P' db \<Longrightarrow> Q db x \<Longrightarrow> R db x"
  shows "reads env H P' m R"
  unfolding reads_def
proof (intro allI impI)
  fix s r s' assume s: "svc_ok env H s" "P' (hs_db s)" "m s = (r, s')"
  note d = readsD[OF assms(1) s(1) assms(2)[OF s(2)] s(3)]
  show "svc_ok env H s' \<and> hs_db s' = hs_db s \<and> (\<forall>x. r = Inr x \<longrightarrow> R (hs_db s) x)"
    using d assms(3)[OF svc_ok_db[OF s(1)] s(2)] by blast
qed

lemma svc_ok_faults: "svc_ok env H s \<Longrightarrow> set fs \<subseteq> set (hs_faults s) \<Longrightarrow> svc_ok env H (s\<lparr> hs_faults := fs \<rparr>)"
  by (auto simp: svc_ok_def)

lemma reads_repo:
  assumes "\<And>x. snd (fn x) = x"
  shows "reads env H P (on_repo (\<lambda>f. txn_read f fn)) (\<lambda>db x. fst (fn db) = Inr x)"
  unfolding reads_def
proof (intro allI impI)
  fix s r s' assume s: "svc_ok env H s" and m: "on_repo (\<lambda>f. txn_read f fn) s = (r, s')"
  obtain fs where fs: "s' = s\<lparr> hs_faults := fs \<rparr>" "set fs \<subseteq> set (hs_faults s)" using on_read(1)[OF m assms] by blast
  then show "svc_ok env H s' \<and> hs_db s' = hs_db s \<and> (\<forall>x. r = Inr x \<longrightarrow> fst (fn (hs_db s)) = Inr x)"
    using svc_ok_faults[OF s fs(2)] on_read(2)[OF m assms] by simp
qed

lemma reads_const: "reads env H P (on_repo (\<lambda>f db. (Inr x, db))) (\<lambda>db y. y = x)"
  unfolding reads_def
proof (intro allI impI)
  fix s r s' assume s: "svc_ok env H s" "on_repo (\<lambda>f db. (Inr x, db)) s = (r, s')"
  then have "s' = s\<lparr> hs_faults := tl (hs_faults s) \<rparr>" "r = Inr x" by (simp_all add: on_repo_def)
  moreover have "set (tl (hs_faults s)) \<subseteq> set (hs_faults s)" by (cases "hs_faults s") auto
  ultimately show "svc_ok env H s' \<and> hs_db s' = hs_db s \<and> (\<forall>y. r = Inr y \<longrightarrow> y = x)" using svc_ok_faults[OF s(1)] by simp
qed

lemma cached_ok:
  assumes "svc_ok env H s"
  obtains "cached env h s = (None, s)"
    | sn where "cached env h s = (Some sn, s)" "he_hash env (sn_id sn) = he_hash env h" "snapshot_current (hs_db s) sn"
proof -
  have c: "cache_current env (hs_db s) (hs_cache s)" using assms by (simp add: svc_ok_def)
  show ?thesis
  proof (cases "map_of (hs_cache s) (hub_key (he_hash env) h)")
    case None
    then show ?thesis using that(1) by (simp add: cached_def hc_get_def mc_get_def)
  next
    case (Some v)
    then obtain sn where sn: "v = AnySnapshot sn" "hub_key (he_hash env) h = hub_key (he_hash env) (sn_id sn)" "snapshot_current (hs_db s) sn"
      using c by (auto simp: cache_current_def)
    then have "cached env h s = (Some sn, s)" using Some by (simp add: cached_def hc_get_def mc_get_def)
    then show ?thesis using that(2) sn by (simp add: hub_key_eq_iff)
  qed
qed

lemma svc_ok_put_snapshot: "svc_ok env H s \<Longrightarrow> snapshot_current (hs_db s) sn \<Longrightarrow> svc_ok env H (put_snapshot env sn s)"
  by (auto simp: svc_ok_def put_snapshot_def hc_put_def mc_put_def cache_current_def)

lemma svc_ok_put_channel:
  "svc_ok env H s \<Longrightarrow> channel_of_id (channel_id ch) (hs_db s) = Some r \<Longrightarrow> ch = parse_channel_row r \<Longrightarrow> svc_ok env H (put_channel ch s)"
  by (auto simp: svc_ok_def put_channel_def cc_put_def channels_current_def)

lemma put_sel [simp]:
  "hs_db (put_snapshot env sn s) = hs_db s" "hs_db (put_channel ch s) = hs_db s" "hs_db (drop_channel i s) = hs_db s"
  "hs_db (invalidateHubCaches env h s) = hs_db s" "hs_faults (put_snapshot env sn s) = hs_faults s"
  "hs_channels (put_snapshot env sn s) = hs_channels s" "hs_cache (put_channel ch s) = hs_cache s"
  "hs_faults (put_channel ch s) = hs_faults s"
  by (simp_all add: put_snapshot_def put_channel_def drop_channel_def invalidateHubCaches_def)

lemma svc_ok_invalidate: "svc_ok env H s \<Longrightarrow> svc_ok env H (invalidateHubCaches env h s)"
  by (auto simp: svc_ok_def invalidateHubCaches_def hc_invalidate_def mc_erase_def cache_current_def delete_conv' split: if_split_asm)

lemma svc_ok_drop: "svc_ok env H s \<Longrightarrow> svc_ok env H (drop_channel i s)"
  by (auto simp: svc_ok_def drop_channel_def cc_invalidate_def channels_current_def delete_conv' split: if_split_asm)

lemma svc_ok_put_channels:
  assumes "svc_ok env H s" "\<And>ch. ch \<in> set cs \<Longrightarrow> \<exists>r. channel_of_id (channel_id ch) (hs_db s) = Some r \<and> ch = parse_channel_row r"
  shows "svc_ok env H (fold put_channel cs s) \<and> hs_db (fold put_channel cs s) = hs_db s"
  using assms
proof (induction cs arbitrary: s)
  case (Cons c cs)
  obtain r where "channel_of_id (channel_id c) (hs_db s) = Some r" "c = parse_channel_row r" using Cons.prems(2)[of c] by auto
  then have "svc_ok env H (put_channel c s)" by (rule svc_ok_put_channel[OF Cons.prems(1)])
  from Cons.IH[OF this] Cons.prems(2) show ?case by simp
qed simp

text \<open>The snapshot of a hub, or none when there is no such hub; the identifier is the one the database knows.\<close>

definition loaded :: "hub_env \<Rightarrow> HubId \<Rightarrow> database \<Rightarrow> HubSnapshot option \<Rightarrow> bool" where
  "loaded env h db x \<longleftrightarrow> (\<exists>i. pg_uuid (he_pg env) h = Some i \<and>
     (case x of None \<Rightarrow> hub_of_id i db = None | Some sn \<Rightarrow> sn_id sn = i \<and> snapshot_current db sn))"

lemma fst_with_uuid: "fst (with_uuid pg h k db) = Inr x \<Longrightarrow> \<exists>i. pg_uuid pg h = Some i \<and> fst (k i db) = Inr x"
  by (auto simp: with_uuid_def fails_def split: option.split_asm)

lemma reads_put:
  assumes "\<And>db. db_ok (he_pg env) db \<Longrightarrow> P db \<Longrightarrow> snapshot_current db sn" "\<And>db. db_ok (he_pg env) db \<Longrightarrow> P db \<Longrightarrow> Q db x"
  shows "reads env H P (\<lambda>s. (Inr x, put_snapshot env sn s)) Q"
  unfolding reads_def
proof (intro allI impI)
  fix s r s' assume s: "svc_ok env H s" "P (hs_db s)" "(Inr x, put_snapshot env sn s) = (r, s')"
  have ok: "db_ok (he_pg env) (hs_db s)" using s(1) by (simp add: svc_ok_def)
  show "svc_ok env H s' \<and> hs_db s' = hs_db s \<and> (\<forall>x. r = Inr x \<longrightarrow> Q (hs_db s) x)"
    using s assms[OF ok s(2)] svc_ok_put_snapshot[OF s(1), of sn] by auto
qed

lemma reads_build: "reads env H (\<lambda>_. True) (buildSnapshot env h) (loaded env h)"
proof -
  let ?P1 = "\<lambda>hub db. \<exists>i. pg_uuid (he_pg env) h = Some i \<and> map_option parse_hub_row (hub_of_id i db) = hub"
  have 1: "reads env H (\<lambda>_. True) (on_repo (\<lambda>f. repo_getHub (he_pg env) f h)) (\<lambda>db hub. ?P1 hub db)"
    unfolding repo_getHub_def
    by (rule reads_weaken[OF reads_repo]) (auto intro!: with_uuid_same dest!: fst_with_uuid)
  have 2: "reads env H (\<lambda>db. True \<and> ?P1 hub db) (on_repo (\<lambda>f. repo_getHubChannelIds (he_pg env) f h))
      (\<lambda>db cs. \<exists>i. pg_uuid (he_pg env) h = Some i \<and> cs = map cr_id (by_position (channels_of i db)))" for hub
    unfolding repo_getHubChannelIds_def
    by (rule reads_weaken[OF reads_repo]) (auto intro!: with_uuid_same dest!: fst_with_uuid)
  have 3: "reads env H P (on_repo (\<lambda>f. repo_getHubMemberRoles (he_pg env) f h))
      (\<lambda>db ms. \<exists>i. pg_uuid (he_pg env) h = Some i \<and> ms = map parse_member_row (by_joined (members_of i db)))" for P
    unfolding repo_getHubMemberRoles_def
    by (rule reads_weaken[OF reads_repo]) (auto intro!: with_uuid_same dest!: fst_with_uuid)
  show ?thesis
    unfolding buildSnapshot_def
  proof (rule reads_bind[OF 1])
    fix hub
    show "reads env H (\<lambda>db. True \<and> ?P1 hub db)
      (case hub of None \<Rightarrow> return_work None
       | Some hub \<Rightarrow> bind_work (on_repo (\<lambda>f. repo_getHubChannelIds (he_pg env) f h)) (\<lambda>cs.
           bind_work (on_repo (\<lambda>f. repo_getHubMemberRoles (he_pg env) f h)) (\<lambda>ms s.
             (Inr (Some (make_snapshot hub cs ms)), put_snapshot env (make_snapshot hub cs ms) s)))) (loaded env h)"
    proof (cases hub)
      case None
      then show ?thesis by (auto intro!: reads_return simp: loaded_def)
    next
      case (Some x)
      have cur: "snapshot_current db (make_snapshot x cs ms) \<and> loaded env h db (Some (make_snapshot x cs ms))"
        if ok: "db_ok (he_pg env) db" and asm: "((True \<and> ?P1 (Some x) db) \<and> (\<exists>i. pg_uuid (he_pg env) h = Some i \<and> cs = map cr_id (by_position (channels_of i db))))
          \<and> (\<exists>i. pg_uuid (he_pg env) h = Some i \<and> ms = map parse_member_row (by_joined (members_of i db)))" for db cs ms
      proof -
        obtain i r where i: "pg_uuid (he_pg env) h = Some i" "hub_of_id i db = Some r" "x = parse_hub_row r" using asm by auto
        then have "make_snapshot x cs ms = make_snapshot (parse_hub_row r) (map cr_id (by_position (channels_of i db))) (map parse_member_row (by_joined (members_of i db)))"
          using asm by auto
        then show ?thesis
          using built_current[OF ok i(2)] i hub_of_id_Some[OF i(2)]
          by (simp add: loaded_def) (simp add: make_snapshot_def parse_hub_row_def new_hub_def)
      qed
      show ?thesis
        unfolding Some option.case
        by (rule reads_bind[OF 2]) (rule reads_bind[OF 3], rule reads_put; use cur in blast)
    qed
  qed
qed

lemma reads_cached:
  assumes "reads env H P m Q" "\<And>s sn. svc_ok env H s \<Longrightarrow> P (hs_db s) \<Longrightarrow> cached env h s = (Some sn, s) \<Longrightarrow> he_hash env (sn_id sn) = he_hash env h
      \<Longrightarrow> snapshot_current (hs_db s) sn \<Longrightarrow> Q (hs_db s) (g sn)"
  shows "reads env H P (\<lambda>s. case cached env h s of (Some sn, s) \<Rightarrow> (Inr (g sn), s) | (None, s) \<Rightarrow> m s) Q"
  unfolding reads_def
proof (intro allI impI)
  fix s r s'
  assume s: "svc_ok env H s" "P (hs_db s)" and m: "(case cached env h s of (Some sn, s) \<Rightarrow> (Inr (g sn), s) | (None, s) \<Rightarrow> m s) = (r, s')"
  show "svc_ok env H s' \<and> hs_db s' = hs_db s \<and> (\<forall>x. r = Inr x \<longrightarrow> Q (hs_db s) x)"
  proof (rule cached_ok[OF s(1), of h])
    assume "cached env h s = (None, s)"
    then have "m s = (r, s')" using m by simp
    from readsD[OF assms(1) s this] show ?thesis by blast
  next
    fix sn assume sn: "cached env h s = (Some sn, s)" "he_hash env (sn_id sn) = he_hash env h" "snapshot_current (hs_db s) sn"
    have "r = Inr (g sn)" "s' = s" using m sn(1) by simp_all
    then show ?thesis using s assms(2)[OF s sn] by simp
  qed
qed

lemma current_hub: "snapshot_current db sn \<Longrightarrow> \<exists>r. hub_of_id (sn_id sn) db = Some r"
  by (auto simp: snapshot_current_def hub_matches_def)

lemma same_hub_id:
  assumes "svc_ok env H s" "inj_on (he_hash env) H" "h \<in> H" "he_hash env (sn_id sn) = he_hash env h" "snapshot_current (hs_db s) sn"
  shows "sn_id sn = h"
proof -
  obtain r where "hub_of_id (sn_id sn) (hs_db s) = Some r" using current_hub[OF assms(5)] by blast
  then have "sn_id sn \<in> hr_id ` set (t_hubs (hs_db s))" using hub_of_id_Some by force
  then have "sn_id sn \<in> H" using assms(1) by (auto simp: svc_ok_def)
  then show ?thesis using assms(2-4) by (auto dest: inj_onD)
qed

lemma reads_load_any: "reads env H (\<lambda>_. True) (loadSnapshot env h) (\<lambda>_ _. True)"
  unfolding loadSnapshot_def[abs_def] by (rule reads_cached) (auto intro: reads_weaken[OF reads_build])

lemma reads_load:
  assumes "inj_on (he_hash env) H" "h \<in> H" "canon env h"
  shows "reads env H (\<lambda>_. True) (loadSnapshot env h) (loaded env h)"
  unfolding loadSnapshot_def[abs_def]
  using assms by (intro reads_cached[OF reads_build]) (auto simp: loaded_def canon_def dest: same_hub_id)

lemma reads_role:
  assumes "inj_on (he_hash env) H" "h \<in> H" "canon env h"
  shows "reads env H (\<lambda>_. True) (resolveMembershipRole env h u) (\<lambda>db r. r = db_role h u db)"
  unfolding resolveMembershipRole_def
proof (rule reads_bind[OF reads_load[OF assms]], rule reads_return)
  fix x db assume ok: "db_ok (he_pg env) db" and l: "True \<and> loaded env h db x"
  have "db_role h u db = None" if none: "hub_of_id h db = None"
  proof (rule ccontr)
    assume "db_role h u db \<noteq> None"
    then obtain m where "m \<in> set (t_members db)" "mr_hub m = h" using member_Some[of h u db] by (auto simp: db_role_def)
    then obtain x where "x \<in> set (t_hubs db)" "hr_id x = h" using ok by (auto simp: db_ok_def members_ok_def member_ok_def)
    then show False using none by (auto simp: hub_of_id_None)
  qed
  then show "(case x of None \<Rightarrow> None | Some sn \<Rightarrow> map_of (sn_roles sn) u) = db_role h u db"
    using l assms(3) by (auto simp: loaded_def canon_def snapshot_current_def split: option.split_asm)
qed

lemma reads_topology:
  assumes "inj_on (he_hash env) H" "h \<in> H" "canon env h"
  shows "reads env H (\<lambda>_. True) (getHubTopology env h) (\<lambda>db t. distinct (tp_channel_ids t) \<and> set (tp_channel_ids t) = cr_id ` set (channels_of h db))"
  unfolding getHubTopology_def
proof (rule reads_bind[OF reads_load[OF assms]], rule reads_return)
  fix x db assume ok: "db_ok (he_pg env) db" and l: "True \<and> loaded env h db x"
  let ?t = "case x of None \<Rightarrow> \<lparr> tp_members = [], tp_channel_ids = [] \<rparr>
        | Some sn \<Rightarrow> \<lparr> tp_members = sort_key fst (sn_roles sn), tp_channel_ids = sn_channel_ids sn \<rparr>"
  show "distinct (tp_channel_ids ?t) \<and> set (tp_channel_ids ?t) = cr_id ` set (channels_of h db)"
  proof (cases x)
    case None
    then have "h \<notin> hr_id ` set (t_hubs db)" using l assms(3) by (simp add: loaded_def canon_def hub_of_id_None)
    then have "channels_of h db = []" using ok by (auto simp: channels_of_def filter_empty_conv db_ok_def channels_ok_def)
    then show ?thesis using None by simp
  next
    case (Some sn)
    then show ?thesis using l assms(3) by (auto simp: loaded_def canon_def snapshot_current_def)
  qed
qed

lemma reads_channel_ids:
  assumes "inj_on (he_hash env) H" "h \<in> H" "canon env h"
  shows "reads env H (\<lambda>_. True) (getHubChannelIds env h) (\<lambda>db cs. distinct cs \<and> set cs = cr_id ` set (channels_of h db))"
  unfolding getHubChannelIds_def
  by (rule reads_bind[OF reads_topology[OF assms]]) (auto intro: reads_return)

lemma reads_getHub:
  assumes "inj_on (he_hash env) H" "h \<in> H" "canon env h"
  shows "reads env H (\<lambda>_. True) (getHub env h) (\<lambda>db x. x = map_option parse_hub_row (hub_of_id h db))"
  unfolding getHub_def[abs_def]
proof (rule reads_cached)
  show "reads env H (\<lambda>_. True) (on_repo (\<lambda>f. repo_getHub (he_pg env) f h)) (\<lambda>db x. x = map_option parse_hub_row (hub_of_id h db))"
    unfolding repo_getHub_def canon_with[OF assms(3)] by (rule reads_weaken[OF reads_repo]) auto
next
  fix s sn assume s: "svc_ok env H s" and sn: "he_hash env (sn_id sn) = he_hash env h" "snapshot_current (hs_db s) sn"
  have "sn_id sn = h" by (rule same_hub_id[OF s assms(1,2) sn])
  then show "Some (to_hub sn) = map_option parse_hub_row (hub_of_id h (hs_db s))"
    using sn(2) hub_of_id_Some by (auto simp: snapshot_current_def hub_matches_def to_hub_def parse_hub_row_def)
qed

lemma reads_getHub_any: "reads env H (\<lambda>_. True) (getHub env h) (\<lambda>_ _. True)"
  unfolding getHub_def[abs_def]
proof (rule reads_cached)
  show "reads env H (\<lambda>_. True) (on_repo (\<lambda>f. repo_getHub (he_pg env) f h)) (\<lambda>_ _. True)"
    unfolding repo_getHub_def by (rule reads_weaken[OF reads_repo]) (auto intro!: with_uuid_same)
qed simp

lemma reads_getChannel: "reads env H (\<lambda>_. True) (getChannel env c) (\<lambda>db x. canon env c \<longrightarrow> x = map_option parse_channel_row (channel_of_id c db))"
  unfolding reads_def
proof (intro allI impI)
  fix s r s' assume s: "svc_ok env H s" and g: "getChannel env c s = (r, s')"
  have cc: "channels_current (hs_db s) (hs_channels s)" using s by (simp add: svc_ok_def)
  let ?Q = "\<lambda>db x. \<exists>i. pg_uuid (he_pg env) c = Some i \<and> x = map_option parse_channel_row (channel_of_id i db)"
  show "svc_ok env H s' \<and> hs_db s' = hs_db s \<and> (\<forall>x. r = Inr x \<longrightarrow> (canon env c \<longrightarrow> x = map_option parse_channel_row (channel_of_id c (hs_db s))))"
  proof (cases "map_of (hs_channels s) c")
    case (Some ch)
    then obtain r' where "channel_of_id c (hs_db s) = Some r'" "ch = parse_channel_row r'" using cc by (auto simp: channels_current_def)
    then show ?thesis using g s Some by (auto simp: getChannel_def)
  next
    case None
    have 1: "reads env H (\<lambda>_. True) (on_repo (\<lambda>f. repo_getChannel (he_pg env) f c)) ?Q"
      unfolding repo_getChannel_def by (rule reads_weaken[OF reads_repo]) (auto intro!: with_uuid_same dest!: fst_with_uuid)
    have "reads env H (\<lambda>_. True) (bind_work (on_repo (\<lambda>f. repo_getChannel (he_pg env) f c)) (\<lambda>ch s.
            (Inr ch, case ch of None \<Rightarrow> s | Some ch \<Rightarrow> put_channel ch s))) ?Q"
    proof (rule reads_bind[OF 1])
      fix ch
      show "reads env H (\<lambda>db. True \<and> ?Q db ch) (\<lambda>s. (Inr ch, case ch of None \<Rightarrow> s | Some ch \<Rightarrow> put_channel ch s)) ?Q"
      proof (cases ch)
        case None
        then show ?thesis by (auto simp: reads_def)
      next
        case (Some x)
        have "svc_ok env H (put_channel x s)" if s: "svc_ok env H s" and q: "?Q (hs_db s) ch" for s
        proof -
          obtain i where "ch = map_option parse_channel_row (channel_of_id i (hs_db s))" using q by blast
          then have "map_option parse_channel_row (channel_of_id i (hs_db s)) = Some x" using Some by simp
          then obtain r where r: "channel_of_id i (hs_db s) = Some r" "x = parse_channel_row r" by auto
          then have "channel_id x = i" using channel_of_id_Some[OF r(1)] by (simp add: parse_channel_row_def)
          then show ?thesis using svc_ok_put_channel[OF s, of x r] r by simp
        qed
        then show ?thesis using Some by (auto simp: reads_def)
      qed
    qed
    note d = readsD[OF this s TrueI]
    have "bind_work (on_repo (\<lambda>f. repo_getChannel (he_pg env) f c)) (\<lambda>ch s.
            (Inr ch, case ch of None \<Rightarrow> s | Some ch \<Rightarrow> put_channel ch s)) s = (r, s')"
      using g None by (simp add: getChannel_def)
    note d = d[OF this]
    show ?thesis using d(1,2) d(3) by (auto simp: canon_def)
  qed
qed

text \<open>Scans do not change a coherent state.\<close>

lemma scan_same:
  assumes "\<And>i. \<exists>v. look i s = (v, s)"
  shows "\<exists>found misses. scan_cached look is seen s = (found, misses, s) \<and> set misses \<subseteq> set is \<and> (\<forall>(i, v) \<in> set found. look i s = (Some v, s))"
proof (induction "is" arbitrary: seen)
  case (Cons i "is")
  obtain v where v: "look i s = (v, s)" using assms by blast
  obtain found misses where r: "scan_cached look is (i # seen) s = (found, misses, s)" "set misses \<subseteq> set is" "\<forall>(i, v) \<in> set found. look i s = (Some v, s)"
    using Cons.IH[of "i # seen"] by blast
  obtain found' misses' where r': "scan_cached look is seen s = (found', misses', s)" "set misses' \<subseteq> set is" "\<forall>(i, v) \<in> set found'. look i s = (Some v, s)"
    using Cons.IH[of seen] by blast
  show ?case
    using v r r' by (cases v) auto
qed simp

lemma cached_same: "svc_ok env H s \<Longrightarrow> \<exists>v. cached env i s = (v, s)"
  by (rule cached_ok[of env H s i]) auto

lemma warm_scan_same:
  assumes "svc_ok env H s"
  shows "\<exists>all b. warm_scan env hubs seen s = (all, b, s) \<and> set all \<subseteq> set hubs"
proof (induction hubs arbitrary: seen)
  case (Cons hub hubs)
  obtain v where v: "cached env (hub_id hub) s = (v, s)" using cached_same[OF assms] by blast
  obtain all b where r: "warm_scan env hubs (hub_id hub # seen) s = (all, b, s)" "set all \<subseteq> set hubs" using Cons.IH by blast
  obtain all' b' where r': "warm_scan env hubs seen s = (all', b', s)" "set all' \<subseteq> set hubs" using Cons.IH by blast
  show ?case using v r r' by auto
next
  case Nil
  show ?case by (intro exI[of _ "[]"] exI[of _ False]) simp
qed

definition hub_current :: "database \<Rightarrow> Hub \<Rightarrow> bool" where
  "hub_current db hub \<longleftrightarrow> hub_matches db (hub_id hub) (hub_owner hub) (hub_name hub) (hub_avatar_seed hub)"

text \<open>The results of the two grouped queries, as far as the hubs of the list are concerned.\<close>

definition grouped :: "HubId list \<Rightarrow> database \<Rightarrow> (HubId, Channel list) umap \<Rightarrow> (HubId, MemberRole list) umap \<Rightarrow> bool" where
  "grouped ids db chs mems \<longleftrightarrow> (\<forall>i \<in> set ids. lookup_or [] i chs = map parse_channel_row (by_position (channels_of i db))
     \<and> lookup_or [] i mems = map parse_member_row (by_joined (members_of i db)))"

lemma store_fetched_ok:
  assumes s: "svc_ok env H s" and cur: "hub_current (hs_db s) hub" and g: "grouped ids (hs_db s) chs mems" "hub_id hub \<in> set ids"
  shows "svc_ok env H (store_fetched env chs mems hub s) \<and> hs_db (store_fetched env chs mems hub s) = hs_db s"
proof -
  let ?i = "hub_id hub" and ?db = "hs_db s"
  have ok: "db_ok (he_pg env) ?db" using s by (rule svc_ok_db)
  have cs: "lookup_or [] ?i chs = map parse_channel_row (by_position (channels_of ?i ?db))"
    "lookup_or [] ?i mems = map parse_member_row (by_joined (members_of ?i ?db))" using g by (simp_all add: grouped_def)
  have "\<exists>r. channel_of_id (channel_id ch) ?db = Some r \<and> ch = parse_channel_row r" if ch: "ch \<in> set (lookup_or [] ?i chs)" for ch
  proof -
    obtain r where r: "r \<in> set (channels_of ?i ?db)" "ch = parse_channel_row r" using ch cs(1) by auto
    then have "channel_of_id (cr_id r) ?db = Some r" using ok channel_of_id_mem by (auto simp: channels_of_def db_ok_def)
    then show ?thesis using r by (simp add: parse_channel_row_def)
  qed
  note p = svc_ok_put_channels[OF s this]
  obtain r where r: "hub_of_id ?i ?db = Some r" "hr_owner r = hub_owner hub" "hr_name r = hub_name hub" "hr_avatar r = hub_avatar_seed hub"
    using cur by (auto simp: hub_current_def hub_matches_def)
  have "map channel_id (lookup_or [] ?i chs) = map cr_id (by_position (channels_of ?i ?db))"
    by (simp add: cs parse_channel_row_def)
  then have "make_snapshot hub (map channel_id (lookup_or [] ?i chs)) (lookup_or [] ?i mems)
      = make_snapshot (parse_hub_row r) (map cr_id (by_position (channels_of ?i ?db))) (map parse_member_row (by_joined (members_of ?i ?db)))"
    using r hub_of_id_Some[OF r(1)] by (simp add: cs make_snapshot_def parse_hub_row_def new_hub_def)
  then have "snapshot_current ?db (make_snapshot hub (map channel_id (lookup_or [] ?i chs)) (lookup_or [] ?i mems))"
    using built_current[OF ok r(1)] by simp
  then show ?thesis using p by (simp add: store_fetched_def Let_def svc_ok_put_snapshot)
qed

lemma store_all_ok:
  assumes "svc_ok env H s" "\<And>hub. hub \<in> set hubs \<Longrightarrow> hub_current (hs_db s) hub" "grouped ids (hs_db s) chs mems" "hub_id ` set hubs \<subseteq> set ids"
  shows "svc_ok env H (fold (store_fetched env chs mems) hubs s) \<and> hs_db (fold (store_fetched env chs mems) hubs s) = hs_db s"
  using assms
proof (induction hubs arbitrary: s)
  case (Cons hub hubs)
  have c: "svc_ok env H (store_fetched env chs mems hub s) \<and> hs_db (store_fetched env chs mems hub s) = hs_db s"
    using Cons.prems by (intro store_fetched_ok) auto
  show ?case using Cons.IH[of "store_fetched env chs mems hub s"] c Cons.prems by simp
qed simp

lemma filter_in:
  "i \<in> set ids \<Longrightarrow> filter (\<lambda>r. cr_hub r = i) (filter (\<lambda>r. cr_hub r \<in> set ids) xs) = filter (\<lambda>r. cr_hub r = i) xs"
  "i \<in> set ids \<Longrightarrow> filter (\<lambda>m. mr_hub m = i) (filter (\<lambda>m. mr_hub m \<in> set ids \<and> mr_role m \<in> set hub_roles) ys)
      = filter (\<lambda>m. mr_hub m = i \<and> mr_role m \<in> set hub_roles) ys"
proof -
  show "i \<in> set ids \<Longrightarrow> filter (\<lambda>r. cr_hub r = i) (filter (\<lambda>r. cr_hub r \<in> set ids) xs) = filter (\<lambda>r. cr_hub r = i) xs"
    by (induction xs) auto
  show "i \<in> set ids \<Longrightarrow> filter (\<lambda>m. mr_hub m = i) (filter (\<lambda>m. mr_hub m \<in> set ids \<and> mr_role m \<in> set hub_roles) ys)
      = filter (\<lambda>m. mr_hub m = i \<and> mr_role m \<in> set hub_roles) ys"
    by (induction ys) auto
qed

lemma grouped_rows:
  "grouped ids db (group_rows cr_hub parse_channel_row (by_position (filter (\<lambda>r. cr_hub r \<in> set ids) (t_channels db))))
     (group_rows mr_hub parse_member_row (by_joined (filter (\<lambda>m. mr_hub m \<in> set ids \<and> mr_role m \<in> set hub_roles) (t_members db))))"
  unfolding grouped_def lookup_group filter_by_position filter_by_joined channels_of_def members_of_def
  by (intro ballI conjI) (simp_all only: filter_in)

lemma reads_by_hub_ids:
  assumes "\<forall>i \<in> set ids. canon env i" "ids \<noteq> []"
  shows "reads env H P (on_repo (\<lambda>f. repo_getHubChannelsByHubIds (he_pg env) f ids))
      (\<lambda>db x. x = group_rows cr_hub parse_channel_row (by_position (filter (\<lambda>r. cr_hub r \<in> set ids) (t_channels db))))"
    "reads env H P (on_repo (\<lambda>f. repo_getHubMemberRolesByHubIds (he_pg env) f ids))
      (\<lambda>db x. x = group_rows mr_hub parse_member_row (by_joined (filter (\<lambda>m. mr_hub m \<in> set ids \<and> mr_role m \<in> set hub_roles) (t_members db))))"
proof -
  show "reads env H P (on_repo (\<lambda>f. repo_getHubChannelsByHubIds (he_pg env) f ids))
      (\<lambda>db x. x = group_rows cr_hub parse_channel_row (by_position (filter (\<lambda>r. cr_hub r \<in> set ids) (t_channels db))))"
    unfolding repo_getHubChannelsByHubIds_def if_not_P[OF assms(2)] canon_withs[OF assms(1)]
    by (rule reads_weaken[OF reads_repo[where P = P]]) simp_all
  show "reads env H P (on_repo (\<lambda>f. repo_getHubMemberRolesByHubIds (he_pg env) f ids))
      (\<lambda>db x. x = group_rows mr_hub parse_member_row (by_joined (filter (\<lambda>m. mr_hub m \<in> set ids \<and> mr_role m \<in> set hub_roles) (t_members db))))"
    unfolding repo_getHubMemberRolesByHubIds_def if_not_P[OF assms(2)] canon_withs[OF assms(1)]
    by (rule reads_weaken[OF reads_repo[where P = P]]) simp_all
qed

lemma reads_grouped_none:
  assumes "reads env H P (k [] []) Q"
  shows "reads env H P (bind_work (on_repo (\<lambda>f. repo_getHubChannelsByHubIds (he_pg env) f [])) (\<lambda>chs.
      bind_work (on_repo (\<lambda>f. repo_getHubMemberRolesByHubIds (he_pg env) f [])) (k chs))) Q"
proof -
  have c: "(\<lambda>f. repo_getHubChannelsByHubIds (he_pg env) f []) = (\<lambda>f db. (Inr [], db))"
    "(\<lambda>f. repo_getHubMemberRolesByHubIds (he_pg env) f []) = (\<lambda>f db. (Inr [], db))"
    by (simp_all add: repo_getHubChannelsByHubIds_def repo_getHubMemberRolesByHubIds_def)
  have "reads env H (\<lambda>db. (P db \<and> chs = []) \<and> mems = []) (k chs mems) Q" for chs mems
  proof (cases "chs = [] \<and> mems = []")
    case True
    then show ?thesis using assms by simp
  next
    case False
    then show ?thesis by (auto simp only: reads_def)
  qed
  then show ?thesis unfolding c by (intro reads_bind[OF reads_const])
qed

lemma reads_grouped:
  assumes "\<forall>i \<in> set ids. canon env i"
    and k: "\<And>chs mems. reads env H (\<lambda>db. P db \<and> grouped ids db chs mems) (k chs mems) Q"
  shows "reads env H P (bind_work (on_repo (\<lambda>f. repo_getHubChannelsByHubIds (he_pg env) f ids)) (\<lambda>chs.
      bind_work (on_repo (\<lambda>f. repo_getHubMemberRolesByHubIds (he_pg env) f ids)) (k chs))) Q"
proof (cases "ids = []")
  case True
  have "grouped [] db [] []" for db by (simp add: grouped_def)
  then have "reads env H P (k [] []) Q" using k[of "[]" "[]"] by (simp add: True)
  then show ?thesis unfolding True by (rule reads_grouped_none)
next
  case False
  note r = reads_by_hub_ids[OF assms(1) False]
  show ?thesis
    by (rule reads_bind[OF r(1)], rule reads_bind[OF r(2)], rule reads_weaken[OF k]) (simp_all add: grouped_rows)
qed

end
