(* ===== verification/HubCoherence.thy ===== *)
theory HubCoherence
  imports HubCacheLaws
begin

text \<open>
  Every operation of \<^verbatim>\<open>HubService\<close> keeps its caches coherent with the database, as long as identifiers are written the
  way the database prints them, hub identifiers in use do not collide under the hash function, and no connection breaks
  from a commit that the database carried out. In the states so reached the service answers what the database holds;
  without these conditions it does not, which the last section shows.
\<close>

section \<open>The remaining reads\<close>

lemma fold_update_all:
  "\<forall>x \<in> set xs. G (key x) x \<Longrightarrow> \<forall>i x. map_of m i = Some x \<longrightarrow> G i x \<Longrightarrow> map_of (fold (\<lambda>x. AList.update (key x) x) xs m) i = Some x \<Longrightarrow> G i x"
proof (induction xs arbitrary: m)
  case (Cons y xs)
  have "\<forall>i x. map_of (AList.update (key y) y m) i = Some x \<longrightarrow> G i x" using Cons.prems(1,2) by (simp add: map_of_update)
  then show ?case using Cons.IH[of "AList.update (key y) y m"] Cons.prems by simp
qed simp

lemma reads_vacuous: "(\<And>db. \<not> P db) \<Longrightarrow> reads env H P m Q"
  by (simp add: reads_def)

lemma fst_with_uuids: "fst (with_uuids pg is k db) = Inr x \<Longrightarrow> \<exists>us. fst (k us db) = Inr x"
  by (induction "is" arbitrary: k) (auto dest!: fst_with_uuid)

definition canon_rows :: "hub_env \<Rightarrow> database \<Rightarrow> bool" where
  "canon_rows env db \<longleftrightarrow> (\<forall>r \<in> set (t_hubs db). canon env (hr_id r)) \<and> (\<forall>r \<in> set (t_channels db). canon env (cr_id r))"

lemma reads_repo_canon:
  assumes "\<And>x. snd (fn x) = x"
  shows "reads env H P (on_repo (\<lambda>f. txn_read f fn)) (\<lambda>db x. fst (fn db) = Inr x \<and> canon_rows env db)"
  unfolding reads_def
proof (intro allI impI)
  fix s r s' assume s: "svc_ok env H s" "P (hs_db s)" "on_repo (\<lambda>f. txn_read f fn) s = (r, s')"
  have "canon_rows env (hs_db s)" using s(1) by (simp add: svc_ok_def canon_rows_def)
  then show "svc_ok env H s' \<and> hs_db s' = hs_db s \<and> (\<forall>x. r = Inr x \<longrightarrow> fst (fn (hs_db s)) = Inr x \<and> canon_rows env (hs_db s))"
    using readsD[OF reads_repo[where P = P, OF assms] s] by blast
qed

lemma reads_hubs_by_ids:
  "reads env H (\<lambda>_. True) (on_repo (\<lambda>f. repo_getHubsByIds (he_pg env) f ids))
     (\<lambda>db fetched. (\<forall>hub \<in> set fetched. hub_current db hub) \<and> (\<forall>i \<in> set (map hub_id fetched). canon env i))"
proof (cases "ids = []")
  case True
  then show ?thesis unfolding repo_getHubsByIds_def by simp (rule reads_weaken[OF reads_const], auto)
next
  case False
  have "hub_current db (parse_hub_row r)" if "db_ok (he_pg env) db" "r \<in> set (t_hubs db)" for db r
    using that hub_of_id_mem[of db r] by (simp add: hub_current_def hub_matches_def parse_hub_row_def new_hub_def db_ok_def)
  moreover have "hub_id (parse_hub_row r) = hr_id r" for r by (simp add: parse_hub_row_def new_hub_def)
  ultimately show ?thesis
    unfolding repo_getHubsByIds_def if_not_P[OF False]
    by (intro reads_weaken[OF reads_repo_canon]) (auto intro!: with_uuids_same dest!: fst_with_uuids simp: canon_rows_def)
qed

lemma reads_store_all:
  assumes "\<And>db. P db \<Longrightarrow> (\<forall>hub \<in> set hubs. hub_current db hub) \<and> grouped (map hub_id hubs) db chs mems"
    and "\<And>db. P db \<Longrightarrow> Q db x"
  shows "reads env H P (\<lambda>s. (Inr x, fold (store_fetched env chs mems) hubs s)) Q"
  unfolding reads_def using assms store_all_ok[of env H _ hubs "map hub_id hubs" chs mems] by auto

text \<open>A list of hubs as they are in the tables, with the identifiers the database prints.\<close>

definition hubs_current :: "hub_env \<Rightarrow> database \<Rightarrow> Hub list \<Rightarrow> bool" where
  "hubs_current env db hubs \<longleftrightarrow> (\<forall>hub \<in> set hubs. hub_current db hub \<and> canon env (hub_id hub))"

lemma reads_fetch:
  "reads env H (\<lambda>_. True)
     (bind_work (on_repo (\<lambda>f. repo_getHubsByIds (he_pg env) f misses)) (\<lambda>fetched.
      bind_work (on_repo (\<lambda>f. repo_getHubChannelsByHubIds (he_pg env) f (map hub_id fetched))) (\<lambda>chs.
      bind_work (on_repo (\<lambda>f. repo_getHubMemberRolesByHubIds (he_pg env) f (map hub_id fetched))) (\<lambda>mems s.
        (Inr (g fetched), fold (store_fetched env chs mems) fetched s))))) (\<lambda>db x. \<exists>fetched. x = g fetched \<and> hubs_current env db fetched)"
proof (rule reads_bind[OF reads_hubs_by_ids])
  fix fetched
  let ?P = "\<lambda>db. True \<and> (\<forall>hub \<in> set fetched. hub_current db hub) \<and> (\<forall>i \<in> set (map hub_id fetched). canon env i)"
  show "reads env H ?P
      (bind_work (on_repo (\<lambda>f. repo_getHubChannelsByHubIds (he_pg env) f (map hub_id fetched))) (\<lambda>chs.
       bind_work (on_repo (\<lambda>f. repo_getHubMemberRolesByHubIds (he_pg env) f (map hub_id fetched))) (\<lambda>mems s.
         (Inr (g fetched), fold (store_fetched env chs mems) fetched s)))) (\<lambda>db x. \<exists>fetched. x = g fetched \<and> hubs_current env db fetched)"
  proof (cases "\<forall>i \<in> set (map hub_id fetched). canon env i")
    case True
    show ?thesis by (rule reads_grouped[OF True], rule reads_store_all) (auto simp: hubs_current_def)
  next
    case False
    show ?thesis by (rule reads_vacuous) (use False in simp)
  qed
qed

lemma cached_hub_current: "snapshot_current db sn \<Longrightarrow> hub_current db (to_hub sn)"
  by (simp add: snapshot_current_def hub_current_def to_hub_def new_hub_def)

lemma current_canon: "svc_ok env H s \<Longrightarrow> hub_current (hs_db s) hub \<Longrightarrow> canon env (hub_id hub)"
  using hub_of_id_Some by (fastforce simp: svc_ok_def hub_current_def hub_matches_def)

lemma reads_getHubsByIds_current:
  "reads env H (\<lambda>_. True) (getHubsByIds env ids)
     (\<lambda>db m. \<forall>i hub. map_of m i = Some hub \<longrightarrow> hubs_current env db [hub] \<and> he_hash env (hub_id hub) = he_hash env i)"
  unfolding reads_def
proof (intro allI impI)
  fix s r s' assume s: "svc_ok env H s" and m: "getHubsByIds env ids s = (r, s')"
  obtain found misses where sc: "scan_cached (cached env) ids [] s = (found, misses, s)" and hit: "\<forall>(i, sn) \<in> set found. cached env i s = (Some sn, s)"
    using scan_same[of "cached env" s ids "[]"] cached_same[OF s] by blast
  define hubs where "hubs = map (\<lambda>(i, sn). (i, to_hub sn)) found"
  let ?good = "\<lambda>i hub. hubs_current env (hs_db s) [hub] \<and> he_hash env (hub_id hub) = he_hash env i"
  have good: "?good i hub" if entry: "map_of hubs i = Some hub" for i hub
  proof -
    obtain sn where sn: "(i, sn) \<in> set found" "hub = to_hub sn" using map_of_SomeD[OF entry] by (auto simp: hubs_def)
    then have "cached env i s = (Some sn, s)" using hit by auto
    then have "he_hash env (sn_id sn) = he_hash env i" "snapshot_current (hs_db s) sn" using cached_ok[OF s, of i] by (metis option.inject option.simps(3) prod.inject)+
    moreover from this(2) have "hub_current (hs_db s) hub" using cached_hub_current sn(2) by simp
    moreover have "hub_id hub = sn_id sn" using sn(2) by (simp add: to_hub_def new_hub_def)
    ultimately show ?thesis using current_canon[OF s, of hub] by (simp add: hubs_current_def)
  qed
  show "svc_ok env H s' \<and> hs_db s' = hs_db s \<and> (\<forall>m. r = Inr m \<longrightarrow> (\<forall>i hub. map_of m i = Some hub \<longrightarrow> ?good i hub))"
  proof (cases "ids = [] \<or> misses = []")
    case True
    then show ?thesis using m s good by (cases "ids = []") (auto simp: getHubsByIds_def sc Let_def hubs_def)
  next
    case False
    then have ne: "ids \<noteq> []" "misses \<noteq> []" by simp_all
    have "bind_work (on_repo (\<lambda>f. repo_getHubsByIds (he_pg env) f misses)) (\<lambda>fetched.
      bind_work (on_repo (\<lambda>f. repo_getHubChannelsByHubIds (he_pg env) f (map hub_id fetched))) (\<lambda>chs.
      bind_work (on_repo (\<lambda>f. repo_getHubMemberRolesByHubIds (he_pg env) f (map hub_id fetched))) (\<lambda>mems s.
        (Inr (fold (\<lambda>h. AList.update (hub_id h) h) fetched hubs), fold (store_fetched env chs mems) fetched s)))) s = (r, s')"
      using m unfolding getHubsByIds_def if_not_P[OF ne(1)] sc prod.case Let_def if_not_P[OF ne(2)] hubs_def .
    note d = readsD[OF reads_fetch s TrueI this]
    have "?good i hub" if "hubs_current env (hs_db s) fetched" "map_of (fold (\<lambda>h. AList.update (hub_id h) h) fetched hubs) i = Some hub" for fetched i hub
      using fold_update_all[of fetched ?good hub_id hubs i hub] that good by (auto simp: hubs_current_def)
    then show ?thesis using d by blast
  qed
qed

lemma reads_getHubsByIds: "reads env H (\<lambda>_. True) (getHubsByIds env ids) (\<lambda>_ _. True)"
  by (rule reads_weaken[OF reads_getHubsByIds_current]) simp_all

lemma reads_warm:
  assumes "\<forall>hub \<in> set hubs. canon env (hub_id hub)"
  shows "reads env H (\<lambda>db. \<forall>hub \<in> set hubs. hub_current db hub) (warmSnapshotsForHubs env hubs) (\<lambda>_ _. True)"
  unfolding reads_def
proof (intro allI impI)
  fix s r s' assume s: "svc_ok env H s" "\<forall>hub \<in> set hubs. hub_current (hs_db s) hub" and m: "warmSnapshotsForHubs env hubs s = (r, s')"
  obtain all b where sc: "warm_scan env hubs [] s = (all, b, s)" "set all \<subseteq> set hubs" using warm_scan_same[OF s(1)] by blast
  show "svc_ok env H s' \<and> hs_db s' = hs_db s \<and> (\<forall>x. r = Inr x \<longrightarrow> True)"
  proof (cases b)
    case False
    then show ?thesis using m s by (simp add: warmSnapshotsForHubs_def sc)
  next
    case True
    let ?P = "\<lambda>db. \<forall>hub \<in> set all. hub_current db hub"
    have P: "?P (hs_db s)" using s(2) sc(2) by blast
    have c: "\<forall>i \<in> set (map hub_id all). canon env i" using assms sc(2) by auto
    have "reads env H ?P (bind_work (on_repo (\<lambda>f. repo_getHubChannelsByHubIds (he_pg env) f (map hub_id all))) (\<lambda>chs.
            bind_work (on_repo (\<lambda>f. repo_getHubMemberRolesByHubIds (he_pg env) f (map hub_id all))) (\<lambda>mems s.
              (Inr (), fold (store_fetched env chs mems) all s)))) (\<lambda>_ _. True)"
      by (rule reads_grouped[OF c], rule reads_store_all) simp_all
    note f = readsD[OF this s(1) P]
    have "\<not> \<not> b" using True by simp
    from m[unfolded warmSnapshotsForHubs_def sc(1) prod.case if_not_P[OF this]] f show ?thesis by blast
  qed
qed

lemma reads_channels_by_ids: "reads env H (\<lambda>_. True) (getChannelsByIds env ids) (\<lambda>_ _. True)"
  unfolding reads_def
proof (intro allI impI)
  fix s r s' assume s: "svc_ok env H s" and m: "getChannelsByIds env ids s = (r, s')"
  obtain found misses where sc: "scan_cached look_channel ids [] s = (found, misses, s)"
    using scan_same[of look_channel s ids "[]"] by (auto simp: look_channel_def)
  let ?Q = "\<lambda>db chs. \<forall>ch \<in> set chs. \<exists>r. channel_of_id (channel_id ch) db = Some r \<and> ch = parse_channel_row r"
  show "svc_ok env H s' \<and> hs_db s' = hs_db s \<and> (\<forall>x. r = Inr x \<longrightarrow> True)"
  proof (cases "ids = [] \<or> misses = []")
    case True
    then show ?thesis using m s by (cases "ids = []") (auto simp: getChannelsByIds_def sc)
  next
    case False
    then have ne: "misses \<noteq> []" by simp
    have row: "channel_of_id (channel_id (parse_channel_row r)) db = Some r" if "db_ok (he_pg env) db" "r \<in> set (t_channels db)" for db r
      using that channel_of_id_mem[of db r] by (simp add: parse_channel_row_def db_ok_def)
    have 1: "reads env H (\<lambda>_. True) (on_repo (\<lambda>f. repo_getChannelsByIds (he_pg env) f misses)) ?Q"
      unfolding repo_getChannelsByIds_def if_not_P[OF ne]
    proof (rule reads_weaken[OF reads_repo])
      fix db x assume ok: "db_ok (he_pg env) db" and x: "fst (with_uuids (he_pg env) misses
            (\<lambda>cs db. (Inr (map parse_channel_row (filter (\<lambda>r. cr_id r \<in> set cs) (t_channels db))), db)) db) = Inr x"
      obtain us where "x = map parse_channel_row (filter (\<lambda>r. cr_id r \<in> set us) (t_channels db))" using fst_with_uuids[OF x] by auto
      then show "?Q db x" using row[OF ok] by auto
    qed (simp_all add: with_uuids_same)
    have 2: "reads env H (\<lambda>db. True \<and> ?Q db fetched) (\<lambda>s. (Inr (fold (\<lambda>ch. AList.update (channel_id ch) ch) fetched found), fold put_channel fetched s))
        (\<lambda>_ _. True)" for fetched
      unfolding reads_def using svc_ok_put_channels[of env H _ fetched] by auto
    note f = readsD[OF reads_bind[OF 1 2] s TrueI]
    have "ids \<noteq> []" using False by simp
    from m[unfolded getChannelsByIds_def if_not_P[OF this] sc prod.case if_not_P[OF ne]] f show ?thesis by blast
  qed
qed

lemma reads_topology_any: "reads env H (\<lambda>_. True) (getHubTopology env h) (\<lambda>_ _. True)"
  unfolding getHubTopology_def by (rule reads_bind[OF reads_load_any], rule reads_return) simp

lemma user_hub_rows:
  assumes "db_ok (he_pg env) db" "canon_rows env db"
    "hub \<in> set (map (\<lambda>(h, m). setMemberRole u (role_from_string (mr_role m)) (parse_hub_row h))
        (sort_key (\<lambda>(h, m). - hr_created h) (concat (map (\<lambda>h. map (Pair h) (filter (\<lambda>m. mr_user m = v) (members_of (hr_id h) db))) (t_hubs db)))))"
  shows "hub_current db hub \<and> canon env (hub_id hub) \<and> db_role (hub_id hub) v db \<noteq> None"
proof -
  obtain h m where h: "h \<in> set (t_hubs db)" "m \<in> set (members_of (hr_id h) db)" "mr_user m = v"
    and hub: "hub = setMemberRole u (role_from_string (mr_role m)) (parse_hub_row h)" using assms(3) by auto
  have "hub_of_id (hr_id h) db = Some h" using h(1) assms(1) by (simp add: hub_of_id_mem db_ok_def)
  moreover have "member_of_hub (hr_id h) v db \<noteq> None" using h(2,3) by (auto simp: member_of_hub_def find_eq_None members_of_def)
  ultimately show ?thesis
    using h(1) assms(2) by (simp add: hub hub_current_def hub_matches_def setMemberRole_def parse_hub_row_def new_hub_def canon_rows_def db_role_def)
qed

lemma reads_user_hubs_current:
  "reads env H (\<lambda>_. True) (getUserHubs env u)
     (\<lambda>db hubs. hubs_current env db hubs \<and> (canon env u \<longrightarrow> (\<forall>hub \<in> set hubs. db_role (hub_id hub) u db \<noteq> None)))"
  unfolding getUserHubs_def repo_getUserHubs_def
proof (rule reads_weaken[OF reads_repo_canon])
  fix db x
  assume ok: "db_ok (he_pg env) db" and "fst (with_uuid (he_pg env) u (\<lambda>v db.
      (Inr (map (\<lambda>(h, m). setMemberRole u (role_from_string (mr_role m)) (parse_hub_row h))
        (sort_key (\<lambda>(h, m). - hr_created h) (concat (map (\<lambda>h. map (Pair h) (filter (\<lambda>m. mr_user m = v) (members_of (hr_id h) db))) (t_hubs db))))), db)) db) = Inr x
      \<and> canon_rows env db"
  then obtain v where v: "pg_uuid (he_pg env) u = Some v" "canon_rows env db"
    "x = map (\<lambda>(h, m). setMemberRole u (role_from_string (mr_role m)) (parse_hub_row h))
        (sort_key (\<lambda>(h, m). - hr_created h) (concat (map (\<lambda>h. map (Pair h) (filter (\<lambda>m. mr_user m = v) (members_of (hr_id h) db))) (t_hubs db))))"
    by (auto dest: fst_with_uuid)
  have "hub_current db hub \<and> canon env (hub_id hub) \<and> db_role (hub_id hub) v db \<noteq> None" if "hub \<in> set x" for hub
    by (rule user_hub_rows[OF ok v(2) that[unfolded v(3)]])
  then show "hubs_current env db x \<and> (canon env u \<longrightarrow> (\<forall>hub \<in> set x. db_role (hub_id hub) u db \<noteq> None))"
    using v(1) by (auto simp: hubs_current_def canon_def)
qed (auto intro!: with_uuid_same)

lemma reads_user_hubs: "reads env H (\<lambda>_. True) (getUserHubs env u) (\<lambda>_ _. True)"
  by (rule reads_weaken[OF reads_user_hubs_current]) simp_all

section \<open>Writes\<close>

definition keeps :: "hub_env \<Rightarrow> HubId set \<Rightarrow> (database \<Rightarrow> bool) \<Rightarrow> (hub_service, 'a) work \<Rightarrow> bool" where
  "keeps env H P m \<longleftrightarrow> (\<forall>s. svc_ok env H s \<longrightarrow> P (hs_db s) \<longrightarrow> svc_ok env H (snd (m s)))"

lemma keeps_reads: "reads env H P m Q \<Longrightarrow> keeps env H P m"
  unfolding reads_def keeps_def by (metis prod.collapse)

lemma keeps_bind:
  assumes "reads env H P m Q" "\<And>x. keeps env H (\<lambda>db. Q db x) (k x)"
  shows "keeps env H P (bind_work m k)"
  unfolding keeps_def
proof (intro allI impI)
  fix s assume s: "svc_ok env H s" "P (hs_db s)"
  obtain r s' where m: "m s = (r, s')" by force
  note d = readsD[OF assms(1) s m]
  show "svc_ok env H (snd (bind_work m k s))"
    using m d assms(2) by (cases r) (auto simp: bind_work_def keeps_def)
qed

lemma svc_ok_current: "svc_ok env H s \<Longrightarrow> cache_current env (hs_db s) (hs_cache s)" "svc_ok env H s \<Longrightarrow> channels_current (hs_db s) (hs_channels s)"
  by (simp_all add: svc_ok_def)

lemma cache_currentD: "cache_current env db c \<Longrightarrow> map_of c k = Some v \<Longrightarrow> \<exists>sn. v = AnySnapshot sn \<and> k = hub_key (he_hash env) (sn_id sn) \<and> snapshot_current db sn"
  by (simp add: cache_current_def)

lemma channels_currentD: "channels_current db cs \<Longrightarrow> map_of cs c = Some ch \<Longrightarrow> \<exists>r. channel_of_id c db = Some r \<and> ch = parse_channel_row r"
  by (simp add: channels_current_def)

text \<open>The part of the database that the snapshot of a hub shows.\<close>

definition same_view :: "HubId \<Rightarrow> database \<Rightarrow> database \<Rightarrow> bool" where
  "same_view i db db' \<longleftrightarrow> hub_of_id i db' = hub_of_id i db \<and> cr_id ` set (channels_of i db') = cr_id ` set (channels_of i db)
     \<and> (\<forall>u. db_role i u db' = db_role i u db)"

lemma snapshot_frame: "snapshot_current db sn \<Longrightarrow> same_view (sn_id sn) db db' \<Longrightarrow> snapshot_current db' sn"
  by (simp add: snapshot_current_def same_view_def hub_matches_def)

text \<open>Coherent except for the snapshot of \<open>h\<close>.\<close>

definition svc_ok_but :: "hub_env \<Rightarrow> HubId set \<Rightarrow> HubId \<Rightarrow> hub_service \<Rightarrow> bool" where
  "svc_ok_but env H h s \<longleftrightarrow> svc_ok env H (invalidateHubCaches env h s)"

lemma svc_ok_but_put: "svc_ok_but env H h s \<Longrightarrow> sn_id sn = h \<Longrightarrow> snapshot_current (hs_db s) sn \<Longrightarrow> svc_ok env H (put_snapshot env sn s)"
  by (auto simp: svc_ok_but_def svc_ok_def invalidateHubCaches_def put_snapshot_def hc_put_def mc_put_def hc_invalidate_def mc_erase_def
      cache_current_def delete_conv' split: if_split_asm)

lemma svc_ok_but_entry:
  assumes "svc_ok_but env H h s"
    "\<And>v. map_of (hs_cache s) (hub_key (he_hash env) h) = Some v \<Longrightarrow> \<exists>sn. v = AnySnapshot sn \<and> sn_id sn = h \<and> snapshot_current (hs_db s) sn"
  shows "svc_ok env H s"
proof -
  have c: "cache_current env (hs_db s) (AList.delete (hub_key (he_hash env) h) (hs_cache s))"
    using assms(1) by (simp add: svc_ok_but_def svc_ok_def invalidateHubCaches_def hc_invalidate_def mc_erase_def)
  have "cache_current env (hs_db s) (hs_cache s)"
    unfolding cache_current_def
  proof (intro allI impI)
    fix k v assume "map_of (hs_cache s) k = Some v"
    then show "\<exists>sn. v = AnySnapshot sn \<and> k = hub_key (he_hash env) (sn_id sn) \<and> snapshot_current (hs_db s) sn"
      using c assms(2)[of v] by (cases "k = hub_key (he_hash env) h") (auto simp: cache_current_def delete_conv')
  qed
  then show ?thesis using assms(1) by (simp add: svc_ok_but_def svc_ok_def invalidateHubCaches_def)
qed

lemma written_but:
  assumes s: "svc_ok env H s" and ok: "db_ok (he_pg env) db" and rows: "canon_rows env db" "hr_id ` set (t_hubs db) \<subseteq> H"
    and view: "\<And>i. i \<noteq> h \<Longrightarrow> same_view i (hs_db s) db" and chs: "channels_current db cs"
  shows "svc_ok_but env H h (s\<lparr> hs_db := db, hs_faults := tl (hs_faults s), hs_channels := cs \<rparr>)"
proof -
  have f: "\<forall>f \<in> set (tl (hs_faults s)). calm f" using s by (cases "hs_faults s") (auto simp: svc_ok_def)
  have c: "cache_current env (hs_db s) (hs_cache s)" using s by (simp add: svc_ok_def)
  have "\<exists>sn. v = AnySnapshot sn \<and> k = hub_key (he_hash env) (sn_id sn) \<and> snapshot_current db sn"
    if kv: "map_of (hs_cache s) k = Some v" and k: "k \<noteq> hub_key (he_hash env) h" for k v
  proof -
    obtain sn where sn: "v = AnySnapshot sn" "k = hub_key (he_hash env) (sn_id sn)" "snapshot_current (hs_db s) sn"
      using c kv by (auto simp: cache_current_def)
    then have "sn_id sn \<noteq> h" using k by auto
    then show ?thesis using sn snapshot_frame[OF sn(3)] view by blast
  qed
  then have "cache_current env db (AList.delete (hub_key (he_hash env) h) (hs_cache s))"
    by (auto simp: cache_current_def delete_conv' split: if_split_asm)
  then show ?thesis
    using ok rows chs f by (simp add: svc_ok_but_def svc_ok_def canon_rows_def invalidateHubCaches_def hc_invalidate_def mc_erase_def)
qed

lemma keeps_on_write:
  assumes "\<And>s db x. svc_ok env H s \<Longrightarrow> P (hs_db s) \<Longrightarrow> fn (hs_db s) = (Inr x, db)
      \<Longrightarrow> svc_ok env H (snd (k x (s\<lparr> hs_db := db, hs_faults := tl (hs_faults s) \<rparr>)))"
  shows "keeps env H P (bind_work (on_repo (\<lambda>f. txn_write f fn)) k)"
  unfolding keeps_def
proof (intro allI impI)
  fix s assume s: "svc_ok env H s" "P (hs_db s)"
  obtain r s' where w: "on_repo (\<lambda>f. txn_write f fn) s = (r, s')" by force
  have c: "\<forall>f \<in> set (hs_faults s). calm f" using s by (simp add: svc_ok_def)
  show "svc_ok env H (snd (bind_work (on_repo (\<lambda>f. txn_write f fn)) k s))"
    using w c
  proof (cases rule: on_write)
    case (failed e)
    have "set (tl (hs_faults s)) \<subseteq> set (hs_faults s)" by (cases "hs_faults s") auto
    then show ?thesis using failed w svc_ok_faults[OF s(1)] by (simp add: bind_work_def)
  next
    case (written x db)
    then show ?thesis using w assms[OF s] by (simp add: bind_work_def)
  qed
qed

text \<open>What a successful statement changes.\<close>

lemma find_append: "find P (xs @ ys) = (case find P xs of None \<Rightarrow> find P ys | Some x \<Rightarrow> Some x)"
  by (induction xs) auto

lemma find_map_other: "(\<And>x. Q x \<Longrightarrow> \<not> P x \<and> \<not> P (f x)) \<Longrightarrow> find P (map (\<lambda>x. if Q x then f x else x) xs) = find P xs"
  by (induction xs) auto

lemma find_filter_other: "(\<And>x. P x \<Longrightarrow> Q x) \<Longrightarrow> find P (filter Q xs) = find P xs"
  by (induction xs) auto

lemma lookup_frame [simp]:
  "hub_of_id i (db\<lparr> t_members := ms \<rparr>) = hub_of_id i db" "hub_of_id i (db\<lparr> t_channels := cs \<rparr>) = hub_of_id i db"
  "channels_of i (db\<lparr> t_members := ms \<rparr>) = channels_of i db" "channels_of i (db\<lparr> t_hubs := hs \<rparr>) = channels_of i db"
  "member_of_hub i u (db\<lparr> t_hubs := hs \<rparr>) = member_of_hub i u db" "member_of_hub i u (db\<lparr> t_channels := cs \<rparr>) = member_of_hub i u db"
  "channel_of_id c (db\<lparr> t_members := ms \<rparr>) = channel_of_id c db" "channel_of_id c (db\<lparr> t_hubs := hs \<rparr>) = channel_of_id c db"
  by (simp_all add: hub_of_id_def channels_of_def member_of_hub_def channel_of_id_def)

lemma upsert_effect:
  assumes "upsert_member now h u role db = (Inr x, db')"
  shows "\<exists>ms. db' = db\<lparr> t_members := ms \<rparr> \<and> (\<forall>i v. i \<noteq> h \<longrightarrow> member_of_hub i v db' = member_of_hub i v db)"
proof -
  obtain r where r: "role = Some r" "member_triggers h u role db = None"
    using assms by (auto simp: upsert_member_def fails_def split: option.split_asm)
  let ?upd = "map (\<lambda>m. if mr_hub m = h \<and> mr_user m = u then m\<lparr> mr_role := r \<rparr> else m) (t_members db)"
  let ?new = "t_members db @ [\<lparr> mr_hub = h, mr_user = u, mr_role = r, mr_joined = now \<rparr>]"
  have "db' = db\<lparr> t_members := ?upd \<rparr> \<or> db' = db\<lparr> t_members := ?new \<rparr>"
    using assms r by (auto simp: upsert_member_def fails_def split: if_split_asm)
  moreover have "find (\<lambda>m. mr_hub m = i \<and> mr_user m = v) ?upd = find (\<lambda>m. mr_hub m = i \<and> mr_user m = v) (t_members db)" if "i \<noteq> h" for i v
    by (rule find_map_other) (use that in auto)
  moreover have "find (\<lambda>m. mr_hub m = i \<and> mr_user m = v) ?new = find (\<lambda>m. mr_hub m = i \<and> mr_user m = v) (t_members db)" if "i \<noteq> h" for i v
    using that by (auto simp: find_append split: option.split)
  ultimately show ?thesis by (auto simp: member_of_hub_def)
qed

lemma same_view_members: "db' = db\<lparr> t_members := ms \<rparr> \<Longrightarrow> \<forall>v. member_of_hub i v db' = member_of_hub i v db \<Longrightarrow> same_view i db db'"
  by (simp add: same_view_def db_role_def)

lemma written_members:
  assumes s: "svc_ok env H s" and ok: "db_ok (he_pg env) db" and db: "db = (hs_db s)\<lparr> t_members := ms \<rparr>"
    and other: "\<forall>i v. i \<noteq> h \<longrightarrow> member_of_hub i v db = member_of_hub i v (hs_db s)"
  shows "svc_ok env H (invalidateHubCaches env h (s\<lparr> hs_db := db, hs_faults := tl (hs_faults s) \<rparr>))"
proof -
  have "svc_ok_but env H h (s\<lparr> hs_db := db, hs_faults := tl (hs_faults s), hs_channels := hs_channels s \<rparr>)"
  proof (rule written_but[OF s ok])
    show "canon_rows env db" "hr_id ` set (t_hubs db) \<subseteq> H" "channels_current db (hs_channels s)"
      using s by (simp_all add: db svc_ok_def canon_rows_def channels_current_def)
    show "same_view i (hs_db s) db" if "i \<noteq> h" for i using same_view_members[OF db] other that by simp
  qed
  then show ?thesis by (simp add: svc_ok_but_def)
qed

lemma keeps_okD: "keeps_ok pg fn \<Longrightarrow> db_ok pg db \<Longrightarrow> fn db = (r, db') \<Longrightarrow> db_ok pg db'"
  by (metis keeps_ok_def snd_conv)

lemma keeps_addMember:
  assumes "canon env h"
  shows "keeps env H (\<lambda>_. True) (addMember env now h u role)"
  unfolding addMember_def repo_addMember_def canon_with[OF assms]
proof (rule keeps_on_write)
  fix s db x assume s: "svc_ok env H s"
    and w: "with_uuid (he_pg env) u (\<lambda>u. upsert_member now h u (get_hub_role_id (normalize_db_role (role_to_string role)))) (hs_db s) = (Inr x, db)"
  obtain v where v: "upsert_member now h v (get_hub_role_id (normalize_db_role (role_to_string role))) (hs_db s) = (Inr x, db)"
    using w by (auto simp: with_uuid_def fails_def split: option.split_asm)
  have "db_ok (he_pg env) db" using keeps_okD[OF keeps_member_upsert svc_ok_db[OF s] v] .
  then show "svc_ok env H (snd (Inr (), invalidateHubCaches env h (s\<lparr> hs_db := db, hs_faults := tl (hs_faults s) \<rparr>)))"
    using upsert_effect[OF v] written_members[OF s] by auto
qed

lemma keeps_removeMember:
  assumes "canon env h"
  shows "keeps env H (\<lambda>_. True) (removeMember env h u)"
  unfolding removeMember_def repo_removeMember_def canon_with[OF assms]
proof (rule keeps_on_write)
  fix s db x assume s: "svc_ok env H s" and w: "with_uuid (he_pg env) u (delete_member h) (hs_db s) = (Inr x, db)"
  obtain v where v: "delete_member h v (hs_db s) = (Inr x, db)"
    using w by (auto simp: with_uuid_def fails_def split: option.split_asm)
  have ok: "db_ok (he_pg env) db" using keeps_okD[OF keeps_delete_member svc_ok_db[OF s] v] .
  have "\<forall>i w. i \<noteq> h \<longrightarrow> member_of_hub i w db = member_of_hub i w (hs_db s)"
    using v by (auto simp: delete_member_def member_of_hub_def intro!: find_filter_other)
  then show "svc_ok env H (snd (Inr (), invalidateHubCaches env h (s\<lparr> hs_db := db, hs_faults := tl (hs_faults s) \<rparr>)))"
    using v written_members[OF s ok] by (auto simp: delete_member_def)
qed

lemma keeps_createHub_op:
  assumes "canon env new" "new \<in> H"
  shows "keeps env H (\<lambda>_. True) (createHub env new now name owner)"
  unfolding createHub_def repo_createHub_def
proof (rule keeps_on_write)
  fix s db x assume s: "svc_ok env H s"
    and w: "with_uuid (he_pg env) owner (\<lambda>u db. case insert_hub (he_pg env) new now name u db of (Inl e, db) \<Rightarrow> (Inl e, db) | (Inr r, db) \<Rightarrow> (Inr (parse_hub_row r), db))
      (hs_db s) = (Inr x, db)"
  obtain u row where v: "insert_hub (he_pg env) new now name u (hs_db s) = (Inr row, db)" "x = parse_hub_row row"
    using w by (auto simp: with_uuid_def fails_def split: option.split_asm prod.split_asm sum.split_asm)
  have ok: "db_ok (he_pg env) db" using keeps_okD[OF keeps_insert_hub svc_ok_db[OF s] v(1)] .
  let ?row = "\<lparr> hr_id = new, hr_name = name, hr_avatar = ''Felix'', hr_owner = u, hr_created = now \<rparr>"
  have e: "upsert_member now new u (get_hub_role_id ''owner'') ((hs_db s)\<lparr> t_hubs := t_hubs (hs_db s) @ [?row] \<rparr>) = (Inr (), db)" "row = ?row"
    using v(1) by (auto simp: insert_hub_def fails_def Let_def split: if_split_asm prod.split_asm sum.split_asm)
  obtain ms where ms: "db = (hs_db s)\<lparr> t_hubs := t_hubs (hs_db s) @ [?row], t_members := ms \<rparr>"
      "\<forall>i v. i \<noteq> new \<longrightarrow> member_of_hub i v db = member_of_hub i v (hs_db s)"
    using upsert_effect[OF e(1)] by auto
  have "svc_ok_but env H new (s\<lparr> hs_db := db, hs_faults := tl (hs_faults s), hs_channels := hs_channels s \<rparr>)"
  proof (rule written_but[OF s ok])
    show "canon_rows env db" "hr_id ` set (t_hubs db) \<subseteq> H" "channels_current db (hs_channels s)"
      using s assms by (auto simp: ms(1) svc_ok_def canon_rows_def channels_current_def)
    show "same_view i (hs_db s) db" if "i \<noteq> new" for i
    proof -
      have "hub_of_id i db = hub_of_id i (hs_db s)"
        using that by (auto simp: ms(1) hub_of_id_def find_append split: option.split)
      then show ?thesis using ms that by (simp add: same_view_def db_role_def)
    qed
  qed
  moreover have "hub_id x = new" using v(2) e(2) by (simp add: parse_hub_row_def new_hub_def)
  ultimately show "svc_ok env H (snd (Inr x, invalidateHubCaches env (hub_id x) (s\<lparr> hs_db := db, hs_faults := tl (hs_faults s) \<rparr>)))"
    by (simp add: svc_ok_but_def)
qed

text \<open>An update of one hub, used twice.\<close>

lemma keeps_hub_update:
  assumes "canon env h" "\<And>r. hr_id (upd r) = hr_id r" "\<And>r. hr_owner (upd r) = hr_owner r"
  shows "keeps env H (\<lambda>_. True) (bind_work (on_repo (\<lambda>f. txn_write f (with_uuid (he_pg env) h (\<lambda>h. update_hub (he_pg env) h upd))))
     (\<lambda>b s. (Inr b, if b then invalidateHubCaches env h s else s)))"
  unfolding canon_with[OF assms(1)]
proof (rule keeps_on_write)
  fix s db b assume s: "svc_ok env H s" and w: "update_hub (he_pg env) h upd (hs_db s) = (Inr b, db)"
  have f: "set (tl (hs_faults s)) \<subseteq> set (hs_faults s)" by (cases "hs_faults s") auto
  show "svc_ok env H (snd (Inr b, if b then invalidateHubCaches env h (s\<lparr> hs_db := db, hs_faults := tl (hs_faults s) \<rparr>)
      else s\<lparr> hs_db := db, hs_faults := tl (hs_faults s) \<rparr>))"
  proof (cases b)
    case False
    then have "db = hs_db s" using w by (auto simp: update_hub_def fails_def Let_def split: option.split_asm if_split_asm)
    then show ?thesis using False svc_ok_faults[OF s f] by simp
  next
    case True
    have db: "db = (hs_db s)\<lparr> t_hubs := map (\<lambda>r. if hr_id r = h then upd r else r) (t_hubs (hs_db s)) \<rparr>"
      using w True by (auto simp: update_hub_def fails_def Let_def split: option.split_asm if_split_asm)
    have ok: "db_ok (he_pg env) db" using keeps_okD[OF keeps_update_hub svc_ok_db[OF s] w] assms(2,3) by simp
    have "svc_ok_but env H h (s\<lparr> hs_db := db, hs_faults := tl (hs_faults s), hs_channels := hs_channels s \<rparr>)"
    proof (rule written_but[OF s ok])
      have "map hr_id (t_hubs db) = map hr_id (t_hubs (hs_db s))" using assms(2) by (simp add: db)
      then have "hr_id ` set (t_hubs db) = hr_id ` set (t_hubs (hs_db s))" by (metis set_map)
      then show "canon_rows env db" "hr_id ` set (t_hubs db) \<subseteq> H" "channels_current db (hs_channels s)"
        using s assms(1,2) by (auto simp: svc_ok_def canon_rows_def channels_current_def db)
      show "same_view i (hs_db s) db" if "i \<noteq> h" for i
      proof -
        have "hub_of_id i db = hub_of_id i (hs_db s)"
          unfolding hub_of_id_def db by simp (rule find_map_other, use that assms(2) in auto)
        then show ?thesis by (simp add: same_view_def db_role_def db)
      qed
    qed
    then show ?thesis using True by (simp add: svc_ok_but_def)
  qed
qed

lemma keeps_renameHub: "canon env h \<Longrightarrow> keeps env H (\<lambda>_. True) (renameHub env h name)"
  unfolding renameHub_def repo_renameHub_def by (rule keeps_hub_update) simp_all

lemma keeps_avatar: "canon env h \<Longrightarrow> keeps env H (\<lambda>_. True) (updateHubAvatarSeed env h seed)"
  unfolding updateHubAvatarSeed_def repo_updateHubAvatarSeed_def by (rule keeps_hub_update) simp_all

lemma fold_drop: "fold drop_channel ids s = s\<lparr> hs_channels := fold cc_invalidate ids (hs_channels s) \<rparr>"
  by (induction ids arbitrary: s) (simp_all add: drop_channel_def)

lemma map_of_dropped: "map_of (fold cc_invalidate ids cs) c = (if c \<in> set ids then None else map_of cs c)"
  by (induction ids arbitrary: cs) (auto simp: cc_invalidate_def delete_conv')

lemma delete_hub_effect:
  assumes "delete_hub h u db = (Inr True, db')"
  shows "t_hubs db' = filter (\<lambda>r. hr_id r \<noteq> h) (t_hubs db)" "t_members db' = filter (\<lambda>m. mr_hub m \<noteq> h) (t_members db)"
    "t_channels db' = filter (\<lambda>c. cr_hub c \<noteq> h) (t_channels db)"
  using assms by (auto simp: delete_hub_def delete_channels_sel Let_def split: if_split_asm)

lemma keeps_deleteHub:
  assumes "inj_on (he_hash env) H" "h \<in> H" "canon env h"
  shows "keeps env H (\<lambda>_. True) (deleteHub env h owner)"
  unfolding deleteHub_def
proof (rule keeps_bind[OF reads_channel_ids[OF assms]])
  fix ids
  show "keeps env H (\<lambda>db. distinct ids \<and> set ids = cr_id ` set (channels_of h db))
     (bind_work (on_repo (\<lambda>f. repo_deleteHub (he_pg env) f h owner)) (\<lambda>b s.
       (Inr b, if b then fold drop_channel ids (invalidateHubCaches env h s) else s)))"
    unfolding repo_deleteHub_def canon_with[OF assms(3)]
  proof (rule keeps_on_write)
    fix s db b assume s: "svc_ok env H s" and ids: "distinct ids \<and> set ids = cr_id ` set (channels_of h (hs_db s))"
      and w: "with_uuid (he_pg env) owner (delete_hub h) (hs_db s) = (Inr b, db)"
    have f: "set (tl (hs_faults s)) \<subseteq> set (hs_faults s)" by (cases "hs_faults s") auto
    obtain u where v: "delete_hub h u (hs_db s) = (Inr b, db)"
      using w by (auto simp: with_uuid_def fails_def split: option.split_asm)
    show "svc_ok env H (snd (Inr b, if b then fold drop_channel ids (invalidateHubCaches env h (s\<lparr> hs_db := db, hs_faults := tl (hs_faults s) \<rparr>))
        else s\<lparr> hs_db := db, hs_faults := tl (hs_faults s) \<rparr>))"
    proof (cases b)
      case False
      then have "db = hs_db s" using v by (auto simp: delete_hub_def Let_def split: if_split_asm)
      then show ?thesis using False svc_ok_faults[OF s f] by simp
    next
      case True
      then have "delete_hub h u (hs_db s) = (Inr True, db)" using v by simp
      note e = delete_hub_effect[OF this]
      have ok: "db_ok (he_pg env) db" using keeps_okD[OF keeps_delete_hub svc_ok_db[OF s] v] .
      have "svc_ok_but env H h (s\<lparr> hs_db := db, hs_faults := tl (hs_faults s), hs_channels := fold cc_invalidate ids (hs_channels s) \<rparr>)"
      proof (rule written_but[OF s ok])
        show "canon_rows env db" "hr_id ` set (t_hubs db) \<subseteq> H" using s by (auto simp: e svc_ok_def canon_rows_def)
        show "same_view i (hs_db s) db" if "i \<noteq> h" for i
        proof -
          have "hub_of_id i db = hub_of_id i (hs_db s)" "member_of_hub i v db = member_of_hub i v (hs_db s)" for v
            unfolding hub_of_id_def member_of_hub_def e using that by (auto intro!: find_filter_other)
          moreover have "channels_of i db = channels_of i (hs_db s)"
            using that by (auto simp: channels_of_def e intro!: filter_cong)
          ultimately show ?thesis by (simp add: same_view_def db_role_def)
        qed
        show "channels_current db (fold cc_invalidate ids (hs_channels s))"
          unfolding channels_current_def
        proof (intro allI impI)
          fix c ch assume "map_of (fold cc_invalidate ids (hs_channels s)) c = Some ch"
          then have c: "c \<notin> set ids" "map_of (hs_channels s) c = Some ch" by (auto simp: map_of_dropped split: if_split_asm)
          then obtain r where r: "channel_of_id c (hs_db s) = Some r" "ch = parse_channel_row r"
            using channels_currentD[OF svc_ok_current(2)[OF s]] by blast
          have "cr_hub r \<noteq> h" using c(1) ids channel_of_id_Some[OF r(1)] by (auto simp: channels_of_def)
          then have "r \<in> set (t_channels db)" using channel_of_id_Some[OF r(1)] by (simp add: e)
          then have "channel_of_id c db = Some r" using channel_of_id_mem[of db r] ok channel_of_id_Some[OF r(1)] by (simp add: db_ok_def)
          then show "\<exists>r. channel_of_id c db = Some r \<and> ch = parse_channel_row r" using r(2) by blast
        qed
      qed
      then show ?thesis using True by (cases s) (simp add: fold_drop svc_ok_but_def invalidateHubCaches_def)
    qed
  qed
qed

lemma cache_entry:
  assumes "svc_ok env H s" "inj_on (he_hash env) H" "h \<in> H"
  obtains "map_of (hs_cache s) (hub_key (he_hash env) h) = None"
    | sn where "map_of (hs_cache s) (hub_key (he_hash env) h) = Some (AnySnapshot sn)" "sn_id sn = h" "snapshot_current (hs_db s) sn"
proof (cases "map_of (hs_cache s) (hub_key (he_hash env) h)")
  case (Some v)
  then obtain sn where sn: "v = AnySnapshot sn" "hub_key (he_hash env) h = hub_key (he_hash env) (sn_id sn)" "snapshot_current (hs_db s) sn"
    using cache_currentD[OF svc_ok_current(1)[OF assms(1)] Some] by blast
  have "he_hash env (sn_id sn) = he_hash env h" using sn(2) by (simp add: hub_key_eq_iff)
  from same_hub_id[OF assms this sn(3)] show ?thesis by (rule that(2)[OF Some[unfolded sn(1)]]) (rule sn(3))
qed (rule that(1))

lemma cached_lookup:
  "map_of (hs_cache s) (hub_key (he_hash env) h) = None \<Longrightarrow> cached env h s = (None, s)"
  "map_of (hs_cache s) (hub_key (he_hash env) h) = Some (AnySnapshot sn) \<Longrightarrow> cached env h s = (Some sn, s)"
  by (simp_all add: cached_def hc_get_def mc_get_def)

lemma keeps_createChannel:
  assumes inj: "inj_on (he_hash env) H" "h \<in> H" and c: "canon env h" "canon env new"
  shows "keeps env H (\<lambda>_. True) (createChannel env new now h name ty creator)"
  unfolding createChannel_def repo_createChannel_def canon_with[OF c(1)]
proof (rule keeps_on_write)
  fix s db x assume s: "svc_ok env H s"
    and w: "with_uuid (he_pg env) creator (insert_channel (he_pg env) new now h name ty) (hs_db s) = (Inr x, db)"
  obtain u where v: "insert_channel (he_pg env) new now h name ty u (hs_db s) = (Inr x, db)"
    using w by (auto simp: with_uuid_def fails_def split: option.split_asm)
  let ?row = "\<lparr> cr_id = new, cr_hub = h, cr_name = name, cr_type = ty, cr_position = 0, cr_created = now \<rparr>"
  have e: "x = new" "db = (hs_db s)\<lparr> t_channels := t_channels (hs_db s) @ [?row] \<rparr>" "channel_of_id new (hs_db s) = None"
    using v by (auto simp: insert_channel_def fails_def split: if_split_asm)
  let ?ch = "\<lparr> channel_name = name, channel_id = x, channel_hub = h, channel_type = channel_type_from_string ty \<rparr>"
  have ok: "db_ok (he_pg env) db" using keeps_okD[OF keeps_insert_channel svc_ok_db[OF s] v] .
  have found: "channel_of_id i db = Some r" if "channel_of_id i (hs_db s) = Some r" for i r
    using that by (simp add: e(2) channel_of_id_def find_append)
  have new: "channel_of_id new db = Some ?row"
    using e(3) by (simp add: e(2) channel_of_id_def find_append)
  define s2 where "s2 = s\<lparr> hs_db := db, hs_faults := tl (hs_faults s), hs_channels := cc_put ?ch (hs_channels s) \<rparr>"
  have but: "svc_ok_but env H h s2"
    unfolding s2_def
  proof (rule written_but[OF s ok])
    show "canon_rows env db" "hr_id ` set (t_hubs db) \<subseteq> H" using s c by (auto simp: e svc_ok_def canon_rows_def)
    show "same_view i (hs_db s) db" if "i \<noteq> h" for i
      using that by (simp add: same_view_def db_role_def e(2)) (simp add: channels_of_def)
    show "channels_current db (cc_put ?ch (hs_channels s))"
      unfolding channels_current_def
    proof (intro allI impI)
      fix i ch assume i: "map_of (cc_put ?ch (hs_channels s)) i = Some ch"
      show "\<exists>r. channel_of_id i db = Some r \<and> ch = parse_channel_row r"
      proof (cases "i = new")
        case True
        then show ?thesis using i new by (simp add: cc_put_def e(1) parse_channel_row_def)
      next
        case False
        then have "map_of (hs_channels s) i = Some ch" using i by (simp add: cc_put_def e(1))
        then show ?thesis using channels_currentD[OF svc_ok_current(2)[OF s]] found by blast
      qed
    qed
  qed
  have put: "put_channel ?ch (s\<lparr> hs_db := db, hs_faults := tl (hs_faults s) \<rparr>) = s2" by (simp add: s2_def put_channel_def)
  have cache: "hs_cache s2 = hs_cache s" "hs_db s2 = db" by (simp_all add: s2_def)
  have "svc_ok env H (case cached env h s2 of (Some sn, s) \<Rightarrow> if x \<in> set (sn_channel_ids sn) then s
          else put_snapshot env (sn\<lparr> sn_channel_ids := sn_channel_ids sn @ [x] \<rparr>) s | (None, s) \<Rightarrow> s)"
    using s inj
  proof (cases rule: cache_entry)
    case 1
    then show ?thesis using cached_lookup(1)[of s2 env h] but cache by (auto intro: svc_ok_but_entry)
  next
    case (2 sn)
    have n: "x \<notin> set (sn_channel_ids sn)"
      using 2 e(1,3) by (auto simp: snapshot_current_def channel_of_id_None channels_of_def)
    have "snapshot_current db (sn\<lparr> sn_channel_ids := sn_channel_ids sn @ [x] \<rparr>)"
      using 2 n by (auto simp: snapshot_current_def hub_matches_def e db_role_def channels_of_def)
    then show ?thesis using 2 n cached_lookup(2)[of s2 env h sn] cache svc_ok_but_put[OF but] by simp
  qed
  then show "svc_ok env H (snd (let s = put_channel ?ch (s\<lparr> hs_db := db, hs_faults := tl (hs_faults s) \<rparr>)
        in (Inr x, case cached env h s of (Some sn, s) \<Rightarrow> if x \<in> set (sn_channel_ids sn) then s
              else put_snapshot env (sn\<lparr> sn_channel_ids := sn_channel_ids sn @ [x] \<rparr>) s | (None, s) \<Rightarrow> s)))"
    unfolding put Let_def by simp
qed

lemma keeps_deleteChannel:
  assumes inj: "inj_on (he_hash env) H" "h \<in> H" and c: "canon env h" "canon env c"
  shows "keeps env H (\<lambda>_. True) (deleteChannel env c h)"
  unfolding deleteChannel_def repo_deleteChannel_def canon_with[OF c(1)] canon_with[OF c(2)]
proof (rule keeps_on_write)
  fix s db b assume s: "svc_ok env H s" and w: "delete_channel c h (hs_db s) = (Inr b, db)"
  have f: "set (tl (hs_faults s)) \<subseteq> set (hs_faults s)" by (cases "hs_faults s") auto
  have ok: "db_ok (he_pg env) db" using keeps_okD[OF keeps_delete_channel svc_ok_db[OF s] w] .
  define s1 where "s1 = s\<lparr> hs_db := db, hs_faults := tl (hs_faults s) \<rparr>"
  define s2 where "s2 = s\<lparr> hs_db := db, hs_faults := tl (hs_faults s), hs_channels := cc_invalidate c (hs_channels s) \<rparr>"
  have put: "drop_channel c s1 = s2" by (simp add: s1_def s2_def drop_channel_def)
  have cache: "hs_cache s2 = hs_cache s" "hs_db s2 = db" by (simp_all add: s2_def)
  show "svc_ok env H (snd (if \<not> b then (Inr False, s1) else let s = drop_channel c s1 in (Inr True,
      case cached env h s of (Some sn, s) \<Rightarrow> put_snapshot env (sn\<lparr> sn_channel_ids := removeAll c (sn_channel_ids sn) \<rparr>) s | (None, s) \<Rightarrow> s)))"
  proof (cases b)
    case False
    then have "db = hs_db s" using w by (auto simp: delete_channel_def split: if_split_asm)
    then show ?thesis using False svc_ok_faults[OF s f] by (simp add: s1_def)
  next
    case True
    then have e: "t_channels db = filter (\<lambda>r. \<not> (cr_id r = c \<and> cr_hub r = h)) (t_channels (hs_db s))" "t_hubs db = t_hubs (hs_db s)" "t_members db = t_members (hs_db s)"
      using w by (auto simp: delete_channel_def split: if_split_asm)
    have but: "svc_ok_but env H h s2"
      unfolding s2_def
    proof (rule written_but[OF s ok])
      show "canon_rows env db" "hr_id ` set (t_hubs db) \<subseteq> H" using s by (auto simp: e svc_ok_def canon_rows_def)
      show "same_view i (hs_db s) db" if "i \<noteq> h" for i
        using that by (auto simp: same_view_def db_role_def hub_of_id_def member_of_hub_def channels_of_def e)
      show "channels_current db (cc_invalidate c (hs_channels s))"
        unfolding channels_current_def
      proof (intro allI impI)
        fix i ch assume "map_of (cc_invalidate c (hs_channels s)) i = Some ch"
        then have i: "i \<noteq> c" "map_of (hs_channels s) i = Some ch" by (auto simp: cc_invalidate_def delete_conv' split: if_split_asm)
        then obtain r where r: "channel_of_id i (hs_db s) = Some r" "ch = parse_channel_row r"
          using channels_currentD[OF svc_ok_current(2)[OF s]] by blast
        have "channel_of_id i db = channel_of_id i (hs_db s)"
          unfolding channel_of_id_def e by (rule find_filter_other) (use i in auto)
        then show "\<exists>r. channel_of_id i db = Some r \<and> ch = parse_channel_row r" using r by simp
      qed
    qed
    have "svc_ok env H (case cached env h s2 of (Some sn, s) \<Rightarrow> put_snapshot env (sn\<lparr> sn_channel_ids := removeAll c (sn_channel_ids sn) \<rparr>) s | (None, s) \<Rightarrow> s)"
      using s inj
    proof (cases rule: cache_entry)
      case 1
      then show ?thesis using cached_lookup(1)[of s2 env h] but cache by (auto intro: svc_ok_but_entry)
    next
      case (2 sn)
      have "cr_id ` set (channels_of h db) = cr_id ` set (channels_of h (hs_db s)) - {c}"
        by (auto simp: channels_of_def e)
      then have "snapshot_current db (sn\<lparr> sn_channel_ids := removeAll c (sn_channel_ids sn) \<rparr>)"
        using 2 by (auto simp: snapshot_current_def hub_matches_def db_role_def hub_of_id_def member_of_hub_def e distinct_removeAll)
      then show ?thesis using 2 cached_lookup(2)[of s2 env h sn] cache svc_ok_but_put[OF but] by simp
    qed
    then show ?thesis using True unfolding put Let_def by simp
  qed
qed

lemma written_all:
  assumes s: "svc_ok env H s" and ok: "db_ok (he_pg env) db" and rows: "canon_rows env db" "hr_id ` set (t_hubs db) \<subseteq> H"
    and view: "\<And>i. same_view i (hs_db s) db" and chs: "channels_current db cs"
  shows "svc_ok env H (s\<lparr> hs_db := db, hs_faults := tl (hs_faults s), hs_channels := cs \<rparr>)"
proof -
  have f: "\<forall>f \<in> set (tl (hs_faults s)). calm f" using s by (cases "hs_faults s") (auto simp: svc_ok_def)
  have "cache_current env db (hs_cache s)"
    unfolding cache_current_def
  proof (intro allI impI)
    fix k v assume "map_of (hs_cache s) k = Some v"
    then obtain sn where sn: "v = AnySnapshot sn" "k = hub_key (he_hash env) (sn_id sn)" "snapshot_current (hs_db s) sn"
      using cache_currentD[OF svc_ok_current(1)[OF s]] by blast
    then show "\<exists>sn. v = AnySnapshot sn \<and> k = hub_key (he_hash env) (sn_id sn) \<and> snapshot_current db sn"
      using snapshot_frame[OF sn(3) view] by blast
  qed
  then show ?thesis using ok rows chs f by (simp add: svc_ok_def canon_rows_def)
qed

lemma channel_ids_of: "cr_id ` set (channels_of i db) = {c. (c, i) \<in> set (map (\<lambda>r. (cr_id r, cr_hub r)) (t_channels db))}"
  by (force simp: channels_of_def)

lemma keeps_renameChannel:
  assumes "canon env c"
  shows "keeps env H (\<lambda>_. True) (renameChannel env c name)"
  unfolding renameChannel_def repo_renameChannel_def canon_with[OF assms]
proof (rule keeps_on_write)
  fix s db b assume s: "svc_ok env H s" and w: "update_channel_name (he_pg env) c name (hs_db s) = (Inr b, db)"
  have f: "set (tl (hs_faults s)) \<subseteq> set (hs_faults s)" by (cases "hs_faults s") auto
  have ok: "db_ok (he_pg env) db" using keeps_okD[OF keeps_update_channel_name svc_ok_db[OF s] w] .
  define s1 where "s1 = s\<lparr> hs_db := db, hs_faults := tl (hs_faults s) \<rparr>"
  show "svc_ok env H (snd (if \<not> b then (Inr False, s1) else (Inr True, case map_of (hs_channels s1) c of
      Some ch \<Rightarrow> put_channel (ch\<lparr> channel_name := name \<rparr>) s1 | None \<Rightarrow> drop_channel c s1)))"
  proof (cases b)
    case False
    then have "db = hs_db s" using w by (auto simp: update_channel_name_def fails_def split: option.split_asm if_split_asm)
    then show ?thesis using False svc_ok_faults[OF s f] by (simp add: s1_def)
  next
    case True
    let ?upd = "\<lambda>r. if cr_id r = c then r\<lparr> cr_name := name \<rparr> else r"
    obtain row where row: "channel_of_id c (hs_db s) = Some row" and e: "db = (hs_db s)\<lparr> t_channels := map ?upd (t_channels (hs_db s)) \<rparr>"
      using w True by (auto simp: update_channel_name_def fails_def split: option.split_asm if_split_asm)
    have look: "channel_of_id i db = map_option ?upd (channel_of_id i (hs_db s))" for i
      by (simp add: e channel_of_id_def find_map comp_def if_distrib cong: if_cong)
    define cs where "cs = (case map_of (hs_channels s) c of Some ch \<Rightarrow> cc_put (ch\<lparr> channel_name := name \<rparr>) (hs_channels s)
      | None \<Rightarrow> cc_invalidate c (hs_channels s))"
    have known: "\<exists>r. channel_of_id i (hs_db s) = Some r \<and> ch = parse_channel_row r" if "map_of (hs_channels s) i = Some ch" for i ch
      using channels_currentD[OF svc_ok_current(2)[OF s] that] .
    have put: "map_of cs i = (if i = c then map_option (\<lambda>ch. ch\<lparr> channel_name := name \<rparr>) (map_of (hs_channels s) c) else map_of (hs_channels s) i)" for i
      using known[of c] channel_of_id_Some[of c "hs_db s"]
      by (auto simp: cs_def cc_put_def cc_invalidate_def delete_conv' parse_channel_row_def split: option.split)
    have "svc_ok env H (s\<lparr> hs_db := db, hs_faults := tl (hs_faults s), hs_channels := cs \<rparr>)"
    proof (rule written_all[OF s ok])
      show "canon_rows env db" "hr_id ` set (t_hubs db) \<subseteq> H" using s by (auto simp: e svc_ok_def canon_rows_def)
      have "map (\<lambda>r. (cr_id r, cr_hub r)) (t_channels db) = map (\<lambda>r. (cr_id r, cr_hub r)) (t_channels (hs_db s))"
        by (simp add: e)
      then show "same_view i (hs_db s) db" for i
        unfolding same_view_def channel_ids_of by (simp add: e db_role_def)
      show "channels_current db cs"
        unfolding channels_current_def
      proof (intro allI impI)
        fix i ch assume i: "map_of cs i = Some ch"
        then obtain ch' where ch': "map_of (hs_channels s) i = Some ch'" "ch = (if i = c then ch'\<lparr> channel_name := name \<rparr> else ch')"
          by (auto simp: put split: if_split_asm)
        obtain r where r: "channel_of_id i (hs_db s) = Some r" "ch' = parse_channel_row r" using known[OF ch'(1)] by blast
        then show "\<exists>r. channel_of_id i db = Some r \<and> ch = parse_channel_row r"
          using ch'(2) channel_of_id_Some[OF r(1)] by (auto simp: look parse_channel_row_def)
      qed
    qed
    moreover have "(case map_of (hs_channels s1) c of Some ch \<Rightarrow> put_channel (ch\<lparr> channel_name := name \<rparr>) s1 | None \<Rightarrow> drop_channel c s1)
        = s\<lparr> hs_db := db, hs_faults := tl (hs_faults s), hs_channels := cs \<rparr>"
      by (simp add: s1_def cs_def put_channel_def drop_channel_def split: option.split)
    ultimately show ?thesis using True by simp
  qed
qed

section \<open>Reachable states\<close>

lemma keeps_getHubChannels: "keeps env H (\<lambda>_. True) (getHubChannels env h)"
proof -
  have 1: "reads env H (\<lambda>_. True) (getHubChannelIds env h) (\<lambda>_ _. True)"
    unfolding getHubChannelIds_def by (rule reads_bind[OF reads_topology_any], rule reads_return) simp
  have 2: "reads env H (\<lambda>_. True) (bind_work (getChannelsByIds env ids) (\<lambda>by_id. return_work (List.map_filter (map_of by_id) ids))) (\<lambda>_ _. True)" for ids
    by (rule reads_bind[OF reads_channels_by_ids], rule reads_return) simp
  have "keeps env H (\<lambda>_. True) (if ids = [] then return_work [] else bind_work (getChannelsByIds env ids) (\<lambda>by_id. return_work (List.map_filter (map_of by_id) ids)))" for ids
    using keeps_reads[OF 2] by (auto simp: keeps_def return_work_def)
  then show ?thesis unfolding getHubChannels_def by (rule keeps_bind[OF 1])
qed

lemma keeps_role: "keeps env H (\<lambda>_. True) (resolveMembershipRole env h u)"
  unfolding resolveMembershipRole_def
  by (rule keeps_reads, rule reads_bind[OF reads_load_any], rule reads_return[where Q = "\<lambda>_ _. True"]) simp

text \<open>The service starts with empty caches on any database the repository can have written. Its clients call the
  operations in any order; people sign up; the network may lose any connection, except from a commit that took effect.
  The clients of \<^verbatim>\<open>warmSnapshotsForHubs\<close> pass hubs they have just read.\<close>

inductive hub_step :: "hub_env \<Rightarrow> HubId set \<Rightarrow> hub_service \<Rightarrow> hub_service \<Rightarrow> bool" for env H where
  hs_getHub: "hub_step env H s (snd (getHub env h s))"
| hs_getHubsByIds: "hub_step env H s (snd (getHubsByIds env ids s))"
| hs_getChannel: "hub_step env H s (snd (getChannel env c s))"
| hs_getChannelsByIds: "hub_step env H s (snd (getChannelsByIds env ids s))"
| hs_getHubChannels: "hub_step env H s (snd (getHubChannels env h s))"
| hs_getUserHubs: "hub_step env H s (snd (getUserHubs env u s))"
| hs_getHubTopology: "hub_step env H s (snd (getHubTopology env h s))"
| hs_resolveRole: "hub_step env H s (snd (resolveMembershipRole env h u s))"
| hs_warm: "\<forall>hub \<in> set hubs. canon env (hub_id hub) \<and> hub_current (hs_db s) hub \<Longrightarrow> hub_step env H s (snd (warmSnapshotsForHubs env hubs s))"
| hs_createHub: "canon env new \<Longrightarrow> new \<in> H \<Longrightarrow> hub_step env H s (snd (createHub env new now name owner s))"
| hs_renameHub: "canon env h \<Longrightarrow> hub_step env H s (snd (renameHub env h name s))"
| hs_avatar: "canon env h \<Longrightarrow> hub_step env H s (snd (updateHubAvatarSeed env h seed s))"
| hs_deleteHub: "canon env h \<Longrightarrow> h \<in> H \<Longrightarrow> hub_step env H s (snd (deleteHub env h owner s))"
| hs_addMember: "canon env h \<Longrightarrow> hub_step env H s (snd (addMember env now h u role s))"
| hs_removeMember: "canon env h \<Longrightarrow> hub_step env H s (snd (removeMember env h u s))"
| hs_createChannel: "canon env h \<Longrightarrow> h \<in> H \<Longrightarrow> canon env new \<Longrightarrow> hub_step env H s (snd (createChannel env new now h name ty creator s))"
| hs_renameChannel: "canon env c \<Longrightarrow> hub_step env H s (snd (renameChannel env c name s))"
| hs_deleteChannel: "canon env h \<Longrightarrow> h \<in> H \<Longrightarrow> canon env c \<Longrightarrow> hub_step env H s (snd (deleteChannel env c h s))"
| hs_signup: "\<not> has_profile (pr_user p) (hs_db s) \<Longrightarrow> \<not> pr_deleted p \<Longrightarrow>
    hub_step env H s (s\<lparr> hs_db := (hs_db s)\<lparr> t_profiles := t_profiles (hs_db s) @ [p] \<rparr> \<rparr>)"
| hs_network: "\<forall>f \<in> set fs. calm f \<Longrightarrow> hub_step env H s (s\<lparr> hs_faults := fs \<rparr>)"

inductive hub_reach :: "hub_env \<Rightarrow> HubId set \<Rightarrow> hub_service \<Rightarrow> bool" for env H where
  hub_start: "repo_reach (he_pg env) db \<Longrightarrow> canon_rows env db \<Longrightarrow> hr_id ` set (t_hubs db) \<subseteq> H \<Longrightarrow>
    hub_reach env H \<lparr> hs_db = db, hs_faults = [], hs_cache = [], hs_channels = [] \<rparr>"
| hub_next: "hub_reach env H s \<Longrightarrow> hub_step env H s s' \<Longrightarrow> hub_reach env H s'"

lemmas hub_reads_kept = keeps_reads[OF reads_getHub_any] keeps_reads[OF reads_getHubsByIds] keeps_reads[OF reads_getChannel]
  keeps_reads[OF reads_channels_by_ids] keeps_getHubChannels keeps_reads[OF reads_user_hubs] keeps_reads[OF reads_topology_any] keeps_role

lemmas hub_writes_kept = keeps_createHub_op keeps_renameHub keeps_avatar keeps_deleteHub keeps_addMember keeps_removeMember
  keeps_createChannel keeps_renameChannel keeps_deleteChannel

lemma keepsD: "keeps env H (\<lambda>_. True) m \<Longrightarrow> svc_ok env H s \<Longrightarrow> svc_ok env H (snd (m s))"
  by (simp add: keeps_def)

lemma hub_step_ok:
  assumes "inj_on (he_hash env) H" "hub_step env H s s'" "svc_ok env H s"
  shows "svc_ok env H s'"
  using assms(2)
proof cases
  case (hs_warm hubs)
  then show ?thesis using assms(3) keeps_reads[OF reads_warm, of hubs env H] by (simp add: keeps_def)
next
  case (hs_signup p)
  then have "db_ok (he_pg env) (hs_db s')" using ok_signup[OF _ _ svc_ok_db[OF assms(3)]] by simp
  then show ?thesis
    using assms(3) hs_signup
    by (simp add: svc_ok_def cache_current_def channels_current_def snapshot_current_def hub_matches_def hub_of_id_def channels_of_def
        db_role_def member_of_hub_def channel_of_id_def)
next
  case (hs_network fs)
  then show ?thesis using assms(3) by (simp add: svc_ok_def)
qed (use assms(1,3) in \<open>simp_all add: keepsD hub_reads_kept hub_writes_kept\<close>)

lemma hub_reach_ok:
  assumes "hub_reach env H s" "inj_on (he_hash env) H"
  shows "svc_ok env H s"
  using assms
proof (induction rule: hub_reach.induct)
  case (hub_start db)
  then show ?case using repo_reach_ok[of "he_pg env" db] by (simp add: svc_ok_def canon_rows_def cache_current_def channels_current_def)
next
  case (hub_next s s')
  then show ?case using hub_step_ok by blast
qed

text \<open>A computation that gives a result when the network does nothing.\<close>

definition returns :: "(hub_service, 'a) work \<Rightarrow> bool" where
  "returns m \<longleftrightarrow> (\<forall>s. hs_faults s = [] \<longrightarrow> (\<exists>x s'. m s = (Inr x, s') \<and> hs_faults s' = []))"

lemma returns_bind: "returns m \<Longrightarrow> (\<And>x. returns (k x)) \<Longrightarrow> returns (bind_work m k)"
  unfolding returns_def bind_work_def by fastforce

lemma returns_return: "returns (return_work x)"
  by (simp add: returns_def return_work_def)

lemma returns_read: "(\<And>db. fn db = (Inr (g db), db)) \<Longrightarrow> returns (on_repo (\<lambda>f. txn_read f fn))"
  by (auto simp: returns_def on_repo_def steady_read commit_def)

lemma returns_put: "returns (\<lambda>s. (Inr x, put_snapshot env sn s))"
  by (simp add: returns_def)

lemma returns_build: "canon env h \<Longrightarrow> returns (buildSnapshot env h)"
  unfolding buildSnapshot_def repo_getHub_def repo_getHubChannelIds_def repo_getHubMemberRoles_def
  by (intro returns_bind returns_read) (auto simp: canon_with split: option.split intro!: returns_bind returns_read returns_return returns_put)

lemma returns_load: "canon env h \<Longrightarrow> returns (loadSnapshot env h)"
  using returns_build[of env h]
  by (auto simp: returns_def loadSnapshot_def cached_def split: prod.split sum.split HubCacheError.split option.split)

lemma returns_role: "canon env h \<Longrightarrow> returns (resolveMembershipRole env h u)"
  unfolding resolveMembershipRole_def by (intro returns_bind returns_load returns_return)

lemma reads_fst: "reads env H (\<lambda>_. True) m Q \<Longrightarrow> svc_ok env H s \<Longrightarrow> fst (m s) = Inr x \<Longrightarrow> Q (hs_db s) x"
  by (metis prod.collapse readsD(3))


definition plain_env :: hub_env where
  "plain_env = \<lparr> he_pg = plain_pg, he_hash = (\<lambda>s. of_nat (length s)) \<rparr>"

definition ada_service :: hub_service where
  "ada_service = \<lparr> hs_db = ada_with_hub, hs_faults = [], hs_cache = [], hs_channels = [] \<rparr>"

lemma ada_service_reach: "hub_reach plain_env {''h1''} ada_service"
  unfolding ada_service_def
proof (rule hub_start)
  show "repo_reach (he_pg plain_env) ada_with_hub" by (simp add: plain_env_def ada_reach)
qed (simp_all add: plain_env_def canon_rows_def canon_def ada_with_hub_eq ada_signed_up_def empty_database_def plain_pg_def to_lower_def)

lemma plain_canon: "canon plain_env ''h1''"
  by (simp add: canon_def plain_env_def plain_pg_def to_lower_def)

lemma ada_asked:
  "hs_db (snd (resolveMembershipRole plain_env ''h1'' u ada_service)) = ada_with_hub"
  "hs_faults (snd (resolveMembershipRole plain_env ''h1'' u ada_service)) = []"
proof -
  have ok: "svc_ok plain_env {''h1''} ada_service" by (rule hub_reach_ok[OF ada_service_reach]) simp
  obtain r s' where m: "resolveMembershipRole plain_env ''h1'' u ada_service = (r, s')" by force
  have "hs_faults ada_service = []" "hs_db ada_service = ada_with_hub" by (simp_all add: ada_service_def)
  then show "hs_db (snd (resolveMembershipRole plain_env ''h1'' u ada_service)) = ada_with_hub"
    "hs_faults (snd (resolveMembershipRole plain_env ''h1'' u ada_service)) = []"
    using readsD(2)[OF reads_role[OF _ _ plain_canon, of "{''h1''}"] ok TrueI m] returns_role[OF plain_canon, of u] m
    by (auto simp: returns_def)
qed


section \<open>Where the caches go wrong\<close>

lemma role_cached:
  "map_of (hs_cache s) (hub_key (he_hash env) h) = Some (AnySnapshot sn) \<Longrightarrow> resolveMembershipRole env h u s = (Inr (map_of (sn_roles sn) u), s)"
  by (simp add: resolveMembershipRole_def bind_work_def loadSnapshot_def cached_lookup return_work_def)

lemma deleted_member: "member_of_hub h u (snd (delete_member h u db)) = None"
  by (auto simp: delete_member_def member_None)

text \<open>C40: the membership row is deleted under any spelling of the hub's identifier that PostgreSQL accepts, but the snapshot is
  dropped only under the spelling of the command: when a user leaves, or is removed, under another spelling, the cached
  role survives and the service keeps answering with it although the row is gone.\<close>

theorem alias_removal_keeps_cached_role:
  assumes "map_of (hs_cache s) (hub_key (he_hash env) h) = Some (AnySnapshot sn)" "map_of (sn_roles sn) u = Some r"
    "pg_uuid (he_pg env) alias = Some h" "pg_uuid (he_pg env) u = Some u" "he_hash env alias \<noteq> he_hash env h" "hs_faults s = []"
  shows "fst (removeMember env alias u s) = Inr () \<and> member_of_hub h u (hs_db (snd (removeMember env alias u s))) = None
    \<and> fst (resolveMembershipRole env h u (snd (removeMember env alias u s))) = Inr (Some r)"
proof -
  let ?s = "invalidateHubCaches env alias (s\<lparr> hs_db := snd (delete_member h u (hs_db s)), hs_faults := [] \<rparr>)"
  have e: "removeMember env alias u s = (Inr (), ?s)"
    using assms(3,4,6) by (simp add: removeMember_def repo_removeMember_def bind_work_def on_repo_def steady_write commit_def with_uuid_def delete_member_def)
  have "map_of (hs_cache ?s) (hub_key (he_hash env) h) = Some (AnySnapshot sn)"
    using assms(1,5) by (auto simp: invalidateHubCaches_def hc_invalidate_def mc_erase_def delete_conv' hub_key_eq_iff)
  then show ?thesis using e role_cached[of ?s env h sn u] assms(2) by (simp add: deleted_member)
qed

definition alias_env :: hub_env where
  "alias_env = \<lparr> he_pg = plain_pg, he_hash = (\<lambda>s. if s = ''H1'' then 1 else 0) \<rparr>"

definition warm_service :: hub_service where
  "warm_service = put_snapshot alias_env \<lparr> sn_id = ''h1'', sn_owner = ''ada'', sn_name = ''Hub'', sn_avatar = ''Felix'', sn_channel_ids = [],
     sn_roles = [(''ada'', OWNER)] \<rparr> ada_service"

theorem alias_removal_keeps_cached_role_witness:
  "fst (resolveMembershipRole alias_env ''h1'' ''ada'' (snd (removeMember alias_env ''H1'' ''ada'' warm_service))) = Inr (Some OWNER)"
proof -
  have "map_of (hs_cache warm_service) (hub_key (he_hash alias_env) ''h1'') = Some (AnySnapshot \<lparr> sn_id = ''h1'', sn_owner = ''ada'', sn_name = ''Hub'',
      sn_avatar = ''Felix'', sn_channel_ids = [], sn_roles = [(''ada'', OWNER)] \<rparr>)"
    by (simp add: warm_service_def put_snapshot_def hc_put_def mc_put_def)
  moreover have "to_lower (CHR ''H'') = CHR ''h''" "to_lower (CHR ''1'') = CHR ''1''" by code_simp+
  then have "pg_uuid (he_pg alias_env) ''H1'' = Some ''h1''" by (simp add: alias_env_def plain_pg_def)
  moreover have "pg_uuid (he_pg alias_env) ''ada'' = Some ''ada''" "he_hash alias_env ''H1'' \<noteq> he_hash alias_env ''h1''"
    by (simp_all add: alias_env_def plain_pg_def to_lower_def)
  moreover have "hs_faults warm_service = []" by (simp add: warm_service_def ada_service_def)
  ultimately show ?thesis using alias_removal_keeps_cached_role[of warm_service alias_env "''h1''" _ "''ada''" OWNER "''H1''"] by simp
qed

text \<open>Two hubs whose identifiers have the same hash share one cache entry: the roles of one answer for the other.\<close>

theorem colliding_hubs_share_roles:
  assumes "he_hash env h = he_hash env (sn_id sn)" "map_of (hs_cache s) (hub_key (he_hash env) (sn_id sn)) = Some (AnySnapshot sn)"
  shows "fst (resolveMembershipRole env h u s) = Inr (map_of (sn_roles sn) u)"
  using role_cached[of s env h sn u] assms by (simp add: hub_key_def make_key_def)

text \<open>A removal whose commit took effect while the connection broke is reported as a transient failure and leaves the
  cached role in place.\<close>

theorem lost_commit_keeps_cached_role:
  assumes "map_of (hs_cache s) (hub_key (he_hash env) h) = Some (AnySnapshot sn)" "map_of (sn_roles sn) u = Some r"
    "canon env h" "canon env u" "hs_faults s = f # fs" "lease_ok f" "attempt_of f 1 = BrokenFromCommit True"
  shows "fst (removeMember env h u s) = Inl TransientPersistenceError \<and> member_of_hub h u (hs_db (snd (removeMember env h u s))) = None
    \<and> fst (resolveMembershipRole env h u (snd (removeMember env h u s))) = Inr (Some r)"
proof -
  let ?s = "s\<lparr> hs_db := snd (delete_member h u (hs_db s)), hs_faults := fs \<rparr>"
  have "txn_write f (delete_member h u) db = (Inl TransientPersistenceError, snd (delete_member h u db))" for db
    using assms(6,7) by (simp add: txn_write_def txn_run_def run_loop.simps commit_def delete_member_def)
  then have e: "removeMember env h u s = (Inl TransientPersistenceError, ?s)"
    using assms(3-5) by (simp add: removeMember_def repo_removeMember_def bind_work_def on_repo_def canon_with)
  have "map_of (hs_cache ?s) (hub_key (he_hash env) h) = Some (AnySnapshot sn)" using assms(1) by simp
  then show ?thesis using e role_cached[of ?s env h sn u] assms(2) by (simp add: deleted_member)
qed

end
