(* ===== verification/Users.thy ===== *)
theory Users
  imports HubCoherence
begin

text \<open>
  User profiles: \<^verbatim>\<open>UserRepository\<close> (\<^verbatim>\<open>src/infra/persistence/repositories/UserRepository.cpp\<close>), \<^verbatim>\<open>UserCache\<close> and
  \<^verbatim>\<open>UserService\<close> (\<^verbatim>\<open>src/app/services/user\<close>), over the table of profiles with its checks and its unique index.
\<close>

section \<open>Profiles\<close>

record User =
  u_id :: UserId
  u_username :: string
  u_display_name :: string
  u_avatar_seed :: string

definition parse_user_row :: "profile_row \<Rightarrow> User" where
  "parse_user_row p = \<lparr> u_id = pr_user p, u_username = pr_name p, u_display_name = pr_display p, u_avatar_seed = pr_avatar p \<rparr>"

text \<open>The regular expression \<^verbatim>\<open>^[a-z0-9_][a-z0-9_.-]*[a-z0-9_]$\<close>.\<close>

definition name_char :: "char \<Rightarrow> bool" where
  "name_char c \<longleftrightarrow> (CHR ''a'' \<le> c \<and> c \<le> CHR ''z'') \<or> (CHR ''0'' \<le> c \<and> c \<le> CHR ''9'') \<or> c = CHR ''_''"

definition name_format :: "string \<Rightarrow> bool" where
  "name_format s \<longleftrightarrow> length s \<ge> 2 \<and> name_char (hd s) \<and> name_char (last s)
     \<and> list_all (\<lambda>c. name_char c \<or> c = CHR ''.'' \<or> c = CHR ''-'') (butlast (tl s))"

definition user_name_length_ok :: "profile_row \<Rightarrow> bool" where
  "user_name_length_ok p \<longleftrightarrow> char_length (btrim (pr_name p)) \<ge> 3 \<and> char_length (pr_name p) \<le> (if pr_deleted p then 64 else 32)"

definition active_profile :: "UserId \<Rightarrow> database \<Rightarrow> profile_row option" where
  "active_profile u db = find (\<lambda>p. pr_user p = u \<and> \<not> pr_deleted p) (t_profiles db)"

definition set_or_keep :: "string option \<Rightarrow> string \<Rightarrow> string" where
  "set_or_keep new old = (case new of None \<Rightarrow> old | Some v \<Rightarrow> v)"

definition change_profile :: "string option \<Rightarrow> string option \<Rightarrow> string option \<Rightarrow> profile_row \<Rightarrow> profile_row" where
  "change_profile name display avatar p =
     p\<lparr> pr_name := set_or_keep name (pr_name p), pr_display := set_or_keep display (pr_display p), pr_avatar := set_or_keep avatar (pr_avatar p) \<rparr>"

text \<open>\<^verbatim>\<open>UPDATE ... WHERE user_id = $1 AND deleted_at IS NULL RETURNING ...\<close>: the checks in the order of their names, then the
  unique index.\<close>

definition update_profile :: "pg \<Rightarrow> UserId \<Rightarrow> string option \<Rightarrow> string option \<Rightarrow> string option \<Rightarrow> (database, profile_row option) work" where
  "update_profile pg u name display avatar db =
     (case active_profile u db of
        None \<Rightarrow> (Inr None, db)
      | Some p \<Rightarrow>
          (let p' = change_profile name display avatar p
           in if char_length (pr_avatar p') > 128 then fails ''profiles_avatar_seed_length'' db
              else if \<not> (char_length (btrim (pr_display p')) \<ge> 1 \<and> char_length (pr_display p') \<le> 40) then fails ''profiles_display_name_length'' db
              else if \<not> (pg_lower pg (pr_name p') = pr_name p' \<and> name_format (pr_name p')) then fails ''profiles_user_name_format'' db
              else if \<not> user_name_length_ok p' then fails ''profiles_user_name_length'' db
              else if list_ex (\<lambda>q. pr_user q \<noteq> u \<and> pg_lower pg (pr_name q) = pg_lower pg (pr_name p')) (t_profiles db)
              then fails (duplicate_key ''idx_profiles_user_name_unique'') db
              else (Inr (Some p'), db\<lparr> t_profiles := map (\<lambda>q. if pr_user q = u \<and> \<not> pr_deleted q then p' else q) (t_profiles db) \<rparr>)))"

section \<open>Repository\<close>

definition repo_getUserDisplayName :: "pg \<Rightarrow> txn_faults \<Rightarrow> UserId \<Rightarrow> (database, string option) work" where
  "repo_getUserDisplayName pg f u =
     txn_read f (with_uuid pg u (\<lambda>u db. (Inr (case active_profile u db of
        None \<Rightarrow> None | Some p \<Rightarrow> if pr_display p = [] then None else Some (pr_display p)), db)))"

definition repo_getUser :: "pg \<Rightarrow> txn_faults \<Rightarrow> UserId \<Rightarrow> (database, User option) work" where
  "repo_getUser pg f u = txn_read f (with_uuid pg u (\<lambda>u db. (Inr (map_option parse_user_row (active_profile u db)), db)))"

definition repo_getUsersByIds :: "pg \<Rightarrow> txn_faults \<Rightarrow> UserId list \<Rightarrow> (database, User list) work" where
  "repo_getUsersByIds pg f ids =
     (if ids = [] then (\<lambda>db. (Inr [], db))
      else txn_read f (with_uuids pg ids (\<lambda>us db.
             (Inr (map parse_user_row (filter (\<lambda>p. pr_user p \<in> set us \<and> \<not> pr_deleted p) (t_profiles db))), db))))"

text \<open>The \<^verbatim>\<open>std::runtime_error\<close> is told apart from errors of the database only by its text.\<close>

definition no_active_profile :: db_error where
  "no_active_profile = SqlFailure ''Active user profile not found''"

definition repo_updateUserProfile :: "pg \<Rightarrow> txn_faults \<Rightarrow> UserId \<Rightarrow> string option \<Rightarrow> string option \<Rightarrow> string option \<Rightarrow> (database, User) work" where
  "repo_updateUserProfile pg f u name display avatar =
     (if name = None \<and> display = None \<and> avatar = None
      then bind_work (repo_getUser pg f u) (\<lambda>r db. case r of None \<Rightarrow> (Inl no_active_profile, db) | Some x \<Rightarrow> (Inr x, db))
      else txn_write f (with_uuid pg u (\<lambda>u.
             bind_work (update_profile pg u name display avatar) (\<lambda>r db.
               case r of None \<Rightarrow> (Inl no_active_profile, db) | Some p \<Rightarrow> (Inr (parse_user_row p), db)))))"

section \<open>Cache and service\<close>

text \<open>What a \<^verbatim>\<open>std::any\<close> of the user cache can hold.\<close>

datatype user_any = AnyUser User | NotAUser

definition user_key :: "(string \<Rightarrow> 64 word) \<Rightarrow> UserId \<Rightarrow> AnyKey" where
  "user_key hash u = make_key ''UserId'' hash u"

definition uc_get :: "(string \<Rightarrow> 64 word) \<Rightarrow> UserId \<Rightarrow> user_any mem_cache \<Rightarrow> (HubCacheError + User) \<times> user_any mem_cache" where
  "uc_get hash u c =
     (case mc_get (user_key hash u) c of
        None \<Rightarrow> (Inl NotFound, c)
      | Some (AnyUser x) \<Rightarrow> (Inr x, c)
      | Some NotAUser \<Rightarrow> (Inl CorruptedEntry, mc_erase (user_key hash u) c))"

definition uc_put :: "(string \<Rightarrow> 64 word) \<Rightarrow> User \<Rightarrow> user_any mem_cache \<Rightarrow> user_any mem_cache" where
  "uc_put hash x c = mc_put (user_key hash (u_id x)) (AnyUser x) c"

definition uc_invalidate :: "(string \<Rightarrow> 64 word) \<Rightarrow> UserId \<Rightarrow> user_any mem_cache \<Rightarrow> user_any mem_cache" where
  "uc_invalidate hash u c = mc_erase (user_key hash u) c"

record user_service =
  us_db :: database
  us_faults :: "txn_faults list"
  us_cache :: "user_any mem_cache"

definition on_user_repo :: "(txn_faults \<Rightarrow> (database, 'a) work) \<Rightarrow> (user_service, 'a) work" where
  "on_user_repo op s =
     (let f = (case us_faults s of [] \<Rightarrow> no_faults | f # _ \<Rightarrow> f)
      in case op f (us_db s) of (r, db) \<Rightarrow> (r, s\<lparr> us_db := db, us_faults := tl (us_faults s) \<rparr>))"

definition put_user :: "hub_env \<Rightarrow> User \<Rightarrow> user_service \<Rightarrow> user_service" where
  "put_user env x s = s\<lparr> us_cache := uc_put (he_hash env) x (us_cache s) \<rparr>"

definition look_user :: "hub_env \<Rightarrow> UserId \<Rightarrow> user_service \<Rightarrow> User option \<times> user_service" where
  "look_user env u s =
     (case uc_get (he_hash env) u (us_cache s) of (r, c) \<Rightarrow> (case r of Inr x \<Rightarrow> Some x | Inl _ \<Rightarrow> None, s\<lparr> us_cache := c \<rparr>))"

definition getUser :: "hub_env \<Rightarrow> UserId \<Rightarrow> (user_service, User option) work" where
  "getUser env u s =
     (case look_user env u s of
        (Some x, s) \<Rightarrow> (Inr (Some x), s)
      | (None, s) \<Rightarrow>
          bind_work (on_user_repo (\<lambda>f. repo_getUser (he_pg env) f u)) (\<lambda>r s.
            (Inr r, case r of None \<Rightarrow> s | Some x \<Rightarrow> put_user env x s)) s)"

definition getUsersByIds :: "hub_env \<Rightarrow> UserId list \<Rightarrow> (user_service, (UserId, User) umap) work" where
  "getUsersByIds env ids s =
     (if ids = [] then (Inr [], s)
      else
        (case scan_cached (look_user env) ids [] s of
           (found, misses, s) \<Rightarrow>
             if misses = [] then (Inr found, s)
             else
               bind_work (on_user_repo (\<lambda>f. repo_getUsersByIds (he_pg env) f misses)) (\<lambda>fetched s.
                 (Inr (fold (\<lambda>x. AList.update (u_id x) x) fetched found), fold (put_user env) fetched s)) s))"

definition getDisplayName :: "hub_env \<Rightarrow> UserId \<Rightarrow> (user_service, string option) work" where
  "getDisplayName env u = bind_work (getUser env u) (\<lambda>r. return_work (map_option u_display_name r))"

datatype UpdateError = RepoFailure | DuplicateUsername

definition is_unique_violation :: "db_error \<Rightarrow> bool" where
  "is_unique_violation e = (case e of SqlFailure msg \<Rightarrow> take (length (duplicate_key [])) msg = duplicate_key [] | TransientPersistenceError \<Rightarrow> False)"

text \<open>No exception leaves \<^verbatim>\<open>updateProfile\<close>; both handlers drop the cached user.\<close>

definition updateProfile :: "hub_env \<Rightarrow> UserId \<Rightarrow> string option \<Rightarrow> string option \<Rightarrow> string option \<Rightarrow> user_service \<Rightarrow> (UpdateError + User) \<times> user_service" where
  "updateProfile env u name display avatar s =
     (case on_user_repo (\<lambda>f. repo_updateUserProfile (he_pg env) f u name display avatar) s of
        (Inr x, s) \<Rightarrow> (Inr x, put_user env x s)
      | (Inl e, s) \<Rightarrow>
          (Inl (if is_unique_violation e then DuplicateUsername else RepoFailure), s\<lparr> us_cache := uc_invalidate (he_hash env) u (us_cache s) \<rparr>))"

section \<open>The cache holds what the table holds\<close>

definition user_current :: "database \<Rightarrow> User \<Rightarrow> bool" where
  "user_current db x \<longleftrightarrow> map_option parse_user_row (active_profile (u_id x) db) = Some x"

definition user_cache_current :: "hub_env \<Rightarrow> database \<Rightarrow> user_any mem_cache \<Rightarrow> bool" where
  "user_cache_current env db c \<longleftrightarrow> (\<forall>k v. map_of c k = Some v \<longrightarrow>
     (\<exists>x. v = AnyUser x \<and> k = user_key (he_hash env) (u_id x) \<and> user_current db x))"

definition users_ok :: "hub_env \<Rightarrow> user_service \<Rightarrow> bool" where
  "users_ok env s \<longleftrightarrow> distinct (map pr_user (t_profiles (us_db s))) \<and> user_cache_current env (us_db s) (us_cache s)"

lemma user_key_eq_iff: "user_key hash u = user_key hash v \<longleftrightarrow> hash u = hash v"
  by (simp add: user_key_def make_key_def)

lemma user_cache_currentD:
  "user_cache_current env db c \<Longrightarrow> map_of c k = Some v \<Longrightarrow> \<exists>x. v = AnyUser x \<and> k = user_key (he_hash env) (u_id x) \<and> user_current db x"
  unfolding user_cache_current_def by blast

lemma active_profile_iff:
  assumes "distinct (map pr_user (t_profiles db))"
  shows "active_profile u db = Some p \<longleftrightarrow> p \<in> set (t_profiles db) \<and> pr_user p = u \<and> \<not> pr_deleted p"
proof
  assume "active_profile u db = Some p"
  then show "p \<in> set (t_profiles db) \<and> pr_user p = u \<and> \<not> pr_deleted p"
    unfolding active_profile_def by (auto dest: find_SomeD)
next
  assume p: "p \<in> set (t_profiles db) \<and> pr_user p = u \<and> \<not> pr_deleted p"
  then have "active_profile u db \<noteq> None" by (auto simp: active_profile_def find_eq_None)
  then obtain q where q: "active_profile u db = Some q" by auto
  then have "q \<in> set (t_profiles db)" "pr_user q = u" unfolding active_profile_def by (auto dest: find_SomeD)
  with p q distinct_inj[OF assms, of q p] show "active_profile u db = Some p" by simp
qed

lemma user_current_row:
  "distinct (map pr_user (t_profiles db)) \<Longrightarrow> p \<in> set (t_profiles db) \<Longrightarrow> \<not> pr_deleted p \<Longrightarrow> user_current db (parse_user_row p)"
  using active_profile_iff[of db "pr_user p" p] by (simp add: user_current_def parse_user_row_def)

lemma user_current_active:
  "distinct (map pr_user (t_profiles db)) \<Longrightarrow> map_option parse_user_row (active_profile i db) = Some x \<Longrightarrow> user_current db x \<and> u_id x = i"
  using active_profile_iff[of db i] user_current_row[of db] by (auto simp: parse_user_row_def)

lemma look_user_ok:
  assumes "users_ok env s"
  obtains v where "look_user env u s = (v, s)"
    "\<And>x. v = Some x \<Longrightarrow> user_current (us_db s) x \<and> he_hash env (u_id x) = he_hash env u"
proof (cases "map_of (us_cache s) (user_key (he_hash env) u)")
  case None
  then show ?thesis using that[of None] by (simp add: look_user_def uc_get_def mc_get_def)
next
  case (Some v)
  have "user_cache_current env (us_db s) (us_cache s)" using assms by (simp add: users_ok_def)
  from user_cache_currentD[OF this Some] obtain x where "v = AnyUser x" "he_hash env (u_id x) = he_hash env u" "user_current (us_db s) x"
    by (auto simp: user_key_eq_iff)
  then show ?thesis using that[of "Some x"] Some by (simp add: look_user_def uc_get_def mc_get_def)
qed

lemma look_user_hit:
  "users_ok env s \<Longrightarrow> look_user env u s = (Some x, s') \<Longrightarrow> user_current (us_db s) x \<and> he_hash env (u_id x) = he_hash env u"
  by (rule look_user_ok[of env s u]) auto

lemma put_user_sel [simp]: "us_db (put_user env x s) = us_db s" "us_faults (put_user env x s) = us_faults s"
  "us_cache (put_user env x s) = AList.update (user_key (he_hash env) (u_id x)) (AnyUser x) (us_cache s)"
  by (simp_all add: put_user_def uc_put_def mc_put_def)

lemma put_user_ok: "users_ok env s \<Longrightarrow> user_current (us_db s) x \<Longrightarrow> users_ok env (put_user env x s)"
  unfolding users_ok_def user_cache_current_def by (simp add: map_of_update)

lemma put_users_ok:
  "users_ok env s \<Longrightarrow> \<forall>x \<in> set xs. user_current (us_db s) x \<Longrightarrow> users_ok env (fold (put_user env) xs s) \<and> us_db (fold (put_user env) xs s) = us_db s"
  by (induction xs arbitrary: s) (simp_all add: put_user_ok)

lemma users_ok_faults [simp]: "users_ok env (s\<lparr> us_faults := fs \<rparr>) = users_ok env s"
  by (simp add: users_ok_def)

lemma on_user_read:
  assumes "on_user_repo (\<lambda>f. txn_read f fn) s = (r, s')" "\<And>x. snd (fn x) = x"
  shows "s' = s\<lparr> us_faults := tl (us_faults s) \<rparr>" "r = Inr x \<Longrightarrow> fst (fn (us_db s)) = Inr x"
proof -
  define f where "f = (case us_faults s of [] \<Rightarrow> no_faults | f # _ \<Rightarrow> f)"
  obtain q db where q: "txn_read f fn (us_db s) = (q, db)" by force
  have s': "r = q" "s' = s\<lparr> us_db := db, us_faults := tl (us_faults s) \<rparr>"
    using assms(1) by (simp_all add: on_user_repo_def f_def[symmetric] q)
  note c = txn_read_cases[OF q assms(2)]
  show "s' = s\<lparr> us_faults := tl (us_faults s) \<rparr>" using c s' by (cases s) simp
  show "r = Inr x \<Longrightarrow> fst (fn (us_db s)) = Inr x" using c s' by auto
qed

lemma repo_getUser_at:
  assumes "on_user_repo (\<lambda>f. repo_getUser pg f u) s = (r, s')"
  shows "s' = s\<lparr> us_faults := tl (us_faults s) \<rparr>"
    "r = Inr x \<Longrightarrow> \<exists>i. pg_uuid pg u = Some i \<and> x = map_option parse_user_row (active_profile i (us_db s))"
proof -
  note d = on_user_read[OF assms[unfolded repo_getUser_def] with_uuid_same]
  show "s' = s\<lparr> us_faults := tl (us_faults s) \<rparr>" by (rule d(1)) simp
  show "\<exists>i. pg_uuid pg u = Some i \<and> x = map_option parse_user_row (active_profile i (us_db s))" if "r = Inr x"
    using d(2)[OF _ that] fst_with_uuid[of pg u "\<lambda>u db. (Inr (map_option parse_user_row (active_profile u db)), db)" "us_db s" x] by auto
qed

lemma getUser_ok:
  assumes "users_ok env s" "getUser env u s = (r, s')"
  shows "users_ok env s' \<and> us_db s' = us_db s"
    "r = Inr (Some x) \<Longrightarrow> user_current (us_db s) x"
proof -
  obtain v where v: "look_user env u s = (v, s)" "\<And>x. v = Some x \<Longrightarrow> user_current (us_db s) x \<and> he_hash env (u_id x) = he_hash env u"
    using look_user_ok[OF assms(1)] by metis
  have "users_ok env s' \<and> us_db s' = us_db s \<and> (\<forall>x. r = Inr (Some x) \<longrightarrow> user_current (us_db s) x)"
  proof (cases v)
    case (Some y)
    then show ?thesis using assms v by (auto simp: getUser_def)
  next
    case None
    obtain q s1 where q: "on_user_repo (\<lambda>f. repo_getUser (he_pg env) f u) s = (q, s1)" by force
    note d = repo_getUser_at[OF q]
    have cur: "user_current (us_db s) y" if "q = Inr (Some y)" for y
      using d(2)[OF that] user_current_active[of "us_db s"] assms(1) by (metis users_ok_def)
    have ok: "users_ok env s1" "us_db s1 = us_db s" using d(1) assms(1) by simp_all
    show ?thesis
    proof (cases q)
      case (Inl e)
      then show ?thesis using assms(2) v(1) None q ok by (auto simp: getUser_def bind_work_def)
    next
      case (Inr y)
      then have "r = Inr y" "s' = (case y of None \<Rightarrow> s1 | Some x \<Rightarrow> put_user env x s1)"
        using assms(2) v(1) None q by (simp_all add: getUser_def bind_work_def)
      then show ?thesis using Inr ok cur put_user_ok[OF ok(1)] by (cases y) auto
    qed
  qed
  then show "users_ok env s' \<and> us_db s' = us_db s" "r = Inr (Some x) \<Longrightarrow> user_current (us_db s) x" by blast+
qed

lemma getUsersByIds_ok:
  assumes "users_ok env s" "getUsersByIds env ids s = (r, s')"
  shows "users_ok env s' \<and> us_db s' = us_db s"
    "r = Inr m \<Longrightarrow> map_of m i = Some x \<Longrightarrow> user_current (us_db s) x \<and> he_hash env (u_id x) = he_hash env i"
proof -
  have same: "\<exists>v. look_user env i s = (v, s)" for i using look_user_ok[OF assms(1)] by metis
  obtain found misses where sc: "scan_cached (look_user env) ids [] s = (found, misses, s)"
    and hits: "\<forall>(i, v) \<in> set found. look_user env i s = (Some v, s)"
    using scan_same[of "look_user env" s ids "[]"] same by blast
  let ?good = "\<lambda>i x. user_current (us_db s) x \<and> he_hash env (u_id x) = he_hash env i"
  have found: "?good i x" if "map_of found i = Some x" for i x
    using hits map_of_SomeD[OF that] look_user_hit[OF assms(1), of i x] by auto
  have "users_ok env s' \<and> us_db s' = us_db s \<and> (\<forall>m. r = Inr m \<longrightarrow> (\<forall>i x. map_of m i = Some x \<longrightarrow> ?good i x))"
  proof (cases "ids = [] \<or> misses = []")
    case True
    then show ?thesis using assms found by (cases "ids = []") (auto simp: getUsersByIds_def sc)
  next
    case False
    then have ne: "misses \<noteq> []" "ids \<noteq> []" by simp_all
    obtain q s1 where q: "on_user_repo (\<lambda>f. repo_getUsersByIds (he_pg env) f misses) s = (q, s1)" by force
    note d = on_user_read[OF q[unfolded repo_getUsersByIds_def if_not_P[OF ne(1)]] with_uuids_same]
    have ok: "users_ok env s1" "us_db s1 = us_db s" using d(1) assms(1) by simp_all
    have dist: "distinct (map pr_user (t_profiles (us_db s)))" using assms(1) by (simp add: users_ok_def)
    note g = assms(2)[unfolded getUsersByIds_def if_not_P[OF ne(2)] sc prod.case if_not_P[OF ne(1)] bind_work_def q]
    show ?thesis
    proof (cases q)
      case (Inl e)
      then have "r = Inl e" "s' = s1" using g by auto
      then show ?thesis using ok by simp
    next
      case (Inr xs)
      have "fst (with_uuids (he_pg env) misses (\<lambda>us db. (Inr (map parse_user_row (filter (\<lambda>p. pr_user p \<in> set us \<and> \<not> pr_deleted p) (t_profiles db))), db)) (us_db s)) = Inr xs"
        by (rule d(2)[OF _ Inr]) simp
      from fst_with_uuids[OF this] have xs: "\<forall>x \<in> set xs. user_current (us_db s) x"
        using user_current_row[OF dist] by auto
      have m: "r = Inr (fold (\<lambda>x. AList.update (u_id x) x) xs found)" "s' = fold (put_user env) xs s1" using g Inr by simp_all
      have "\<forall>i x. map_of (fold (\<lambda>x. AList.update (u_id x) x) xs found) i = Some x \<longrightarrow> ?good i x"
        using fold_update_all[of xs ?good u_id found] xs found by blast
      moreover have "users_ok env s' \<and> us_db s' = us_db s" using put_users_ok[OF ok(1), of xs] xs ok(2) m(2) by simp
      ultimately show ?thesis using m(1) by simp
    qed
  qed
  then show "users_ok env s' \<and> us_db s' = us_db s"
    "r = Inr m \<Longrightarrow> map_of m i = Some x \<Longrightarrow> user_current (us_db s) x \<and> he_hash env (u_id x) = he_hash env i" by blast+
qed

text \<open>An update replaces one row.\<close>

lemma update_profile_row:
  assumes "update_profile pg u name display avatar db = (Inr (Some p), db')" "distinct (map pr_user (t_profiles db))"
  shows "distinct (map pr_user (t_profiles db'))" "active_profile u db' = Some p" "v \<noteq> u \<Longrightarrow> active_profile v db' = active_profile v db"
proof -
  obtain p0 where p0: "active_profile u db = Some p0" and p: "p = change_profile name display avatar p0"
    and db': "db' = db\<lparr> t_profiles := map (\<lambda>q. if pr_user q = u \<and> \<not> pr_deleted q then p else q) (t_profiles db) \<rparr>"
    using assms(1) by (auto simp: update_profile_def Let_def fails_def split: option.split_asm if_split_asm)
  have row: "p0 \<in> set (t_profiles db)" "pr_user p = u" "\<not> pr_deleted p"
    using p0 p active_profile_iff[OF assms(2), of u p0] by (auto simp: change_profile_def)
  have "map pr_user (t_profiles db') = map pr_user (t_profiles db)" using row(2) by (simp add: db')
  then show d: "distinct (map pr_user (t_profiles db'))" using assms(2) by simp
  have "p \<in> set (t_profiles db')" using row p0 active_profile_iff[OF assms(2), of u p0] by (force simp: db')
  then show "active_profile u db' = Some p" using active_profile_iff[OF d] row by simp
  have "find (\<lambda>q. pr_user q = v \<and> \<not> pr_deleted q) (map (\<lambda>q. if pr_user q = u \<and> \<not> pr_deleted q then p else q) xs)
      = find (\<lambda>q. pr_user q = v \<and> \<not> pr_deleted q) xs" if "v \<noteq> u" for xs
    using that row(2) by (induction xs) auto
  then show "v \<noteq> u \<Longrightarrow> active_profile v db' = active_profile v db" by (simp add: active_profile_def db')
qed

lemma update_profile_none: "update_profile pg u name display avatar db = (Inr None, db') \<Longrightarrow> db' = db"
  by (auto simp: update_profile_def Let_def fails_def split: option.split_asm if_split_asm)

text \<open>What the repository's write leaves: nothing, or the new row.\<close>

lemma repo_update_cases:
  assumes "repo_updateUserProfile pg f u name display avatar db = (r, db')" "pg_uuid pg u = Some u" "distinct (map pr_user (t_profiles db))"
  obtains (same) "db' = db" "\<And>x. r = Inr x \<Longrightarrow> user_current db x \<and> u_id x = u"
    | (changed) p where "update_profile pg u name display avatar db = (Inr (Some p), db')" "\<And>x. r = Inr x \<Longrightarrow> x = parse_user_row p"
proof (cases "name = None \<and> display = None \<and> avatar = None")
  case True
  obtain q db1 where q: "repo_getUser pg f u db = (q, db1)" by force
  have "db1 = db \<and> (q = fst (with_uuid pg u (\<lambda>u db. (Inr (map_option parse_user_row (active_profile u db)), db)) db) \<or> q = Inl TransientPersistenceError)"
    using txn_read_cases[OF q[unfolded repo_getUser_def] with_uuid_same] by simp
  then have d: "db1 = db" "q = Inr (map_option parse_user_row (active_profile u db)) \<or> q = Inl TransientPersistenceError"
    using assms(2) by (simp_all add: with_uuid_def)
  have e: "repo_updateUserProfile pg f u name display avatar db = (case q of Inl e \<Rightarrow> (Inl e, db)
      | Inr None \<Rightarrow> (Inl no_active_profile, db) | Inr (Some x) \<Rightarrow> (Inr x, db))"
    using q d(1) unfolding repo_updateUserProfile_def if_P[OF True] bind_work_def by (simp split: sum.split option.split)
  show ?thesis
  proof (rule same)
    show "db' = db" using assms(1) e by (auto split: sum.split_asm option.split_asm)
    show "user_current db x \<and> u_id x = u" if "r = Inr x" for x
    proof -
      from that assms(1) e have "q = Inr (Some x)" by (auto split: sum.split_asm option.split_asm)
      with d(2) user_current_active[OF assms(3), of u x] show ?thesis by simp
    qed
  qed
next
  case False
  let ?k = "\<lambda>r db. case r of None \<Rightarrow> (Inl no_active_profile, db) | Some p \<Rightarrow> (Inr (parse_user_row p), db)"
  let ?fn = "with_uuid pg u (\<lambda>u. bind_work (update_profile pg u name display avatar) ?k)"
  have fn: "\<exists>p. update_profile pg u name display avatar db = (Inr (Some p), db1) \<and> x = parse_user_row p" if "?fn db = (Inr x, db1)" for x db1
    using that assms(2) by (auto simp: with_uuid_def bind_work_def split: prod.split_asm sum.split_asm option.split_asm)
  have "txn_write f ?fn db = (r, db')" using assms(1) unfolding repo_updateUserProfile_def if_not_P[OF False] .
  then show ?thesis
  proof (cases rule: txn_write_cases)
    case (applied x)
    then show ?thesis using fn[of x db'] changed by blast
  next
    case (refused e)
    then show ?thesis using same by simp
  next
    case (ambiguous x n)
    then show ?thesis using fn[of x db'] changed by blast
  qed
qed

lemma user_current_frame: "user_current db x \<Longrightarrow> active_profile (u_id x) db' = active_profile (u_id x) db \<Longrightarrow> user_current db' x"
  by (simp add: user_current_def)

text \<open>After the write the entry of the user is replaced or dropped, so it does not matter whether the write took effect.\<close>

lemma updateProfile_ok:
  assumes ok: "users_ok env s" and u: "canon env u" and m: "updateProfile env u name display avatar s = (r, s')"
  shows "users_ok env s' \<and> (\<forall>x. r = Inr x \<longrightarrow> user_current (us_db s') x \<and> u_id x = u
           \<and> map_of (us_cache s') (user_key (he_hash env) u) = Some (AnyUser x))"
proof -
  define f where "f = (case us_faults s of [] \<Rightarrow> no_faults | f # _ \<Rightarrow> f)"
  have d: "distinct (map pr_user (t_profiles (us_db s)))" "user_cache_current env (us_db s) (us_cache s)" using ok by (simp_all add: users_ok_def)
  obtain q db where q: "repo_updateUserProfile (he_pg env) f u name display avatar (us_db s) = (q, db)" by force
  have upd: "updateProfile env u name display avatar s = (let s1 = s\<lparr> us_db := db, us_faults := tl (us_faults s) \<rparr> in
      case q of Inr x \<Rightarrow> (Inr x, put_user env x s1)
      | Inl e \<Rightarrow> (Inl (if is_unique_violation e then DuplicateUsername else RepoFailure), s1\<lparr> us_cache := uc_invalidate (he_hash env) u (us_cache s) \<rparr>))"
    by (simp add: updateProfile_def on_user_repo_def f_def[symmetric] q split: sum.split)
  have facts: "distinct (map pr_user (t_profiles db)) \<and> (\<forall>v. v \<noteq> u \<longrightarrow> active_profile v db = active_profile v (us_db s))
      \<and> (\<forall>x. q = Inr x \<longrightarrow> user_current db x \<and> u_id x = u)"
    using q u[unfolded canon_def] d(1)
  proof (cases rule: repo_update_cases)
    case same
    then show ?thesis using d(1) by simp
  next
    case (changed p)
    note e = update_profile_row[OF changed(1) d(1)]
    have "user_current db (parse_user_row p) \<and> u_id (parse_user_row p) = u" using user_current_active[OF e(1), of u "parse_user_row p"] e(2) by simp
    then show ?thesis using e changed(2) by blast
  qed
  have other: "\<exists>x. v = AnyUser x \<and> k = user_key (he_hash env) (u_id x) \<and> user_current db x"
    if "map_of (us_cache s) k = Some v" "k \<noteq> user_key (he_hash env) u" for k v
    using user_cache_currentD[OF d(2) that(1)] facts that(2) user_current_frame[of "us_db s" _ db] by metis
  show ?thesis
  proof (cases q)
    case (Inl e)
    then have "r = Inl (if is_unique_violation e then DuplicateUsername else RepoFailure)"
      "us_db s' = db" "us_cache s' = AList.delete (user_key (he_hash env) u) (us_cache s)"
      using m upd by (auto simp: uc_invalidate_def mc_erase_def)
    moreover from this have "user_cache_current env (us_db s') (us_cache s')" unfolding user_cache_current_def using other by simp
    ultimately show ?thesis using facts by (simp add: users_ok_def)
  next
    case (Inr x)
    then have s': "r = Inr x" "us_db s' = db" "us_cache s' = AList.update (user_key (he_hash env) u) (AnyUser x) (us_cache s)"
      using m upd facts by auto
    moreover have "user_cache_current env (us_db s') (us_cache s')"
      unfolding user_cache_current_def s' using other facts Inr by simp
    ultimately show ?thesis using facts Inr by (simp add: users_ok_def)
  qed
qed

text \<open>The service starts with an empty cache. People sign up, other services write other tables, and the network may do
  anything to any call. Accounts are deleted by another process and are not part of this.\<close>

inductive user_step :: "hub_env \<Rightarrow> user_service \<Rightarrow> user_service \<Rightarrow> bool" for env where
  us_getUser: "user_step env s (snd (getUser env u s))"
| us_getUsersByIds: "user_step env s (snd (getUsersByIds env ids s))"
| us_getDisplayName: "user_step env s (snd (getDisplayName env u s))"
| us_updateProfile: "canon env u \<Longrightarrow> user_step env s (snd (updateProfile env u name display avatar s))"
| us_signup: "\<not> has_profile (pr_user p) (us_db s) \<Longrightarrow> user_step env s (s\<lparr> us_db := (us_db s)\<lparr> t_profiles := t_profiles (us_db s) @ [p] \<rparr> \<rparr>)"
| us_other: "t_profiles db = t_profiles (us_db s) \<Longrightarrow> user_step env s (s\<lparr> us_db := db \<rparr>)"
| us_network: "user_step env s (s\<lparr> us_faults := fs \<rparr>)"

inductive user_reach :: "hub_env \<Rightarrow> user_service \<Rightarrow> bool" for env where
  user_start: "user_reach env \<lparr> us_db = empty_database, us_faults = [], us_cache = [] \<rparr>"
| user_next: "user_reach env s \<Longrightarrow> user_step env s s' \<Longrightarrow> user_reach env s'"

lemma users_ok_frame:
  assumes "users_ok env s" "distinct (map pr_user (t_profiles db))" "\<And>u p. active_profile u (us_db s) = Some p \<Longrightarrow> active_profile u db = Some p"
  shows "users_ok env (s\<lparr> us_db := db \<rparr>)"
proof -
  have "user_current db x" if "user_current (us_db s) x" for x using that assms(3) by (auto simp: user_current_def)
  then show ?thesis using assms(1,2) unfolding users_ok_def user_cache_current_def by simp blast
qed

lemma user_step_ok:
  assumes "user_step env s s'" "users_ok env s"
  shows "users_ok env s'"
  using assms(1)
proof cases
  case (us_getUser u)
  then show ?thesis using getUser_ok(1)[OF assms(2), of u] by (metis prod.collapse)
next
  case (us_getUsersByIds ids)
  then show ?thesis using getUsersByIds_ok(1)[OF assms(2), of ids] by (metis prod.collapse)
next
  case (us_getDisplayName u)
  then have "s' = snd (getUser env u s)"
    by (cases "getUser env u s") (auto simp: getDisplayName_def bind_work_def return_work_def split: sum.split)
  then show ?thesis using getUser_ok(1)[OF assms(2), of u] by (metis prod.collapse)
next
  case (us_updateProfile u name display avatar)
  then show ?thesis using updateProfile_ok[OF assms(2) us_updateProfile(2)] by (metis prod.collapse)
next
  case (us_signup p)
  show ?thesis unfolding us_signup(1)
  proof (rule users_ok_frame[OF assms(2)])
    show "distinct (map pr_user (t_profiles ((us_db s)\<lparr> t_profiles := t_profiles (us_db s) @ [p] \<rparr>)))"
      using us_signup(2) assms(2) by (auto simp: users_ok_def has_profile_def list_ex_iff)
  qed (simp add: active_profile_def find_append)
next
  case (us_other db)
  then show ?thesis using users_ok_frame[OF assms(2), of db] assms(2) by (simp add: users_ok_def active_profile_def)
qed (use assms(2) in simp)

lemma user_reach_ok: "user_reach env s \<Longrightarrow> users_ok env s"
proof (induction rule: user_reach.induct)
  case user_start
  show ?case by (simp add: users_ok_def user_cache_current_def empty_database_def)
qed (rule user_step_ok)

lemma user_current_id: "user_current db x \<Longrightarrow> u_id x \<in> pr_user ` set (t_profiles db)"
  unfolding user_current_def active_profile_def by (auto simp: parse_user_row_def dest!: find_SomeD)

lemma user_current_same:
  assumes "user_current db x" "he_hash env (u_id x) = he_hash env i" "inj_on (he_hash env) U" "pr_user ` set (t_profiles db) \<subseteq> U" "i \<in> U"
  shows "map_option parse_user_row (active_profile i db) = Some x"
proof -
  have "u_id x \<in> U" using user_current_id[OF assms(1)] assms(4) by blast
  then have "u_id x = i" using assms(2,3,5) by (metis inj_onD)
  then show ?thesis using assms(1) by (simp add: user_current_def)
qed

lemma getUser_answer:
  assumes "users_ok env s" "canon env u" "inj_on (he_hash env) U" "pr_user ` set (t_profiles (us_db s)) \<subseteq> U" "u \<in> U"
    and "fst (getUser env u s) = Inr x"
  shows "x = map_option parse_user_row (active_profile u (us_db s))"
proof -
  obtain v where v: "look_user env u s = (v, s)" "\<And>x. v = Some x \<Longrightarrow> user_current (us_db s) x \<and> he_hash env (u_id x) = he_hash env u"
    using look_user_ok[OF assms(1)] by metis
  show ?thesis
  proof (cases v)
    case (Some y)
    then have "x = Some y" using v(1) assms(6) by (simp add: getUser_def)
    then show ?thesis using user_current_same[OF _ _ assms(3-5), of y] v(2)[OF Some] by metis
  next
    case None
    obtain q s1 where q: "on_user_repo (\<lambda>f. repo_getUser (he_pg env) f u) s = (q, s1)" by force
    then have "q = Inr x" using v(1) None assms(6) by (simp add: getUser_def bind_work_def split: sum.split_asm)
    with repo_getUser_at(2)[OF q this] assms(2) show ?thesis by (simp add: canon_def)
  qed
qed


definition ada_users :: user_service where
  "ada_users = \<lparr> us_db = ada_signed_up, us_faults = [], us_cache = [] \<rparr>"

definition lossy :: txn_faults where
  "lossy = \<lparr> lease_ok = True, attempt_of = (\<lambda>_. BrokenFromCommit True), reconnect_ok = (\<lambda>_. True) \<rparr>"

text \<open>Ada is cached, then renames herself while the acknowledgement is lost, and is asked for again.\<close>

definition renamed_users :: user_service where
  "renamed_users = snd (updateProfile plain_env ''ada'' None (Some ''Ada L'') None ((snd (getUser plain_env ''ada'' ada_users))\<lparr> us_faults := [lossy] \<rparr>))"

lemma ada_users_reach: "user_reach plain_env ada_users"
proof -
  have "user_step plain_env \<lparr> us_db = empty_database, us_faults = [], us_cache = [] \<rparr>
      (\<lparr> us_db = empty_database, us_faults = [], us_cache = [] \<rparr>\<lparr> us_db := empty_database\<lparr> t_profiles := t_profiles empty_database @ [ada] \<rparr> \<rparr>)"
    using us_signup[of ada "\<lparr> us_db = empty_database, us_faults = [], us_cache = [] \<rparr>"] by (simp add: has_profile_def empty_database_def)
  from user_next[OF user_start this] show ?thesis by (simp add: ada_users_def ada_signed_up_def empty_database_def)
qed

lemma ada_canon: "canon plain_env ''ada''"
  by (simp add: canon_def plain_env_def plain_pg_def to_lower_def)

lemma renamed_users_reach: "user_reach plain_env renamed_users"
  unfolding renamed_users_def
  by (rule user_next[OF user_next[OF user_next[OF ada_users_reach us_getUser] us_network] us_updateProfile[OF ada_canon]])


end
