(* ===== verification/Workers.thy ===== *)
theory Workers
  imports Queues
begin

text \<open>
  \<^verbatim>\<open>parse_inbound_payload\<close> (\<^verbatim>\<open>src/proto/ParsedPayload.h\<close>), \<^verbatim>\<open>Dispatcher\<close> (\<^verbatim>\<open>src/app/dispatcher\<close>) and \<^verbatim>\<open>WorkerPool\<close>
  (\<^verbatim>\<open>src/app/worker\<close>): several threads take events from the application's queue and execute the registered commands, with a
  guard against executing a command twice at the same time for one connection.

  The protobuf parser is a parameter. A worker's handling of a message is split where other workers can come in
  between: up to the execution of the command (\<open>handle_event_begin\<close>), and after it (\<open>handle_event_end\<close>, or the clean-up after an
  exception). The pool is a transition system over the workers; each step holds the guard's mutex at most once.
\<close>

section \<open>Inbound payloads\<close>

text \<open>The types a client may send, with the message of a payload that does not parse.\<close>

fun inbound_error :: "EnvelopeType \<Rightarrow> string option" where
  "inbound_error PING = Some ''Invalid PING payload''"
| "inbound_error AUTH = Some ''Invalid AUTH payload''"
| "inbound_error REQUEST_STATE_SYNC = Some ''Invalid REQUEST_STATE_SYNC payload''"
| "inbound_error TYPING = Some ''Invalid TYPING payload''"
| "inbound_error ACTIVE_CHANNEL = Some ''Invalid ACTIVE_CHANNEL payload''"
| "inbound_error VOICE_JOIN = Some ''Invalid VOICE_JOIN payload''"
| "inbound_error VOICE_KICK_PARTICIPANT = Some ''Invalid VOICE_KICK_PARTICIPANT payload''"
| "inbound_error VOICE_ACTIVITY = Some ''Invalid VOICE_ACTIVITY payload''"
| "inbound_error MESSAGE_SEND = Some ''Invalid MESSAGE_SEND payload''"
| "inbound_error MESSAGE_FETCH_BEFORE = Some ''Invalid MESSAGE_FETCH_BEFORE payload''"
| "inbound_error HUB_CREATE = Some ''Invalid HUB_CREATE payload''"
| "inbound_error HUB_JOIN = Some ''Invalid HUB_JOIN payload''"
| "inbound_error HUB_CREATE_JOIN_CODE = Some ''Invalid HUB_CREATE_JOIN_CODE payload''"
| "inbound_error HUB_INVITE_VALIDATE = Some ''Invalid HUB_INVITE_VALIDATE payload''"
| "inbound_error HUB_LEAVE = Some ''Invalid HUB_LEAVE payload''"
| "inbound_error HUB_REMOVE = Some ''Invalid HUB_REMOVE payload''"
| "inbound_error HUB_MEMBER_KICK = Some ''Invalid HUB_MEMBER_KICK payload''"
| "inbound_error HUB_UPDATE = Some ''Invalid HUB_UPDATE payload''"
| "inbound_error HUB_MEMBER_ROLE_UPDATE = Some ''Invalid HUB_MEMBER_ROLE_UPDATE payload''"
| "inbound_error CHANNEL_CREATE = Some ''Invalid CHANNEL_CREATE payload''"
| "inbound_error CHANNEL_UPDATE = Some ''Invalid CHANNEL_UPDATE payload''"
| "inbound_error CHANNEL_REMOVE = Some ''Invalid CHANNEL_REMOVE payload''"
| "inbound_error USER_UPDATE = Some ''Invalid USER_UPDATE payload''"
| "inbound_error _ = None"

definition server_only :: "EnvelopeType \<Rightarrow> bool" where
  "server_only t \<longleftrightarrow> t \<in> {CommandError, PONG, AUTH_OK, STATE_SYNC, STATE_DELTA, RT_SIGNAL, VOICE_TOKEN_ISSUED, VOICE_SELF_STATUS, VOICE_SELF_REVOKED}"

text \<open>\<open>pb t bytes\<close> is \<^verbatim>\<open>ParseFromString\<close> of the message type that belongs to \<open>t\<close>.\<close>

definition parse_inbound_payload :: "(EnvelopeType \<Rightarrow> string \<Rightarrow> 'p option) \<Rightarrow> Envelope \<Rightarrow> string + 'p" where
  "parse_inbound_payload pb env =
     (if env_version env \<noteq> 1 then Inl ''Unsupported protocol version''
      else
        (case inbound_error (env_type env) of
           Some err \<Rightarrow> (case pb (env_type env) (env_payload env) of None \<Rightarrow> Inl err | Some p \<Rightarrow> Inr p)
         | None \<Rightarrow>
             if env_type env = UNKNOWN then Inl ''Unknown message type''
             else if server_only (env_type env) then Inl ''Server-only message type''
             else Inl ''Unsupported message type''))"

section \<open>Dispatcher\<close>

text \<open>The types with a registered command.\<close>

definition register_all :: "EnvelopeType list" where
  "register_all = [AUTH, REQUEST_STATE_SYNC, ACTIVE_CHANNEL, TYPING, VOICE_JOIN, VOICE_KICK_PARTICIPANT, VOICE_ACTIVITY,
     MESSAGE_SEND, MESSAGE_FETCH_BEFORE, HUB_CREATE, HUB_JOIN, HUB_CREATE_JOIN_CODE, HUB_INVITE_VALIDATE, HUB_LEAVE,
     HUB_REMOVE, HUB_MEMBER_KICK, HUB_UPDATE, HUB_MEMBER_ROLE_UPDATE, USER_UPDATE, CHANNEL_CREATE, CHANNEL_UPDATE, CHANNEL_REMOVE]"

definition dispatch :: "(EnvelopeType \<Rightarrow> 'c \<Rightarrow> (OutgoingMessage list) option \<times> 'c) \<Rightarrow> EnvelopeType \<Rightarrow> 'c \<Rightarrow> (OutgoingMessage list) option \<times> 'c" where
  "dispatch execute t ctx = (if t \<in> set register_all then execute t ctx else (Some [], ctx))"

section \<open>Worker pool\<close>

definition command_uses_inflight_dedup :: "EnvelopeType \<Rightarrow> bool" where
  "command_uses_inflight_dedup t \<longleftrightarrow> t \<notin> {MESSAGE_SEND, MESSAGE_FETCH_BEFORE, TYPING, VOICE_ACTIVITY}"

type_synonym executing = "(GlobalConnId, EnvelopeType list) umap"

definition try_mark_executing :: "GlobalConnId \<Rightarrow> EnvelopeType \<Rightarrow> executing \<Rightarrow> bool \<times> executing" where
  "try_mark_executing conn t ex =
     (let types = lookup_or [] conn ex
      in if t \<in> set types then (False, ex) else (True, AList.update conn (set_insert t types) ex))"

definition unmark_executing :: "GlobalConnId \<Rightarrow> EnvelopeType \<Rightarrow> executing \<Rightarrow> executing" where
  "unmark_executing conn t ex =
     (case map_of ex conn of
        None \<Rightarrow> ex
      | Some types \<Rightarrow>
          (let types = removeAll t types
           in if types = [] then AList.delete conn ex else AList.update conn types ex))"

definition CommandErrorCode_INVALID_FORMAT :: int where
  "CommandErrorCode_INVALID_FORMAT = 10"

definition make_drop_connection :: "GlobalConnId \<Rightarrow> int \<Rightarrow> string \<Rightarrow> OutgoingMessage" where
  "make_drop_connection conn code reason =
     \<lparr> msg_priority = OutHigh, msg_target = [conn], msg_action = DropConnection code reason \<rparr>"

text \<open>The part of \<^verbatim>\<open>handle_event\<close> before the command: refused with a message for the sender, dropped as a duplicate, or
  accepted.\<close>

datatype 'p begun = Refused OutgoingMessage | Duplicate | Accepted 'p

definition handle_event_begin :: "(EnvelopeType \<Rightarrow> string \<Rightarrow> 'p option) \<Rightarrow> GlobalConnId \<Rightarrow> Envelope \<Rightarrow> executing \<Rightarrow> 'p begun \<times> executing" where
  "handle_event_begin pb conn env ex =
     (case parse_inbound_payload pb env of
        Inl err \<Rightarrow> (Refused (make_drop_connection conn CommandErrorCode_INVALID_FORMAT (''Invalid envelope: '' @ err)), ex)
      | Inr p \<Rightarrow>
          if command_uses_inflight_dedup (env_type env)
          then (case try_mark_executing conn (env_type env) ex of
                  (False, ex) \<Rightarrow> (Duplicate, ex)
                | (True, ex) \<Rightarrow> (Accepted p, ex))
          else (Accepted p, ex))"

definition handle_event_end :: "GlobalConnId \<Rightarrow> EnvelopeType \<Rightarrow> executing \<Rightarrow> executing" where
  "handle_event_end conn t ex = (if command_uses_inflight_dedup t then unmark_executing conn t ex else ex)"

text \<open>The two handlers of \<^verbatim>\<open>worker_loop\<close> for exceptions.\<close>

definition handle_event_failed :: "GlobalConnId \<Rightarrow> EnvelopeType \<Rightarrow> executing \<Rightarrow> executing" where
  "handle_event_failed conn t ex = unmark_executing conn t ex"

section \<open>The pool as a transition system\<close>

text \<open>A worker is at the pause gate, in \<^verbatim>\<open>wait_pop\<close>, executing a command, serving a connection event, or has left its
  loop.\<close>

datatype worker = AtGate | Waiting | Executing GlobalConnId EnvelopeType | Serving | Exited

record worker_pool =
  wp_running :: bool
  wp_paused :: bool
  wp_workers :: "worker list"
  wp_executing :: executing
  wp_queue :: event_queue

definition wp_new :: "nat \<Rightarrow> worker_pool" where
  "wp_new capacity = \<lparr> wp_running = False, wp_paused = False, wp_workers = [], wp_executing = [], wp_queue = eq_new capacity \<rparr>"

definition wp_start :: "nat \<Rightarrow> worker_pool \<Rightarrow> worker_pool" where
  "wp_start n p = (if wp_running p then p else p\<lparr> wp_running := True, wp_paused := False, wp_workers := replicate n AtGate \<rparr>)"

text \<open>\<^verbatim>\<open>stop\<close> wakes the workers; the threads are joined when they have left their loops.\<close>

definition wp_stop :: "worker_pool \<Rightarrow> worker_pool" where
  "wp_stop p = (if wp_running p then p\<lparr> wp_running := False, wp_paused := False, wp_queue := eq_stop (wp_queue p) \<rparr> else p)"

definition wp_pause :: "worker_pool \<Rightarrow> worker_pool" where
  "wp_pause p = (if wp_running p then p\<lparr> wp_paused := True \<rparr> else p)"

definition wp_resume :: "worker_pool \<Rightarrow> worker_pool" where
  "wp_resume p = (if wp_running p then p\<lparr> wp_paused := False \<rparr> else p)"

text \<open>One pass of worker \<open>i\<close> through the gate.\<close>

definition pass_gate :: "worker_pool \<Rightarrow> worker option" where
  "pass_gate p = (if \<not> wp_running p then Some Exited else if wp_paused p then None else Some Waiting)"

text \<open>What a worker that has popped an event does before any command runs.\<close>

fun take_event :: "(EnvelopeType \<Rightarrow> string \<Rightarrow> 'p option) \<Rightarrow> Event \<Rightarrow> executing \<Rightarrow> worker \<times> executing" where
  "take_event pb (MessageEvent conn env) ex =
     (case handle_event_begin pb conn env ex of
        (Accepted p, ex) \<Rightarrow> (Executing conn (env_type env), ex)
      | (_, ex) \<Rightarrow> (AtGate, ex))"
| "take_event pb _ ex = (Serving, ex)"

definition set_worker :: "nat \<Rightarrow> worker \<Rightarrow> worker_pool \<Rightarrow> worker_pool" where
  "set_worker i w p = p\<lparr> wp_workers := (wp_workers p)[i := w] \<rparr>"

inductive pool_step :: "(EnvelopeType \<Rightarrow> string \<Rightarrow> 'p option) \<Rightarrow> worker_pool \<Rightarrow> worker_pool \<Rightarrow> bool" for pb where
  ps_start: "wp_workers p = [] \<Longrightarrow> pool_step pb p (wp_start n p)"
| ps_stop: "pool_step pb p (wp_stop p)"
| ps_join: "\<forall>w \<in> set (wp_workers p). w = Exited \<Longrightarrow> pool_step pb p (p\<lparr> wp_workers := [] \<rparr>)"
| ps_pause: "pool_step pb p (wp_pause p)"
| ps_resume: "pool_step pb p (wp_resume p)"
| ps_push: "pool_step pb p (p\<lparr> wp_queue := fst (eq_push e (wp_queue p)) \<rparr>)"
| ps_gate: "i < length (wp_workers p) \<Longrightarrow> wp_workers p ! i = AtGate \<Longrightarrow> pass_gate p = Some w \<Longrightarrow> pool_step pb p (set_worker i w p)"
| ps_drained: "i < length (wp_workers p) \<Longrightarrow> wp_workers p ! i = Waiting \<Longrightarrow> eq_wait_pop (wp_queue p) = Drained \<Longrightarrow>
    pool_step pb p (set_worker i AtGate p)"
| ps_pop: "i < length (wp_workers p) \<Longrightarrow> wp_workers p ! i = Waiting \<Longrightarrow> eq_wait_pop (wp_queue p) = Popped e q \<Longrightarrow>
    take_event pb e (wp_executing p) = (w, ex) \<Longrightarrow> pool_step pb p (set_worker i w (p\<lparr> wp_queue := q, wp_executing := ex \<rparr>))"
| ps_end: "i < length (wp_workers p) \<Longrightarrow> wp_workers p ! i = Executing conn t \<Longrightarrow>
    pool_step pb p (set_worker i AtGate (p\<lparr> wp_executing := handle_event_end conn t (wp_executing p) \<rparr>))"
| ps_failed: "i < length (wp_workers p) \<Longrightarrow> wp_workers p ! i = Executing conn t \<Longrightarrow>
    pool_step pb p (set_worker i AtGate (p\<lparr> wp_executing := handle_event_failed conn t (wp_executing p) \<rparr>))"
| ps_served: "i < length (wp_workers p) \<Longrightarrow> wp_workers p ! i = Serving \<Longrightarrow> pool_step pb p (set_worker i AtGate p)"

inductive pool_reach :: "(EnvelopeType \<Rightarrow> string \<Rightarrow> 'p option) \<Rightarrow> worker_pool \<Rightarrow> bool" for pb where
  pool_init: "pool_reach pb (wp_new capacity)"
| pool_next: "pool_reach pb p \<Longrightarrow> pool_step pb p p' \<Longrightarrow> pool_reach pb p'"

section \<open>The guard\<close>

text \<open>The commands the workers execute, and the part of them that is guarded.\<close>

definition in_flight :: "worker_pool \<Rightarrow> GlobalConnId \<Rightarrow> EnvelopeType \<Rightarrow> nat set" where
  "in_flight p conn t = {i. i < length (wp_workers p) \<and> wp_workers p ! i = Executing conn t}"

definition marked :: "executing \<Rightarrow> GlobalConnId \<Rightarrow> EnvelopeType \<Rightarrow> bool" where
  "marked ex conn t \<longleftrightarrow> t \<in> set (lookup_or [] conn ex)"

text \<open>The representation: one entry per connection, and none without a type.\<close>

definition tidy :: "executing \<Rightarrow> bool" where
  "tidy ex \<longleftrightarrow> umap_ok ex \<and> [] \<notin> snd ` set ex"

definition guard_ok :: "worker_pool \<Rightarrow> bool" where
  "guard_ok p \<longleftrightarrow> tidy (wp_executing p)
     \<and> (\<forall>conn t. marked (wp_executing p) conn t \<longleftrightarrow> command_uses_inflight_dedup t \<and> in_flight p conn t \<noteq> {})
     \<and> (\<forall>conn t i j. command_uses_inflight_dedup t \<longrightarrow> i \<in> in_flight p conn t \<longrightarrow> j \<in> in_flight p conn t \<longrightarrow> i = j)"

lemma marked_try_mark:
  "try_mark_executing conn t ex = (b, ex') \<Longrightarrow>
   b = (\<not> marked ex conn t) \<and> (\<forall>c u. marked ex' c u \<longleftrightarrow> marked ex c u \<or> c = conn \<and> u = t)"
  by (auto simp: try_mark_executing_def marked_def lookup_or_def Let_def split: if_splits option.splits)

lemma marked_unmark:
  "marked (unmark_executing conn t ex) c u \<longleftrightarrow> marked ex c u \<and> \<not> (c = conn \<and> u = t)"
proof (cases "map_of ex conn")
  case None
  then show ?thesis by (auto simp: unmark_executing_def marked_def lookup_or_def)
next
  case (Some types)
  show ?thesis
  proof (cases "removeAll t types = []")
    case True
    then have "set types \<subseteq> {t}" by (metis Diff_eq_empty_iff set_empty set_removeAll)
    with Some True show ?thesis by (auto simp: unmark_executing_def marked_def lookup_or_def Let_def)
  next
    case False
    with Some show ?thesis by (simp add: unmark_executing_def marked_def lookup_or_def Let_def)
  qed
qed

lemma delete_values: "snd ` set (AList.delete k m) \<subseteq> snd ` set m"
  by (induction m) auto

lemma update_values: "snd ` set (AList.update k v m) \<subseteq> insert v (snd ` set m)"
  by (induction m) auto

lemma tidy_update: "tidy ex \<Longrightarrow> types \<noteq> [] \<Longrightarrow> tidy (AList.update conn types ex)"
  using update_values[of conn types ex] unfolding tidy_def by (metis insertE subsetD umap_ok_update)

lemma tidy_delete: "tidy ex \<Longrightarrow> tidy (AList.delete conn ex)"
  using delete_values[of conn ex] unfolding tidy_def by (metis subsetD umap_ok_delete)

lemma tidy_try_mark: "tidy ex \<Longrightarrow> try_mark_executing conn t ex = (b, ex') \<Longrightarrow> tidy ex'"
  by (auto simp: try_mark_executing_def Let_def tidy_update split: if_splits)

lemma tidy_unmark: "tidy ex \<Longrightarrow> tidy (unmark_executing conn t ex)"
  by (simp add: unmark_executing_def Let_def tidy_update tidy_delete split: option.split)

lemma tidy_unmarked:
  assumes "tidy ex" "\<And>conn t. \<not> marked ex conn t"
  shows "ex = []"
proof (rule ccontr)
  assume "ex \<noteq> []"
  then obtain conn types where entry: "(conn, types) \<in> set ex" by (cases ex) auto
  then have "types \<in> snd ` set ex" by force
  with assms(1) have "types \<noteq> []" by (metis tidy_def)
  moreover from entry assms(1) have "map_of ex conn = Some types" by (simp add: tidy_def umap_mem)
  ultimately show False using assms(2)[of conn "hd types"] by (simp add: marked_def)
qed

lemma in_flight_set_worker:
  "i < length (wp_workers p) \<Longrightarrow>
   in_flight (set_worker i w p) conn t = (if w = Executing conn t then insert i (in_flight p conn t) else in_flight p conn t - {i})"
  by (auto simp: in_flight_def set_worker_def nth_list_update)

lemma in_flight_cong: "wp_workers p = wp_workers p' \<Longrightarrow> in_flight p = in_flight p'"
  by (simp add: in_flight_def fun_eq_iff)

lemma guard_ok_frame: "guard_ok p \<Longrightarrow> wp_workers p' = wp_workers p \<Longrightarrow> wp_executing p' = wp_executing p \<Longrightarrow> guard_ok p'"
  by (simp add: guard_ok_def in_flight_cong[of p' p])

text \<open>A pool in which nobody executes a command.\<close>

lemma guard_ok_resting:
  assumes "guard_ok p" "wp_executing p' = wp_executing p" "\<And>conn t. in_flight p conn t = {}" "\<And>conn t. in_flight p' conn t = {}"
  shows "guard_ok p'"
  using assms by (simp add: guard_ok_def)

text \<open>A worker that executes no command turns to something else that is no command.\<close>

lemma guard_ok_idle_move:
  assumes "guard_ok p" "i < length (wp_workers p)" "\<And>conn t. wp_workers p ! i \<noteq> Executing conn t" "\<And>conn t. w \<noteq> Executing conn t"
  shows "guard_ok (set_worker i w p)"
proof -
  have "i \<notin> in_flight p conn t" for conn t using assms(3) by (simp add: in_flight_def)
  then have "in_flight (set_worker i w p) = in_flight p"
    using assms(2,4) by (simp add: in_flight_set_worker fun_eq_iff)
  then show ?thesis using assms(1) by (simp add: guard_ok_def) (simp add: set_worker_def)
qed

text \<open>A worker begins a command.\<close>

lemma guard_ok_begin:
  assumes ok: "guard_ok p" and i: "i < length (wp_workers p)" "\<And>conn t. wp_workers p ! i \<noteq> Executing conn t"
    and took: "handle_event_begin pb conn env (wp_executing p) = (Accepted v, ex)"
  shows "guard_ok (set_worker i (Executing conn (env_type env)) (p\<lparr> wp_executing := ex \<rparr>))"
proof -
  let ?t = "env_type env" and ?p = "set_worker i (Executing conn (env_type env)) (p\<lparr> wp_executing := ex \<rparr>)"
  have "i \<notin> in_flight p c u" for c u using i(2) by (simp add: in_flight_def)
  then have fl: "in_flight ?p c u = (if c = conn \<and> u = ?t then insert i (in_flight p c u) else in_flight p c u)" for c u
    using i(1) in_flight_set_worker[of i "p\<lparr> wp_executing := ex \<rparr>" "Executing conn ?t" c u] in_flight_cong[of "p\<lparr> wp_executing := ex \<rparr>" p]
    by auto
  show ?thesis
  proof (cases "command_uses_inflight_dedup ?t")
    case False
    with took have "ex = wp_executing p"
      by (auto simp: handle_event_begin_def split: sum.splits)
    then show ?thesis using ok False fl by (auto simp: guard_ok_def set_worker_def)
  next
    case True
    with took have mark: "try_mark_executing conn ?t (wp_executing p) = (True, ex)"
      by (auto simp: handle_event_begin_def split: sum.splits prod.splits bool.splits)
    from marked_try_mark[OF this] have new: "\<not> marked (wp_executing p) conn ?t"
      and marked: "\<And>c u. marked ex c u \<longleftrightarrow> marked (wp_executing p) c u \<or> c = conn \<and> u = ?t" by auto
    from new True ok have "in_flight p conn ?t = {}" by (auto simp: guard_ok_def)
    moreover from tidy_try_mark[OF _ mark] ok have "tidy ex" by (simp add: guard_ok_def)
    ultimately show ?thesis
      using ok True unfolding guard_ok_def fl by (auto simp: marked set_worker_def)
  qed
qed

text \<open>A worker ends a command, one way or the other.\<close>

lemma guard_ok_finish:
  assumes ok: "guard_ok p" and i: "i < length (wp_workers p)" "wp_workers p ! i = Executing conn t"
    and ex: "ex = handle_event_end conn t (wp_executing p) \<or> ex = handle_event_failed conn t (wp_executing p)"
  shows "guard_ok (set_worker i AtGate (p\<lparr> wp_executing := ex \<rparr>))"
proof -
  let ?p = "set_worker i AtGate (p\<lparr> wp_executing := ex \<rparr>)"
  have fl: "in_flight ?p c u = in_flight p c u - {i}" for c u
    using i(1) in_flight_set_worker[of i "p\<lparr> wp_executing := ex \<rparr>" AtGate c u] in_flight_cong[of "p\<lparr> wp_executing := ex \<rparr>" p]
    by simp
  have mem: "i \<in> in_flight p c u \<longleftrightarrow> c = conn \<and> u = t" for c u using i by (auto simp: in_flight_def)
  have "tidy ex" using ok ex by (auto simp: guard_ok_def handle_event_end_def handle_event_failed_def tidy_unmark)
  moreover have "marked ex c u \<longleftrightarrow> marked (wp_executing p) c u \<and> \<not> (c = conn \<and> u = t)" for c u
    using ex ok by (auto simp: handle_event_end_def handle_event_failed_def marked_unmark guard_ok_def split: if_splits)
  moreover have "in_flight p conn t = {i}" if "command_uses_inflight_dedup t"
    using ok that mem by (auto simp: guard_ok_def)
  ultimately show ?thesis
    using ok mem unfolding guard_ok_def fl by (auto simp: set_worker_def)
qed

lemma guard_ok_take:
  assumes ok: "guard_ok p" and i: "i < length (wp_workers p)" "wp_workers p ! i = Waiting"
    and take: "take_event pb e (wp_executing p) = (w, ex)"
  shows "guard_ok (set_worker i w (p\<lparr> wp_executing := ex \<rparr>))"
proof (cases "\<exists>conn t. w = Executing conn t")
  case True
  with take obtain conn env v where "w = Executing conn (env_type env)" "handle_event_begin pb conn env (wp_executing p) = (Accepted v, ex)"
    by (cases e) (auto split: prod.splits begun.splits)
  with guard_ok_begin[OF ok i(1)] i(2) show ?thesis by simp
next
  case False
  have "ex = wp_executing p"
  proof (cases e)
    case (MessageEvent conn env)
    with take False show ?thesis
      by (auto simp: handle_event_begin_def try_mark_executing_def Let_def split: sum.splits if_splits prod.splits begun.splits)
  qed (use take in auto)
  with guard_ok_idle_move[OF ok i(1), of w] False i(2) show ?thesis by simp
qed

lemma guard_ok_step: "pool_step pb p p' \<Longrightarrow> guard_ok p \<Longrightarrow> guard_ok p'"
proof (induction rule: pool_step.induct)
  case (ps_start p n)
  then show ?case by (auto intro!: guard_ok_resting[of p] simp: in_flight_def wp_start_def)
next
  case (ps_stop p)
  then show ?case by (auto elim: guard_ok_frame simp: wp_stop_def)
next
  case (ps_join p)
  then show ?case by (auto intro!: guard_ok_resting[of p] simp: in_flight_def all_set_conv_all_nth)
next
  case (ps_pause p)
  then show ?case by (auto elim: guard_ok_frame simp: wp_pause_def)
next
  case (ps_resume p)
  then show ?case by (auto elim: guard_ok_frame simp: wp_resume_def)
next
  case (ps_push p e)
  then show ?case by (auto elim: guard_ok_frame)
next
  case (ps_gate i p w)
  then show ?case by (auto intro!: guard_ok_idle_move simp: pass_gate_def split: if_splits)
next
  case (ps_drained i p)
  then show ?case by (auto intro!: guard_ok_idle_move)
next
  case (ps_pop i p e q w ex)
  from ps_pop.prems have "guard_ok (p\<lparr> wp_queue := q \<rparr>)" by (rule guard_ok_frame) simp_all
  from guard_ok_take[OF this, of i pb e w ex] ps_pop.hyps show ?case by simp
next
  case (ps_end i p conn t)
  then show ?case by (auto intro: guard_ok_finish)
next
  case (ps_failed i p conn t)
  then show ?case by (auto intro: guard_ok_finish)
next
  case (ps_served i p)
  then show ?case by (auto intro!: guard_ok_idle_move)
qed

lemma guard_ok_reach: "pool_reach pb p \<Longrightarrow> guard_ok p"
proof (induction rule: pool_reach.induct)
  case (pool_init capacity)
  show ?case by (simp add: wp_new_def guard_ok_def tidy_def marked_def lookup_or_def in_flight_def)
qed (rule guard_ok_step)

lemma in_flight_iff: "in_flight p conn t \<noteq> {} \<longleftrightarrow> Executing conn t \<in> set (wp_workers p)"
  by (auto simp: in_flight_def in_set_conv_nth)

lemma handle_event_begin_duplicate:
  "fst (handle_event_begin pb conn env ex) = Duplicate \<longleftrightarrow>
   (\<exists>v. parse_inbound_payload pb env = Inr v) \<and> command_uses_inflight_dedup (env_type env) \<and> marked ex conn (env_type env)"
  by (auto simp: handle_event_begin_def try_mark_executing_def marked_def Let_def split: sum.splits if_splits)

text \<open>C17: In every state the worker pool can reach, with any number of threads and any interleaving of them, pauses, exceptions
  thrown by commands, and a stop included: no two workers execute the same guarded command of the same connection; the guard
  holds exactly the guarded commands being executed, so a message is dropped as a duplicate exactly when it is valid, its
  command is guarded and a worker executes that command of that connection right now; and when no worker executes a
  command the guard is empty, so no failure locks a connection out of a command and no entry is left behind.\<close>

theorem inflight_guard_exact:
  assumes "pool_reach pb p"
  shows "(\<forall>conn t i j. command_uses_inflight_dedup t \<and> i < length (wp_workers p) \<and> j < length (wp_workers p)
            \<and> wp_workers p ! i = Executing conn t \<and> wp_workers p ! j = Executing conn t \<longrightarrow> i = j)
       \<and> (\<forall>conn env. fst (handle_event_begin pb conn env (wp_executing p)) = Duplicate \<longleftrightarrow>
            (\<exists>v. parse_inbound_payload pb env = Inr v) \<and> command_uses_inflight_dedup (env_type env)
            \<and> Executing conn (env_type env) \<in> set (wp_workers p))
       \<and> ((\<forall>conn t. Executing conn t \<notin> set (wp_workers p)) \<longrightarrow> wp_executing p = [])"
proof -
  from assms have ok: "guard_ok p" by (rule guard_ok_reach)
  then have marked: "marked (wp_executing p) conn t \<longleftrightarrow> command_uses_inflight_dedup t \<and> Executing conn t \<in> set (wp_workers p)" for conn t
    by (simp add: guard_ok_def in_flight_iff)
  have "\<forall>conn t i j. command_uses_inflight_dedup t \<and> i < length (wp_workers p) \<and> j < length (wp_workers p)
            \<and> wp_workers p ! i = Executing conn t \<and> wp_workers p ! j = Executing conn t \<longrightarrow> i = j"
    using ok by (auto simp: guard_ok_def in_flight_def)
  moreover from ok have "tidy (wp_executing p)" by (simp add: guard_ok_def)
  from tidy_unmarked[OF this] marked have "(\<forall>conn t. Executing conn t \<notin> set (wp_workers p)) \<longrightarrow> wp_executing p = []" by blast
  ultimately show ?thesis by (auto simp: handle_event_begin_duplicate marked)
qed

text \<open>A pool of two workers whose second worker waits for an event while the pool is paused, and that pool after a client's
  request was taken all the same.\<close>

definition any_payload :: "EnvelopeType \<Rightarrow> string \<Rightarrow> string option" where
  "any_payload t bytes = Some bytes"

definition client :: GlobalConnId where
  "client = GlobalConnId ''net'' ''7''"

definition sync_request :: Envelope where
  "sync_request = \<lparr> env_version = 1, env_type = REQUEST_STATE_SYNC, env_seq = 0, env_payload = [] \<rparr>"

definition paused_pool :: worker_pool where
  "paused_pool = wp_pause (set_worker 1 Waiting (wp_start 2 (wp_new 10)))"

definition fed_pool :: worker_pool where
  "fed_pool = paused_pool\<lparr> wp_queue := fst (eq_push (MessageEvent client sync_request) (wp_queue paused_pool)) \<rparr>"

definition busy_pool :: worker_pool where
  "busy_pool = set_worker 1 (Executing client REQUEST_STATE_SYNC)
     (fed_pool\<lparr> wp_queue := (wp_queue fed_pool)\<lparr> eq_high := [], eq_size := 0 \<rparr>, wp_executing := [(client, [REQUEST_STATE_SYNC])] \<rparr>)"

lemma paused_pool_reach: "pool_reach pb paused_pool"
proof -
  have "pool_reach pb (wp_start 2 (wp_new 10))"
    by (rule pool_next[OF pool_init ps_start]) (simp add: wp_new_def)
  moreover have "pool_step pb (wp_start 2 (wp_new 10)) (set_worker 1 Waiting (wp_start 2 (wp_new 10)))"
    by (rule ps_gate) (simp_all add: wp_new_def wp_start_def pass_gate_def)
  ultimately show ?thesis unfolding paused_pool_def by (blast intro: pool_next ps_pause)
qed

lemma fed_pool_reach: "pool_reach pb fed_pool"
  unfolding fed_pool_def by (rule pool_next[OF paused_pool_reach ps_push])

lemmas sample_pool_defs = busy_pool_def fed_pool_def paused_pool_def wp_pause_def wp_start_def wp_new_def set_worker_def eq_new_def numeral_2_eq_2

lemma fed_pool_pop: "pool_step any_payload fed_pool busy_pool"
  unfolding busy_pool_def
proof (rule ps_pop)
  show "eq_wait_pop (wp_queue fed_pool) = Popped (MessageEvent client sync_request) ((wp_queue fed_pool)\<lparr> eq_high := [], eq_size := 0 \<rparr>)"
    by (simp add: sample_pool_defs sync_request_def eq_wait_pop_def eq_push_defs pop_front_locked_def Let_def)
  show "take_event any_payload (MessageEvent client sync_request) (wp_executing fed_pool)
      = (Executing client REQUEST_STATE_SYNC, [(client, [REQUEST_STATE_SYNC])])"
    by (simp add: sample_pool_defs handle_event_begin_def parse_inbound_payload_def sync_request_def any_payload_def
        command_uses_inflight_dedup_def try_mark_executing_def lookup_or_def set_insert_def)
qed (simp_all add: sample_pool_defs)

lemma busy_pool_reach: "pool_reach any_payload busy_pool"
  by (rule pool_next[OF fed_pool_reach fed_pool_pop])

theorem inflight_guard_exact_witness:
  "pool_reach any_payload busy_pool \<and> wp_workers busy_pool = [AtGate, Executing client REQUEST_STATE_SYNC]
   \<and> fst (handle_event_begin any_payload client sync_request (wp_executing busy_pool)) = Duplicate"
proof -
  have workers: "wp_workers busy_pool = [AtGate, Executing client REQUEST_STATE_SYNC]" by (simp add: sample_pool_defs)
  have "\<exists>v. parse_inbound_payload any_payload sync_request = Inr v" "command_uses_inflight_dedup (env_type sync_request)"
    "env_type sync_request = REQUEST_STATE_SYNC"
    by (simp_all add: parse_inbound_payload_def sync_request_def any_payload_def command_uses_inflight_dedup_def)
  with inflight_guard_exact[OF busy_pool_reach] workers busy_pool_reach show ?thesis by simp
qed

text \<open>Pausing the pool does not stop it at once: a worker that was already waiting for an event takes one more, and executes
  it.\<close>

theorem paused_pool_takes_event:
  "pool_reach any_payload fed_pool \<and> wp_paused fed_pool \<and> wp_paused busy_pool
   \<and> pool_step any_payload fed_pool busy_pool \<and> Executing client REQUEST_STATE_SYNC \<in> set (wp_workers busy_pool)"
proof -
  have "wp_paused fed_pool" "wp_paused busy_pool" "Executing client REQUEST_STATE_SYNC \<in> set (wp_workers busy_pool)"
    by (simp_all add: sample_pool_defs)
  then show ?thesis using fed_pool_reach fed_pool_pop by blast
qed

end
