(* ===== verification/Commands.thy ===== *)
theory Commands
  imports Users VoiceService Invites Presence Workers
begin

text \<open>
  What the command handlers of \<^verbatim>\<open>src/app/commands\<close> share: the state behind \<^verbatim>\<open>CommandContext\<close>, the messages they send, and the
  helpers of \<^verbatim>\<open>src/app/commands/utils.cpp\<close>.

  A handler is a computation on the whole application state that gives the messages to send; \<^const>\<open>Inl\<close> is an exception that
  leaves the handler and is caught by the worker loop. Messages are data types; their protobuf serialization is a
  parameter. The audit log is written by a queue of its own and is not modelled.
\<close>

section \<open>State\<close>

text \<open>The sessions, the subscriptions and the Redis server are those of the voice services.\<close>

record 'r app =
  a_voice :: "'r voice"
  a_hubs :: hub_service
  a_users :: "user_any mem_cache"

text \<open>\<^verbatim>\<open>CommandErrorCode\<close> with the numbers of \<^verbatim>\<open>src/proto/event/error.proto\<close>.\<close>

datatype CommandErrorCode =
    CommandErrorCode_UNSPECIFIED | UNAUTHORIZED | TOKEN_EXPIRED | FORBIDDEN | INVALID_SESSION | INVALID_FORMAT
  | INVALID_ARGUMENT | DUPLICATE_COMMAND | NOT_FOUND | RATE_LIMITED | INTERNAL_ERROR | DUPLICATE_IN_FLIGHT
  | VOICE_TAKEOVER_REQUIRED | SESSION_LIMIT_EXCEEDED | INVITE_EXPIRED

fun code_number :: "CommandErrorCode \<Rightarrow> int" where
  "code_number CommandErrorCode_UNSPECIFIED = 0"
| "code_number UNAUTHORIZED = 1"
| "code_number TOKEN_EXPIRED = 2"
| "code_number FORBIDDEN = 3"
| "code_number INVALID_SESSION = 4"
| "code_number INVALID_FORMAT = 10"
| "code_number INVALID_ARGUMENT = 11"
| "code_number DUPLICATE_COMMAND = 12"
| "code_number NOT_FOUND = 13"
| "code_number RATE_LIMITED = 14"
| "code_number INTERNAL_ERROR = 15"
| "code_number DUPLICATE_IN_FLIGHT = 16"
| "code_number VOICE_TAKEOVER_REQUIRED = 17"
| "code_number SESSION_LIMIT_EXCEEDED = 18"
| "code_number INVITE_EXPIRED = 19"

section \<open>Messages\<close>

text \<open>The messages of \<^verbatim>\<open>src/proto/event/state.proto\<close>, with the fields the modelled handlers set.\<close>

datatype HubRole = HubRole_UNSPECIFIED | HubRole_MEMBER | HubRole_OWNER | HubRole_ADMIN | HubRole_other int

datatype ProtoChannelType = ChannelType_UNSPECIFIED | ChannelType_TEXT | ChannelType_VOICE | ChannelType_other int

fun to_proto_hub_role :: "Role option \<Rightarrow> HubRole" where
  "to_proto_hub_role (Some OWNER) = HubRole_OWNER"
| "to_proto_hub_role (Some ADMIN) = HubRole_ADMIN"
| "to_proto_hub_role _ = HubRole_MEMBER"

fun to_proto_channel_type :: "ChannelType \<Rightarrow> ProtoChannelType" where
  "to_proto_channel_type VOICE = ChannelType_VOICE"
| "to_proto_channel_type CHAT = ChannelType_TEXT"

fun from_proto_channel_type :: "ProtoChannelType \<Rightarrow> ChannelType" where
  "from_proto_channel_type ChannelType_VOICE = VOICE"
| "from_proto_channel_type _ = CHAT"

text \<open>A user of which only the identifier may be known.\<close>

datatype proto_user = ProtoUser UserId string string string | ProtoUserId UserId

definition to_proto_user :: "User \<Rightarrow> proto_user" where
  "to_proto_user x = ProtoUser (u_id x) (u_username x) (u_avatar_seed x) (u_display_name x)"

definition proto_user_of :: "UserId \<Rightarrow> User option \<Rightarrow> proto_user" where
  "proto_user_of u x = (case x of Some x \<Rightarrow> to_proto_user x | None \<Rightarrow> ProtoUserId u)"

datatype proto_hub = ProtoHub HubId string string

definition to_proto_hub :: "Hub \<Rightarrow> proto_hub" where
  "to_proto_hub h = ProtoHub (hub_id h) (hub_name h) (hub_avatar_seed h)"

datatype hub_member = HubMember UserId HubRole bool

definition to_proto_hub_member :: "UserId \<Rightarrow> Role option \<Rightarrow> bool \<Rightarrow> hub_member" where
  "to_proto_hub_member u role online = HubMember u (to_proto_hub_role role) online"

datatype proto_channel = ProtoChannel ChannelId ProtoChannelType string | ProtoChannelId ChannelId

definition to_proto_channel :: "Channel \<Rightarrow> proto_channel" where
  "to_proto_channel c = ProtoChannel (channel_id c) (to_proto_channel_type (channel_type c)) (channel_name c)"

datatype hub_op = HubUpsert proto_hub | HubRemove | HubJoinCodeSet string

datatype member_op = MemberUpsert hub_member | MemberRemove UserId

datatype channel_op = ChannelUpsert proto_channel | ChannelRemove

record hub_delta =
  hd_hub :: HubId
  hd_hub_ops :: "hub_op list"
  hd_member_ops :: "member_op list"
  hd_user_ops :: "proto_user list"
  hd_channels :: "(ChannelId \<times> channel_op list) list"

definition delta_of :: "HubId \<Rightarrow> hub_delta" where
  "delta_of h = \<lparr> hd_hub = h, hd_hub_ops = [], hd_member_ops = [], hd_user_ops = [], hd_channels = [] \<rparr>"

record channel_state =
  cs_channel :: proto_channel
  cs_voice :: "(64 word \<times> ParticipantInfo list) option"

record hub_sync =
  hy_hub :: proto_hub
  hy_members :: "hub_member list"
  hy_users :: "proto_user list"
  hy_channels :: "channel_state list"

record state_sync =
  sy_self :: proto_user
  sy_hubs :: "hub_sync list"

datatype app_event =
    CommandErrorEvent EnvelopeType CommandErrorCode string
  | StateDelta hub_delta
  | StateSync state_sync
  | InvitePreview proto_hub

section \<open>Environment\<close>

text \<open>\<open>ae_transient\<close> is the text of a transient error, which quotes the client library.\<close>

record 'r app_env =
  ae_voice :: "'r voice_env"
  ae_hub :: hub_env
  ae_ser :: "app_event \<Rightarrow> string"
  ae_base_url :: string
  ae_transient :: string

definition make_command_error :: "'r app_env \<Rightarrow> GlobalConnId \<Rightarrow> EnvelopeType \<Rightarrow> CommandErrorCode \<Rightarrow> string \<Rightarrow> OutgoingMessage" where
  "make_command_error env conn type code message = make_outgoing_message [conn] (ae_ser env (CommandErrorEvent type code message))"

definition make_state_delta :: "'r app_env \<Rightarrow> GlobalConnId list \<Rightarrow> hub_delta \<Rightarrow> OutgoingMessage" where
  "make_state_delta env conns d = make_outgoing_message conns (ae_ser env (StateDelta d))"

definition make_state_sync :: "'r app_env \<Rightarrow> GlobalConnId list \<Rightarrow> state_sync \<Rightarrow> OutgoingMessage" where
  "make_state_sync env conns sync = make_outgoing_message conns (ae_ser env (StateSync sync))"

type_synonym 'r command = "('r app, OutgoingMessage list) work"

text \<open>The early return with one error message, and with a dropped connection.\<close>

definition reject :: "'r app_env \<Rightarrow> GlobalConnId \<Rightarrow> EnvelopeType \<Rightarrow> CommandErrorCode \<Rightarrow> string \<Rightarrow> 'r command" where
  "reject env conn type code message = return_work [make_command_error env conn type code message]"

definition drop_conn :: "GlobalConnId \<Rightarrow> CommandErrorCode \<Rightarrow> string \<Rightarrow> 'r command" where
  "drop_conn conn code reason = return_work [make_drop_connection conn (code_number code) reason]"

section \<open>Services in the application state\<close>

definition on_hubs :: "(hub_service, 'a) work \<Rightarrow> ('r app, 'a) work" where
  "on_hubs m a = (case m (a_hubs a) of (r, s) \<Rightarrow> (r, a\<lparr> a_hubs := s \<rparr>))"

text \<open>Both services use the same database and the same pool.\<close>

definition on_users :: "(user_service \<Rightarrow> 'b \<times> user_service) \<Rightarrow> 'r app \<Rightarrow> 'b \<times> 'r app" where
  "on_users m a =
     (case m \<lparr> us_db = hs_db (a_hubs a), us_faults = hs_faults (a_hubs a), us_cache = a_users a \<rparr> of
        (r, s) \<Rightarrow> (r, a\<lparr> a_hubs := (a_hubs a)\<lparr> hs_db := us_db s, hs_faults := us_faults s \<rparr>, a_users := us_cache s \<rparr>))"

definition on_voice :: "('r voice \<Rightarrow> 'b \<times> 'r voice) \<Rightarrow> ('r app, 'b) work" where
  "on_voice m a = (case m (a_voice a) of (r, w) \<Rightarrow> (Inr r, a\<lparr> a_voice := w \<rparr>))"

definition on_redis :: "('r \<Rightarrow> 'b \<times> 'r) \<Rightarrow> ('r app, 'b) work" where
  "on_redis m = on_voice (\<lambda>w. case m (v_ext w) of (r, x) \<Rightarrow> (r, w\<lparr> v_ext := x \<rparr>))"

definition on_subs :: "(subscriptions \<Rightarrow> subscriptions) \<Rightarrow> ('r app, unit) work" where
  "on_subs f = on_voice (\<lambda>w. ((), w\<lparr> v_subs := f (v_subs w) \<rparr>))"

text \<open>A read of the state.\<close>

definition asks :: "('r app \<Rightarrow> 'b) \<Rightarrow> ('r app, 'b) work" where
  "asks f a = (Inr (f a), a)"

text \<open>\<^verbatim>\<open>try { x = m; } catch (e) { return h(e); }\<close> followed by \<open>k x\<close>.\<close>

definition try_else :: "('s, 'a) work \<Rightarrow> (db_error \<Rightarrow> ('s, 'b) work) \<Rightarrow> ('a \<Rightarrow> ('s, 'b) work) \<Rightarrow> ('s, 'b) work" where
  "try_else m h k s = (case m s of (Inl e, s) \<Rightarrow> h e s | (Inr x, s) \<Rightarrow> k x s)"

definition sessions_of :: "'r app \<Rightarrow> session_manager" where
  "sessions_of a = v_app (a_voice a)"

definition conn_user :: "GlobalConnId \<Rightarrow> 'r app \<Rightarrow> UserId option" where
  "conn_user conn a = (case sessionOfConnection conn (sessions_of a) of Inl _ \<Rightarrow> None | Inr u \<Rightarrow> Some u)"

text \<open>The first lines of every handler.\<close>

definition with_user :: "GlobalConnId \<Rightarrow> 'r command \<Rightarrow> (UserId \<Rightarrow> 'r command) \<Rightarrow> 'r command" where
  "with_user conn otherwise k = bind_work (asks (conn_user conn)) (\<lambda>u. case u of None \<Rightarrow> otherwise | Some u \<Rightarrow> k u)"

definition hub_subscribers :: "HubId \<Rightarrow> 'r app \<Rightarrow> GlobalConnId list" where
  "hub_subscribers h a = subscribers (HubTopic h) (v_subs (a_voice a))"

text \<open>The connections of the user, or the one that asks if there are none.\<close>

definition self_conns :: "UserId \<Rightarrow> GlobalConnId \<Rightarrow> 'r app \<Rightarrow> GlobalConnId list" where
  "self_conns u conn a = (let cs = getSessionConnections u (sessions_of a) in if cs = [] then [conn] else cs)"

definition unsubscribe :: "Topic \<Rightarrow> GlobalConnId \<Rightarrow> subscriptions \<Rightarrow> subscriptions" where
  "unsubscribe t conn s = snd (unsubscribeConnection conn t s)"

definition unsubscribe_hub :: "HubId \<Rightarrow> ChannelId list \<Rightarrow> GlobalConnId list \<Rightarrow> subscriptions \<Rightarrow> subscriptions" where
  "unsubscribe_hub h cs conns s =
     fold (\<lambda>conn s. fold (\<lambda>c. unsubscribe (ChannelTopic h c) conn) cs (unsubscribe (HubTopic h) conn s)) conns s"

definition subscribe_all :: "Topic \<Rightarrow> GlobalConnId list \<Rightarrow> subscriptions \<Rightarrow> subscriptions" where
  "subscribe_all t conns s = fold (\<lambda>conn s. snd (subscribeConnection conn t s)) conns s"

section \<open>Texts\<close>

definition sanitize :: "string \<Rightarrow> string" where
  "sanitize s = rev (dropWhile is_space (rev (dropWhile is_space s)))"

definition utf8_length :: "string \<Rightarrow> nat" where
  "utf8_length s = length (filter (\<lambda>c. of_char c div 64 \<noteq> (2 :: nat)) s)"

definition contains :: "string \<Rightarrow> string \<Rightarrow> bool" where
  "contains what needle = (find_sub needle what \<noteq> None)"

definition map_channel_write_error :: "string \<Rightarrow> string option" where
  "map_channel_write_error what =
     (if contains what ''idx_channels_hub_name_unique'' \<or> contains what ''23505'' \<or> contains what ''duplicate key'' then Some ''Channel name already exists''
      else if contains what ''Channel limit reached'' \<or> contains what ''max 3 channels'' then Some ''Channel limit reached: max 3 channels per hub''
      else if contains what ''channels_name_length'' then Some ''Channel name must be between 1 and 80 characters''
      else if contains what ''Channel type cannot be changed'' then Some ''Channel type cannot be changed''
      else None)"

definition map_hub_write_error :: "string \<Rightarrow> string option" where
  "map_hub_write_error what =
     (if contains what ''Hub ownership limit reached'' \<or> contains what ''max 2 hubs'' then Some ''Hub limit reached: you can own at most 2 hubs''
      else if contains what ''hubs_name_length'' then Some ''Hub name must be between 1 and 80 characters''
      else if contains what ''hubs_avatar_seed_length'' then Some ''Avatar seed must be at most 128 characters''
      else None)"

definition normalize_name_lowercase :: "string \<Rightarrow> string" where
  "normalize_name_lowercase s = map to_lower s"

definition to_channel_scope :: "HubId \<Rightarrow> ChannelId \<Rightarrow> (HubId \<times> ChannelId) option" where
  "to_channel_scope h c = (if h = [] \<or> c = [] then None else Some (h, c))"

text \<open>\<^verbatim>\<open>what()\<close> of an exception.\<close>

definition what :: "'r app_env \<Rightarrow> db_error \<Rightarrow> string" where
  "what env e = (case e of SqlFailure msg \<Rightarrow> msg | TransientPersistenceError \<Rightarrow> ae_transient env)"

definition reject_write :: "'r app_env \<Rightarrow> GlobalConnId \<Rightarrow> EnvelopeType \<Rightarrow> (string \<Rightarrow> string option) \<Rightarrow> string \<Rightarrow> db_error \<Rightarrow> 'r command" where
  "reject_write env conn type mapping otherwise e =
     (case mapping (what env e) of
        Some msg \<Rightarrow> reject env conn type INVALID_ARGUMENT msg
      | None \<Rightarrow> reject env conn type INTERNAL_ERROR otherwise)"

end
