(* ===== verification/HubCommands.thy ===== *)
theory HubCommands
  imports Commands
begin

text \<open>
  The handlers for hubs and channels (\<^verbatim>\<open>src/app/commands/hub\<close>, \<^verbatim>\<open>src/app/commands/channel\<close>) and the snapshots of
  \<^verbatim>\<open>src/app/commands/session/StateSyncBuilder.cpp\<close>. New identifiers, the clock and random numbers are arguments.
\<close>

section \<open>Snapshots for clients\<close>

fun map_work :: "('x \<Rightarrow> ('s, 'a) work) \<Rightarrow> 'x list \<Rightarrow> ('s, 'a list) work" where
  "map_work f [] = return_work []"
| "map_work f (x # xs) = bind_work (f x) (\<lambda>y. bind_work (map_work f xs) (\<lambda>ys. return_work (y # ys)))"

fun filter_work :: "('x \<Rightarrow> ('s, bool) work) \<Rightarrow> 'x list \<Rightarrow> ('s, 'x list) work" where
  "filter_work f [] = return_work []"
| "filter_work f (x # xs) = bind_work (f x) (\<lambda>b. bind_work (filter_work f xs) (\<lambda>ys. return_work (if b then x # ys else ys)))"

definition populate_self_user :: "'r app_env \<Rightarrow> UserId \<Rightarrow> ('r app, proto_user) work" where
  "populate_self_user env u = bind_work (on_users (getUser (ae_hub env) u)) (\<lambda>x. return_work (proto_user_of u x))"

type_synonym hub_input = "Hub \<times> HubTopology"

definition collect_hub_inputs :: "'r app_env \<Rightarrow> Hub list \<Rightarrow> ('r app, hub_input list) work" where
  "collect_hub_inputs env hubs =
     (if hubs = [] then return_work []
      else bind_work (on_hubs (warmSnapshotsForHubs (ae_hub env) hubs)) (\<lambda>_.
             map_work (\<lambda>hub. bind_work (on_hubs (getHubTopology (ae_hub env) (hub_id hub))) (\<lambda>t. return_work (hub, t))) hubs))"

text \<open>The distinct, non-empty identifiers in the order of their first occurrence.\<close>

definition gather :: "string list \<Rightarrow> string list" where
  "gather ids = rev (remdups (rev (filter (\<lambda>i. i \<noteq> []) ids)))"

definition gather_user_ids :: "hub_input list \<Rightarrow> UserId list" where
  "gather_user_ids inputs = gather (concat (map (\<lambda>(_, t). map fst (tp_members t)) inputs))"

definition gather_channel_ids :: "hub_input list \<Rightarrow> ChannelId list" where
  "gather_channel_ids inputs = gather (concat (map (\<lambda>(_, t). tp_channel_ids t) inputs))"

definition sync_channel :: "(ChannelId, Channel) umap \<Rightarrow> 'r app \<Rightarrow> ChannelId \<Rightarrow> channel_state" where
  "sync_channel channels a c =
     (case map_of channels c of
        None \<Rightarrow> \<lparr> cs_channel = ProtoChannelId c, cs_voice = None \<rparr>
      | Some ch \<Rightarrow>
          \<lparr> cs_channel = to_proto_channel ch,
            cs_voice = (if channel_type ch = VOICE
                        then Some (read_channel_started_at_unix (channel_id ch) (a_voice a), participants_in_channel (channel_id ch) (v_sessions (a_voice a)))
                        else None) \<rparr>)"

definition append_hub_sync :: "(UserId, User) umap \<Rightarrow> (ChannelId, Channel) umap \<Rightarrow> 'r app \<Rightarrow> hub_input \<Rightarrow> hub_sync" where
  "append_hub_sync users channels a input =
     (case input of (hub, t) \<Rightarrow>
        \<lparr> hy_hub = to_proto_hub hub,
          hy_members = map (\<lambda>(u, role). to_proto_hub_member u (Some role) (isUserOnline u (sessions_of a))) (tp_members t),
          hy_users = map (\<lambda>(u, _). proto_user_of u (map_of users u)) (tp_members t),
          hy_channels = map (sync_channel channels a) (tp_channel_ids t) \<rparr>)"

definition sync_hubs :: "'r app_env \<Rightarrow> proto_user \<Rightarrow> Hub list \<Rightarrow> ('r app, state_sync) work" where
  "sync_hubs env self hubs =
     bind_work (collect_hub_inputs env hubs) (\<lambda>inputs.
     bind_work (on_users (getUsersByIds (ae_hub env) (gather_user_ids inputs))) (\<lambda>users.
     bind_work (on_hubs (getChannelsByIds (ae_hub env) (gather_channel_ids inputs))) (\<lambda>channels.
     asks (\<lambda>a. \<lparr> sy_self = self, sy_hubs = map (append_hub_sync users channels a) inputs \<rparr>))))"

definition build_state_sync_for_user :: "'r app_env \<Rightarrow> UserId \<Rightarrow> ('r app, state_sync) work" where
  "build_state_sync_for_user env u =
     bind_work (populate_self_user env u) (\<lambda>self.
     bind_work (on_hubs (getUserHubs (ae_hub env) u)) (\<lambda>hubs. sync_hubs env self hubs))"

definition build_state_sync_for_requested_hubs :: "'r app_env \<Rightarrow> UserId \<Rightarrow> HubId list \<Rightarrow> ('r app, state_sync) work" where
  "build_state_sync_for_requested_hubs env u ids =
     bind_work (populate_self_user env u) (\<lambda>self.
       if ids = [] then return_work \<lparr> sy_self = self, sy_hubs = [] \<rparr>
       else
         bind_work (filter_work (\<lambda>h. bind_work (on_hubs (getMembershipRole (ae_hub env) h u)) (\<lambda>r. return_work (r \<noteq> None))) (sort ids)) (\<lambda>authorized.
         bind_work (on_hubs (getHubsByIds (ae_hub env) authorized)) (\<lambda>by_id.
         sync_hubs env self (List.map_filter (map_of by_id) authorized))))"

definition RequestStateSyncCommand :: "'r app_env \<Rightarrow> GlobalConnId \<Rightarrow> HubId list \<Rightarrow> 'r command" where
  "RequestStateSyncCommand env conn ids =
     with_user conn (drop_conn conn UNAUTHORIZED ''Authenticate first'') (\<lambda>u.
       bind_work (if ids = [] then build_state_sync_for_user env u
                  else build_state_sync_for_requested_hubs env u (gather ids)) (\<lambda>sync.
       return_work [make_state_sync env [conn] sync]))"

section \<open>Members\<close>

text \<open>The part of the kick that takes the target out of a voice channel of the hub; \<^const>\<open>False\<close> when that failed.\<close>

definition eject_from_voice :: "'r app_env \<Rightarrow> HubId \<Rightarrow> UserId \<Rightarrow> ('r app, bool) work" where
  "eject_from_voice env h tgt =
     bind_work (asks (\<lambda>a. user_channel tgt (v_sessions (a_voice a)))) (\<lambda>ch.
       case ch of
         None \<Rightarrow> return_work True
       | Some ch \<Rightarrow>
           bind_work (on_hubs (getChannel (ae_hub env) ch)) (\<lambda>c.
             if (case c of None \<Rightarrow> False | Some c \<Rightarrow> channel_hub c = h)
             then on_voice (verified_kick_user (ae_voice env) ch tgt)
             else return_work True))"

text \<open>The messages after a kick: to the remaining subscribers of the hub, and to the target.\<close>

definition kick_messages :: "'r app_env \<Rightarrow> HubId \<Rightarrow> UserId \<Rightarrow> GlobalConnId list \<Rightarrow> 'r app \<Rightarrow> OutgoingMessage list" where
  "kick_messages env h tgt conns a =
     (let subs = hub_subscribers h a
      in (if subs = [] then []
          else [make_state_delta env subs ((delta_of h)\<lparr> hd_member_ops := [MemberRemove tgt], hd_hub_ops := [HubJoinCodeSet []] \<rparr>)])
       @ (if conns = [] then [] else [make_state_delta env conns ((delta_of h)\<lparr> hd_hub_ops := [HubRemove] \<rparr>)]))"

definition KickHubMemberCommand :: "'r app_env \<Rightarrow> GlobalConnId \<Rightarrow> HubId \<Rightarrow> UserId \<Rightarrow> 'r command" where
  "KickHubMemberCommand env conn h tgt =
     with_user conn (reject env conn HUB_MEMBER_KICK UNAUTHORIZED ''Authenticate first'') (\<lambda>actor.
       if h = [] \<or> tgt = [] then reject env conn HUB_MEMBER_KICK INVALID_ARGUMENT ''hub_id and user_id are required''
       else
         bind_work (on_hubs (getMembershipRole (ae_hub env) h actor)) (\<lambda>actor_role. case actor_role of
           None \<Rightarrow> reject env conn HUB_MEMBER_KICK FORBIDDEN ''Join the hub before moderating members''
         | Some actor_role \<Rightarrow>
             bind_work (on_hubs (getMembershipRole (ae_hub env) h tgt)) (\<lambda>target_role. case target_role of
               None \<Rightarrow> reject env conn HUB_MEMBER_KICK NOT_FOUND ''Target user is not a member''
             | Some target_role \<Rightarrow>
                 if \<not> canKickHubMember actor_role target_role actor tgt
                 then reject env conn HUB_MEMBER_KICK FORBIDDEN ''You are not allowed to kick this member''
                 else
                   bind_work (eject_from_voice env h tgt) (\<lambda>ejected.
                     if \<not> ejected then reject env conn HUB_MEMBER_KICK INTERNAL_ERROR ''Failed to remove user from voice channel''
                     else
                       try_else (on_hubs (removeMember (ae_hub env) h tgt))
                         (\<lambda>_. reject env conn HUB_MEMBER_KICK INTERNAL_ERROR ''Failed to kick member'')
                         (\<lambda>_.
                            bind_work (on_redis (\<lambda>r. ((), revokeInvitesForHub (e_redis (ae_voice env)) h r))) (\<lambda>_.
                            bind_work (asks (\<lambda>a. getSessionConnections tgt (sessions_of a))) (\<lambda>conns.
                            bind_work (on_hubs (getHubChannelIds (ae_hub env) h)) (\<lambda>cs.
                            bind_work (on_subs (unsubscribe_hub h cs conns)) (\<lambda>_.
                            asks (kick_messages env h tgt conns))))))))))"

definition leave_messages :: "'r app_env \<Rightarrow> HubId \<Rightarrow> UserId \<Rightarrow> GlobalConnId list \<Rightarrow> 'r app \<Rightarrow> OutgoingMessage list" where
  "leave_messages env h u conns a =
     (let subs = hub_subscribers h a
      in (if subs = [] then [] else [make_state_delta env subs ((delta_of h)\<lparr> hd_member_ops := [MemberRemove u] \<rparr>)])
       @ [make_state_delta env conns ((delta_of h)\<lparr> hd_hub_ops := [HubRemove] \<rparr>)])"

definition LeaveHubCommand :: "'r app_env \<Rightarrow> GlobalConnId \<Rightarrow> HubId \<Rightarrow> 'r command" where
  "LeaveHubCommand env conn h =
     with_user conn (reject env conn HUB_LEAVE UNAUTHORIZED ''Authenticate first'') (\<lambda>u.
       bind_work (on_hubs (getMembershipRole (ae_hub env) h u)) (\<lambda>role. case role of
         None \<Rightarrow> reject env conn HUB_LEAVE FORBIDDEN ''Join the hub before leaving it''
       | Some role \<Rightarrow>
           if role = OWNER then reject env conn HUB_LEAVE FORBIDDEN ''Owners must transfer ownership before leaving''
           else
             try_else (on_hubs (removeMember (ae_hub env) h u))
               (\<lambda>_. reject env conn HUB_LEAVE INTERNAL_ERROR ''Unable to leave hub at this time'')
               (\<lambda>_.
                  bind_work (asks (self_conns u conn)) (\<lambda>conns.
                  bind_work (on_hubs (getHubChannelIds (ae_hub env) h)) (\<lambda>cs.
                  bind_work (on_subs (unsubscribe_hub h cs conns)) (\<lambda>_.
                  asks (leave_messages env h u conns)))))))"

definition parse_target_role :: "HubRole \<Rightarrow> Role option" where
  "parse_target_role role = (case role of HubRole_ADMIN \<Rightarrow> Some ADMIN | HubRole_MEMBER \<Rightarrow> Some USER | _ \<Rightarrow> None)"

definition UpdateHubMemberRoleCommand :: "'r app_env \<Rightarrow> int \<Rightarrow> GlobalConnId \<Rightarrow> HubId \<Rightarrow> UserId \<Rightarrow> HubRole \<Rightarrow> 'r command" where
  "UpdateHubMemberRoleCommand env now conn h tgt proto_role =
     with_user conn (reject env conn HUB_MEMBER_ROLE_UPDATE UNAUTHORIZED ''Authenticate first'') (\<lambda>actor.
       if h = [] \<or> tgt = [] then reject env conn HUB_MEMBER_ROLE_UPDATE INVALID_ARGUMENT ''hub_id and user_id are required''
       else (case parse_target_role proto_role of
         None \<Rightarrow> reject env conn HUB_MEMBER_ROLE_UPDATE INVALID_ARGUMENT ''Role must be MEMBER or ADMIN''
       | Some desired \<Rightarrow>
           bind_work (on_hubs (getMembershipRole (ae_hub env) h actor)) (\<lambda>actor_role. case actor_role of
             None \<Rightarrow> reject env conn HUB_MEMBER_ROLE_UPDATE FORBIDDEN ''Join the hub before updating member roles''
           | Some actor_role \<Rightarrow>
               bind_work (on_hubs (getMembershipRole (ae_hub env) h tgt)) (\<lambda>target_role. case target_role of
                 None \<Rightarrow> reject env conn HUB_MEMBER_ROLE_UPDATE NOT_FOUND ''Target user is not a member''
               | Some target_role \<Rightarrow>
                   if \<not> canChangeMemberRole actor_role target_role desired actor tgt
                   then reject env conn HUB_MEMBER_ROLE_UPDATE FORBIDDEN ''You are not allowed to update this member role''
                   else
                     try_else (on_hubs (addMember (ae_hub env) now h tgt desired))
                       (\<lambda>_. reject env conn HUB_MEMBER_ROLE_UPDATE INTERNAL_ERROR ''Unable to update member role at this time'')
                       (\<lambda>_. asks (\<lambda>a.
                          let delta = (delta_of h)\<lparr> hd_member_ops := [MemberUpsert (to_proto_hub_member tgt (Some desired) (isUserOnline tgt (sessions_of a)))] \<rparr>;
                              subs = hub_subscribers h a
                          in [make_state_delta env (if subs = [] then [conn] else subs) delta]))))))"

text \<open>The token in a bare code or in a link.\<close>

definition invite_token :: "string \<Rightarrow> string" where
  "invite_token code = (case find_sub ''/invite/'' code of None \<Rightarrow> code | Some i \<Rightarrow> drop (i + 8) code)"

definition announce_member :: "'r app_env \<Rightarrow> HubId \<Rightarrow> UserId \<Rightarrow> GlobalConnId list \<Rightarrow> OutgoingMessage list \<Rightarrow> 'r command" where
  "announce_member env h u own out =
     bind_work (asks (\<lambda>a. filter (\<lambda>c. c \<notin> set own) (hub_subscribers h a))) (\<lambda>recipients.
       if recipients = [] then return_work out
       else
         bind_work (on_users (getUser (ae_hub env) u)) (\<lambda>x.
         asks (\<lambda>a. out @ [make_state_delta env recipients ((delta_of h)\<lparr>
           hd_member_ops := [MemberUpsert (to_proto_hub_member u (Some USER) (isUserOnline u (sessions_of a)))],
           hd_user_ops := [proto_user_of u x] \<rparr>)])))"

definition subscribe_and_sync :: "'r app_env \<Rightarrow> GlobalConnId \<Rightarrow> HubId \<Rightarrow> UserId \<Rightarrow> ('r app, GlobalConnId list \<times> OutgoingMessage list) work" where
  "subscribe_and_sync env conn h u =
     bind_work (asks (self_conns u conn)) (\<lambda>conns.
     bind_work (on_subs (subscribe_all (HubTopic h) conns)) (\<lambda>_.
     bind_work (build_state_sync_for_requested_hubs env u [h]) (\<lambda>sync.
     return_work (conns, [make_state_sync env conns sync]))))"

definition JoinHubByInviteCommand :: "'r app_env \<Rightarrow> int \<Rightarrow> GlobalConnId \<Rightarrow> string \<Rightarrow> 'r command" where
  "JoinHubByInviteCommand env now conn code =
     with_user conn (reject env conn HUB_JOIN UNAUTHORIZED ''Authenticate first'') (\<lambda>u.
       bind_work (on_redis (resolveInvite (e_redis (ae_voice env)) (invite_token code))) (\<lambda>hub. case hub of
         None \<Rightarrow> reject env conn HUB_JOIN INVITE_EXPIRED ''Invite link is invalid or has expired''
       | Some h \<Rightarrow>
           bind_work (on_hubs (resolveMembershipRole (ae_hub env) h u)) (\<lambda>existing. case existing of
             Some _ \<Rightarrow> bind_work (subscribe_and_sync env conn h u) (\<lambda>(_, out). return_work out)
           | None \<Rightarrow>
               bind_work (on_hubs (getHub (ae_hub env) h)) (\<lambda>hub.
                 if hub = None then reject env conn HUB_JOIN NOT_FOUND ''Hub not found''
                 else
                   try_else (on_hubs (addMember (ae_hub env) now h u USER))
                     (\<lambda>_. reject env conn HUB_JOIN INTERNAL_ERROR ''Failed to join hub'')
                     (\<lambda>_. bind_work (subscribe_and_sync env conn h u) (\<lambda>(own, out). announce_member env h u own out))))))"

definition GetHubInviteCommand :: "'r app_env \<Rightarrow> nat list \<Rightarrow> GlobalConnId \<Rightarrow> HubId \<Rightarrow> 'r command" where
  "GetHubInviteCommand env rnd conn h =
     with_user conn (drop_conn conn FORBIDDEN ''Authenticate before sending messages'') (\<lambda>u.
       bind_work (on_hubs (getMembershipRole (ae_hub env) h u)) (\<lambda>role. case role of
         None \<Rightarrow> reject env conn HUB_CREATE_JOIN_CODE FORBIDDEN ''Join the hub before requesting a join code''
       | Some role \<Rightarrow>
           if \<not> canInvite role then reject env conn HUB_CREATE_JOIN_CODE FORBIDDEN ''Only owners or admins can create join codes''
           else
             bind_work (on_redis (createInvite (e_redis (ae_voice env)) (ae_base_url env) rnd h)) (\<lambda>code.
             asks (\<lambda>a. [make_state_delta env (self_conns u conn a) ((delta_of h)\<lparr> hd_hub_ops := [HubJoinCodeSet code] \<rparr>)]))))"

definition ValidateHubInviteCommand :: "'r app_env \<Rightarrow> GlobalConnId \<Rightarrow> string \<Rightarrow> 'r command" where
  "ValidateHubInviteCommand env conn code =
     with_user conn (reject env conn HUB_INVITE_VALIDATE UNAUTHORIZED ''Authenticate first'') (\<lambda>u.
       bind_work (on_redis (resolveInvite (e_redis (ae_voice env)) (invite_token code))) (\<lambda>hub. case hub of
         None \<Rightarrow> reject env conn HUB_INVITE_VALIDATE INVITE_EXPIRED ''Invite link is invalid or has expired''
       | Some h \<Rightarrow>
           bind_work (on_hubs (getHub (ae_hub env) h)) (\<lambda>hub. case hub of
             None \<Rightarrow> reject env conn HUB_INVITE_VALIDATE NOT_FOUND ''Hub not found''
           | Some hub \<Rightarrow> asks (\<lambda>a. [make_outgoing_message (self_conns u conn a) (ae_ser env (InvitePreview (to_proto_hub hub)))]))))"

section \<open>Hubs\<close>

definition kMaxNameLength :: nat where
  "kMaxNameLength = 80"

definition kMaxHubAvatarSeedLength :: nat where
  "kMaxHubAvatarSeedLength = 128"

definition CreateHubCommand :: "'r app_env \<Rightarrow> HubId \<Rightarrow> ChannelId \<Rightarrow> int \<Rightarrow> GlobalConnId \<Rightarrow> string \<Rightarrow> 'r command" where
  "CreateHubCommand env new new_channel now conn raw =
     with_user conn (reject env conn HUB_CREATE UNAUTHORIZED ''Authenticate first'') (\<lambda>u.
       let name = sanitize raw
       in if name = [] then reject env conn HUB_CREATE INVALID_ARGUMENT ''Hub name is required''
          else if utf8_length name > kMaxNameLength then reject env conn HUB_CREATE INVALID_ARGUMENT ''Hub name must be at most 80 characters''
          else
            try_else (on_hubs (createHub (ae_hub env) new now name u))
              (reject_write env conn HUB_CREATE map_hub_write_error ''Failed to create hub'')
              (\<lambda>hub.
                 let rest = bind_work (subscribe_and_sync env conn (hub_id hub) u) (\<lambda>(_, out). return_work out)
                 in try_else (on_hubs (createChannel (ae_hub env) new_channel now (hub_id hub) ''general'' ''text'' u)) (\<lambda>_. rest) (\<lambda>_. rest)))"

definition DeleteHubCommand :: "'r app_env \<Rightarrow> GlobalConnId \<Rightarrow> HubId \<Rightarrow> 'r command" where
  "DeleteHubCommand env conn h =
     with_user conn (drop_conn conn FORBIDDEN ''Authenticate first'') (\<lambda>u.
       bind_work (on_hubs (getMembershipRole (ae_hub env) h u)) (\<lambda>role. case role of
         None \<Rightarrow> reject env conn HUB_REMOVE FORBIDDEN ''Join the hub before removing it''
       | Some role \<Rightarrow>
           if role \<noteq> OWNER then reject env conn HUB_REMOVE FORBIDDEN ''Only owners can remove hubs''
           else
             bind_work (on_hubs (getHubChannelIds (ae_hub env) h)) (\<lambda>cs.
               try_else (on_hubs (deleteHub (ae_hub env) h u))
                 (\<lambda>_. reject env conn HUB_REMOVE INTERNAL_ERROR ''Unable to delete hub at this time'')
                 (\<lambda>deleted.
                    if \<not> deleted then reject env conn HUB_REMOVE INTERNAL_ERROR ''Unable to remove hub at this time''
                    else
                      bind_work (on_redis (\<lambda>r. ((), revokeInvitesForHub (e_redis (ae_voice env)) h r))) (\<lambda>_.
                      bind_work (asks (hub_subscribers h)) (\<lambda>conns.
                      bind_work (on_subs (\<lambda>s. fold (\<lambda>c. removeAllForTopic (ChannelTopic h c)) cs (removeAllForTopic (HubTopic h) s))) (\<lambda>_.
                      return_work (if conns = [] then [] else [make_state_delta env conns ((delta_of h)\<lparr> hd_hub_ops := [HubRemove] \<rparr>)]))))))))"

text \<open>A name or an avatar seed, when it is given.\<close>

definition check_text :: "string option \<Rightarrow> nat \<Rightarrow> string \<Rightarrow> string \<Rightarrow> string + string option" where
  "check_text raw limit missing too_long =
     (case raw of
        None \<Rightarrow> Inr None
      | Some raw \<Rightarrow>
          (let t = sanitize raw
           in if t = [] then Inl missing else if utf8_length t > limit then Inl too_long else Inr (Some t)))"

definition hub_update_message :: "'r app_env \<Rightarrow> HubId \<Rightarrow> Hub option \<Rightarrow> 'r app \<Rightarrow> OutgoingMessage list" where
  "hub_update_message env h hub a =
     (case hub of
        None \<Rightarrow> []
      | Some hub \<Rightarrow>
          (let conns = hub_subscribers h a
           in if conns = [] then []
              else [make_state_delta env conns ((delta_of h)\<lparr> hd_hub_ops := [HubUpsert (ProtoHub h (hub_name hub) (hub_avatar_seed hub))] \<rparr>)]))"

text \<open>One of the two writes, if it is requested.\<close>

definition write_if :: "string option \<Rightarrow> (string \<Rightarrow> ('s, bool) work) \<Rightarrow> ('s, bool) work" where
  "write_if requested op = (case requested of None \<Rightarrow> return_work True | Some v \<Rightarrow> op v)"

definition UpdateHubCommand :: "'r app_env \<Rightarrow> GlobalConnId \<Rightarrow> HubId \<Rightarrow> string option \<Rightarrow> string option \<Rightarrow> 'r command" where
  "UpdateHubCommand env conn h raw_name raw_seed =
     with_user conn (reject env conn HUB_UPDATE UNAUTHORIZED ''Authenticate first'') (\<lambda>u.
       case check_text raw_name kMaxNameLength ''Hub name is required'' ''Hub name must be at most 80 characters'' of
         Inl msg \<Rightarrow> reject env conn HUB_UPDATE INVALID_ARGUMENT msg
       | Inr name \<Rightarrow>
       (case check_text raw_seed kMaxHubAvatarSeedLength ''Avatar seed is required'' ''Avatar seed must be at most 128 characters'' of
         Inl msg \<Rightarrow> reject env conn HUB_UPDATE INVALID_ARGUMENT msg
       | Inr seed \<Rightarrow>
           if name = None \<and> seed = None then reject env conn HUB_UPDATE INVALID_ARGUMENT ''No changes requested''
           else
             bind_work (on_hubs (getMembershipRole (ae_hub env) h u)) (\<lambda>role. case role of
               None \<Rightarrow> reject env conn HUB_UPDATE FORBIDDEN ''Join the hub before updating it''
             | Some role \<Rightarrow>
                 if role \<noteq> OWNER \<and> role \<noteq> ADMIN then reject env conn HUB_UPDATE FORBIDDEN ''Only admins or owners can update hub settings''
                 else
                   try_else (on_hubs (write_if name (renameHub (ae_hub env) h)))
                     (reject_write env conn HUB_UPDATE map_hub_write_error ''Unable to update hub settings'')
                     (\<lambda>renamed.
                        if \<not> renamed then reject env conn HUB_UPDATE INTERNAL_ERROR ''Unable to rename hub at this time''
                        else
                          try_else (on_hubs (write_if seed (updateHubAvatarSeed (ae_hub env) h)))
                            (reject_write env conn HUB_UPDATE map_hub_write_error ''Unable to update hub settings'')
                            (\<lambda>updated.
                               if \<not> updated then reject env conn HUB_UPDATE INTERNAL_ERROR ''Unable to update hub avatar at this time''
                               else bind_work (on_hubs (getHub (ae_hub env) h)) (\<lambda>hub. asks (hub_update_message env h hub)))))))"

section \<open>Channels\<close>

definition kMaxChannelsPerHub :: nat where
  "kMaxChannelsPerHub = 3"

definition name_used :: "string \<Rightarrow> (ChannelId, Channel) umap \<Rightarrow> (Channel \<Rightarrow> bool) \<Rightarrow> bool" where
  "name_used name existing skip =
     list_ex (\<lambda>(_, ch). \<not> skip ch \<and> normalize_name_lowercase (channel_name ch) = normalize_name_lowercase name) existing"

definition channel_message :: "'r app_env \<Rightarrow> HubId \<Rightarrow> ChannelId \<Rightarrow> channel_op \<Rightarrow> 'r app \<Rightarrow> OutgoingMessage list" where
  "channel_message env h c op a =
     (let conns = hub_subscribers h a
      in if conns = [] then [] else [make_state_delta env conns ((delta_of h)\<lparr> hd_channels := [(c, [op])] \<rparr>)])"

definition CreateChannelCommand :: "'r app_env \<Rightarrow> ChannelId \<Rightarrow> int \<Rightarrow> GlobalConnId \<Rightarrow> HubId \<Rightarrow> ProtoChannelType \<Rightarrow> string \<Rightarrow> 'r command" where
  "CreateChannelCommand env new now conn h type raw =
     with_user conn (reject env conn CHANNEL_CREATE UNAUTHORIZED ''Authenticate first'') (\<lambda>u.
       let name = sanitize raw
       in if h = [] then reject env conn CHANNEL_CREATE INVALID_ARGUMENT ''hub_id is required''
          else if type \<noteq> ChannelType_TEXT \<and> type \<noteq> ChannelType_VOICE
          then reject env conn CHANNEL_CREATE INVALID_ARGUMENT ''Channel type must be text or voice''
          else if name = [] then reject env conn CHANNEL_CREATE INVALID_ARGUMENT ''Channel name is required''
          else if utf8_length name > kMaxNameLength then reject env conn CHANNEL_CREATE INVALID_ARGUMENT ''Channel name must be at most 80 characters''
          else
            bind_work (on_hubs (getMembershipRole (ae_hub env) h u)) (\<lambda>role. case role of
              None \<Rightarrow> reject env conn CHANNEL_CREATE FORBIDDEN ''Join the hub before creating channels''
            | Some role \<Rightarrow>
                if role \<noteq> OWNER \<and> role \<noteq> ADMIN then reject env conn CHANNEL_CREATE FORBIDDEN ''Only admins/owners can create channels''
                else
                  bind_work (on_hubs (getHubChannelIds (ae_hub env) h)) (\<lambda>cs.
                    if length cs \<ge> kMaxChannelsPerHub then reject env conn CHANNEL_CREATE INVALID_ARGUMENT ''Channel limit reached: max 3 channels per hub''
                    else
                      bind_work (on_hubs (getChannelsByIds (ae_hub env) cs)) (\<lambda>existing.
                        if name_used name existing (\<lambda>_. False) then reject env conn CHANNEL_CREATE INVALID_ARGUMENT ''Channel name already exists''
                        else
                          (let type = from_proto_channel_type type
                           in try_else (on_hubs (createChannel (ae_hub env) new now h name (if type = VOICE then ''voice'' else ''text'') u))
                                (reject_write env conn CHANNEL_CREATE map_channel_write_error ''Unable to create channel'')
                                (\<lambda>c. asks (channel_message env h c (ChannelUpsert (to_proto_channel
                                  \<lparr> channel_name = name, channel_id = c, channel_hub = h, channel_type = type \<rparr>)))))))))"

text \<open>The channel a command names, if it belongs to the hub the command names.\<close>

definition with_channel :: "'r app_env \<Rightarrow> GlobalConnId \<Rightarrow> EnvelopeType \<Rightarrow> HubId \<Rightarrow> ChannelId \<Rightarrow> (Channel \<Rightarrow> 'r command) \<Rightarrow> 'r command" where
  "with_channel env conn type h c k =
     (case to_channel_scope h c of
        None \<Rightarrow> reject env conn type INVALID_ARGUMENT ''channel.hub_id and channel.channel_id are required''
      | Some (h, c) \<Rightarrow>
          bind_work (on_hubs (getChannel (ae_hub env) c)) (\<lambda>ch. case ch of
            None \<Rightarrow> reject env conn type NOT_FOUND ''Channel not found''
          | Some ch \<Rightarrow> if channel_hub ch \<noteq> h then reject env conn type NOT_FOUND ''Channel not found'' else k ch))"

definition RenameChannelCommand :: "'r app_env \<Rightarrow> GlobalConnId \<Rightarrow> HubId \<Rightarrow> ChannelId \<Rightarrow> string option \<Rightarrow> 'r command" where
  "RenameChannelCommand env conn h c raw =
     with_user conn (reject env conn CHANNEL_UPDATE UNAUTHORIZED ''Authenticate first'') (\<lambda>u.
       with_channel env conn CHANNEL_UPDATE h c (\<lambda>ch.
         case raw of
           None \<Rightarrow> reject env conn CHANNEL_UPDATE INVALID_ARGUMENT ''No changes requested''
         | Some raw \<Rightarrow>
             (let name = sanitize raw
              in if name = [] then reject env conn CHANNEL_UPDATE INVALID_ARGUMENT ''Channel name is required''
                 else if utf8_length name > kMaxNameLength then reject env conn CHANNEL_UPDATE INVALID_ARGUMENT ''Channel name must be at most 80 characters''
                 else
                   bind_work (on_hubs (getMembershipRole (ae_hub env) (channel_hub ch) u)) (\<lambda>role. case role of
                     None \<Rightarrow> reject env conn CHANNEL_UPDATE FORBIDDEN ''Join the hub before renaming channels''
                   | Some role \<Rightarrow>
                       if role \<noteq> OWNER \<and> role \<noteq> ADMIN then reject env conn CHANNEL_UPDATE FORBIDDEN ''Only admins/owners can rename channels''
                       else
                         bind_work (on_hubs (getHubChannelIds (ae_hub env) (channel_hub ch))) (\<lambda>cs.
                         bind_work (on_hubs (getChannelsByIds (ae_hub env) cs)) (\<lambda>existing.
                           if name_used name existing (\<lambda>x. channel_id x = channel_id ch)
                           then reject env conn CHANNEL_UPDATE INVALID_ARGUMENT ''Channel name already exists''
                           else
                             try_else (on_hubs (renameChannel (ae_hub env) (channel_id ch) name))
                               (reject_write env conn CHANNEL_UPDATE map_channel_write_error ''Unable to rename channel at this time'')
                               (\<lambda>renamed.
                                  if \<not> renamed then reject env conn CHANNEL_UPDATE INTERNAL_ERROR ''Unable to rename channel at this time''
                                  else asks (channel_message env (channel_hub ch) (channel_id ch)
                                               (ChannelUpsert (to_proto_channel (ch\<lparr> channel_name := name \<rparr>)))))))))))"

definition RemoveChannelCommand :: "'r app_env \<Rightarrow> GlobalConnId \<Rightarrow> HubId \<Rightarrow> ChannelId \<Rightarrow> 'r command" where
  "RemoveChannelCommand env conn h c =
     with_user conn (reject env conn CHANNEL_REMOVE UNAUTHORIZED ''Authenticate first'') (\<lambda>u.
       with_channel env conn CHANNEL_REMOVE h c (\<lambda>ch.
         bind_work (on_hubs (getMembershipRole (ae_hub env) (channel_hub ch) u)) (\<lambda>role. case role of
           None \<Rightarrow> reject env conn CHANNEL_REMOVE FORBIDDEN ''Join the hub before removing channels''
         | Some role \<Rightarrow>
             if role \<noteq> OWNER then reject env conn CHANNEL_REMOVE FORBIDDEN ''Only owners can delete channels''
             else
               bind_work (on_hubs (deleteChannel (ae_hub env) (channel_id ch) (channel_hub ch))) (\<lambda>deleted.
                 if \<not> deleted then reject env conn CHANNEL_REMOVE INTERNAL_ERROR ''Unable to delete channel at this time''
                 else
                   bind_work (on_subs (removeAllForTopic (ChannelTopic (channel_hub ch) (channel_id ch)))) (\<lambda>_.
                   asks (channel_message env (channel_hub ch) (channel_id ch) ChannelRemove))))))"

section \<open>One command\<close>

text \<open>The commands on hubs, members and channels, with the inputs each takes from its surroundings.\<close>

datatype hub_command =
    Kick HubId UserId
  | Leave HubId
  | ChangeRole int HubId UserId HubRole
  | JoinByInvite int string
  | GetInvite "nat list" HubId
  | ValidateInvite string
  | CreateHub HubId ChannelId int string
  | DeleteHub HubId
  | UpdateHub HubId "string option" "string option"
  | CreateChannel ChannelId int HubId ProtoChannelType string
  | RenameChannel HubId ChannelId "string option"
  | RemoveChannel HubId ChannelId
  | RequestStateSync "HubId list"

fun execute :: "'r app_env \<Rightarrow> GlobalConnId \<Rightarrow> hub_command \<Rightarrow> 'r command" where
  "execute env conn (Kick h tgt) = KickHubMemberCommand env conn h tgt"
| "execute env conn (Leave h) = LeaveHubCommand env conn h"
| "execute env conn (ChangeRole now h tgt role) = UpdateHubMemberRoleCommand env now conn h tgt role"
| "execute env conn (JoinByInvite now code) = JoinHubByInviteCommand env now conn code"
| "execute env conn (GetInvite rnd h) = GetHubInviteCommand env rnd conn h"
| "execute env conn (ValidateInvite code) = ValidateHubInviteCommand env conn code"
| "execute env conn (CreateHub new new_channel now raw) = CreateHubCommand env new new_channel now conn raw"
| "execute env conn (DeleteHub h) = DeleteHubCommand env conn h"
| "execute env conn (UpdateHub h name seed) = UpdateHubCommand env conn h name seed"
| "execute env conn (CreateChannel new now h type raw) = CreateChannelCommand env new now conn h type raw"
| "execute env conn (RenameChannel h c raw) = RenameChannelCommand env conn h c raw"
| "execute env conn (RemoveChannel h c) = RemoveChannelCommand env conn h c"
| "execute env conn (RequestStateSync ids) = RequestStateSyncCommand env conn ids"

end
