(* ===== verification/CommandLaws.thy ===== *)
theory CommandLaws
  imports HubCommands
begin

text \<open>
  What the commands on hubs, members and channels may do to the database. The handlers are followed with two kinds of
  judgement on top of the one of theory \<open>HubCacheLaws\<close>: \<open>areads\<close> for computations that leave the database alone, and
  \<open>changes\<close> for computations that change it in an allowed way or not at all.
\<close>

section \<open>Judgements on the application state\<close>

definition adb :: "'r app \<Rightarrow> database" where
  "adb a = hs_db (a_hubs a)"

definition aok :: "'r app_env \<Rightarrow> HubId set \<Rightarrow> 'r app \<Rightarrow> bool" where
  "aok env H a = svc_ok (ae_hub env) H (a_hubs a)"

text \<open>The sessions do not change either.\<close>

definition areads :: "'r app_env \<Rightarrow> HubId set \<Rightarrow> (database \<Rightarrow> bool) \<Rightarrow> ('r app, 'a) work \<Rightarrow> (database \<Rightarrow> 'a \<Rightarrow> bool) \<Rightarrow> bool" where
  "areads env H P m Q \<longleftrightarrow> (\<forall>a r a'. aok env H a \<longrightarrow> P (adb a) \<longrightarrow> m a = (r, a') \<longrightarrow>
     aok env H a' \<and> adb a' = adb a \<and> sessions_of a' = sessions_of a \<and> (\<forall>x. r = Inr x \<longrightarrow> Q (adb a) x))"

definition changes :: "'r app_env \<Rightarrow> HubId set \<Rightarrow> (database \<Rightarrow> bool) \<Rightarrow> ('r app, 'a) work \<Rightarrow> (database \<Rightarrow> database \<Rightarrow> bool) \<Rightarrow> bool" where
  "changes env H P m R \<longleftrightarrow> (\<forall>a r a'. aok env H a \<longrightarrow> P (adb a) \<longrightarrow> m a = (r, a') \<longrightarrow>
     aok env H a' \<and> sessions_of a' = sessions_of a \<and> (adb a' = adb a \<or> R (adb a) (adb a')))"

lemma areadsD:
  assumes "areads env H P m Q" "aok env H a" "P (adb a)" "m a = (r, a')"
  shows "aok env H a'" "adb a' = adb a" "sessions_of a' = sessions_of a" "r = Inr x \<Longrightarrow> Q (adb a) x"
  using assms unfolding areads_def by blast+

lemma areads_weaken:
  assumes "areads env H P m Q" "\<And>db. P' db \<Longrightarrow> P db" "\<And>db x. P' db \<Longrightarrow> Q db x \<Longrightarrow> Q' db x"
  shows "areads env H P' m Q'"
  unfolding areads_def
proof (intro allI impI)
  fix a r a' assume a: "aok env H a" "P' (adb a)" "m a = (r, a')"
  note d = areadsD[OF assms(1) a(1) assms(2)[OF a(2)] a(3)]
  show "aok env H a' \<and> adb a' = adb a \<and> sessions_of a' = sessions_of a \<and> (\<forall>x. r = Inr x \<longrightarrow> Q' (adb a) x)"
    using d assms(3)[OF a(2)] by blast
qed

lemma areads_bind:
  assumes "areads env H P m Q" "\<And>x. areads env H (\<lambda>db. P db \<and> Q db x) (k x) R"
  shows "areads env H P (bind_work m k) R"
  unfolding areads_def
proof (intro allI impI)
  fix a r a' assume a: "aok env H a" "P (adb a)" and b: "bind_work m k a = (r, a')"
  obtain q a1 where m: "m a = (q, a1)" by force
  note d = areadsD[OF assms(1) a m]
  show "aok env H a' \<and> adb a' = adb a \<and> sessions_of a' = sessions_of a \<and> (\<forall>x. r = Inr x \<longrightarrow> R (adb a) x)"
  proof (cases q)
    case (Inl e)
    then show ?thesis using b m d by (auto simp: bind_work_def)
  next
    case (Inr x)
    then have k: "k x a1 = (r, a')" using b m by (simp add: bind_work_def)
    have "P (adb a1) \<and> Q (adb a1) x" using a(2) d(2) d(4)[OF Inr] by simp
    from areadsD[OF assms(2) d(1) this k] d(2,3) show ?thesis by auto
  qed
qed

lemma changes_bind:
  assumes "areads env H P m Q" "\<And>x. changes env H (\<lambda>db. P db \<and> Q db x) (k x) R"
  shows "changes env H P (bind_work m k) R"
  unfolding changes_def
proof (intro allI impI)
  fix a r a' assume a: "aok env H a" "P (adb a)" and b: "bind_work m k a = (r, a')"
  obtain q a1 where m: "m a = (q, a1)" by force
  note d = areadsD[OF assms(1) a m]
  show "aok env H a' \<and> sessions_of a' = sessions_of a \<and> (adb a' = adb a \<or> R (adb a) (adb a'))"
  proof (cases q)
    case (Inl e)
    then show ?thesis using b m d by (auto simp: bind_work_def)
  next
    case (Inr x)
    then have k: "k x a1 = (r, a')" using b m by (simp add: bind_work_def)
    have "P (adb a1) \<and> Q (adb a1) x" using a(2) d(2) d(4)[OF Inr] by simp
    with assms(2)[of x] d(1) k show ?thesis using d(2,3) unfolding changes_def by metis
  qed
qed

lemma changes_reads: "areads env H P m Q \<Longrightarrow> changes env H P m R"
  unfolding areads_def changes_def by blast

lemma changes_weaken:
  assumes "changes env H P m R" "\<And>db. P' db \<Longrightarrow> P db" "\<And>db db'. P' db \<Longrightarrow> R db db' \<Longrightarrow> R' db db'"
  shows "changes env H P' m R'"
  using assms unfolding changes_def by blast

lemma areads_return: "(\<And>db. P db \<Longrightarrow> Q db x) \<Longrightarrow> areads env H P (return_work x) Q"
  by (auto simp: areads_def return_work_def)

lemma areads_asks [intro]: "areads env H P (asks f) (\<lambda>_ _. True)"
  by (auto simp: areads_def asks_def)

lemma areads_reject [intro]: "areads env H P (reject env conn type code msg) (\<lambda>_ _. True)"
  unfolding reject_def by (rule areads_return) simp

lemma areads_drop [intro]: "areads env H P (drop_conn conn code msg) (\<lambda>_ _. True)"
  unfolding drop_conn_def by (rule areads_return) simp

lemma areads_hubs:
  assumes "reads (ae_hub env) H P m Q"
  shows "areads env H P (on_hubs m) Q"
  unfolding areads_def
proof (intro allI impI)
  fix a r a' assume a: "aok env H a" "P (adb a)" "on_hubs m a = (r, a')"
  obtain q s where m: "m (a_hubs a) = (q, s)" by force
  have "r = q" "a' = a\<lparr> a_hubs := s \<rparr>" using a(3) m by (simp_all add: on_hubs_def)
  then show "aok env H a' \<and> adb a' = adb a \<and> sessions_of a' = sessions_of a \<and> (\<forall>x. r = Inr x \<longrightarrow> Q (adb a) x)"
    using readsD[OF assms a(1)[unfolded aok_def] a(2)[unfolded adb_def] m] by (simp add: aok_def adb_def sessions_of_def)
qed

lemma areads_ask:
  assumes "reads (ae_hub env) H (\<lambda>_. True) m Q"
  shows "areads env H P (on_hubs m) Q"
  by (rule areads_weaken[OF areads_hubs[OF assms]]) simp_all

text \<open>Calls of the voice service, of Redis and of the subscription manager.\<close>

lemma areads_voice: "(\<And>w. v_app (snd (m w)) = v_app w) \<Longrightarrow> areads env H P (on_voice m) (\<lambda>_ _. True)"
  by (auto simp: areads_def on_voice_def aok_def adb_def sessions_of_def split: prod.split_asm) (metis snd_conv)

lemma areads_redis [intro]: "areads env H P (on_redis m) (\<lambda>_ _. True)"
  unfolding on_redis_def by (rule areads_voice) (simp split: prod.split)

lemma areads_subs [intro]: "areads env H P (on_subs f) (\<lambda>_ _. True)"
  unfolding on_subs_def by (rule areads_voice) simp

lemma kick_untouched: "v_app (snd (verified_kick_user venv ch tgt w)) = v_app w" "v_subs (snd (verified_kick_user venv ch tgt w)) = v_subs w"
proof -
  have calls: "RemoveParticipant venv host room u x = (b, y) \<Longrightarrow> v_app y = v_app x \<and> v_subs y = v_subs x"
    "ListParticipants venv host room x = (c, y) \<Longrightarrow> v_app y = v_app x \<and> v_subs y = v_subs x"
    "take_node x = (n, y) \<Longrightarrow> v_app y = v_app x \<and> v_subs y = v_subs x" for host room u b c n x y
    by (auto dest!: only_sends_calls simp: only_sends_def take_node_def split: prod.split_asm)
  show "v_app (snd (verified_kick_user venv ch tgt w)) = v_app w" "v_subs (snd (verified_kick_user venv ch tgt w)) = v_subs w"
    by (auto simp: verified_kick_user_def dest!: calls split: prod.split option.split bool.split)
qed

lemma areads_kick [intro]: "areads env H P (on_voice (verified_kick_user venv ch tgt)) (\<lambda>_ _. True)"
  by (rule areads_voice) (rule kick_untouched)

text \<open>The user service reads profiles and uses up entries of the fault script.\<close>

definition user_read :: "(user_service \<Rightarrow> 'b \<times> user_service) \<Rightarrow> bool" where
  "user_read m \<longleftrightarrow> (\<forall>s. us_db (snd (m s)) = us_db s \<and> set (us_faults (snd (m s))) \<subseteq> set (us_faults s))"

lemma areads_users: "user_read m \<Longrightarrow> areads env H P (on_users m) (\<lambda>_ _. True)"
  unfolding areads_def
proof (intro allI impI)
  fix a r a' assume u: "user_read m" and a: "aok env H a" "P (adb a)" "on_users m a = (r, a')"
  obtain q s where m: "m \<lparr> us_db = hs_db (a_hubs a), us_faults = hs_faults (a_hubs a), us_cache = a_users a \<rparr> = (q, s)" by force
  have s: "us_db s = hs_db (a_hubs a)" "set (us_faults s) \<subseteq> set (hs_faults (a_hubs a))"
    using u m unfolding user_read_def by (metis snd_conv user_service.select_convs(1,2))+
  have "a' = a\<lparr> a_hubs := (a_hubs a)\<lparr> hs_db := us_db s, hs_faults := us_faults s \<rparr>, a_users := us_cache s \<rparr>"
    using a(3) m by (simp add: on_users_def)
  then show "aok env H a' \<and> adb a' = adb a \<and> sessions_of a' = sessions_of a \<and> (\<forall>x. r = Inr x \<longrightarrow> True)"
    using svc_ok_faults[OF a(1)[unfolded aok_def] s(2)] s(1) by (cases "a_hubs a") (simp add: aok_def adb_def sessions_of_def)
qed

lemma user_read_repo:
  assumes "on_user_repo (\<lambda>f. txn_read f fn) s = (r, s')" "\<And>x. snd (fn x) = x"
  shows "us_db s' = us_db s" "set (us_faults s') \<subseteq> set (us_faults s)"
proof -
  have "s' = s\<lparr> us_faults := tl (us_faults s) \<rparr>" by (rule on_user_read(1)[OF assms])
  then show "us_db s' = us_db s" "set (us_faults s') \<subseteq> set (us_faults s)" by (simp_all add: set_mono_suffix suffix_tl)
qed

lemma look_user_same: "look_user env u s = (v, s') \<Longrightarrow> us_db s' = us_db s \<and> us_faults s' = us_faults s"
  by (auto simp: look_user_def split: prod.split_asm)

lemma fold_put_same: "us_db (fold (put_user env) xs s) = us_db s \<and> us_faults (fold (put_user env) xs s) = us_faults s"
  by (induction xs arbitrary: s) simp_all

lemma scan_user_same:
  "scan_cached (look_user env) ids seen s = (found, misses, s') \<Longrightarrow> us_db s' = us_db s \<and> us_faults s' = us_faults s"
proof (induction ids arbitrary: seen s found misses s')
  case (Cons i ids)
  obtain v s1 where v: "look_user env i s = (v, s1)" by force
  show ?case
  proof (cases "i = [] \<or> i \<in> set seen")
    case True
    then show ?thesis using Cons by auto
  next
    case False
    obtain f m s2 where r: "scan_cached (look_user env) ids (i # seen) s1 = (f, m, s2)" by (metis prod_cases3)
    then have "s' = s2" using Cons.prems False v by (auto split: option.split_asm)
    then show ?thesis using Cons.IH[OF r] look_user_same[OF v] by simp
  qed
qed simp

lemma user_read_getUser: "user_read (getUser env u)"
  unfolding user_read_def
proof (intro allI)
  fix s
  obtain v s1 where v: "look_user env u s = (v, s1)" by force
  obtain q s2 where q: "on_user_repo (\<lambda>f. repo_getUser (he_pg env) f u) s1 = (q, s2)" by force
  note d = user_read_repo[OF q[unfolded repo_getUser_def] with_uuid_same]
  show "us_db (snd (getUser env u s)) = us_db s \<and> set (us_faults (snd (getUser env u s))) \<subseteq> set (us_faults s)"
    using v look_user_same[OF v] q d by (cases v; cases q) (auto simp: getUser_def bind_work_def split: option.split)
qed

lemma user_read_getUsersByIds: "user_read (getUsersByIds env ids)"
  unfolding user_read_def
proof (intro allI)
  fix s
  obtain found misses s1 where sc: "scan_cached (look_user env) ids [] s = (found, misses, s1)" by (metis prod_cases3)
  note same = scan_user_same[OF sc]
  obtain q s2 where q: "on_user_repo (\<lambda>f. repo_getUsersByIds (he_pg env) f misses) s1 = (q, s2)" by force
  show "us_db (snd (getUsersByIds env ids s)) = us_db s \<and> set (us_faults (snd (getUsersByIds env ids s))) \<subseteq> set (us_faults s)"
  proof (cases "ids = [] \<or> misses = []")
    case True
    then show ?thesis using same sc by (auto simp: getUsersByIds_def)
  next
    case False
    then have ne: "misses \<noteq> []" by simp
    note d = user_read_repo[OF q[unfolded repo_getUsersByIds_def if_not_P[OF ne]] with_uuids_same]
    show ?thesis using False sc same q d by (cases q) (auto simp: getUsersByIds_def bind_work_def fold_put_same)
  qed
qed

lemmas areads_profiles [intro] = areads_users[OF user_read_getUser] areads_users[OF user_read_getUsersByIds]

lemma areads_map_work:
  assumes "\<And>x. x \<in> set xs \<Longrightarrow> areads env H P (f x) (\<lambda>db. Q db x)"
  shows "areads env H P (map_work f xs) (\<lambda>db ys. list_all2 (Q db) xs ys)"
  using assms
proof (induction xs)
  case Nil
  show ?case by (simp add: areads_return)
next
  case (Cons x xs)
  have "areads env H (\<lambda>db. P db \<and> Q db x y) (map_work f xs) (\<lambda>db ys. list_all2 (Q db) xs ys)" for y
    by (rule areads_weaken[OF Cons.IH]) (use Cons.prems in auto)
  then show ?case
    unfolding map_work.simps using Cons.prems by (intro areads_bind[of env H P "f x" "\<lambda>db. Q db x"] areads_bind areads_return) auto
qed

lemma areads_filter_work:
  assumes "\<And>x. x \<in> set xs \<Longrightarrow> areads env H P (f x) (\<lambda>db b. b \<longrightarrow> Q db x)"
  shows "areads env H P (filter_work f xs) (\<lambda>db ys. set ys \<subseteq> {x \<in> set xs. Q db x})"
  using assms
proof (induction xs)
  case Nil
  show ?case by (simp add: areads_return)
next
  case (Cons x xs)
  have "areads env H (\<lambda>db. P db \<and> (b \<longrightarrow> Q db x)) (filter_work f xs) (\<lambda>db ys. set ys \<subseteq> {x \<in> set xs. Q db x})" for b
    by (rule areads_weaken[OF Cons.IH]) (use Cons.prems in auto)
  then show ?case
    unfolding filter_work.simps using Cons.prems by (intro areads_bind[of env H P "f x" "\<lambda>db b. b \<longrightarrow> Q db x"] areads_bind areads_return) auto
qed

section \<open>Snapshots for clients\<close>

lemma areads_any: "areads env H P m Q \<Longrightarrow> areads env H P m (\<lambda>_ _. True)"
  by (rule areads_weaken[of env H P m Q]) simp_all

lemma areads_self: "areads env H P (populate_self_user env u) (\<lambda>_ _. True)"
  unfolding populate_self_user_def by (rule areads_bind[OF areads_profiles(1)]) (simp add: areads_return)

lemma areads_inputs:
  "areads env H (\<lambda>db. hubs_current (ae_hub env) db hubs) (collect_hub_inputs env hubs) (\<lambda>_ inputs. map fst inputs = hubs)"
proof (cases "hubs = [] \<or> (\<exists>hub \<in> set hubs. \<not> canon (ae_hub env) (hub_id hub))")
  case True
  then show ?thesis
    by (cases "hubs = []") (auto simp: collect_hub_inputs_def return_work_def areads_def hubs_current_def)
next
  case False
  have top: "areads env H P (bind_work (on_hubs (getHubTopology (ae_hub env) (hub_id hub))) (\<lambda>t. return_work (hub, t))) (\<lambda>_ y. fst y = hub)" for P hub
    by (rule areads_bind[OF areads_ask[OF reads_topology_any]]) (simp_all add: areads_return)
  have "map fst ys = xs" if "list_all2 (\<lambda>x y. fst y = x) xs ys" for xs and ys :: "(Hub \<times> HubTopology) list"
    using that by (induction rule: list_all2_induct) simp_all
  then have "areads env H P (map_work (\<lambda>hub. bind_work (on_hubs (getHubTopology (ae_hub env) (hub_id hub))) (\<lambda>t. return_work (hub, t))) hubs)
      (\<lambda>_ inputs. map fst inputs = hubs)" for P
    by (intro areads_weaken[OF areads_map_work[where Q = "\<lambda>_ x y. fst y = x", OF top]]) auto
  moreover have "areads env H (\<lambda>db. hubs_current (ae_hub env) db hubs) (on_hubs (warmSnapshotsForHubs (ae_hub env) hubs)) (\<lambda>_ _. True)"
    by (rule areads_weaken[OF areads_hubs[OF reads_warm]]) (use False in \<open>auto simp: hubs_current_def\<close>)
  ultimately show ?thesis using False unfolding collect_hub_inputs_def by (auto intro: areads_bind)
qed

lemma hy_hub_sync [simp]: "hy_hub (append_hub_sync users channels a input) = to_proto_hub (fst input)"
  by (simp add: append_hub_sync_def split: prod.split)

lemma areads_sync:
  "areads env H (\<lambda>db. hubs_current (ae_hub env) db hubs) (sync_hubs env self hubs) (\<lambda>_ sync. map hy_hub (sy_hubs sync) = map to_proto_hub hubs)"
proof -
  have "areads env H (\<lambda>db. P db \<and> map fst inputs = hubs)
     (asks (\<lambda>a. \<lparr> sy_self = self, sy_hubs = map (append_hub_sync users channels a) inputs \<rparr>)) (\<lambda>_ sync. map hy_hub (sy_hubs sync) = map to_proto_hub hubs)"
    for P users channels and inputs :: "hub_input list"
    by (auto simp: areads_def asks_def)
  then show ?thesis
    unfolding sync_hubs_def
    by (intro areads_bind[OF areads_inputs] areads_bind[OF areads_profiles(2)] areads_bind[OF areads_ask[OF reads_channels_by_ids]])
      (auto intro: areads_weaken)
qed

lemma reads_getHubsByIds_exact:
  assumes "inj_on (he_hash env) H"
  shows "reads env H (\<lambda>_. True) (getHubsByIds env ids)
     (\<lambda>db m. \<forall>i \<in> H. \<forall>hub. map_of m i = Some hub \<longrightarrow> hubs_current env db [hub] \<and> hub_id hub = i)"
  unfolding reads_def
proof (intro allI impI)
  fix s r s' assume s: "svc_ok env H s" and m: "getHubsByIds env ids s = (r, s')"
  note d = readsD[OF reads_getHubsByIds_current s TrueI m]
  have "hub_id hub \<in> H" if "hubs_current env (hs_db s) [hub]" for hub
    using that s hub_of_id_Some[of "hub_id hub" "hs_db s"] by (fastforce simp: svc_ok_def hubs_current_def hub_current_def hub_matches_def)
  then have "hub_id hub = i" if "hubs_current env (hs_db s) [hub]" "he_hash env (hub_id hub) = he_hash env i" "i \<in> H" for hub i
    using that assms by (metis inj_onD)
  then show "svc_ok env H s' \<and> hs_db s' = hs_db s \<and> (\<forall>m. r = Inr m \<longrightarrow> (\<forall>i \<in> H. \<forall>hub. map_of m i = Some hub \<longrightarrow> hubs_current env (hs_db s) [hub] \<and> hub_id hub = i))"
    using d by blast
qed

text \<open>Every hub of a snapshot is one the user is a member of.\<close>

definition only_own_hubs :: "UserId \<Rightarrow> database \<Rightarrow> state_sync \<Rightarrow> bool" where
  "only_own_hubs u db sync \<longleftrightarrow> (\<forall>hy \<in> set (sy_hubs sync). \<exists>i n s. hy_hub hy = ProtoHub i n s \<and> db_role i u db \<noteq> None)"

lemma only_own_hubs_map:
  assumes "map hy_hub (sy_hubs sync) = map to_proto_hub hubs" "\<forall>hub \<in> set hubs. db_role (hub_id hub) u db \<noteq> None"
  shows "only_own_hubs u db sync"
  unfolding only_own_hubs_def
proof
  fix hy assume "hy \<in> set (sy_hubs sync)"
  then have "hy_hub hy \<in> set (map to_proto_hub hubs)" using assms(1)[symmetric] by simp
  then show "\<exists>i n s. hy_hub hy = ProtoHub i n s \<and> db_role i u db \<noteq> None" using assms(2) by (auto simp: to_proto_hub_def)
qed

lemma areads_sync_user:
  "areads env H (\<lambda>_. True) (build_state_sync_for_user env u) (\<lambda>db sync. canon (ae_hub env) u \<longrightarrow> only_own_hubs u db sync)"
proof -
  let ?Q = "\<lambda>db hubs. hubs_current (ae_hub env) db hubs \<and> (canon (ae_hub env) u \<longrightarrow> (\<forall>hub \<in> set hubs. db_role (hub_id hub) u db \<noteq> None))"
  have "areads env H (\<lambda>db. (True \<and> True) \<and> ?Q db hubs) (sync_hubs env self hubs) (\<lambda>db sync. canon (ae_hub env) u \<longrightarrow> only_own_hubs u db sync)" for hubs self
    by (rule areads_weaken[OF areads_sync]) (auto intro: only_own_hubs_map)
  then show ?thesis
    unfolding build_state_sync_for_user_def
    by (intro areads_bind[OF areads_self] areads_bind[OF areads_ask[OF reads_user_hubs_current]]) auto
qed

definition spelt_ids :: "hub_env \<Rightarrow> HubId set \<Rightarrow> HubId list \<Rightarrow> bool" where
  "spelt_ids env H ids \<longleftrightarrow> (\<forall>i \<in> set ids. i \<in> H \<and> canon env i)"

lemma areads_role:
  "inj_on (he_hash (ae_hub env)) H \<Longrightarrow> h \<in> H \<Longrightarrow> canon (ae_hub env) h \<Longrightarrow>
   areads env H P (on_hubs (getMembershipRole (ae_hub env) h u)) (\<lambda>db r. r = db_role h u db)"
  unfolding getMembershipRole_def by (rule areads_ask[OF reads_role])

lemma areads_sync_requested:
  assumes inj: "inj_on (he_hash (ae_hub env)) H" and ids: "spelt_ids (ae_hub env) H ids"
  shows "areads env H (\<lambda>_. True) (build_state_sync_for_requested_hubs env u ids) (\<lambda>db sync. only_own_hubs u db sync)"
proof -
  let ?auth = "\<lambda>db hs. set hs \<subseteq> {h \<in> set (sort ids). db_role h u db \<noteq> None}"
  let ?role = "\<lambda>h. bind_work (on_hubs (getMembershipRole (ae_hub env) h u)) (\<lambda>r. return_work (r \<noteq> None))"
  have "areads env H P (?role h) (\<lambda>db b. b \<longrightarrow> db_role h u db \<noteq> None)" if "h \<in> set (sort ids)" for P h
  proof (rule areads_bind[of _ _ _ _ "\<lambda>db r. r = db_role h u db"])
    show "areads env H P (on_hubs (getMembershipRole (ae_hub env) h u)) (\<lambda>db r. r = db_role h u db)"
      by (rule areads_role[OF inj]) (use that ids in \<open>auto simp: spelt_ids_def\<close>)
  qed (auto intro: areads_return)
  from areads_filter_work[OF this]
  have auth: "areads env H (\<lambda>db. True \<and> True) (filter_work ?role (sort ids)) ?auth" .
  let ?Q = "\<lambda>db m. \<forall>i \<in> H. \<forall>hub. map_of m i = Some hub \<longrightarrow> hubs_current (ae_hub env) db [hub] \<and> hub_id hub = i"
  have "hubs_current (ae_hub env) db (List.map_filter (map_of m) hs) \<and> (\<forall>hub \<in> set (List.map_filter (map_of m) hs). db_role (hub_id hub) u db \<noteq> None)"
    if "?auth db hs" "?Q db m" for db hs m
    using that ids by (fastforce simp: hubs_current_def spelt_ids_def List.map_filter_def)
  then have sync: "areads env H (\<lambda>db. ((True \<and> True) \<and> ?auth db hs) \<and> ?Q db m) (sync_hubs env self (List.map_filter (map_of m) hs)) (\<lambda>db sync. only_own_hubs u db sync)"
    for self hs m by (intro areads_weaken[OF areads_sync]) (auto intro: only_own_hubs_map)
  have rest: "areads env H (\<lambda>db. True \<and> True) (bind_work (filter_work ?role (sort ids)) (\<lambda>authorized.
         bind_work (on_hubs (getHubsByIds (ae_hub env) authorized)) (\<lambda>by_id.
         sync_hubs env self (List.map_filter (map_of by_id) authorized)))) (\<lambda>db sync. only_own_hubs u db sync)" for self
    by (intro areads_bind[OF auth] areads_bind[OF areads_ask[OF reads_getHubsByIds_exact[OF inj]]] sync)
  show ?thesis
    unfolding build_state_sync_for_requested_hubs_def
    by (rule areads_bind[OF areads_self]) (use rest in \<open>auto intro: areads_return simp: only_own_hubs_def\<close>)
qed

section \<open>Writes\<close>

text \<open>A write of the hub service keeps the caches coherent; it fails without effect, or its effect is described by \<open>W\<close>.\<close>

definition hwrites :: "hub_env \<Rightarrow> HubId set \<Rightarrow> (hub_service, 'a) work \<Rightarrow> (database \<Rightarrow> 'a \<Rightarrow> database \<Rightarrow> bool) \<Rightarrow> bool" where
  "hwrites env H m W \<longleftrightarrow> (\<forall>s r s'. svc_ok env H s \<longrightarrow> m s = (r, s') \<longrightarrow>
     svc_ok env H s' \<and> (case r of Inl e \<Rightarrow> hs_db s' = hs_db s | Inr x \<Rightarrow> W (hs_db s) x (hs_db s')))"

lemma repo_effect:
  assumes frame: "\<And>x s. fst (k x s) = Inr (g x) \<and> hs_db (snd (k x s)) = hs_db s"
    and s: "svc_ok env H s" and m: "bind_work (on_repo (\<lambda>f. txn_write f fn)) k s = (r, s')"
  shows "case r of Inl e \<Rightarrow> hs_db s' = hs_db s | Inr x \<Rightarrow> \<exists>y. fn (hs_db s) = (Inr y, hs_db s') \<and> x = g y"
proof -
  have calm: "\<forall>f \<in> set (hs_faults s). calm f" using s by (simp add: svc_ok_def)
  obtain q s1 where q: "on_repo (\<lambda>f. txn_write f fn) s = (q, s1)" by force
  from q calm show ?thesis
  proof (cases rule: on_write)
    case (failed e)
    then have "r = Inl e" "s' = s1" using m q by (simp_all add: bind_work_def)
    then show ?thesis using failed by simp
  next
    case (written x db)
    then have k: "k x s1 = (r, s')" using m q by (simp add: bind_work_def)
    have "hs_db s1 = db" using written(3) by simp
    then have "r = Inr (g x)" "hs_db s' = db" using frame[of x s1] k by simp_all
    then show ?thesis using written by simp
  qed
qed

lemma hwrites_repo:
  assumes "keeps env H (\<lambda>_. True) (bind_work (on_repo (\<lambda>f. txn_write f fn)) k)"
    and "\<And>x s. fst (k x s) = Inr (g x) \<and> hs_db (snd (k x s)) = hs_db s"
  shows "hwrites env H (bind_work (on_repo (\<lambda>f. txn_write f fn)) k) (\<lambda>db x db'. \<exists>y. fn db = (Inr y, db') \<and> x = g y)"
  unfolding hwrites_def
proof (intro allI impI conjI)
  fix s r s' assume s: "svc_ok env H s" and m: "bind_work (on_repo (\<lambda>f. txn_write f fn)) k s = (r, s')"
  show "svc_ok env H s'" using assms(1) s m unfolding keeps_def by (metis snd_conv)
  show "case r of Inl e \<Rightarrow> hs_db s' = hs_db s | Inr x \<Rightarrow> \<exists>y. fn (hs_db s) = (Inr y, hs_db s') \<and> x = g y"
    by (rule repo_effect[OF assms(2) s m])
qed

lemma hwrites_weaken: "hwrites env H m W \<Longrightarrow> (\<And>db x db'. W db x db' \<Longrightarrow> W' db x db') \<Longrightarrow> hwrites env H m W'"
  unfolding hwrites_def by (fastforce split: sum.split)

lemma hwrites_removeMember:
  assumes "canon env h" "canon env u"
  shows "hwrites env H (removeMember env h u) (\<lambda>db _ db'. db' = snd (delete_member h u db))"
proof -
  have "hwrites env H (removeMember env h u) (\<lambda>db x db'. \<exists>y. delete_member h u db = (Inr y, db') \<and> x = ())"
    using keeps_removeMember[OF assms(1), of H u] unfolding removeMember_def repo_removeMember_def canon_with[OF assms(1)] canon_with[OF assms(2)]
    by (rule hwrites_repo) simp
  then show ?thesis by (rule hwrites_weaken) auto
qed

lemma hwrites_addMember:
  assumes "canon env h" "canon env u"
  shows "hwrites env H (addMember env now h u role) (\<lambda>db _ db'. upsert_member now h u (Some (role_to_string role)) db = (Inr (), db'))"
proof -
  have role: "get_hub_role_id (normalize_db_role (role_to_string role)) = Some (role_to_string role)" by (simp add: get_hub_role_id_def role_id_known)
  have "hwrites env H (addMember env now h u role) (\<lambda>db x db'. \<exists>y. upsert_member now h u (Some (role_to_string role)) db = (Inr y, db') \<and> x = ())"
    using keeps_addMember[OF assms(1), of H now u role] unfolding addMember_def repo_addMember_def canon_with[OF assms(1)] canon_with[OF assms(2)] role
    by (rule hwrites_repo) simp
  then show ?thesis by (rule hwrites_weaken) auto
qed

lemma hwrites_createHub:
  assumes "canon env new" "new \<in> H" "canon env owner"
  shows "hwrites env H (createHub env new now name owner)
     (\<lambda>db hub db'. \<exists>row. insert_hub (he_pg env) new now name owner db = (Inr row, db') \<and> hub = parse_hub_row row)"
proof -
  let ?fn = "\<lambda>db. case insert_hub (he_pg env) new now name owner db of (Inl e, db) \<Rightarrow> (Inl e, db) | (Inr r, db) \<Rightarrow> (Inr (parse_hub_row r), db)"
  have "hwrites env H (createHub env new now name owner) (\<lambda>db x db'. \<exists>y. ?fn db = (Inr y, db') \<and> x = y)"
    using keeps_createHub_op[OF assms(1,2), of now name owner] unfolding createHub_def repo_createHub_def canon_with[OF assms(3)]
    by (rule hwrites_repo) simp
  then show ?thesis by (rule hwrites_weaken) (auto split: prod.split_asm sum.split_asm)
qed

lemma hwrites_hub_update:
  assumes "canon env h"
  shows "hwrites env H (renameHub env h name) (\<lambda>db b db'. update_hub (he_pg env) h (\<lambda>r. r\<lparr> hr_name := name \<rparr>) db = (Inr b, db'))"
    "hwrites env H (updateHubAvatarSeed env h seed) (\<lambda>db b db'. update_hub (he_pg env) h (\<lambda>r. r\<lparr> hr_avatar := seed \<rparr>) db = (Inr b, db'))"
proof -
  have "hwrites env H (renameHub env h name) (\<lambda>db x db'. \<exists>y. update_hub (he_pg env) h (\<lambda>r. r\<lparr> hr_name := name \<rparr>) db = (Inr y, db') \<and> x = y)"
    using keeps_renameHub[OF assms, of H name] unfolding renameHub_def repo_renameHub_def canon_with[OF assms]
    by (rule hwrites_repo) simp
  then show "hwrites env H (renameHub env h name) (\<lambda>db b db'. update_hub (he_pg env) h (\<lambda>r. r\<lparr> hr_name := name \<rparr>) db = (Inr b, db'))"
    by (rule hwrites_weaken) auto
  have "hwrites env H (updateHubAvatarSeed env h seed) (\<lambda>db x db'. \<exists>y. update_hub (he_pg env) h (\<lambda>r. r\<lparr> hr_avatar := seed \<rparr>) db = (Inr y, db') \<and> x = y)"
    using keeps_avatar[OF assms, of H seed] unfolding updateHubAvatarSeed_def repo_updateHubAvatarSeed_def canon_with[OF assms]
    by (rule hwrites_repo) simp
  then show "hwrites env H (updateHubAvatarSeed env h seed) (\<lambda>db b db'. update_hub (he_pg env) h (\<lambda>r. r\<lparr> hr_avatar := seed \<rparr>) db = (Inr b, db'))"
    by (rule hwrites_weaken) auto
qed

lemma hwrites_createChannel:
  assumes "inj_on (he_hash env) H" "h \<in> H" "canon env h" "canon env new" "canon env u"
  shows "hwrites env H (createChannel env new now h name ty u) (\<lambda>db c db'. insert_channel (he_pg env) new now h name ty u db = (Inr c, db'))"
proof -
  have frame: "hs_db (case cached env h s of (Some sn, s) \<Rightarrow> if c \<in> set (sn_channel_ids sn) then s else put_snapshot env (sn\<lparr> sn_channel_ids := sn_channel_ids sn @ [c] \<rparr>) s
            | (None, s) \<Rightarrow> s) = hs_db s" for c s
    by (auto simp: cached_def split: prod.split sum.split HubCacheError.split option.split)
  have "hwrites env H (createChannel env new now h name ty u) (\<lambda>db x db'. \<exists>y. insert_channel (he_pg env) new now h name ty u db = (Inr y, db') \<and> x = y)"
    using keeps_createChannel[OF assms(1-4), of now name ty u] unfolding createChannel_def repo_createChannel_def canon_with[OF assms(3)] canon_with[OF assms(5)]
    by (rule hwrites_repo) (simp add: Let_def frame)
  then show ?thesis by (rule hwrites_weaken) auto
qed

lemma hwrites_renameChannel:
  assumes "canon env c"
  shows "hwrites env H (renameChannel env c name) (\<lambda>db b db'. update_channel_name (he_pg env) c name db = (Inr b, db'))"
proof -
  have "hwrites env H (renameChannel env c name) (\<lambda>db x db'. \<exists>y. update_channel_name (he_pg env) c name db = (Inr y, db') \<and> x = y)"
    using keeps_renameChannel[OF assms, of H name] unfolding renameChannel_def repo_renameChannel_def canon_with[OF assms]
    by (rule hwrites_repo) (auto split: option.split)
  then show ?thesis by (rule hwrites_weaken) auto
qed

lemma hwrites_deleteChannel:
  assumes "inj_on (he_hash env) H" "h \<in> H" "canon env h" "canon env c"
  shows "hwrites env H (deleteChannel env c h) (\<lambda>db b db'. delete_channel c h db = (Inr b, db'))"
proof -
  have frame: "hs_db (case cached env h s of (Some sn, s) \<Rightarrow> put_snapshot env (f sn) s | (None, s) \<Rightarrow> s) = hs_db s" for f s
    by (auto simp: cached_def split: prod.split sum.split HubCacheError.split option.split)
  have "hwrites env H (deleteChannel env c h) (\<lambda>db x db'. \<exists>y. delete_channel c h db = (Inr y, db') \<and> x = y)"
    using keeps_deleteChannel[OF assms] unfolding deleteChannel_def repo_deleteChannel_def canon_with[OF assms(3)] canon_with[OF assms(4)]
    by (rule hwrites_repo) (simp add: Let_def frame)
  then show ?thesis by (rule hwrites_weaken) auto
qed

lemma hwrites_deleteHub:
  assumes "inj_on (he_hash env) H" "h \<in> H" "canon env h" "canon env u"
  shows "hwrites env H (deleteHub env h u) (\<lambda>db b db'. delete_hub h u db = (Inr b, db'))"
  unfolding hwrites_def
proof (intro allI impI conjI)
  fix s r s' assume s: "svc_ok env H s" and m: "deleteHub env h u s = (r, s')"
  show "svc_ok env H s'" using keeps_deleteHub[OF assms(1-3), of u] s m unfolding keeps_def by (metis snd_conv)
  obtain q s1 where q: "getHubChannelIds env h s = (q, s1)" by force
  note d = readsD[OF reads_channel_ids[OF assms(1-3)] s TrueI q]
  have frame: "hs_db (fold drop_channel ids s) = hs_db s" for ids s by (simp add: fold_drop)
  show "case r of Inl e \<Rightarrow> hs_db s' = hs_db s | Inr b \<Rightarrow> delete_hub h u (hs_db s) = (Inr b, hs_db s')"
  proof (cases q)
    case (Inl e)
    then show ?thesis using m q d(2) by (auto simp: deleteHub_def bind_work_def)
  next
    case (Inr ids)
    let ?k = "\<lambda>b s. (Inr b, if b then fold drop_channel ids (invalidateHubCaches env h s) else s)"
    have "bind_work (on_repo (\<lambda>f. txn_write f (delete_hub h u))) ?k s1 = (r, s')"
      using m q Inr unfolding deleteHub_def repo_deleteHub_def canon_with[OF assms(3)] canon_with[OF assms(4)]
      by (simp add: bind_work_def[of "getHubChannelIds env h"])
    from repo_effect[OF _ d(1) this, of "\<lambda>b. b"] show ?thesis using d(2) by (auto simp: frame split: sum.split_asm)
  qed
qed

definition awrites :: "'r app_env \<Rightarrow> HubId set \<Rightarrow> ('r app, 'a) work \<Rightarrow> (database \<Rightarrow> 'a \<Rightarrow> database \<Rightarrow> bool) \<Rightarrow> bool" where
  "awrites env H m W \<longleftrightarrow> (\<forall>a r a'. aok env H a \<longrightarrow> m a = (r, a') \<longrightarrow>
     aok env H a' \<and> sessions_of a' = sessions_of a \<and> (case r of Inl e \<Rightarrow> adb a' = adb a | Inr x \<Rightarrow> W (adb a) x (adb a')))"

lemma awrites_hubs:
  assumes "hwrites (ae_hub env) H m W"
  shows "awrites env H (on_hubs m) W"
  unfolding awrites_def
proof (intro allI impI)
  fix a r a' assume a: "aok env H a" "on_hubs m a = (r, a')"
  obtain q s where m: "m (a_hubs a) = (q, s)" by force
  have "r = q" "a' = a\<lparr> a_hubs := s \<rparr>" using a(2) m by (simp_all add: on_hubs_def)
  then show "aok env H a' \<and> sessions_of a' = sessions_of a \<and> (case r of Inl e \<Rightarrow> adb a' = adb a | Inr x \<Rightarrow> W (adb a) x (adb a'))"
    using assms[unfolded hwrites_def, rule_format, OF a(1)[unfolded aok_def] m] by (cases q) (simp_all add: aok_def adb_def sessions_of_def)
qed

text \<open>A write, the handler of its failure, and the rest of the command, which may change the database again.\<close>

lemma changes_try_then:
  assumes w: "awrites env H m W" and h: "\<And>e. areads env H (\<lambda>_. True) (h e) Q" and k: "\<And>x. changes env H (\<lambda>db1. \<exists>db. W db x db1) (k x) S"
    and R: "\<And>db x db1. P db \<Longrightarrow> W db x db1 \<Longrightarrow> (db1 = db \<or> R db db1) \<and> (\<forall>db'. S db1 db' \<longrightarrow> R db db')"
  shows "changes env H P (try_else m h k) R"
  unfolding changes_def
proof (intro allI impI)
  fix a r a' assume a: "aok env H a" "P (adb a)" and t: "try_else m h k a = (r, a')"
  obtain q a1 where m: "m a = (q, a1)" by force
  have d: "aok env H a1" "sessions_of a1 = sessions_of a" "case q of Inl e \<Rightarrow> adb a1 = adb a | Inr x \<Rightarrow> W (adb a) x (adb a1)"
    using w a(1) m unfolding awrites_def by blast+
  show "aok env H a' \<and> sessions_of a' = sessions_of a \<and> (adb a' = adb a \<or> R (adb a) (adb a'))"
  proof (cases q)
    case (Inl e)
    then have "h e a1 = (r, a')" using t m by (simp add: try_else_def)
    from areadsD[OF h d(1) TrueI this] d Inl show ?thesis by simp
  next
    case (Inr x)
    then have "k x a1 = (r, a')" using t m by (simp add: try_else_def)
    moreover have "\<exists>db. W db x (adb a1)" using d(3) Inr by auto
    ultimately have "aok env H a' \<and> sessions_of a' = sessions_of a1 \<and> (adb a' = adb a1 \<or> S (adb a1) (adb a'))"
      using k[of x] d(1) unfolding changes_def by blast
    then show ?thesis using d Inr R[OF a(2), of x "adb a1"] by auto
  qed
qed

lemma changes_try:
  assumes "awrites env H m W" "\<And>e. areads env H (\<lambda>_. True) (h e) Q" "\<And>x. areads env H (\<lambda>_. True) (k x) Q'"
    "\<And>db x db'. P db \<Longrightarrow> W db x db' \<Longrightarrow> db' = db \<or> R db db'"
  shows "changes env H P (try_else m h k) R"
proof (rule changes_try_then[OF assms(1,2)])
  show "changes env H (\<lambda>db1. \<exists>db. W db x db1) (k x) (\<lambda>_ _. False)" for x
    by (rule changes_weaken[OF changes_reads[OF assms(3), where R = "\<lambda>_ _. False"]]) simp_all
qed (use assms(4) in blast)

text \<open>What a write reports may restrict the values the rest of the command is run with.\<close>

lemma changes_pure: "(\<And>db. P db \<Longrightarrow> B) \<Longrightarrow> (B \<Longrightarrow> changes env H P m R) \<Longrightarrow> changes env H P m R"
  unfolding changes_def by blast

lemma changes_write_bind:
  assumes "awrites env H m W" "\<And>x. areads env H (\<lambda>_. True) (k x) Q'" "\<And>db x db'. P db \<Longrightarrow> W db x db' \<Longrightarrow> db' = db \<or> R db db'"
  shows "changes env H P (bind_work m k) R"
proof -
  have e: "bind_work m k = try_else m (\<lambda>e s. (Inl e, s)) k" by (rule ext) (simp add: bind_work_def try_else_def)
  have "areads env H (\<lambda>_. True) (\<lambda>s. (Inl e, s)) (\<lambda>_ _. True)" for e by (simp add: areads_def)
  then show ?thesis unfolding e by (rule changes_try[OF assms(1) _ assms(2,3)])
qed

end
