(* ===== verification/Policy.thy ===== *)
theory Policy
  imports CommandLaws
begin

text \<open>
  The policy of the hub commands, as a relation on the tables that names the role each change needs, and the proof that
  each handler changes the tables only as the policy allows.
\<close>

section \<open>The policy\<close>

text \<open>\<open>allowed pg invites db u cmd db'\<close>: the user \<open>u\<close> may turn the tables \<open>db\<close> into \<open>db'\<close> with the command \<open>cmd\<close>. Roles are compared by rank;
  \<open>invites\<close> gives the hub an invite token stands for.\<close>

inductive allowed :: "pg \<Rightarrow> (string \<Rightarrow> HubId option) \<Rightarrow> database \<Rightarrow> UserId \<Rightarrow> hub_command \<Rightarrow> database \<Rightarrow> bool" for pg invites where
  may_kick: "db_role h u db = Some r \<Longrightarrow> db_role h tgt db = Some r' \<Longrightarrow> r' < r \<Longrightarrow> u \<noteq> tgt \<Longrightarrow>
    allowed pg invites db u (Kick h tgt) (snd (delete_member h tgt db))"
| may_leave: "db_role h u db = Some r \<Longrightarrow> r < OWNER \<Longrightarrow> allowed pg invites db u (Leave h) (snd (delete_member h u db))"
| may_change_role: "db_role h u db = Some OWNER \<Longrightarrow> db_role h tgt db = Some r' \<Longrightarrow> r' < OWNER \<Longrightarrow> parse_target_role role = Some r'' \<Longrightarrow> u \<noteq> tgt \<Longrightarrow>
    upsert_member now h tgt (Some (role_to_string r'')) db = (Inr (), db') \<Longrightarrow> allowed pg invites db u (ChangeRole now h tgt role) db'"
| may_join: "invites (invite_token code) = Some h \<Longrightarrow> db_role h u db = None \<Longrightarrow>
    upsert_member now h u (Some ''member'') db = (Inr (), db') \<Longrightarrow> allowed pg invites db u (JoinByInvite now code) db'"
| may_create: "insert_hub pg new now (sanitize raw) u db = (Inr row, db1) \<Longrightarrow>
    db' = db1 \<or> insert_channel pg new_channel now new ''general'' ''text'' u db1 = (Inr c, db') \<Longrightarrow> allowed pg invites db u (CreateHub new new_channel now raw) db'"
| may_delete: "db_role h u db = Some OWNER \<Longrightarrow> delete_hub h u db = (Inr b, db') \<Longrightarrow> allowed pg invites db u (DeleteHub h) db'"
| may_update: "db_role h u db = Some r \<Longrightarrow> USER < r \<Longrightarrow>
    db1 = db \<or> (\<exists>n b. name = Some n \<and> update_hub pg h (\<lambda>x. x\<lparr> hr_name := sanitize n \<rparr>) db = (Inr b, db1)) \<Longrightarrow>
    db' = db1 \<or> (\<exists>s b. seed = Some s \<and> update_hub pg h (\<lambda>x. x\<lparr> hr_avatar := sanitize s \<rparr>) db1 = (Inr b, db')) \<Longrightarrow>
    allowed pg invites db u (UpdateHub h name seed) db'"
| may_create_channel: "db_role h u db = Some r \<Longrightarrow> USER < r \<Longrightarrow> (type, ty) \<in> {(ChannelType_TEXT, ''text''), (ChannelType_VOICE, ''voice'')} \<Longrightarrow>
    insert_channel pg new now h (sanitize raw) ty u db = (Inr c, db') \<Longrightarrow> allowed pg invites db u (CreateChannel new now h type raw) db'"
| may_rename_channel: "db_role h u db = Some r \<Longrightarrow> USER < r \<Longrightarrow> channel_of_id c db = Some row \<Longrightarrow> cr_hub row = h \<Longrightarrow>
    update_channel_name pg c (sanitize raw) db = (Inr b, db') \<Longrightarrow> allowed pg invites db u (RenameChannel h c (Some raw)) db'"
| may_remove_channel: "db_role h u db = Some OWNER \<Longrightarrow> channel_of_id c db = Some row \<Longrightarrow> cr_hub row = h \<Longrightarrow>
    delete_channel c h db = (Inr b, db') \<Longrightarrow> allowed pg invites db u (RemoveChannel h c) db'"

text \<open>Identifiers in a command are written the way the database prints them, and hub identifiers do not collide in the cache.\<close>

definition spelt :: "'r app_env \<Rightarrow> HubId set \<Rightarrow> HubId \<Rightarrow> bool" where
  "spelt env H h \<longleftrightarrow> h \<in> H \<and> canon (ae_hub env) h"

fun well_spelt :: "'r app_env \<Rightarrow> HubId set \<Rightarrow> (string \<Rightarrow> HubId option) \<Rightarrow> hub_command \<Rightarrow> bool" where
  "well_spelt env H invites (Kick h tgt) \<longleftrightarrow> spelt env H h \<and> canon (ae_hub env) tgt"
| "well_spelt env H invites (Leave h) \<longleftrightarrow> spelt env H h"
| "well_spelt env H invites (ChangeRole now h tgt role) \<longleftrightarrow> spelt env H h \<and> canon (ae_hub env) tgt"
| "well_spelt env H invites (JoinByInvite now code) \<longleftrightarrow> (\<forall>h. invites (invite_token code) = Some h \<longrightarrow> spelt env H h)"
| "well_spelt env H invites (GetInvite rnd h) \<longleftrightarrow> spelt env H h"
| "well_spelt env H invites (ValidateInvite code) \<longleftrightarrow> True"
| "well_spelt env H invites (CreateHub new new_channel now raw) \<longleftrightarrow> spelt env H new \<and> canon (ae_hub env) new_channel"
| "well_spelt env H invites (DeleteHub h) \<longleftrightarrow> spelt env H h"
| "well_spelt env H invites (UpdateHub h name seed) \<longleftrightarrow> spelt env H h"
| "well_spelt env H invites (CreateChannel new now h type raw) \<longleftrightarrow> spelt env H h \<and> canon (ae_hub env) new"
| "well_spelt env H invites (RenameChannel h c raw) \<longleftrightarrow> spelt env H h \<and> canon (ae_hub env) c"
| "well_spelt env H invites (RemoveChannel h c) \<longleftrightarrow> spelt env H h \<and> canon (ae_hub env) c"
| "well_spelt env H invites (RequestStateSync ids) \<longleftrightarrow> (\<forall>h \<in> set ids. h \<noteq> [] \<longrightarrow> spelt env H h)"

definition invite_of :: "'r app_env \<Rightarrow> 'r app \<Rightarrow> string \<Rightarrow> HubId option" where
  "invite_of env a token = fst (resolveInvite (e_redis (ae_voice env)) token (v_ext (a_voice a)))"

section \<open>The handlers follow the policy\<close>

lemma spelt_role:
  "inj_on (he_hash (ae_hub env)) H \<Longrightarrow> spelt env H h \<Longrightarrow>
   areads env H P (on_hubs (getMembershipRole (ae_hub env) h u)) (\<lambda>db r. r = db_role h u db)"
  unfolding spelt_def by (blast intro: areads_role)

lemma canKick_rank: "canKickHubMember r r' u tgt \<longleftrightarrow> u \<noteq> tgt \<and> r' < r"
  by (cases r; cases r') (auto simp: canKickHubMember_def less_Role_def)

lemma changes_reject [intro]: "changes env H P (reject env conn type code msg) R"
  by (rule changes_reads[OF areads_reject])

lemma changes_role:
  assumes "inj_on (he_hash (ae_hub env)) H" "spelt env H h"
    "\<And>r. changes env H (\<lambda>db. P db \<and> db_role h u db = Some r) (k r) R" "changes env H (\<lambda>db. P db \<and> db_role h u db = None) n R"
  shows "changes env H P (bind_work (on_hubs (getMembershipRole (ae_hub env) h u)) (\<lambda>r. case r of None \<Rightarrow> n | Some r \<Rightarrow> k r)) R"
proof (rule changes_bind[OF spelt_role[OF assms(1,2)]])
  fix x
  show "changes env H (\<lambda>db. P db \<and> x = db_role h u db) (case x of None \<Rightarrow> n | Some r \<Rightarrow> k r) R"
    by (cases x) (auto intro: changes_weaken[OF assms(3)] changes_weaken[OF assms(4)])
qed

lemma areads_seq:
  assumes "areads env H P m Q'" "\<And>x. areads env H (\<lambda>_. True) (k x) Q"
  shows "areads env H P (bind_work m k) Q"
  by (rule areads_bind[OF assms(1)], rule areads_weaken[OF assms(2)]) simp_all

lemma changes_seq:
  assumes "areads env H P m Q'" "\<And>x. changes env H P (k x) R"
  shows "changes env H P (bind_work m k) R"
  by (rule changes_bind[OF assms(1)], rule changes_weaken[OF assms(2)]) simp_all

lemma areads_channel_ids: "areads env H P (on_hubs (getHubChannelIds (ae_hub env) h)) (\<lambda>_ _. True)"
  unfolding getHubChannelIds_def
  by (rule areads_ask, rule reads_bind[OF reads_topology_any], rule reads_return) simp

text \<open>A handler run for the connection of a known user.\<close>

definition follows :: "'r app_env \<Rightarrow> HubId set \<Rightarrow> GlobalConnId \<Rightarrow> UserId \<Rightarrow> 'r command \<Rightarrow> (database \<Rightarrow> database \<Rightarrow> bool) \<Rightarrow> bool" where
  "follows env H conn u m R \<longleftrightarrow> (\<forall>a r a'. aok env H a \<longrightarrow> conn_user conn a = Some u \<longrightarrow> m a = (r, a') \<longrightarrow>
     aok env H a' \<and> sessions_of a' = sessions_of a \<and> (adb a' = adb a \<or> R (adb a) (adb a')))"

lemma with_user_at: "with_user conn n k a = (case conn_user conn a of None \<Rightarrow> n a | Some u \<Rightarrow> k u a)"
  by (simp add: with_user_def bind_work_def asks_def split: option.split)

lemma follows_with_user: "changes env H (\<lambda>_. True) (k u) R \<Longrightarrow> follows env H conn u (with_user conn n k) R"
  unfolding follows_def changes_def by (simp add: with_user_at)

lemma areads_eject: "areads env H P (eject_from_voice env h tgt) (\<lambda>_ _. True)"
  unfolding eject_from_voice_def
proof (rule areads_seq[OF areads_asks])
  fix ch
  show "areads env H (\<lambda>_. True) (case ch of None \<Rightarrow> return_work True | Some ch \<Rightarrow>
      bind_work (on_hubs (getChannel (ae_hub env) ch)) (\<lambda>c. if case c of None \<Rightarrow> False | Some c \<Rightarrow> channel_hub c = h
        then on_voice (verified_kick_user (ae_voice env) ch tgt) else return_work True)) (\<lambda>_ _. True)"
    by (cases ch) (auto intro!: areads_return areads_seq[OF areads_ask[OF reads_getChannel]])
qed

lemma changes_if:
  "(b \<Longrightarrow> changes env H P m R) \<Longrightarrow> (\<not> b \<Longrightarrow> changes env H P m' R) \<Longrightarrow> changes env H P (if b then m else m') R"
  by simp

lemma changes_option:
  "(x = None \<Longrightarrow> changes env H P n R) \<Longrightarrow> (\<And>v. x = Some v \<Longrightarrow> changes env H P (k v) R) \<Longrightarrow>
   changes env H P (case x of None \<Rightarrow> n | Some v \<Rightarrow> k v) R"
  by (cases x) simp_all

lemma changes_sum:
  "(\<And>e. x = Inl e \<Longrightarrow> changes env H P (f e) R) \<Longrightarrow> (\<And>v. x = Inr v \<Longrightarrow> changes env H P (k v) R) \<Longrightarrow>
   changes env H P (case x of Inl e \<Rightarrow> f e | Inr v \<Rightarrow> k v) R"
  by (cases x) simp_all

lemma areads_option:
  "(x = None \<Longrightarrow> areads env H P n Q) \<Longrightarrow> (\<And>v. x = Some v \<Longrightarrow> areads env H P (k v) Q) \<Longrightarrow>
   areads env H P (case x of None \<Rightarrow> n | Some v \<Rightarrow> k v) Q"
  by (cases x) simp_all

lemma areads_if:
  "(b \<Longrightarrow> areads env H P m Q) \<Longrightarrow> (\<not> b \<Longrightarrow> areads env H P m' Q) \<Longrightarrow> areads env H P (if b then m else m') Q"
  by simp

lemmas rest_rules = areads_reject areads_asks areads_if areads_seq[OF areads_redis] areads_seq[OF areads_asks] areads_seq[OF areads_channel_ids]
  areads_seq[OF areads_subs]

lemma follows_kick:
  assumes inj: "inj_on (he_hash (ae_hub env)) H" and h: "spelt env H h" and tgt: "canon (ae_hub env) tgt"
  shows "follows env H conn u (KickHubMemberCommand env conn h tgt) (\<lambda>db db'. allowed pg invites db u (Kick h tgt) db')"
proof -
  have "canon (ae_hub env) h" using h by (simp add: spelt_def)
  note w = awrites_hubs[OF hwrites_removeMember[OF this tgt]]
  show ?thesis
    unfolding KickHubMemberCommand_def
    by (intro follows_with_user changes_if changes_role[OF inj h] changes_reject changes_seq[OF areads_eject] changes_try[OF w] rest_rules)
      (auto simp: canKick_rank intro: may_kick)
qed

lemma follows_leave:
  assumes inj: "inj_on (he_hash (ae_hub env)) H" and h: "spelt env H h" and u: "canon (ae_hub env) u"
  shows "follows env H conn u (LeaveHubCommand env conn h) (\<lambda>db db'. allowed pg invites db u (Leave h) db')"
proof -
  have "canon (ae_hub env) h" using h by (simp add: spelt_def)
  note w = awrites_hubs[OF hwrites_removeMember[OF this u]]
  have "r < OWNER" if "r \<noteq> OWNER" for r using that by (cases r) (simp_all add: less_Role_def)
  then show ?thesis
    unfolding LeaveHubCommand_def
    by (intro follows_with_user changes_if changes_role[OF inj h] changes_reject changes_try[OF w] rest_rules) (auto intro: may_leave)
qed

lemma changes_drop [intro]: "changes env H P (drop_conn conn code msg) R"
  by (rule changes_reads[OF areads_drop])

lemma follows_reads: "areads env H (\<lambda>_. True) (k u) Q \<Longrightarrow> follows env H conn u (with_user conn n k) R"
  by (rule follows_with_user[OF changes_reads])

lemma above_user: "USER < r \<longleftrightarrow> r = OWNER \<or> r = ADMIN" "r < OWNER \<longleftrightarrow> r \<noteq> OWNER"
  by (cases r; simp add: less_Role_def)+

lemma canChange_rank: "canChangeMemberRole r r' d u tgt \<Longrightarrow> r = OWNER \<and> r' < OWNER \<and> u \<noteq> tgt"
  by (auto simp: canChangeMemberRole_def above_user split: if_split_asm)

lemma areads_reject_write [intro]: "areads env H P (reject_write env conn type mapping otherwise e) (\<lambda>_ _. True)"
  unfolding reject_write_def by (cases "mapping (what env e)") (auto intro: areads_reject)

lemma follows_role:
  assumes inj: "inj_on (he_hash (ae_hub env)) H" and h: "spelt env H h" and tgt: "canon (ae_hub env) tgt"
  shows "follows env H conn u (UpdateHubMemberRoleCommand env now conn h tgt role) (\<lambda>db db'. allowed pg invites db u (ChangeRole now h tgt role) db')"
proof -
  have "canon (ae_hub env) h" using h by (simp add: spelt_def)
  note w = awrites_hubs[OF hwrites_addMember[OF this tgt]]
  show ?thesis
    unfolding UpdateHubMemberRoleCommand_def
    by (intro follows_with_user changes_if changes_option changes_role[OF inj h] changes_reject changes_try[OF w] rest_rules)
      (auto dest!: canChange_rank intro: may_change_role)
qed

lemma follows_delete:
  assumes inj: "inj_on (he_hash (ae_hub env)) H" and h: "spelt env H h" and u: "canon (ae_hub env) u"
  shows "follows env H conn u (DeleteHubCommand env conn h) (\<lambda>db db'. allowed pg invites db u (DeleteHub h) db')"
proof -
  have "h \<in> H" "canon (ae_hub env) h" using h by (simp_all add: spelt_def)
  note w = awrites_hubs[OF hwrites_deleteHub[OF inj this u]]
  show ?thesis
    unfolding DeleteHubCommand_def
    by (intro follows_with_user changes_if changes_role[OF inj h] changes_reject changes_seq[OF areads_channel_ids] changes_try[OF w] rest_rules areads_return)
      (auto intro: may_delete)
qed

text \<open>A hub is joined or created, and the user's connections get its state.\<close>

lemma areads_subscribe:
  assumes "inj_on (he_hash (ae_hub env)) H" "spelt env H h"
  shows "areads env H P (subscribe_and_sync env conn h u) (\<lambda>_ _. True)"
proof -
  have "spelt_ids (ae_hub env) H [h]" using assms(2) by (simp add: spelt_def spelt_ids_def)
  from areads_sync_requested[OF assms(1) this] show ?thesis
    unfolding subscribe_and_sync_def
    by (intro areads_seq[OF areads_asks] areads_seq[OF areads_subs] areads_seq areads_return) auto
qed

lemma areads_announce: "areads env H P (announce_member env h u own out) (\<lambda>_ _. True)"
  unfolding announce_member_def
  by (intro areads_seq[OF areads_asks] areads_if areads_return areads_seq[OF areads_profiles(1)] areads_asks) simp

lemma insert_hub_id: "insert_hub pg new now name owner db = (Inr row, db') \<Longrightarrow> hub_id (parse_hub_row row) = new"
  by (auto simp: insert_hub_def fails_def parse_hub_row_def new_hub_def Let_def split: if_split_asm prod.split_asm sum.split_asm)

lemma follows_create:
  assumes inj: "inj_on (he_hash (ae_hub env)) H" and new: "spelt env H new" "canon (ae_hub env) new_channel" and u: "canon (ae_hub env) u"
  shows "follows env H conn u (CreateHubCommand env new new_channel now conn raw)
    (\<lambda>db db'. allowed (he_pg (ae_hub env)) invites db u (CreateHub new new_channel now raw) db')"
proof -
  have new': "new \<in> H" "canon (ae_hub env) new" using new(1) by (simp_all add: spelt_def)
  note w = awrites_hubs[OF hwrites_createHub[OF new'(2,1) u]]
  note wc = awrites_hubs[OF hwrites_createChannel[OF inj new' new(2) u]]
  let ?pg = "he_pg (ae_hub env)"
  let ?W = "\<lambda>db hub db'. \<exists>row. insert_hub ?pg new now (sanitize raw) u db = (Inr row, db') \<and> hub = parse_hub_row row"
  let ?S = "\<lambda>db db'. \<exists>c. insert_channel ?pg new_channel now new ''general'' ''text'' u db = (Inr c, db')"
  let ?rest = "\<lambda>hub. bind_work (subscribe_and_sync env conn (hub_id hub) u) (\<lambda>(_, out). return_work out)"
  have k: "changes env H (\<lambda>db1. \<exists>db. ?W db hub db1)
      (try_else (on_hubs (createChannel (ae_hub env) new_channel now (hub_id hub) ''general'' ''text'' u)) (\<lambda>_. ?rest hub) (\<lambda>_. ?rest hub)) ?S" for hub
  proof (rule changes_pure[of _ "hub_id hub = new"])
    assume id: "hub_id hub = new"
    have "areads env H P (?rest hub) (\<lambda>_ _. True)" for P
      unfolding id by (rule areads_seq[OF areads_subscribe[OF inj new(1)]]) (auto intro: areads_return)
    then show "changes env H (\<lambda>db1. \<exists>db. ?W db hub db1)
      (try_else (on_hubs (createChannel (ae_hub env) new_channel now (hub_id hub) ''general'' ''text'' u)) (\<lambda>_. ?rest hub) (\<lambda>_. ?rest hub)) ?S"
      unfolding id by (intro changes_try[OF wc]) auto
  qed (auto dest: insert_hub_id)
  show ?thesis
    unfolding CreateHubCommand_def Let_def
    by (intro follows_with_user changes_if changes_reject changes_try_then[OF w areads_reject_write k]) (auto intro: may_create)
qed

lemma hwrites_if:
  assumes "\<And>v. requested = Some v \<Longrightarrow> hwrites env H (op v) (W v)"
  shows "hwrites env H (write_if requested op) (\<lambda>db b db'. db' = db \<or> (\<exists>v. requested = Some v \<and> W v db b db'))"
proof (cases requested)
  case None
  then show ?thesis by (simp add: write_if_def hwrites_def return_work_def)
next
  case (Some v)
  then show ?thesis using hwrites_weaken[OF assms[OF Some]] by (simp add: write_if_def)
qed

lemma check_text_sanitized: "check_text raw limit missing too_long = Inr (Some v) \<Longrightarrow> \<exists>r. raw = Some r \<and> v = sanitize r"
  by (auto simp: check_text_def Let_def split: option.split_asm if_split_asm)

lemma follows_update:
  assumes inj: "inj_on (he_hash (ae_hub env)) H" and h: "spelt env H h"
  shows "follows env H conn u (UpdateHubCommand env conn h name seed)
    (\<lambda>db db'. allowed (he_pg (ae_hub env)) invites db u (UpdateHub h name seed) db')"
proof -
  have h': "canon (ae_hub env) h" using h by (simp add: spelt_def)
  note wn = awrites_hubs[OF hwrites_if[OF hwrites_hub_update(1)[OF h']]]
  note ws = awrites_hubs[OF hwrites_if[OF hwrites_hub_update(2)[OF h']]]
  let ?pg = "he_pg (ae_hub env)"
  let ?S = "\<lambda>seed db db'. \<exists>v b. seed = Some v \<and> update_hub ?pg h (\<lambda>x. x\<lparr> hr_avatar := v \<rparr>) db = (Inr b, db')"
  have rest: "areads env H (\<lambda>_. True) (bind_work (on_hubs (getHub (ae_hub env) h)) (\<lambda>hub. asks (hub_update_message env h hub))) (\<lambda>_ _. True)"
    by (rule areads_seq[OF areads_ask[OF reads_getHub_any] areads_asks])
  have seed: "changes env H P (try_else (on_hubs (write_if sd (updateHubAvatarSeed (ae_hub env) h)))
        (reject_write env conn HUB_UPDATE map_hub_write_error ''Unable to update hub settings'')
        (\<lambda>updated. if \<not> updated then reject env conn HUB_UPDATE INTERNAL_ERROR ''Unable to update hub avatar at this time''
           else bind_work (on_hubs (getHub (ae_hub env) h)) (\<lambda>hub. asks (hub_update_message env h hub)))) (?S sd)" for P sd
    by (rule changes_try[OF ws areads_reject_write areads_if[OF areads_reject rest]]) auto
  have two: "allowed ?pg invites db u (UpdateHub h name seed) db1 \<and> (\<forall>db'. ?S sd db1 db' \<longrightarrow> allowed ?pg invites db u (UpdateHub h name seed) db')"
    if "db_role h u db = Some r" "\<not> (r \<noteq> OWNER \<and> r \<noteq> ADMIN)"
      "db1 = db \<or> (\<exists>v. nm = Some v \<and> update_hub ?pg h (\<lambda>x. x\<lparr> hr_name := v \<rparr>) db = (Inr b, db1))"
      "check_text name k1 m1 l1 = Inr nm" "check_text seed k2 m2 l2 = Inr sd" for db db1 r nm sd b k1 m1 l1 k2 m2 l2
  proof -
    have n: "db1 = db \<or> (\<exists>n b. name = Some n \<and> update_hub ?pg h (\<lambda>x. x\<lparr> hr_name := sanitize n \<rparr>) db = (Inr b, db1))"
      using that(3,4) by (auto dest!: check_text_sanitized)
    have "USER < r" using that(2) by (auto simp: above_user)
    note step = may_update[OF that(1) this n]
    show ?thesis using that(5) by (auto dest!: check_text_sanitized intro: step)
  qed
  show ?thesis
    unfolding UpdateHubCommand_def
    by (intro follows_with_user changes_sum changes_if changes_role[OF inj h] changes_reject
        changes_try_then[OF wn areads_reject_write changes_if[OF changes_reject seed]]) (use two in blast)
qed

lemma follows_create_channel:
  assumes inj: "inj_on (he_hash (ae_hub env)) H" and h: "spelt env H h" and new: "canon (ae_hub env) new" and u: "canon (ae_hub env) u"
  shows "follows env H conn u (CreateChannelCommand env new now conn h type raw)
    (\<lambda>db db'. allowed (he_pg (ae_hub env)) invites db u (CreateChannel new now h type raw) db')"
proof -
  have "h \<in> H" "canon (ae_hub env) h" using h by (simp_all add: spelt_def)
  note w = awrites_hubs[OF hwrites_createChannel[OF inj this new u]]
  have "(type, if from_proto_channel_type type = VOICE then ''voice'' else ''text'') \<in> {(ChannelType_TEXT, ''text''), (ChannelType_VOICE, ''voice'')}"
    if "\<not> (type \<noteq> ChannelType_TEXT \<and> type \<noteq> ChannelType_VOICE)" using that by auto
  then show ?thesis
    unfolding CreateChannelCommand_def Let_def
    by (intro follows_with_user changes_if changes_role[OF inj h] changes_reject changes_seq[OF areads_channel_ids]
        changes_seq[OF areads_ask[OF reads_channels_by_ids]] changes_try[OF w areads_reject_write areads_asks])
      (use above_user in \<open>blast intro: may_create_channel\<close>)
qed

lemma changes_channel:
  assumes c: "canon (ae_hub env) c"
    and k: "\<And>ch. channel_hub ch = h \<Longrightarrow> channel_id ch = c \<Longrightarrow>
      changes env H (\<lambda>db. P db \<and> (\<exists>row. channel_of_id c db = Some row \<and> cr_hub row = h)) (k ch) R"
  shows "changes env H P (with_channel env conn type h c k) R"
proof -
  let ?Q = "\<lambda>db x. canon (ae_hub env) c \<longrightarrow> x = map_option parse_channel_row (channel_of_id c db)"
  have row: "channel_id ch = c \<and> (\<exists>row. channel_of_id c db = Some row \<and> cr_hub row = channel_hub ch)" if "?Q db (Some ch)" for db ch
  proof -
    have "Some ch = map_option parse_channel_row (channel_of_id c db)" using that c by blast
    then obtain row where "channel_of_id c db = Some row" "ch = parse_channel_row row" by (cases "channel_of_id c db") auto
    moreover from this(1) have "cr_id row = c" by (auto simp: channel_of_id_def find_Some_iff)
    ultimately show ?thesis by (simp add: parse_channel_row_def)
  qed
  have "changes env H (\<lambda>db. P db \<and> ?Q db (Some ch)) (k ch) R" if "channel_hub ch = h" for ch
  proof (rule changes_pure[of _ "channel_id ch = c"])
    assume "channel_id ch = c"
    from k[OF that this] show "changes env H (\<lambda>db. P db \<and> ?Q db (Some ch)) (k ch) R"
      by (rule changes_weaken) (use row that in auto)
  qed (use row in blast)
  then have "changes env H (\<lambda>db. P db \<and> ?Q db x) (case x of None \<Rightarrow> reject env conn type NOT_FOUND ''Channel not found''
      | Some ch \<Rightarrow> if channel_hub ch \<noteq> h then reject env conn type NOT_FOUND ''Channel not found'' else k ch) R" for x
    by (cases x) (auto intro: changes_reject)
  then have "changes env H P (bind_work (on_hubs (getChannel (ae_hub env) c)) (\<lambda>x. case x of None \<Rightarrow> reject env conn type NOT_FOUND ''Channel not found''
      | Some ch \<Rightarrow> if channel_hub ch \<noteq> h then reject env conn type NOT_FOUND ''Channel not found'' else k ch)) R"
    by (rule changes_bind[OF areads_ask[OF reads_getChannel]])
  then show ?thesis by (auto simp: with_channel_def to_channel_scope_def intro: changes_reject)
qed

lemma follows_rename_channel:
  assumes inj: "inj_on (he_hash (ae_hub env)) H" and h: "spelt env H h" and c: "canon (ae_hub env) c"
  shows "follows env H conn u (RenameChannelCommand env conn h c raw)
    (\<lambda>db db'. allowed (he_pg (ae_hub env)) invites db u (RenameChannel h c raw) db')"
proof -
  note w = awrites_hubs[OF hwrites_renameChannel[OF c]]
  show ?thesis
    unfolding RenameChannelCommand_def Let_def
    apply (rule follows_with_user, rule changes_channel[OF c])
    subgoal premises e for ch
      unfolding e
      by (intro changes_option changes_if changes_role[OF inj h] changes_reject changes_seq[OF areads_channel_ids]
          changes_seq[OF areads_ask[OF reads_channels_by_ids]] changes_try[OF w areads_reject_write areads_if[OF areads_reject areads_asks]])
        (use above_user in \<open>blast intro: may_rename_channel\<close>)
    done
qed

lemma follows_remove_channel:
  assumes inj: "inj_on (he_hash (ae_hub env)) H" and h: "spelt env H h" and c: "canon (ae_hub env) c"
  shows "follows env H conn u (RemoveChannelCommand env conn h c) (\<lambda>db db'. allowed pg invites db u (RemoveChannel h c) db')"
proof -
  have "h \<in> H" "canon (ae_hub env) h" using h by (simp_all add: spelt_def)
  note w = awrites_hubs[OF hwrites_deleteChannel[OF inj this c]]
  show ?thesis
    unfolding RemoveChannelCommand_def
    apply (rule follows_with_user, rule changes_channel[OF c])
    subgoal premises e for ch
      unfolding e
      by (intro changes_if changes_role[OF inj h] changes_reject
          changes_write_bind[OF w areads_if[OF areads_reject areads_seq[OF areads_subs areads_asks]]])
        (blast intro: may_remove_channel)
    done
qed

lemma changes_join:
  assumes inj: "inj_on (he_hash (ae_hub env)) H" and h: "\<And>h. hub = Some h \<Longrightarrow> spelt env H h" and u: "canon (ae_hub env) u"
  shows "changes env H (\<lambda>_. True) (case hub of
         None \<Rightarrow> reject env conn HUB_JOIN INVITE_EXPIRED ''Invite link is invalid or has expired''
       | Some h \<Rightarrow>
           bind_work (on_hubs (resolveMembershipRole (ae_hub env) h u)) (\<lambda>existing. case existing of
             Some _ \<Rightarrow> bind_work (subscribe_and_sync env conn h u) (\<lambda>(_, out). return_work out)
           | None \<Rightarrow>
               bind_work (on_hubs (getHub (ae_hub env) h)) (\<lambda>hub.
                 if hub = None then reject env conn HUB_JOIN NOT_FOUND ''Hub not found''
                 else
                   try_else (on_hubs (addMember (ae_hub env) now h u USER))
                     (\<lambda>_. reject env conn HUB_JOIN INTERNAL_ERROR ''Failed to join hub'')
                     (\<lambda>_. bind_work (subscribe_and_sync env conn h u) (\<lambda>(own, out). announce_member env h u own out)))))
     (\<lambda>db db'. \<exists>h. hub = Some h \<and> db_role h u db = None \<and> upsert_member now h u (Some ''member'') db = (Inr (), db'))"
proof (cases hub)
  case None
  then show ?thesis by (simp add: changes_reject)
next
  case (Some h)
  note s = assms(2)[OF Some]
  then have "canon (ae_hub env) h" by (simp add: spelt_def)
  note w = awrites_hubs[OF hwrites_addMember[OF this u]]
  have rest: "areads env H P (bind_work (subscribe_and_sync env conn h u) (\<lambda>(_, out). return_work out)) (\<lambda>_ _. True)"
    "areads env H P (bind_work (subscribe_and_sync env conn h u) (\<lambda>(own, out). announce_member env h u own out)) (\<lambda>_ _. True)" for P
    by (rule areads_seq[OF areads_subscribe[OF inj s]]; auto intro: areads_return areads_announce)+
  show ?thesis
    unfolding Some option.case
    by (intro changes_role[OF inj s, unfolded getMembershipRole_def] changes_reads[OF rest(1)] changes_seq[OF areads_ask[OF reads_getHub_any]]
        changes_if changes_reject changes_try[OF w areads_reject rest(2)]) auto
qed

text \<open>Redis keeps apart from the database and the sessions.\<close>

lemma redis_then:
  "bind_work (on_redis m) k a = k (fst (m (v_ext (a_voice a)))) (a\<lparr> a_voice := (a_voice a)\<lparr> v_ext := snd (m (v_ext (a_voice a))) \<rparr> \<rparr>)"
  by (simp add: bind_work_def on_redis_def on_voice_def split: prod.split)

lemma follows_join:
  assumes inj: "inj_on (he_hash (ae_hub env)) H" and h: "\<And>h. invite_of env a (invite_token code) = Some h \<Longrightarrow> spelt env H h"
    and u: "canon (ae_hub env) u" and a: "aok env H a" "conn_user conn a = Some u" "JoinHubByInviteCommand env now conn code a = (r, a')"
  shows "aok env H a' \<and> sessions_of a' = sessions_of a
    \<and> (adb a' = adb a \<or> allowed pg (invite_of env a) (adb a) u (JoinByInvite now code) (adb a'))"
proof -
  define hub where "hub = invite_of env a (invite_token code)"
  let ?b = "a\<lparr> a_voice := (a_voice a)\<lparr> v_ext := snd (resolveInvite (e_redis (ae_voice env)) (invite_token code) (v_ext (a_voice a))) \<rparr> \<rparr>"
  have b: "aok env H ?b" "adb ?b = adb a" "sessions_of ?b = sessions_of a" using a(1) by (simp_all add: aok_def adb_def sessions_of_def)
  have "fst (resolveInvite (e_redis (ae_voice env)) (invite_token code) (v_ext (a_voice a))) = hub" by (simp add: hub_def invite_of_def)
  note e = a(3)[unfolded JoinHubByInviteCommand_def with_user_at a(2) option.case redis_then this]
  note d = changes_join[OF inj h[folded hub_def] u, unfolded changes_def, rule_format, OF _ b(1) TrueI e]
  then show ?thesis using b(2,3) by (auto simp: hub_def intro: may_join)
qed

lemma follows_invite:
  assumes inj: "inj_on (he_hash (ae_hub env)) H" and h: "spelt env H h"
  shows "follows env H conn u (GetHubInviteCommand env rnd conn h) R"
  unfolding GetHubInviteCommand_def
  by (intro follows_with_user changes_role[OF inj h] changes_reject changes_if changes_seq[OF areads_redis] changes_reads[OF areads_asks])

lemma follows_validate: "follows env H conn u (ValidateHubInviteCommand env conn code) R"
  unfolding ValidateHubInviteCommand_def
  by (intro follows_with_user changes_seq[OF areads_redis] changes_option changes_reject changes_seq[OF areads_ask[OF reads_getHub_any]]
      changes_reads[OF areads_asks])

lemma set_gather [simp]: "set (gather ids) = {i \<in> set ids. i \<noteq> []}"
  by (auto simp: gather_def)

lemma areads_request:
  assumes inj: "inj_on (he_hash (ae_hub env)) H" and ids: "\<forall>h \<in> set ids. h \<noteq> [] \<longrightarrow> spelt env H h" and u: "canon (ae_hub env) u"
  shows "areads env H (\<lambda>_. True)
    (if ids = [] then build_state_sync_for_user env u else build_state_sync_for_requested_hubs env u (gather ids)) (only_own_hubs u)"
proof -
  have "spelt_ids (ae_hub env) H (gather ids)" using ids by (simp add: spelt_def spelt_ids_def)
  from areads_sync_requested[OF inj this] show ?thesis
    by (intro areads_if areads_weaken[OF areads_sync_user]) (use u in auto)
qed

lemma follows_sync:
  assumes "inj_on (he_hash (ae_hub env)) H" "\<forall>h \<in> set ids. h \<noteq> [] \<longrightarrow> spelt env H h" "canon (ae_hub env) u"
  shows "follows env H conn u (RequestStateSyncCommand env conn ids) R"
  unfolding RequestStateSyncCommand_def
  by (rule follows_with_user, rule changes_seq[OF areads_request[OF assms]], rule changes_reads[OF areads_return]) simp

text \<open>A connection without a session gets one message and changes nothing.\<close>

lemma execute_unknown: "conn_user conn a = None \<Longrightarrow> \<exists>m. execute env conn cmd a = (Inr [m], a)"
  by (cases cmd) (simp_all add: KickHubMemberCommand_def LeaveHubCommand_def UpdateHubMemberRoleCommand_def JoinHubByInviteCommand_def
      GetHubInviteCommand_def ValidateHubInviteCommand_def CreateHubCommand_def DeleteHubCommand_def UpdateHubCommand_def CreateChannelCommand_def
      RenameChannelCommand_def RemoveChannelCommand_def RequestStateSyncCommand_def with_user_at reject_def drop_conn_def return_work_def)

lemma execute_follows:
  assumes inj: "inj_on (he_hash (ae_hub env)) H" and w: "well_spelt env H (invite_of env a) cmd" and u: "canon (ae_hub env) u"
    and a: "aok env H a" "conn_user conn a = Some u" "execute env conn cmd a = (r, a')"
  shows "aok env H a' \<and> sessions_of a' = sessions_of a
    \<and> (adb a' = adb a \<or> allowed (he_pg (ae_hub env)) (invite_of env a) (adb a) u cmd (adb a'))"
proof (cases "\<exists>now code. cmd = JoinByInvite now code")
  case True
  then show ?thesis using follows_join[OF inj _ u a(1,2)] w a(3) by fastforce
next
  case False
  have "follows env H conn u (execute env conn cmd) (\<lambda>db db'. allowed (he_pg (ae_hub env)) (invite_of env a) db u cmd db')"
    using False w
    by (cases cmd) (auto intro: follows_kick[OF inj] follows_leave[OF inj _ u] follows_role[OF inj] follows_invite[OF inj] follows_validate
        follows_create[OF inj _ _ u] follows_delete[OF inj _ u] follows_update[OF inj] follows_create_channel[OF inj _ _ u]
        follows_rename_channel[OF inj] follows_remove_channel[OF inj] follows_sync[OF inj _ u])
  then show ?thesis using a unfolding follows_def by blast
qed

end
