(* ===== verification/PolicyProperties.thy ===== *)
theory PolicyProperties
  imports Policy
begin

text \<open>
  The hub commands in every reachable state: they follow the policy, a role changes only by an authorized command, snapshots
  show a user their own hubs only, and a kicked member is cut off from the hub.
\<close>

section \<open>Reachable states\<close>

text \<open>Commands of any connection, in any order; between them the hub service may do anything else it does, and the rest of the
  application state (sessions, subscriptions, voice, Redis, cached users) may change freely.\<close>

inductive app_reach :: "'r app_env \<Rightarrow> HubId set \<Rightarrow> 'r app \<Rightarrow> bool" for env H where
  app_start: "hub_reach (ae_hub env) H (a_hubs a) \<Longrightarrow> app_reach env H a"
| app_command: "app_reach env H a \<Longrightarrow> well_spelt env H (invite_of env a) cmd \<Longrightarrow> (\<And>u. conn_user conn a = Some u \<Longrightarrow> canon (ae_hub env) u) \<Longrightarrow>
    app_reach env H (snd (execute env conn cmd a))"
| app_hubs: "app_reach env H a \<Longrightarrow> hub_step (ae_hub env) H (a_hubs a) s \<Longrightarrow> app_reach env H (a\<lparr> a_hubs := s \<rparr>)"
| app_other: "app_reach env H a \<Longrightarrow> a_hubs a' = a_hubs a \<Longrightarrow> app_reach env H a'"

lemma app_reach_ok:
  assumes "app_reach env H a" "inj_on (he_hash (ae_hub env)) H"
  shows "aok env H a"
  using assms(1)
proof (induction rule: app_reach.induct)
  case (app_start a)
  then show ?case using hub_reach_ok assms(2) by (simp add: aok_def)
next
  case (app_command a cmd conn)
  show ?case
  proof (cases "conn_user conn a")
    case None
    then show ?thesis using execute_unknown[of conn a env cmd] app_command.IH by auto
  next
    case (Some u)
    show ?thesis
      using execute_follows[OF assms(2) app_command.hyps(2) app_command.hyps(3)[OF Some] app_command.IH Some prod.collapse[symmetric]] by blast
  qed
next
  case (app_hubs a s)
  then show ?case using hub_step_ok[OF assms(2)] by (simp add: aok_def)
next
  case (app_other a a')
  then show ?case by (simp add: aok_def)
qed

section \<open>A sample state\<close>

text \<open>Ada owns the hub \<open>h1\<close> and Bob is a member; each has one connection, and Bob's is subscribed to the hub.\<close>

definition bob_profile :: profile_row where
  "bob_profile = \<lparr> pr_user = ''bob'', pr_name = ''bob'', pr_display = ''Bob'', pr_avatar = ''Caleb'', pr_deleted = False \<rparr>"

definition desk_hubs :: hub_service where
  "desk_hubs = snd (addMember plain_env 2 ''h1'' ''bob'' USER
     (ada_service\<lparr> hs_db := (hs_db ada_service)\<lparr> t_profiles := t_profiles (hs_db ada_service) @ [bob_profile] \<rparr> \<rparr>))"

abbreviation ada_conn :: GlobalConnId where "ada_conn \<equiv> GlobalConnId ''n'' ''a''"

abbreviation bob_conn :: GlobalConnId where "bob_conn \<equiv> GlobalConnId ''n'' ''b''"

definition desk_env :: "mem app_env" where
  "desk_env = \<lparr> ae_voice = sample_env, ae_hub = plain_env, ae_ser = (\<lambda>_. ''bytes''), ae_base_url = ''u'', ae_transient = ''broken'' \<rparr>"

definition desk :: "mem app" where
  "desk = \<lparr> a_voice = sample_voice\<lparr>
       v_app := snd (attachConnection bob_conn ''bob'' (snd (attachConnection ada_conn ''ada'' (sm_new 5)))),
       v_subs := snd (subscribeConnection bob_conn (HubTopic ''h1'') subs_new) \<rparr>,
     a_hubs = desk_hubs, a_users = [] \<rparr>"

lemma desk_canon: "canon plain_env ''h1''" "canon plain_env ''ada''" "canon plain_env ''bob''"
  by (simp_all add: canon_def plain_env_def plain_pg_def to_lower_def)

lemma desk_spelt: "spelt desk_env {''h1''} ''h1''"
  by (simp add: spelt_def desk_env_def desk_canon)

lemma desk_reach: "app_reach desk_env {''h1''} desk"
proof (rule app_start)
  have "hub_step plain_env {''h1''} ada_service (ada_service\<lparr> hs_db := (hs_db ada_service)\<lparr> t_profiles := t_profiles (hs_db ada_service) @ [bob_profile] \<rparr> \<rparr>)"
    by (rule hs_signup) (code_simp, simp add: bob_profile_def)
  note 1 = hub_next[OF ada_service_reach this]
  have "hub_reach plain_env {''h1''} desk_hubs" unfolding desk_hubs_def by (rule hub_next[OF 1 hs_addMember[OF desk_canon(1)]])
  then show "hub_reach (ae_hub desk_env) {''h1''} (a_hubs desk)" by (simp add: desk_def desk_env_def)
qed

lemma desk_users: "conn_user ada_conn desk = Some ''ada''" "conn_user bob_conn desk = Some ''bob''"
  by code_simp+

lemma desk_roles: "db_role ''h1'' ''ada'' (adb desk) = Some OWNER" "db_role ''h1'' ''bob'' (adb desk) = Some USER"
  by code_simp+

lemma desk_subs: "subs_inv (v_subs (a_voice desk)) \<and> (bob_conn, HubTopic ''h1'') \<in> sub_rel (v_subs (a_voice desk))"
  using subscribe_ok[of subs_new bob_conn "HubTopic ''h1''"] subs_new_inv by (simp add: desk_def)

section \<open>Commands follow the policy\<close>



section \<open>Who can change a role\<close>

lemma find_map_hit: "(\<And>m. P m \<Longrightarrow> P (f m)) \<Longrightarrow> find P (map (\<lambda>m. if P m then f m else m) xs) = map_option f (find P xs)"
  by (induction xs) auto

lemma role_delete_member: "db_role h x (snd (delete_member h' u db)) = (if h = h' \<and> x = u then None else db_role h x db)"
proof (cases "h = h' \<and> x = u")
  case True
  then show ?thesis by (simp add: db_role_def deleted_member)
next
  case False
  then have "member_of_hub h x (snd (delete_member h' u db)) = member_of_hub h x db"
    by (simp add: member_of_hub_def delete_member_def) (rule find_filter_other, auto)
  then show ?thesis using False by (auto simp: db_role_def)
qed

lemma role_upsert:
  assumes "upsert_member now h' u (Some r) db = (Inr (), db')"
  shows "db_role h x db' = (if h = h' \<and> x = u then Some (role_from_string r) else db_role h x db)"
proof -
  let ?new = "t_members db @ [\<lparr> mr_hub = h', mr_user = u, mr_role = r, mr_joined = now \<rparr>]"
  let ?upd = "map (\<lambda>m. if mr_hub m = h' \<and> mr_user m = u then m\<lparr> mr_role := r \<rparr> else m) (t_members db)"
  have *: "if member_of_hub h' u db = None then db' = db\<lparr> t_members := ?new \<rparr> else db' = db\<lparr> t_members := ?upd \<rparr>"
    using assms by (auto simp: upsert_member_def fails_def split: option.split_asm if_split_asm)
  show ?thesis
  proof (cases "h = h' \<and> x = u")
    case True
    have "find (\<lambda>m. mr_hub m = h' \<and> mr_user m = u) ?upd = map_option (mr_role_update (\<lambda>_. r)) (member_of_hub h' u db)"
      unfolding member_of_hub_def by (rule find_map_hit) simp
    then show ?thesis
      using * True by (cases "member_of_hub h' u db") (simp_all add: db_role_def member_of_hub_def find_append)
  next
    case False
    then have "find (\<lambda>m. mr_hub m = h \<and> mr_user m = x) ?upd = member_of_hub h x db" "find (\<lambda>m. mr_hub m = h \<and> mr_user m = x) ?new = member_of_hub h x db"
      by (auto simp: member_of_hub_def find_append split: option.split intro!: find_map_other)
    then show ?thesis using * False by (auto simp: db_role_def member_of_hub_def split: if_split_asm)
  qed
qed

lemma role_same_members: "t_members db' = t_members db \<Longrightarrow> db_role h x db' = db_role h x db"
  by (simp add: db_role_def member_of_hub_def)

lemma members_same:
  "insert_channel pg new now h name ty u db = (Inr c, db') \<Longrightarrow> t_members db' = t_members db"
  "update_hub pg h upd db = (Inr b, db') \<Longrightarrow> t_members db' = t_members db"
  "update_channel_name pg ch name db = (Inr b, db') \<Longrightarrow> t_members db' = t_members db"
  "delete_channel ch h db = (Inr b, db') \<Longrightarrow> t_members db' = t_members db"
  by (auto simp: insert_channel_def update_hub_def update_channel_name_def delete_channel_def delete_channels_def delete_messages_def fails_def Let_def
      split: if_split_asm option.split_asm)

lemma role_insert_hub:
  assumes "insert_hub pg new now name u db = (Inr row, db')"
  shows "db_role h x db' = (if h = new \<and> x = u then Some OWNER else db_role h x db)"
proof -
  let ?row = "\<lparr> hr_id = new, hr_name = name, hr_avatar = ''Felix'', hr_owner = u, hr_created = now \<rparr>"
  let ?db1 = "db\<lparr> t_hubs := t_hubs db @ [?row] \<rparr>"
  have "upsert_member now new u (Some ''owner'') ?db1 = (Inr (), db')"
    using assms by (auto simp: insert_hub_def fails_def Let_def get_hub_role_id_def hub_roles_def split: if_split_asm prod.split_asm sum.split_asm)
  then show ?thesis using role_upsert[of now new u "''owner''" ?db1 db'] role_strings(1)[of OWNER] role_same_members[of ?db1 db] by simp
qed

lemma role_delete_hub:
  assumes "delete_hub h' u db = (Inr b, db')"
  shows "db_role h x db' = db_role h x db \<or> h = h' \<and> db_role h x db' = None"
proof (cases b)
  case True
  then have m: "t_members db' = filter (\<lambda>m. mr_hub m \<noteq> h') (t_members db)"
    using assms by (auto simp: delete_hub_def delete_channels_def delete_messages_def Let_def split: if_split_asm)
  show ?thesis
  proof (cases "h = h'")
    case False
    then have "member_of_hub h x db' = member_of_hub h x db" unfolding member_of_hub_def m by (intro find_filter_other) auto
    then show ?thesis by (simp add: db_role_def)
  qed (auto simp: db_role_def member_None m)
next
  case False
  then show ?thesis using assms by (auto simp: delete_hub_def Let_def split: if_split_asm)
qed

text \<open>The ways in which a command of the user \<open>u\<close> may change the role of \<open>x\<close> in the hub \<open>h\<close> from \<open>before\<close> to \<open>after\<close>; \<open>own\<close> is the
  role of \<open>u\<close>.\<close>

inductive role_change :: "(string \<Rightarrow> HubId option) \<Rightarrow> UserId \<Rightarrow> Role option \<Rightarrow> hub_command \<Rightarrow> HubId \<Rightarrow> UserId \<Rightarrow> Role option \<Rightarrow> Role option \<Rightarrow> bool"
  for invites u own where
  joins: "invites (invite_token code) = Some h \<Longrightarrow> role_change invites u own (JoinByInvite now code) h u None (Some USER)"
| creates: "role_change invites u own (CreateHub h new_channel now raw) h u before (Some OWNER)"
| leaves: "own = Some r \<Longrightarrow> r < OWNER \<Longrightarrow> role_change invites u own (Leave h) h u own None"
| kicks: "own = Some r \<Longrightarrow> r' < r \<Longrightarrow> x \<noteq> u \<Longrightarrow> role_change invites u own (Kick h x) h x (Some r') None"
| changes_role: "own = Some OWNER \<Longrightarrow> x \<noteq> u \<Longrightarrow> r < OWNER \<Longrightarrow> r' < OWNER \<Longrightarrow> parse_target_role role = Some r' \<Longrightarrow>
    role_change invites u own (ChangeRole now h x role) h x (Some r) (Some r')"
| deletes_hub: "own = Some OWNER \<Longrightarrow> role_change invites u own (DeleteHub h) h x before None"

lemma parse_target_below: "parse_target_role role = Some r \<Longrightarrow> r < OWNER"
  by (auto simp: parse_target_role_def above_user split: HubRole.split_asm)

lemma allowed_role_change:
  assumes "allowed pg invites db u cmd db'" "db_role h x db' \<noteq> db_role h x db"
  shows "role_change invites u (db_role h u db) cmd h x (db_role h x db) (db_role h x db')"
  using assms
proof (cases rule: allowed.cases)
  case (may_kick h' r tgt r')
  then have "h = h'" "x = tgt" using assms(2) by (auto simp: role_delete_member split: if_split_asm)
  then show ?thesis using may_kick by (auto simp: role_delete_member intro: kicks)
next
  case (may_leave h' r)
  then have "h = h'" "x = u" using assms(2) by (auto simp: role_delete_member split: if_split_asm)
  then show ?thesis using may_leave by (auto simp: role_delete_member intro: leaves)
next
  case (may_change_role h' tgt r' role r'' now)
  note e = role_upsert[OF may_change_role(7)]
  then have "h = h'" "x = tgt" using assms(2) by (auto split: if_split_asm)
  then show ?thesis using may_change_role e parse_target_below by (auto intro: role_change.changes_role)
next
  case (may_join code h' now)
  note e = role_upsert[OF may_join(4)]
  then have "h = h'" "x = u" using assms(2) by (auto split: if_split_asm)
  moreover have "role_from_string ''member'' = USER" using role_strings(1)[of USER] by simp
  ultimately show ?thesis using may_join e by (auto intro: joins)
next
  case (may_create new now raw row db1 new_channel c)
  note e = role_insert_hub[OF may_create(2)]
  have "db_role h x db' = db_role h x db1" using may_create(3) by (auto intro: role_same_members dest: members_same(1))
  then have "h = new" "x = u" "db_role h x db' = Some OWNER" using assms(2) e by (auto split: if_split_asm)
  then show ?thesis using may_create by (auto intro: creates)
next
  case (may_delete h' b)
  then have "h = h'" "db_role h x db' = None" using assms(2) role_delete_hub[OF may_delete(3)] by auto
  then show ?thesis using may_delete by (auto intro: deletes_hub)
next
  case (may_update h' r db1 name seed)
  have "t_members db1 = t_members db" "t_members db' = t_members db1" using may_update by (auto dest: members_same(2))
  then show ?thesis using assms(2) role_same_members by metis
qed (use assms(2) role_same_members members_same in metis)+



section \<open>What a client is shown\<close>



section \<open>A kicked member\<close>

lemma bind_ok:
  assumes "bind_work m k a = (Inr y, a')"
  obtains x b where "m a = (Inr x, b)" "k x b = (Inr y, a')"
  using assms by (auto simp: bind_work_def split: prod.split_asm sum.split_asm)

lemma on_hubs_voice: "on_hubs m a = (r, b) \<Longrightarrow> a_voice b = a_voice a"
  by (auto simp: on_hubs_def split: prod.split_asm)

lemma eject_subs: "eject_from_voice env h tgt a = (r, b) \<Longrightarrow> v_subs (a_voice b) = v_subs (a_voice a)"
  by (auto simp: eject_from_voice_def bind_work_def asks_def return_work_def on_voice_def kick_untouched
      dest!: on_hubs_voice split: option.split_asm prod.split_asm sum.split_asm if_split_asm)
    (metis kick_untouched(2) snd_conv)+

lemma unsubscribe_conn_rel:
  "subs_inv s \<Longrightarrow> subs_inv (fold (\<lambda>c. unsubscribe (ChannelTopic h c) conn) cs s)
    \<and> sub_rel (fold (\<lambda>c. unsubscribe (ChannelTopic h c) conn) cs s) = sub_rel s - {conn} \<times> ChannelTopic h ` set cs"
  by (induction cs arbitrary: s) (auto simp: unsubscribe_def unsubscribe_ok)

lemma unsubscribe_hub_rel:
  assumes "subs_inv s"
  shows "subs_inv (unsubscribe_hub h cs conns s)
    \<and> sub_rel (unsubscribe_hub h cs conns s) = sub_rel s - set conns \<times> insert (HubTopic h) (ChannelTopic h ` set cs)"
  unfolding unsubscribe_hub_def using assms
proof (induction conns arbitrary: s)
  case (Cons conn conns)
  let ?s = "fold (\<lambda>c. unsubscribe (ChannelTopic h c) conn) cs (unsubscribe (HubTopic h) conn s)"
  have "subs_inv ?s \<and> sub_rel ?s = sub_rel s - {conn} \<times> insert (HubTopic h) (ChannelTopic h ` set cs)"
    using unsubscribe_conn_rel[of "unsubscribe (HubTopic h) conn s" h conn cs] unsubscribe_ok[OF Cons.prems, of conn "HubTopic h"]
    by (auto simp: unsubscribe_def)
  then show ?case using Cons.IH[of ?s] by auto
qed simp

text \<open>The states a handler passes through before its first write, and what a run from them may end in.\<close>

definition near :: "'r app_env \<Rightarrow> HubId set \<Rightarrow> 'r app \<Rightarrow> 'r app \<Rightarrow> bool" where
  "near env H a b \<longleftrightarrow> aok env H b \<and> adb b = adb a \<and> sessions_of b = sessions_of a \<and> v_subs (a_voice b) = v_subs (a_voice a)"

definition outcome :: "'r app_env \<Rightarrow> HubId set \<Rightarrow> 'r app \<Rightarrow> ('r app, 'b) work \<Rightarrow> ('r app \<Rightarrow> bool) \<Rightarrow> bool" where
  "outcome env H a m R \<longleftrightarrow> (\<forall>b y c. near env H a b \<longrightarrow> m b = (Inr y, c) \<longrightarrow> adb c = adb a \<or> R c)"

lemma outcome_reject: "outcome env H a (reject env conn type code msg) R"
  by (auto simp: outcome_def near_def reject_def return_work_def)

lemma outcome_if: "(b \<Longrightarrow> outcome env H a m R) \<Longrightarrow> (\<not> b \<Longrightarrow> outcome env H a m' R) \<Longrightarrow> outcome env H a (if b then m else m') R"
  by simp

lemma outcome_option:
  "outcome env H a n R \<Longrightarrow> (\<And>v. outcome env H a (k v) R) \<Longrightarrow> outcome env H a (case x of None \<Rightarrow> n | Some v \<Rightarrow> k v) R"
  by (cases x) simp_all

lemma outcome_read:
  assumes "areads env H (\<lambda>_. True) m Q" "\<And>b r c. m b = (r, c) \<Longrightarrow> v_subs (a_voice c) = v_subs (a_voice b)" "\<And>x. outcome env H a (k x) R"
  shows "outcome env H a (bind_work m k) R"
  unfolding outcome_def
proof (intro allI impI)
  fix b y d assume n: "near env H a b" and d: "bind_work m k b = (Inr y, d)"
  obtain x c where c: "m b = (Inr x, c)" "k x c = (Inr y, d)" using d by (rule bind_ok)
  have "aok env H b" using n by (simp add: near_def)
  note r = areadsD(1-3)[OF assms(1) this TrueI c(1)] assms(2)[OF c(1)]
  then have "near env H a c" using n by (simp add: near_def)
  then show "adb d = adb a \<or> R d" using assms(3) c(2) unfolding outcome_def by blast
qed

lemma outcome_write:
  assumes "awrites env H m W" "\<And>e. areads env H (\<lambda>_. True) (h e) Q"
    and "\<And>b x c y d. near env H a b \<Longrightarrow> m b = (Inr x, c) \<Longrightarrow> aok env H c \<Longrightarrow> sessions_of c = sessions_of a \<Longrightarrow> W (adb a) x (adb c) \<Longrightarrow> k x c = (Inr y, d) \<Longrightarrow> R d"
  shows "outcome env H a (try_else m h k) R"
  unfolding outcome_def
proof (intro allI impI)
  fix b y d assume n: "near env H a b" and d: "try_else m h k b = (Inr y, d)"
  obtain q c where c: "m b = (q, c)" by force
  have b: "aok env H b" "adb b = adb a" "sessions_of b = sessions_of a" using n by (simp_all add: near_def)
  have w: "aok env H c" "sessions_of c = sessions_of b" "case q of Inl e \<Rightarrow> adb c = adb b | Inr x \<Rightarrow> W (adb b) x (adb c)"
    using assms(1) b(1) c unfolding awrites_def by blast+
  show "adb d = adb a \<or> R d"
  proof (cases q)
    case (Inl e)
    then have "h e c = (Inr y, d)" using d c by (simp add: try_else_def)
    then show ?thesis using areadsD(2)[OF assms(2) w(1) TrueI] w(3) b(2) Inl by simp
  next
    case (Inr x)
    then have "k x c = (Inr y, d)" using d c by (simp add: try_else_def)
    then show ?thesis using assms(3)[OF n] c w b Inr by simp
  qed
qed

text \<open>The end of a kick.\<close>

lemma kick_tail:
  assumes "aok env H c" "inj_on (he_hash (ae_hub env)) H" "spelt env H h" "subs_inv (v_subs (a_voice c))"
    "bind_work (on_redis m) (\<lambda>_.
     bind_work (asks (\<lambda>a. getSessionConnections tgt (sessions_of a))) (\<lambda>conns.
     bind_work (on_hubs (getHubChannelIds (ae_hub env) h)) (\<lambda>cs.
     bind_work (on_subs (unsubscribe_hub h cs conns)) (\<lambda>_. asks (f conns))))) c = (Inr y, d)"
  shows "adb d = adb c \<and> subs_inv (v_subs (a_voice d)) \<and> sub_rel (v_subs (a_voice d)) = sub_rel (v_subs (a_voice c))
        - set (getSessionConnections tgt (sessions_of c)) \<times> insert (HubTopic h) (ChannelTopic h ` cr_id ` set (channels_of h (adb c)))"
proof -
  let ?c = "c\<lparr> a_voice := (a_voice c)\<lparr> v_ext := snd (m (v_ext (a_voice c))) \<rparr> \<rparr>"
  have c: "aok env H ?c" "adb ?c = adb c" "sessions_of ?c = sessions_of c" using assms(1) by (simp_all add: aok_def adb_def sessions_of_def)
  obtain cs e where e: "on_hubs (getHubChannelIds (ae_hub env) h) ?c = (Inr cs, e)"
      "on_subs (unsubscribe_hub h cs (getSessionConnections tgt (sessions_of c))) e = (Inr (), d)"
    using assms(5) c(3) unfolding redis_then
    by (auto elim!: bind_ok simp: asks_def on_subs_def on_voice_def)
  have "h \<in> H" "canon (ae_hub env) h" using assms(3) by (simp_all add: spelt_def)
  note r = areadsD[OF areads_ask[OF reads_channel_ids[OF assms(2) this]] c(1) TrueI e(1)]
  have "adb d = adb e" "v_subs (a_voice d) = unsubscribe_hub h cs (getSessionConnections tgt (sessions_of c)) (v_subs (a_voice e))"
    using e(2) by (auto simp: on_subs_def on_voice_def adb_def)
  moreover have "v_subs (a_voice e) = v_subs (a_voice c)" using on_hubs_voice[OF e(1)] by simp
  moreover have "set cs = cr_id ` set (channels_of h (adb c))" using r(4)[OF refl] c(2) by simp
  ultimately show ?thesis using r(2) c(2) unsubscribe_hub_rel[OF assms(4)] by simp
qed



text \<open>The read of the channels after the removal is not guarded: when the connection pool has no connection for it, the exception leaves
  the handler with the membership gone and the subscriptions in place.\<close>

definition strained :: "mem app" where
  "strained = desk\<lparr> a_hubs := desk_hubs\<lparr> hs_faults := replicate 4 no_faults @ [no_faults\<lparr> lease_ok := False \<rparr>] \<rparr> \<rparr>"

lemma failed_read_keeps_kicked_subscribed:
  "case execute desk_env ada_conn (Kick ''h1'' ''bob'') strained of
     (Inl e, a) \<Rightarrow> e = TransientPersistenceError \<and> db_role ''h1'' ''bob'' (adb a) = None \<and> bob_conn \<in> set (hub_subscribers ''h1'' a)
   | (Inr _, _) \<Rightarrow> False"
  by code_simp

end
