(* ===== verification/Spec2Isabelle.thy ===== *)
theory Spec2Isabelle
  imports Prelude Strings Queues Connections Outbound WsOrigin Transport Sessions Subscriptions Presence
    VoiceSessions Reconcile NodeRegistry Redis VoiceStores Invites KeyBlob VoiceWorld MediaServer
    ChannelKeys VoiceService VoiceInvariants VoiceProperties Txn Tables TableLaws HubRepo HubService
    HubCacheLaws CommandLaws Commands HubCoherence HubCommands Policy PolicyProperties Users Workers
begin

text \<open>
  A verification library for the realtime chat and voice server in \<^verbatim>\<open>src/\<close>.

  \<^bold>\<open>The program.\<close> Clients hold WebSocket connections to network stacks (\<^verbatim>\<open>src/net\<close>). A stack admits a connection by
  its origin, keeps a context per connection, hands the commands of authenticated connections to the application through
  a bounded event queue, and sends the application's messages from a bounded outgoing queue through per-connection
  outboxes with acknowledgement and retransmission. The application (\<^verbatim>\<open>src/app\<close>) keeps logical sessions and topic
  subscriptions, answers commands with its services for hubs, invites, presence and voice, and steers external media
  servers (\<^verbatim>\<open>src/livekit\<close>). Hubs, members, channels and messages are rows in PostgreSQL (\<^verbatim>\<open>src/infra/persistence\<close>), cached in
  memory; short-lived voice and invite state is kept in Redis (\<^verbatim>\<open>src/infra/redis\<close>).

  \<^bold>\<open>Conventions.\<close> A class is a record and each of its methods a function that returns the changed record; a handler is
  modelled with all its early returns and all state it changes. An \<^verbatim>\<open>unordered_map\<close> is an association list with
  distinct keys, a \<^verbatim>\<open>unordered_set\<close> a distinct list; statements about iteration results speak of sets or hold for every
  order. 64-bit counters are words, clock readings are integers, ids are strings. \<^verbatim>\<open>std::expected\<close> and
  exceptions that callers distinguish are sums, other exceptions \<^const>\<open>None\<close>. Methods that run under one lock are atomic, and
  an execution is a sequence of such steps. Code that is not in the repository (PostgreSQL, Redis, LiveKit, OpenSSL, the
  protobuf and JSON libraries, \<^verbatim>\<open>inet_pton\<close>, random generators, clocks) is an argument of the definitions; what is assumed of it
  is a named predicate (\<open>redis_laws\<close>, \<open>evp_laws\<close>, \<open>uuid_laws\<close>, \<open>json_laws\<close>) stating documented behaviour, and each property
  that uses one has a witness with a concrete instance. Log lines and metrics are not modelled, except the per-port gauge.

  \<^bold>\<open>Foundations.\<close>
  \<^item> \<open>Prelude\<close>: ids of \<^verbatim>\<open>src/domains/ids/Ids.h\<close>, the list model of the unordered containers and its laws.
  \<^item> \<open>Strings\<close>: the C++ string functions the sources use, and that number conversions invert \<^verbatim>\<open>std::to_string\<close>.

  \<^bold>\<open>Network (\<^verbatim>\<open>src/net\<close>, \<^verbatim>\<open>src/app/queue\<close>).\<close>
  \<^item> \<open>Queues\<close>: \<^verbatim>\<open>EventQueue\<close> and \<^verbatim>\<open>OutgoingQueue\<close> as instances of one locale \<open>two_level_queue\<close>. Both refine an abstract queue
    whose High traffic is a FIFO; High is refused exactly when the queue is full of High; every event is accounted for.
  \<^item> \<open>Connections\<close>: \<^verbatim>\<open>ConnectionRegistery\<close> (locale \<open>conn_store\<close>) and \<^verbatim>\<open>HeartbeatService\<close>; a sweep closes exactly the connections
    that are overdue.
  \<^item> \<open>Outbound\<close>: \<^verbatim>\<open>OutgoingWorker\<close>. The retransmit buffer is always a contiguous block of sequence numbers, an acknowledgement
    removes exactly what it covers, flushing assigns consecutive numbers, and a stalled connection is closed by the sweep.
  \<^item> \<open>WsOrigin\<close>: \<^verbatim>\<open>WsOriginPolicy\<close>; the masked comparison of addresses is agreement on the prefix bits.
  \<^item> \<open>Transport\<close>: the handlers of \<^verbatim>\<open>WebSocketTransport.cpp\<close> and the stack as a transition system. In every reachable state the
    invariants above hold; a failed authentication is final; only authenticated connections reach the application; a
    forwarded origin counts only behind a trusted proxy.

  \<^bold>\<open>Sessions and presence (\<^verbatim>\<open>src/app/managers\<close>, \<^verbatim>\<open>src/app/services/presence\<close>).\<close>
  \<^item> \<open>Sessions\<close>: the six indexes of \<^verbatim>\<open>SessionManager\<close> describe one relation, which each operation changes as specified.
  \<^item> \<open>Subscriptions\<close>: \<^verbatim>\<open>SubscriptionManager\<close> with its copy-on-write vectors as cells of a heap; both indexes agree and a
    snapshot held by a reader never changes.
  \<^item> \<open>Presence\<close>: \<^verbatim>\<open>PresenceService\<close> over the interface \<open>conn_directory\<close> that the session manager provides.

  \<^bold>\<open>Voice (\<^verbatim>\<open>src/app/services/voice\<close>, \<^verbatim>\<open>src/livekit\<close>).\<close>
  \<^item> \<open>VoiceSessions\<close>: \<^verbatim>\<open>VoiceSessionManager\<close> refines a partial function from users to their voice membership.
  \<^item> \<open>Reconcile\<close>: \<^verbatim>\<open>ReconcileEvidenceTracker\<close> (locale \<open>evidence_log\<close>, for channels and participants) and \<^verbatim>\<open>VoiceReconciler\<close>.
  \<^item> \<open>NodeRegistry\<close>, \<open>MediaServer\<close>: \<^verbatim>\<open>LivekitNodeRegistry\<close> with exact room counts, and the calls of \<^verbatim>\<open>LivekitClient\<close>.
  \<^item> \<open>Redis\<close>, \<open>VoiceStores\<close>: \<^verbatim>\<open>RedisClient\<close>, staged join intents and resume ids.
  \<^item> \<open>KeyBlob\<close>, \<open>ChannelKeys\<close>: the storage format of channel keys, \<^verbatim>\<open>E2EEKeyManager\<close> and \<^verbatim>\<open>ChannelKeyService\<close>. A rotation
    reaches exactly the current members and a newcomer gets a key nobody used before.
  \<^item> \<open>VoiceWorld\<close>, \<open>VoiceService\<close>: the shared state, \<^verbatim>\<open>VoicePublisher\<close>, and every operation of \<^verbatim>\<open>VoiceService\<close>.
  \<^item> \<open>VoiceInvariants\<close>, \<open>VoiceProperties\<close>: a relation \<open>affects U\<close> bounds whose membership an operation may change. From it:
    the state is consistent in every reachable state, a member who leaves is cut off from the channel key, admission happens
    exactly when a join was staged, reconciliation never ejects an owner who is connected, ownership is resumed once, repeated
    and outdated webhooks do nothing.

  \<^bold>\<open>Hubs and persistence (\<^verbatim>\<open>src/infra/persistence\<close>, \<^verbatim>\<open>src/app/services/hub\<close>, \<^verbatim>\<open>src/app/services/invite\<close>).\<close>
  \<^item> \<open>Txn\<close>: \<^verbatim>\<open>TransactionRunner\<close>; its retry loop has no bound of its own (a partial function) and is proved to return; a write is
    applied at most once whatever breaks.
  \<^item> \<open>Tables\<close>, \<open>TableLaws\<close>: the schema of \<^verbatim>\<open>src/infra/persistence/sql\<close> with its constraints and triggers, and the state predicate they
    keep.
  \<^item> \<open>HubRepo\<close>: domain types, \<^verbatim>\<open>RolePolicy.h\<close> and \<^verbatim>\<open>HubRepository\<close>.
  \<^item> \<open>HubService\<close>, \<open>HubCacheLaws\<close>: both caches and \<^verbatim>\<open>HubService\<close>; the coherence of the caches with the database as a Hoare-style
    triple (\<open>reads\<close>) per operation.
  \<^item> \<open>Invites\<close>: \<^verbatim>\<open>InviteService\<close>.
  \<^item> \<open>HubCoherence\<close>: every read and write of \<^verbatim>\<open>HubService\<close> keeps the caches current, so its answers are those of the database; and the
    cases in which they are not (colliding hashes, another spelling of an id, a commit whose acknowledgement is lost).
  \<^item> \<open>Users\<close>: \<^verbatim>\<open>UserRepository\<close>, \<^verbatim>\<open>UserCache\<close> and \<^verbatim>\<open>UserService\<close>; the profiles it answers are the active rows of the table.

  \<^bold>\<open>Commands (\<^verbatim>\<open>src/app/worker\<close>, \<^verbatim>\<open>src/app/dispatcher\<close>, \<^verbatim>\<open>src/app/commands\<close>).\<close>
  \<^item> \<open>Workers\<close>: the check of inbound payloads, the table of commands, and \<^verbatim>\<open>WorkerPool\<close> as a transition system over its threads; the
    guard against concurrent duplicates holds exactly the guarded commands being executed.
  \<^item> \<open>Commands\<close>, \<open>HubCommands\<close>: the application state behind \<^verbatim>\<open>CommandContext\<close>, the helpers of \<^verbatim>\<open>utils.cpp\<close>, and every handler of
    \<^verbatim>\<open>src/app/commands/hub\<close> and \<^verbatim>\<open>src/app/commands/channel\<close> with the snapshots of \<^verbatim>\<open>StateSyncBuilder.cpp\<close>; \<open>execute\<close> is one command.
  \<^item> \<open>CommandLaws\<close>, \<open>Policy\<close>: judgements for handlers that leave the database alone (\<open>areads\<close>) or change it in a given way (\<open>changes\<close>);
    the roles each change needs as a relation \<open>allowed\<close>, and that every handler keeps to it.
  \<^item> \<open>PolicyProperties\<close>: in every state reached by commands, a command changes the tables as the policy allows its user, a role
    changes only by the authority the policy names, snapshots show a user their own hubs only, and a kicked member is cut off.

  \<^bold>\<open>Bounds.\<close> No loop is cut off by fuel: the loops are structural recursions, except the retry loop of \<open>Txn\<close>, for which
  termination within \<^verbatim>\<open>kMaxAttempts\<close> attempts is proved. The load score of a media node is a rational instead of a double,
  exact while the counters are below \<open>2^50\<close>.

  \<^bold>\<open>Not modelled.\<close> Starting and stopping threads, event loops and sockets; TLS; the connection pools; verification of login
  tokens, which is delegated to jwt-cpp and OpenSSL; the HTTP control and webhook servers, which parse requests and hand them to
  the modelled services; configuration and wiring; the audit and legal tables; logging and metrics. The command
  handlers of \<^verbatim>\<open>src/app/commands/session\<close> (other than the state snapshots), \<^verbatim>\<open>message\<close>, \<^verbatim>\<open>user\<close> and \<^verbatim>\<open>activity\<close>, and the message service.
\<close>

end
